(* ===== verification/Prelude.thy ===== *)
theory Prelude
  imports Main "HOL-Library.Word"
begin

text \<open>
  Shared vocabulary of the development: the result type of code that may throw, the small
  sequencing combinators the translated functions are written with, and generic lemmas on lists,
  maps and words that several components use.

  A JavaScript or C# computation that may throw and has no other effect returns
  \<^typ>\<open>'e + 'a\<close> (\<open>Inl\<close> is the exception). A computation that also changes state is a function
  \<open>'s \<Rightarrow> ('e + 'a) \<times> 's\<close>: the state is part of the result on the throwing path too, because an
  exception does not undo the assignments made before it.
\<close>

named_theorems seq_simps \<open>equations that execute the sequencing combinators\<close>

type_synonym u8 = "8 word"
type_synonym u16 = "16 word"
type_synonym i32 = "32 word"
type_synonym i64 = "64 word"

section \<open>Results\<close>

definition rbind :: "'e + 'a \<Rightarrow> ('a \<Rightarrow> 'e + 'b) \<Rightarrow> 'e + 'b" where
  "rbind r k = (case r of Inl e \<Rightarrow> Inl e | Inr x \<Rightarrow> k x)"

definition rguard :: "bool \<Rightarrow> 'e \<Rightarrow> 'e + unit" where
  "rguard b e = (if b then Inr () else Inl e)"

lemma rbind_simps [simp, seq_simps]:
  "rbind (Inl e) k = Inl e" "rbind (Inr x) k = k x"
  by (simp_all add: rbind_def)

lemma rbind_cong [fundef_cong]:
  "r = r' \<Longrightarrow> (\<And>x. r' = Inr x \<Longrightarrow> k x = k' x) \<Longrightarrow> rbind r k = rbind r' k'"
  by (cases r') simp_all

lemma rguard_simps [simp, seq_simps]:
  "rguard True e = Inr ()" "rguard False e = Inl e"
  by (simp_all add: rguard_def)

lemma rbind_eq_Inr: "rbind r k = Inr y \<longleftrightarrow> (\<exists>x. r = Inr x \<and> k x = Inr y)"
  by (cases r) auto

lemma rbind_eq_Inl: "rbind r k = Inl e \<longleftrightarrow> r = Inl e \<or> (\<exists>x. r = Inr x \<and> k x = Inl e)"
  by (cases r) auto

lemma rguard_eq_Inr [simp]: "rguard b e = Inr u \<longleftrightarrow> b"
  by (simp add: rguard_def)

lemma rguard_eq_Inl [simp]: "rguard b e = Inl e' \<longleftrightarrow> \<not> b \<and> e' = e"
  by (auto simp: rguard_def)

section \<open>Stateful computations that may throw\<close>

type_synonym ('s, 'e, 'a) comp = "'s \<Rightarrow> ('e + 'a) \<times> 's"

definition ret :: "'a \<Rightarrow> ('s, 'e, 'a) comp" where
  "ret x s = (Inr x, s)"

definition throw :: "'e \<Rightarrow> ('s, 'e, 'a) comp" where
  "throw e s = (Inl e, s)"

definition bnd :: "('s, 'e, 'a) comp \<Rightarrow> ('a \<Rightarrow> ('s, 'e, 'b) comp) \<Rightarrow> ('s, 'e, 'b) comp" where
  "bnd m k s = (case m s of (Inl e, s') \<Rightarrow> (Inl e, s') | (Inr x, s') \<Rightarrow> k x s')"

definition thn :: "('s, 'e, 'a) comp \<Rightarrow> ('s, 'e, 'b) comp \<Rightarrow> ('s, 'e, 'b) comp" where
  "thn m k = bnd m (\<lambda>_. k)"

text \<open>\<open>ask f\<close> runs a computation that only reads the state; \<open>upd f\<close> assigns.\<close>

definition ask :: "('s \<Rightarrow> 'e + 'a) \<Rightarrow> ('s, 'e, 'a) comp" where
  "ask f s = (f s, s)"

definition upd :: "('s \<Rightarrow> 's) \<Rightarrow> ('s, 'e, unit) comp" where
  "upd f s = (Inr (), f s)"

definition check :: "bool \<Rightarrow> 'e \<Rightarrow> ('s, 'e, unit) comp" where
  "check b e s = (if b then Inr () else Inl e, s)"

text \<open>\<open>trans f\<close> is a change of state that may fail.\<close>

definition trans :: "('s \<Rightarrow> 'e + 's) \<Rightarrow> ('s, 'e, unit) comp" where
  "trans f s = (case f s of Inl e \<Rightarrow> (Inl e, s) | Inr s' \<Rightarrow> (Inr (), s'))"

lemma trans_simps [simp, seq_simps]:
  "f s = Inr s' \<Longrightarrow> trans f s = (Inr (), s')"
  "f s = Inl e \<Longrightarrow> trans f s = (Inl e, s)"
  by (simp_all add: trans_def)

lemma comp_simps [simp, seq_simps]:
  "ret x s = (Inr x, s)"
  "throw e s = (Inl e, s)"
  "ask f s = (f s, s)"
  "upd g s = (Inr (), g s)"
  "check b e s = (if b then Inr () else Inl e, s)"
  by (simp_all add: ret_def throw_def ask_def upd_def check_def)

lemma bnd_split: "bnd m k s = (case m s of (r, s') \<Rightarrow> (case r of Inl e \<Rightarrow> (Inl e, s') | Inr x \<Rightarrow> k x s'))"
  by (auto simp: bnd_def split: prod.splits sum.splits)

lemma bnd_simps [simp, seq_simps]:
  "m s = (Inr x, s') \<Longrightarrow> bnd m k s = k x s'"
  "m s = (Inl e, s') \<Longrightarrow> bnd m k s = (Inl e, s')"
  by (simp_all add: bnd_def)

lemma bnd_ask [simp, seq_simps]:
  "bnd (ask f) k s = (case f s of Inl e \<Rightarrow> (Inl e, s) | Inr x \<Rightarrow> k x s)"
  by (simp add: bnd_def split: sum.splits)

lemma bnd_basic [simp, seq_simps]:
  "bnd (ret x) k s = k x s"
  "bnd (throw e) k s = (Inl e, s)"
  "bnd (upd g) k s = k () (g s)"
  "bnd (check b e) k s = (if b then k () s else (Inl e, s))"
  by (simp_all add: bnd_def)

lemma thn_apply [simp, seq_simps]: "thn m k s = bnd m (\<lambda>_. k) s"
  by (simp add: thn_def)

lemma bnd_Inr_elim:
  assumes "bnd m k s = (Inr y, t)"
  obtains x u where "m s = (Inr x, u)" and "k x u = (Inr y, t)"
  using assms by (auto simp: bnd_def split: prod.splits sum.splits)

section \<open>Words\<close>

lemma u8_cases_bound: "unat (x :: u8) < 256"
  using unsigned_less [of x] by simp

lemma u16_cases_bound: "unat (x :: u16) < 65536"
  using unsigned_less [of x] by simp

lemma i32_bound: "unat (x :: i32) < 2 ^ 32"
  using unsigned_less [of x] by simp

lemma i64_bound: "unat (x :: i64) < 2 ^ 64"
  using unsigned_less [of x] by simp

lemma u8_bit_eqI:
  assumes "bit (x :: u8) 0 = bit y 0" "bit x 1 = bit y 1" "bit x 2 = bit y 2" "bit x 3 = bit y 3"
    and "bit x 4 = bit y 4" "bit x 5 = bit y 5" "bit x 6 = bit y 6" "bit x 7 = bit y 7"
  shows "x = y"
proof (rule bit_word_eqI)
  fix n assume "n < LENGTH(8)"
  then have "n = 0 \<or> n = 1 \<or> n = 2 \<or> n = 3 \<or> n = 4 \<or> n = 5 \<or> n = 6 \<or> n = 7"
    by (simp add: less_Suc_eq numeral_eq_Suc)
  with assms show "bit x n = bit y n" by blast
qed

lemma u8_no_high_bit [simp]: "8 \<le> n \<Longrightarrow> \<not> bit (x :: u8) n"
  using bit_imp_le_length [of x n] by auto

lemma u8_bit_times2: "bit ((x :: u8) * 2) n \<longleftrightarrow> 1 \<le> n \<and> n < 8 \<and> bit x (n - 1)"
proof -
  have "x * 2 = push_bit 1 x" by (simp add: push_bit_eq_mult)
  then show ?thesis by (simp only: bit_push_bit_iff) simp
qed

lemma sint_of_nat_small: "n < 2 ^ 31 \<Longrightarrow> sint (of_nat n :: i32) = int n"
  by (simp add: signed_of_nat signed_take_bit_int_eq_self)

end
