(* ===== verification/BitPacker.thy ===== *)
theory BitPacker
  imports Prelude
begin

text \<open>
  \<open>core/Shared/BitPacker.cs\<close>: one leading bit followed by a byte array, packed into an unaligned
  bit stream. A C# \<open>byte\<close> is \<^typ>\<open>u8\<close>; the arithmetic that C# does after promoting a byte to
  \<open>int\<close> is followed by a cast back to \<open>byte\<close> everywhere, so it is done on \<^typ>\<open>u8\<close>. Indices are
  \<^typ>\<open>nat\<close>; the arrays are lists that are only read and written in range, except the read
  \<open>data[i + 1]\<close> of \<open>Unpack\<close>, whose range is a lemma (\<open>Unpack_index_in_range\<close>).
\<close>

unbundle bit_operations_syntax

section \<open>Pack\<close>

text \<open>One round of the loop: the byte \<open>d\<close> at index \<open>i\<close> is spread over two output bytes.\<close>

definition Pack_step :: "u8 list \<Rightarrow> u8 list \<Rightarrow> nat \<Rightarrow> u8 list" where
  "Pack_step data output i =
     (let bitIndex = 1 + i * 8;
          byteOffset = bitIndex div 8;
          shiftOffset = bitIndex mod 8;
          output1 = output[byteOffset := output ! byteOffset OR drop_bit shiftOffset (data ! i)]
      in if byteOffset + 1 < length output1
         then output1[byteOffset + 1 := output1 ! (byteOffset + 1) OR push_bit (8 - shiftOffset) (data ! i)]
         else output1)"

fun Pack_loop :: "u8 list \<Rightarrow> u8 list \<Rightarrow> nat list \<Rightarrow> u8 list" where
  "Pack_loop data output [] = output"
| "Pack_loop data output (i # ks) = Pack_loop data (Pack_step data output i) ks"

definition Pack :: "u8 \<Rightarrow> u8 list \<Rightarrow> u8 list" where
  "Pack startingBit data =
     (let totalBits = 1 + length data * 8;
          totalBytes = (totalBits + 7) div 8;
          output = replicate totalBytes 0;
          output' = (if startingBit = 1 then output[0 := output ! 0 OR 0x80] else output)
      in Pack_loop data output' [0..<length data])"

section \<open>Unpack\<close>

definition Unpack_byte :: "u8 list \<Rightarrow> nat \<Rightarrow> u8" where
  "Unpack_byte data i =
     (let currentPart = push_bit 1 (data ! i);
          nextPart = drop_bit 7 (data ! (i + 1) AND 0x80)
      in currentPart OR nextPart)"

definition Unpack :: "u8 list \<Rightarrow> u8 \<times> u8 list" where
  "Unpack data =
     (if data = [] then (0, [])
      else (let prefix = drop_bit 7 (data ! 0 AND 0x80);
                totalPayloadBits = length data * 8 - 1;
                targetedBytesCount = totalPayloadBits div 8
            in (prefix, map (Unpack_byte data) [0..<targetedBytesCount])))"

section \<open>Lengths and index safety\<close>

lemma length_Pack_step [simp]: "length (Pack_step data output i) = length output"
  by (simp add: Pack_step_def Let_def)

lemma length_Pack_loop [simp]: "length (Pack_loop data out ks) = length out"
  by (induction ks arbitrary: out) simp_all

lemma length_Pack: "length (Pack b data) = length data + 1"
  by (simp add: Pack_def Let_def)

text \<open>Both reads of \<open>Unpack\<close> stay inside the array, so C# never raises IndexOutOfRangeException.\<close>

lemma Unpack_count: "data \<noteq> [] \<Longrightarrow> (length data * 8 - 1) div 8 = length data - 1"
  by (cases data) auto

lemma Unpack_index_in_range:
  "i < (length data * 8 - 1) div 8 \<Longrightarrow> i + 1 < length data"
  by (cases data) auto

section \<open>The bits of the packed stream\<close>

lemma Pack_step_simp:
  assumes "i + 1 < length output"
  shows "Pack_step data output i =
    output[i := output ! i OR drop_bit 1 (data ! i),
           i + 1 := output ! (i + 1) OR push_bit 7 (data ! i)]"
proof -
  have "Suc (i * 8) div 8 = i" "Suc (i * 8) mod 8 = 1" by arith+
  then show ?thesis using assms by (simp add: Pack_step_def Let_def)
qed

text \<open>
  After \<open>k\<close> rounds byte \<open>j\<close> of the output holds the high seven bits of input byte \<open>j\<close> and the low
  bit of input byte \<open>j - 1\<close>; the start bit sits on top of byte 0.
\<close>

definition packed_byte :: "u8 \<Rightarrow> u8 list \<Rightarrow> nat \<Rightarrow> nat \<Rightarrow> u8" where
  "packed_byte b data k j =
     (if j = 0 then (if b = 1 then 0x80 else 0) else if j \<le> k then push_bit 7 (data ! (j - 1)) else 0)
     OR (if j < k then drop_bit 1 (data ! j) else 0)"

lemma Pack_loop_nth:
  assumes "k \<le> length data" and "j < length data + 1"
  shows "Pack_loop data ((replicate (length data + 1) 0)[0 := if b = 1 then 0x80 else 0]) [0..<k] ! j
         = packed_byte b data k j"
  using assms
proof (induction k arbitrary: j)
  case 0
  then show ?case by (cases j) (simp_all add: packed_byte_def)
next
  case (Suc k)
  let ?o = "(replicate (length data + 1) 0)[0 := if b = 1 then 0x80 else (0 :: u8)]"
  have app: "Pack_loop data out (xs @ [i]) = Pack_step data (Pack_loop data out xs) i" for out xs i
    by (induction xs arbitrary: out) simp_all
  have IH: "Pack_loop data ?o [0..<k] ! j = packed_byte b data k j" if "j < length data + 1" for j
    using Suc that by simp
  have "Pack_loop data ?o [0..<Suc k] =
    (Pack_loop data ?o [0..<k])[k := Pack_loop data ?o [0..<k] ! k OR drop_bit 1 (data ! k),
       k + 1 := Pack_loop data ?o [0..<k] ! (k + 1) OR push_bit 7 (data ! k)]"
    using Suc.prems by (simp add: app Pack_step_simp)
  moreover have "k < length data + 1" "k + 1 < length data + 1"
    using Suc.prems by auto
  ultimately show ?case
    using Suc.prems IH by (auto simp: nth_list_update packed_byte_def)
qed

lemma Pack_eq_loop:
  "Pack b data =
    Pack_loop data ((replicate (length data + 1) 0)[0 := if b = 1 then 0x80 else 0]) [0..<length data]"
  by (simp add: Pack_def Let_def)

lemma Pack_nth:
  assumes "j < length data + 1"
  shows "Pack b data ! j = packed_byte b data (length data) j"
  unfolding Pack_eq_loop by (rule Pack_loop_nth [OF order.refl assms])

section \<open>Unpacking a packed stream\<close>

lemma packed_prefix:
  "drop_bit 7 (packed_byte b data k 0 AND 0x80) = (if b = 1 then 1 else 0)"
  by (rule u8_bit_eqI) (simp_all add: packed_byte_def bit_simps)

lemma packed_payload:
  assumes "i < k"
  shows "push_bit 1 (packed_byte b data k i)
           OR drop_bit 7 (packed_byte b data k (i + 1) AND 0x80) = data ! i"
  using assms by (intro u8_bit_eqI) ((simp_all add: packed_byte_def bit_simps u8_bit_times2)[8], simp_all add: eval_nat_numeral)

lemma Unpack_Pack_aux: "Unpack (Pack b data) = (if b = 1 then 1 else 0, data)"
proof -
  have ne: "Pack b data \<noteq> []" using length_Pack [of b data] by auto
  have "drop_bit 7 (Pack b data ! 0 AND 0x80) = (if b = 1 then 1 else 0)"
    using Pack_nth [of 0 data b] packed_prefix by simp
  moreover have "map (Unpack_byte (Pack b data)) [0..<length data] = data"
    by (rule nth_equalityI)
      (use packed_payload [of _ "length data" b data] in \<open>simp_all add: Unpack_byte_def Pack_nth\<close>)
  moreover have "(length (Pack b data) * 8 - 1) div 8 = length data"
    using Unpack_count [OF ne] by (simp add: length_Pack)
  ultimately show ?thesis using ne by (simp add: Unpack_def Let_def)
qed

lemma Unpack_length: "data \<noteq> [] \<Longrightarrow> length (snd (Unpack data)) = length data - 1"
  by (simp add: Unpack_def Let_def Unpack_count)

end
