(* ===== verification/Wire.thy ===== *)
theory Wire
  imports Prelude
begin

text \<open>
  The byte-level vocabulary of the protocol: what \<open>System.IO.BinaryWriter\<close> writes and
  \<open>System.IO.BinaryReader\<close> reads (both over a \<open>MemoryStream\<close> with \<open>Encoding.UTF8\<close>), as the files
  of \<open>core/\<close> and \<open>shared/\<close> use them. A writer is a function to the bytes it appends, a reader a
  function from the unread bytes to an exception or a value with the bytes left.

  A C# string is its list of UTF-8 bytes (\<^typ>\<open>u8 list\<close>); the replacement of malformed UTF-8 by
  U+FFFD is not modelled. The locale \<open>codec\<close> is the contract between a writer and its reader; every
  message format of the development is proved against it, and every primitive interprets it.
\<close>

unbundle bit_operations_syntax

named_theorems codec_simps \<open>round trips of the wire primitives, as rewrite rules\<close>

datatype net_exn = EndOfStreamException | FormatException | IOException
  | ArgumentOutOfRangeException | ProtocolViolationException

type_synonym 'a dec = "u8 list \<Rightarrow> net_exn + ('a \<times> u8 list)"
type_synonym cs_string = "u8 list"

definition utf8_lit :: "string \<Rightarrow> cs_string" where
  "utf8_lit s = map (\<lambda>c. of_nat (of_char c)) s"

section \<open>Reading bytes\<close>

text \<open>\<open>FillBuffer\<close>: a fixed-width read fails at the end of the stream.\<close>

definition take_exact :: "nat \<Rightarrow> u8 list dec" where
  "take_exact n bs = (if n \<le> length bs then Inr (take n bs, drop n bs) else Inl EndOfStreamException)"

text \<open>\<open>ReadBytes\<close> returns what is left when fewer bytes remain, and rejects a negative count.\<close>

definition ReadBytes :: "i32 \<Rightarrow> u8 list dec" where
  "ReadBytes count bs =
     (if sint count < 0 then Inl ArgumentOutOfRangeException
      else Inr (take (nat (sint count)) bs, drop (nat (sint count)) bs))"

definition ReadByte :: "u8 dec" where
  "ReadByte bs = (case bs of [] \<Rightarrow> Inl EndOfStreamException | b # r \<Rightarrow> Inr (b, r))"

definition ReadBoolean :: "bool dec" where
  "ReadBoolean bs = rbind (ReadByte bs) (\<lambda>(b, r). Inr (b \<noteq> 0, r))"

definition WriteBoolean :: "bool \<Rightarrow> u8 list" where
  "WriteBoolean b = [if b then 1 else 0]"

section \<open>Little-endian integers\<close>

definition le_bytes :: "nat \<Rightarrow> 'a::len word \<Rightarrow> u8 list" where
  "le_bytes n w = map (\<lambda>i. ucast (drop_bit (8 * i) w)) [0..<n]"

fun le_word :: "u8 list \<Rightarrow> 'a::len word" where
  "le_word [] = 0"
| "le_word (b # bs) = ucast b OR push_bit 8 (le_word bs)"

definition WriteInt32 :: "i32 \<Rightarrow> u8 list" where
  "WriteInt32 = le_bytes 4"

definition WriteInt64 :: "i64 \<Rightarrow> u8 list" where
  "WriteInt64 = le_bytes 8"

definition ReadInt32 :: "i32 dec" where
  "ReadInt32 bs = rbind (take_exact 4 bs) (\<lambda>(x, r). Inr (le_word x, r))"

definition ReadInt64 :: "i64 dec" where
  "ReadInt64 bs = rbind (take_exact 8 bs) (\<lambda>(x, r). Inr (le_word x, r))"

text \<open>A double travels as its 64 bits.\<close>

definition WriteDouble :: "i64 \<Rightarrow> u8 list" where
  "WriteDouble = WriteInt64"

definition ReadDouble :: "i64 dec" where
  "ReadDouble = ReadInt64"

lemma length_le_bytes [simp]: "length (le_bytes n w) = n"
  by (simp add: le_bytes_def)

lemma bit_le_word_Cons:
  "bit (le_word (b # bs) :: 'a::len word) n \<longleftrightarrow>
     n < LENGTH('a) \<and> (if n < 8 then bit b n else bit (le_word bs :: 'a word) (n - 8))"
  by (auto simp: bit_or_iff bit_unsigned_iff bit_push_bit_iff dest: bit_imp_le_length)

lemma bit_le_word:
  "bit (le_word bs :: 'a::len word) n \<longleftrightarrow>
     n < LENGTH('a) \<and> n div 8 < length bs \<and> bit (bs ! (n div 8)) (n mod 8)"
proof (induction bs arbitrary: n)
  case Nil
  then show ?case by simp
next
  case (Cons b bs)
  show ?case
  proof (cases "n < 8")
    case True
    then show ?thesis by (simp add: bit_le_word_Cons del: le_word.simps)
  next
    case False
    then obtain m where "n = m + 8" by (metis le_add_diff_inverse2 not_less)
    moreover have "(m + 8) div 8 = Suc (m div 8)" by simp
    ultimately show ?thesis
      by (auto simp add: bit_le_word_Cons Cons.IH simp del: le_word.simps)
  qed
qed

lemma le_word_le_bytes:
  assumes "LENGTH('a) \<le> 8 * n"
  shows "le_word (le_bytes n (w :: 'a::len word)) = w"
proof (rule bit_word_eqI)
  fix i assume i: "i < LENGTH('a)"
  then have "i div 8 < n" using assms by (simp add: less_mult_imp_div_less)
  moreover have "8 * (i div 8) + i mod 8 = i" by simp
  ultimately show "bit (le_word (le_bytes n w) :: 'a word) i = bit w i"
    using i by (simp add: bit_le_word le_bytes_def bit_simps)
qed

lemma take_exact_append [simp]: "length xs = n \<Longrightarrow> take_exact n (xs @ r) = Inr (xs, r)"
  by (simp add: take_exact_def)

lemma ReadInt32_Write [codec_simps]: "ReadInt32 (WriteInt32 x @ r) = Inr (x, r)"
  by (simp add: ReadInt32_def WriteInt32_def le_word_le_bytes)

lemma ReadInt64_Write [codec_simps]: "ReadInt64 (WriteInt64 x @ r) = Inr (x, r)"
  by (simp add: ReadInt64_def WriteInt64_def le_word_le_bytes)

lemma ReadDouble_Write [codec_simps]: "ReadDouble (WriteDouble x @ r) = Inr (x, r)"
  by (simp add: ReadDouble_def WriteDouble_def ReadInt64_Write)

lemma ReadBoolean_Write [codec_simps]: "ReadBoolean (WriteBoolean b @ r) = Inr (b, r)"
  by (simp add: ReadBoolean_def WriteBoolean_def ReadByte_def)

lemma ReadByte_Cons [codec_simps]: "ReadByte (b # r) = Inr (b, r)"
  by (simp add: ReadByte_def)

lemma ReadBytes_append [codec_simps]:
  "length xs < 2 ^ 31 \<Longrightarrow> ReadBytes (of_nat (length xs)) (xs @ r) = Inr (xs, r)"
  by (simp add: ReadBytes_def sint_of_nat_small)

section \<open>7-bit encoded integers\<close>

text \<open>
  \<open>Write7BitEncodedInt\<close> and \<open>Write7BitEncodedInt64\<close>: seven bits a byte, low bits first, the top
  bit set on every byte but the last. The readers accept 4 (9) continuation bytes and then one last
  byte of at most \<open>0b1111\<close> (\<open>1\<close>).
\<close>

lemma unat_drop7: "unat (drop_bit 7 w) = unat w div 128"
  using unat_drop_bit_eq [of 7 w] by (simp add: drop_bit_eq_div)

function enc7 :: "'a::len word \<Rightarrow> u8 list" where
  "enc7 w = (if 127 < unat w then (ucast w OR 0x80) # enc7 (drop_bit 7 w) else [ucast w])"
  by pat_completeness auto
termination
  by (relation "measure unat") (auto simp: unat_drop7)

declare enc7.simps [simp del]

fun dec7 :: "nat \<Rightarrow> nat \<Rightarrow> 'a::len word \<Rightarrow> u8 \<Rightarrow> 'a word dec" where
  "dec7 0 shift result lim bs =
     rbind (ReadByte bs) (\<lambda>(b, r).
       if lim < b then Inl FormatException else Inr (result OR push_bit shift (ucast b), r))"
| "dec7 (Suc k) shift result lim bs =
     rbind (ReadByte bs) (\<lambda>(b, r).
       let result' = result OR push_bit shift (ucast (b AND 0x7F)) in
       if b \<le> 0x7F then Inr (result', r) else dec7 k (shift + 7) result' lim r)"

definition Write7BitEncodedInt :: "i32 \<Rightarrow> u8 list" where
  "Write7BitEncodedInt = enc7"

definition Read7BitEncodedInt :: "i32 dec" where
  "Read7BitEncodedInt = dec7 4 0 0 15"

definition Write7BitEncodedInt64 :: "i64 \<Rightarrow> u8 list" where
  "Write7BitEncodedInt64 = enc7"

definition Read7BitEncodedInt64 :: "i64 dec" where
  "Read7BitEncodedInt64 = dec7 9 0 0 1"

lemma unat_ucast_u8: "unat (ucast (w :: 'a::len word) :: u8) = unat w mod 256"
  by (simp add: unsigned_ucast_eq take_bit_eq_mod)

lemma ucast_low_byte:
  assumes "unat (w :: 'a::len word) \<le> 127"
  shows "ucast (ucast w :: u8) = w"
proof (rule word_unat_eq_iff [THEN iffD2])
  have "unat (ucast (ucast w :: u8) :: 'a word) = take_bit LENGTH('a) (take_bit LENGTH(8) (unat w))"
    by (subst unsigned_ucast_eq, subst unsigned_ucast_eq, rule refl)
  also have "\<dots> = unat w"
    using assms unsigned_less [of w] by (simp add: take_bit_nat_eq_self)
  finally show "unat (ucast (ucast w :: u8) :: 'a word) = unat w" .
qed

lemma bit_7F: "bit (0x7F :: u8) i \<longleftrightarrow> i < 7"
  using mask_eq_exp_minus_1 [of 7, where 'a = u8] bit_mask_iff [of 7 i, where 'a = u8] by auto

lemma bits_split7:
  "push_bit s (ucast ((ucast w :: u8) AND 0x7F)) OR push_bit (s + 7) (drop_bit 7 w) = push_bit s (w :: 'a::len word)"
proof (rule bit_word_eqI)
  fix n assume n: "n < LENGTH('a)"
  consider "n < s" | "s \<le> n" "n < s + 7" | m where "n = s + 7 + m"
    by (metis le_iff_add not_less)
  then show "bit (push_bit s (ucast ((ucast w :: u8) AND 0x7F)) OR push_bit (s + 7) (drop_bit 7 w)) n
    = bit (push_bit s w) n"
    using n by cases
      (auto simp only: bit_or_iff bit_push_bit_iff bit_unsigned_iff bit_and_iff bit_7F bit_drop_bit_eq
         o_apply possible_bit_word, auto simp: add.commute)
qed

lemma u8_and_7F:
  assumes "(b :: u8) \<le> 0x7F"
  shows "b AND 0x7F = b"
proof -
  have "0x7F = (mask 7 :: u8)" by (simp add: mask_eq_exp_minus_1)
  then have "b AND 0x7F = take_bit 7 b" by (simp add: take_bit_eq_mask)
  also have "\<dots> = b" using assms by (simp add: word_le_nat_alt take_bit_eq_mod word_unat_eq_iff unat_mod)
  finally show ?thesis .
qed

lemma u8_or_80_big: "\<not> ((b :: u8) OR 0x80) \<le> 0x7F"
proof
  assume "(b OR 0x80) \<le> 0x7F"
  then have "(b OR 0x80) AND 0x7F = b OR 0x80" by (rule u8_and_7F)
  then have "bit ((b OR 0x80) AND 0x7F) 7 = bit (b OR 0x80) 7" by simp
  then show False by (simp add: bit_and_iff bit_or_iff bit_7F)
qed

lemma dec7_enc7:
  assumes "unat w < (unat lim + 1) * 128 ^ k" and "unat lim < 128"
  shows "dec7 k shift acc lim (enc7 (w :: 'a::len word) @ r) = Inr (acc OR push_bit shift w, r)"
  using assms
proof (induction k arbitrary: w shift acc)
  case 0
  then have small: "unat w \<le> 127" by simp
  then have "unat (ucast w :: u8) = unat w" by (simp add: unat_ucast_u8)
  then have "\<not> lim < ucast w" using 0 by (simp add: word_less_nat_alt)
  moreover have "ucast (ucast w :: u8) = w"
    using small by (rule ucast_low_byte)
  ultimately show ?case using small by (simp add: enc7.simps [of w] ReadByte_def)
next
  case (Suc k)
  show ?case
  proof (cases "127 < unat w")
    case True
    have "unat (drop_bit 7 w) < (unat lim + 1) * 128 ^ k"
      using Suc.prems(1) by (simp add: unat_drop7 less_mult_imp_div_less ac_simps)
    then have IH: "dec7 k (shift + 7) a lim (enc7 (drop_bit 7 w) @ r)
        = Inr (a OR push_bit (shift + 7) (drop_bit 7 w), r)" for a
      using Suc.IH Suc.prems(2) by blast
    have "\<not> ((ucast w :: u8) OR 0x80) \<le> 0x7F" by (rule u8_or_80_big)
    moreover have "((ucast w :: u8) OR 0x80) AND 0x7F = ucast w AND 0x7F"
      by (rule u8_bit_eqI) (simp_all add: bit_simps)
    ultimately show ?thesis
      using True IH bits_split7 [of shift w]
      by (simp add: enc7.simps [of w] ReadByte_def Let_def or.assoc)
  next
    case False
    then have "unat (ucast w :: u8) = unat w" by (simp add: unat_ucast_u8)
    then have "(ucast w :: u8) \<le> 0x7F" using False by (simp add: word_le_nat_alt)
    moreover from this have "(ucast w :: u8) AND 0x7F = ucast w" by (rule u8_and_7F)
    moreover have "ucast (ucast w :: u8) = w" using False by (intro ucast_low_byte) simp
    ultimately show ?thesis using False by (simp add: enc7.simps [of w] ReadByte_def Let_def)
  qed
qed

lemma Read7BitEncodedInt_Write [codec_simps]:
  "Read7BitEncodedInt (Write7BitEncodedInt n @ r) = Inr (n, r)"
  using i32_bound [of n]
  by (simp add: Read7BitEncodedInt_def Write7BitEncodedInt_def dec7_enc7)

lemma Read7BitEncodedInt64_Write [codec_simps]:
  "Read7BitEncodedInt64 (Write7BitEncodedInt64 n @ r) = Inr (n, r)"
  using i64_bound [of n]
  by (simp add: Read7BitEncodedInt64_def Write7BitEncodedInt64_def dec7_enc7)

section \<open>Strings\<close>

text \<open>\<open>BinaryWriter.Write(string)\<close> prefixes the UTF-8 bytes with their 7-bit encoded count.\<close>

definition WriteString :: "cs_string \<Rightarrow> u8 list" where
  "WriteString s = Write7BitEncodedInt (of_nat (length s)) @ s"

definition ReadString :: "cs_string dec" where
  "ReadString bs = rbind (Read7BitEncodedInt bs) (\<lambda>(n, r).
     if sint n < 0 then Inl IOException else take_exact (nat (sint n)) r)"

definition str_ok :: "cs_string \<Rightarrow> bool" where
  "str_ok s \<longleftrightarrow> length s < 2 ^ 31"

lemma ReadString_Write [codec_simps]:
  "str_ok s \<Longrightarrow> ReadString (WriteString s @ r) = Inr (s, r)"
  by (simp add: ReadString_def WriteString_def str_ok_def codec_simps sint_of_nat_small)

section \<open>Readers consume what they read\<close>

text \<open>\<open>shrinks d\<close>: a successful read leaves a proper suffix behind, which is what makes the loops end.\<close>

definition shrinks :: "'a dec \<Rightarrow> bool" where
  "shrinks d \<longleftrightarrow> (\<forall>bs x r. d bs = Inr (x, r) \<longrightarrow> length r < length bs)"

lemma shrinksD: "shrinks d \<Longrightarrow> d bs = Inr (x, r) \<Longrightarrow> length r < length bs"
  by (auto simp: shrinks_def)

lemma ReadByte_shrinks: "shrinks ReadByte"
  by (auto simp: shrinks_def ReadByte_def split: list.splits)

lemma take_exact_length: "take_exact n bs = Inr (x, r) \<Longrightarrow> length r + n = length bs"
  by (auto simp: take_exact_def split: if_splits)

lemma ReadInt64_shrinks: "shrinks ReadInt64"
  by (auto simp: shrinks_def ReadInt64_def rbind_eq_Inr dest: take_exact_length)

lemma dec7_shrinks: "shrinks (dec7 k shift acc lim)"
proof (induction k arbitrary: shift acc)
  case 0
  show ?case
    by (auto simp: shrinks_def rbind_eq_Inr split: if_splits dest: shrinksD [OF ReadByte_shrinks])
next
  case (Suc k)
  show ?case
    by (force simp: shrinks_def rbind_eq_Inr Let_def split: if_splits
      dest: shrinksD [OF ReadByte_shrinks] shrinksD [OF Suc])
qed

lemma ReadDouble_shrinks: "shrinks ReadDouble"
  by (simp add: ReadDouble_def ReadInt64_shrinks)

lemma Read7BitEncodedInt64_shrinks: "shrinks Read7BitEncodedInt64"
  by (simp add: Read7BitEncodedInt64_def dec7_shrinks)

lemma ReadString_shrinks: "shrinks ReadString"
  by (force simp: shrinks_def ReadString_def rbind_eq_Inr Read7BitEncodedInt_def split: if_splits
    dest: take_exact_length shrinksD [OF dec7_shrinks])

section \<open>The contract between a writer and its reader\<close>

text \<open>Reading \<open>n\<close> items in a row, the loop of every counted list of the protocol.\<close>

fun dec_n :: "nat \<Rightarrow> 'a dec \<Rightarrow> 'a list dec" where
  "dec_n 0 d bs = Inr ([], bs)"
| "dec_n (Suc n) d bs = rbind (d bs) (\<lambda>(x, r). rbind (dec_n n d r) (\<lambda>(xs, r'). Inr (x # xs, r')))"

lemma dec_n_shrinks:
  assumes "shrinks d" and "dec_n n d bs = Inr (xs, r)"
  shows "length r + n \<le> length bs"
  using assms(2)
proof (induction n arbitrary: bs xs r)
  case 0
  then show ?case by simp
next
  case (Suc n)
  then obtain x r1 ys where "d bs = Inr (x, r1)" "dec_n n d r1 = Inr (ys, r)"
    by (auto simp: rbind_eq_Inr)
  with Suc.IH shrinksD [OF assms(1)] show ?case by fastforce
qed

locale codec =
  fixes enc :: "'a \<Rightarrow> u8 list"
    and dec :: "'a dec"
    and ok :: "'a \<Rightarrow> bool"
  assumes dec_enc: "ok x \<Longrightarrow> dec (enc x @ r) = Inr (x, r)"
begin

lemma dec_enc_exact: "ok x \<Longrightarrow> dec (enc x) = Inr (x, [])"
  using dec_enc [of x "[]"] by simp

text \<open>A reader that has this contract makes the encoding prefix-free, hence injective.\<close>

lemma enc_prefix_free:
  assumes "ok x" "ok y" and "enc x @ r = enc y @ r'"
  shows "x = y \<and> r = r'"
  using dec_enc [OF assms(1), of r] dec_enc [OF assms(2), of r'] unfolding assms(3) by auto

lemma dec_n_enc: "list_all ok xs \<Longrightarrow> dec_n (length xs) dec (concat (map enc xs) @ r) = Inr (xs, r)"
  by (induction xs) (simp_all add: dec_enc)

end

text \<open>Two fields one after the other are a codec again.\<close>

definition enc_pair :: "('a \<Rightarrow> u8 list) \<Rightarrow> ('b \<Rightarrow> u8 list) \<Rightarrow> 'a \<times> 'b \<Rightarrow> u8 list" where
  "enc_pair f g p = f (fst p) @ g (snd p)"

definition dec_pair :: "'a dec \<Rightarrow> 'b dec \<Rightarrow> ('a \<times> 'b) dec" where
  "dec_pair f g bs = rbind (f bs) (\<lambda>(x, r). rbind (g r) (\<lambda>(y, r'). Inr ((x, y), r')))"

locale codec_pair = A: codec encA decA okA + B: codec encB decB okB
  for encA :: "'a \<Rightarrow> u8 list" and decA okA and encB :: "'b \<Rightarrow> u8 list" and decB okB
begin

sublocale AB: codec "enc_pair encA encB" "dec_pair decA decB" "\<lambda>p. okA (fst p) \<and> okB (snd p)"
  by unfold_locales (auto simp: enc_pair_def dec_pair_def A.dec_enc B.dec_enc)

end

interpretation int32_codec: codec WriteInt32 ReadInt32 "\<lambda>_. True"
  by unfold_locales (rule ReadInt32_Write)

interpretation int64_codec: codec WriteInt64 ReadInt64 "\<lambda>_. True"
  by unfold_locales (rule ReadInt64_Write)

interpretation int7_codec: codec Write7BitEncodedInt Read7BitEncodedInt "\<lambda>_. True"
  by unfold_locales (rule Read7BitEncodedInt_Write)

interpretation string_codec: codec WriteString ReadString str_ok
  by unfold_locales (rule ReadString_Write)

interpretation string_pair_codec: codec_pair WriteString ReadString str_ok WriteString ReadString str_ok
  ..

end
