(* ===== verification/Operations.thy ===== *)
theory Operations
  imports Wire
begin

text \<open>
  The operations that clients vote with: \<open>core/Shared/VoteType.cs\<close>, the server's view in
  \<open>core/Server/Operation.cs\<close>, the client's in \<open>core/Client/Operation.cs\<close>, and the profile that an
  operation type carries as its instruction bytes, \<open>shared/InstructionsProtocol.cs\<close>.
\<close>

section \<open>Vote types\<close>

text \<open>
  A C# enum holds any value of its underlying type: \<open>(VoteType)reader.ReadByte()\<close> does not check
  the byte, so the values without a name are values of the type as well.
\<close>

datatype VoteType = Abstain | Support | Against | Unnamed u8

definition VoteType_of_byte :: "u8 \<Rightarrow> VoteType" where
  "VoteType_of_byte b = (if b = 0 then Abstain else if b = 1 then Support else if b = 2 then Against else Unnamed b)"

fun byte_of_VoteType :: "VoteType \<Rightarrow> u8" where
  "byte_of_VoteType Abstain = 0"
| "byte_of_VoteType Support = 1"
| "byte_of_VoteType Against = 2"
| "byte_of_VoteType (Unnamed b) = b"

text \<open>Each enum value once: \<open>Unnamed\<close> never stands for a named one.\<close>

fun vote_canonical :: "VoteType \<Rightarrow> bool" where
  "vote_canonical (Unnamed b) \<longleftrightarrow> b \<notin> {0, 1, 2}"
| "vote_canonical _ \<longleftrightarrow> True"

lemma byte_of_VoteType_inverse: "byte_of_VoteType (VoteType_of_byte b) = b"
  by (simp add: VoteType_of_byte_def)

lemma VoteType_of_byte_inverse [simp]: "vote_canonical v \<Longrightarrow> VoteType_of_byte (byte_of_VoteType v) = v"
  by (cases v) (auto simp: VoteType_of_byte_def)

lemma VoteType_of_byte_canonical [simp]: "vote_canonical (VoteType_of_byte b)"
  by (simp add: VoteType_of_byte_def)

section \<open>The server's operations\<close>

record OperationType =
  Id :: i64
  Instructions :: "u8 list"

record Operation =
  Type :: OperationType
  Vote :: VoteType
  StateBytes :: "u8 list"

text \<open>\<open>Operation.Deserialize(BinaryReader, List<OperationType>)\<close>; \<open>None\<close> is the null it returns.\<close>

definition Deserialize :: "OperationType list \<Rightarrow> Operation option dec" where
  "Deserialize opList bs =
     rbind (ReadInt64 bs) (\<lambda>(typeId, r1).
       if sint typeId \<le> 0 \<or> sint typeId > int (length opList) then Inr (None, r1)
       else let ty = opList ! nat (sint typeId - 1) in
         rbind (ReadByte r1) (\<lambda>(voteByte, r2).
         rbind (ReadInt32 r2) (\<lambda>(stateLength, r3).
         rbind (ReadBytes stateLength r3) (\<lambda>(stateBytes, r4).
           Inr (Some \<lparr>Type = ty, Vote = VoteType_of_byte voteByte, StateBytes = stateBytes\<rparr>, r4)))))"

definition Serialize :: "Operation \<Rightarrow> u8 list" where
  "Serialize opn =
     WriteInt64 (Id (Type opn)) @ [byte_of_VoteType (Vote opn)] @
     WriteInt32 (of_nat (length (StateBytes opn))) @ StateBytes opn"

text \<open>The server numbers its templates 1, 2, \<dots> in list order (\<open>server/Program.cs\<close>).\<close>

definition ids_are_positions :: "OperationType list \<Rightarrow> bool" where
  "ids_are_positions opList \<longleftrightarrow>
     length opList < 2 ^ 31 \<and> (\<forall>i < length opList. Id (opList ! i) = of_nat (i + 1))"

definition operation_ok :: "OperationType list \<Rightarrow> Operation \<Rightarrow> bool" where
  "operation_ok opList opn \<longleftrightarrow>
     Type opn \<in> set opList \<and> vote_canonical (Vote opn) \<and> length (StateBytes opn) < 2 ^ 31"

lemma sint_position: "i < 2 ^ 31 \<Longrightarrow> sint (of_nat i :: i64) = int i"
  by (simp add: signed_of_nat signed_take_bit_int_eq_self)

lemma ids_are_positionsE:
  assumes "ids_are_positions opList" and "t \<in> set opList"
  obtains i where "i < length opList" "opList ! i = t" "sint (Id t) = int i + 1"
proof -
  obtain i where i: "i < length opList" "opList ! i = t"
    using assms(2) by (auto simp: in_set_conv_nth)
  moreover have "i + 1 < 2 ^ 31 \<or> i + 1 = 2 ^ 31"
    using assms(1) i by (auto simp: ids_are_positions_def)
  moreover have "sint (of_nat (i + 1) :: i64) = int (i + 1)" if "i + 1 \<le> 2 ^ 31"
    using that by (simp add: signed_of_nat signed_take_bit_int_eq_self del: of_nat_Suc of_nat_add)
  ultimately show ?thesis
    using assms(1) that [of i] by (auto simp: ids_are_positions_def)
qed

lemma Deserialize_Serialize:
  assumes "ids_are_positions opList" and "operation_ok opList opn"
  shows "Deserialize opList (Serialize opn @ r) = Inr (Some opn, r)"
proof -
  from assms(2) have "Type opn \<in> set opList" by (simp add: operation_ok_def)
  then obtain i where "i < length opList" "opList ! i = Type opn" "sint (Id (Type opn)) = int i + 1"
    by (rule ids_are_positionsE [OF assms(1)])
  then show ?thesis
    using assms(2) by (simp add: Deserialize_def Serialize_def codec_simps operation_ok_def Let_def)
qed

interpretation operation_codec: codec Serialize "\<lambda>bs. rbind (Deserialize opList bs) (\<lambda>(x, r).
    case x of None \<Rightarrow> Inl FormatException | Some y \<Rightarrow> Inr (y, r))"
  "\<lambda>opn. ids_are_positions opList \<and> operation_ok opList opn" for opList
  by unfold_locales (auto simp: Deserialize_Serialize)

section \<open>The client's operations\<close>

text \<open>
  The client holds an operation type until the next handshake disposes it; serializing an operation
  of a disposed type writes nothing and returns null.
\<close>

record ClientOperationType =
  cId :: i64
  cInstructions :: "u8 list"
  cTypeDisposed :: bool

record ClientOperation =
  cType :: ClientOperationType
  cVote :: VoteType
  cStateBytes :: "u8 list"
  cDisposed :: bool

definition ClientSerialize :: "ClientOperation \<Rightarrow> u8 list option" where
  "ClientSerialize opn =
     (if cTypeDisposed (cType opn) then None
      else Some (WriteInt64 (cId (cType opn)) @ [byte_of_VoteType (cVote opn)] @
                 WriteInt32 (of_nat (length (cStateBytes opn))) @ cStateBytes opn))"

text \<open>
  \<open>Deserialize\<close> of the client also hands out the read lock it took on the type: the first component
  of the result counts the read locks that are held when it returns or throws.
\<close>

definition ClientDeserialize ::
  "ClientOperationType list \<Rightarrow> u8 list \<Rightarrow> nat \<times> (net_exn + (ClientOperation option \<times> u8 list))" where
  "ClientDeserialize opList bs =
     (case ReadInt64 bs of Inl e \<Rightarrow> (0, Inl e)
      | Inr (typeId, r1) \<Rightarrow>
        if sint typeId \<le> 0 \<or> sint typeId > int (length opList) then (0, Inr (None, r1))
        else let ty = opList ! nat (sint typeId - 1) in
          if cTypeDisposed ty then (1, Inr (None, r1))
          else (1, rbind (ReadByte r1) (\<lambda>(voteByte, r2).
            rbind (ReadInt32 r2) (\<lambda>(stateLength, r3).
            rbind (ReadBytes stateLength r3) (\<lambda>(stateBytes, r4).
              Inr (Some \<lparr>cType = ty, cVote = VoteType_of_byte voteByte,
                         cStateBytes = stateBytes, cDisposed = False\<rparr>, r4))))))"

text \<open>\<open>Dispose\<close> empties the state bytes the first time and does nothing afterwards.\<close>

definition ClientDispose :: "ClientOperation \<Rightarrow> ClientOperation" where
  "ClientDispose opn = (if cDisposed opn then opn else opn\<lparr>cDisposed := True, cStateBytes := []\<rparr>)"

lemma ClientDispose_idem: "ClientDispose (ClientDispose opn) = ClientDispose opn"
  by (simp add: ClientDispose_def)

text \<open>What the server makes of a client's bytes: the type is the server's own template.\<close>

lemma Deserialize_ClientSerialize:
  assumes "ids_are_positions opList" and "t \<in> set opList" and "cId (cType c) = Id t"
    and "vote_canonical (cVote c)" and "length (cStateBytes c) < 2 ^ 31"
    and "ClientSerialize c = Some bs"
  shows "Deserialize opList (bs @ r) =
    Inr (Some \<lparr>Type = t, Vote = cVote c, StateBytes = cStateBytes c\<rparr>, r)"
proof -
  let ?o = "\<lparr>Type = t, Vote = cVote c, StateBytes = cStateBytes c\<rparr>"
  have "bs = Serialize ?o"
    using assms(3,6) by (auto simp: ClientSerialize_def Serialize_def split: if_splits)
  moreover have "operation_ok opList ?o" using assms by (simp add: operation_ok_def)
  ultimately show ?thesis using Deserialize_Serialize [OF assms(1)] by simp
qed

section \<open>Instruction profiles\<close>

text \<open>
  \<open>InstructionsProtocol\<close>: a version header, then tagged sections. \<open>ms\<close> is the bit pattern of the
  double that \<open>TimeSpan.TotalMilliseconds\<close> gives, \<open>from_ms\<close> the \<open>TimeSpan.FromMilliseconds\<close> of the
  .NET library, which throws (\<open>None\<close>) for NaN and for values out of range. Every exception inside the \<open>try\<close> becomes a \<open>ProtocolViolationException\<close>.
\<close>

definition InstructionsVersion :: cs_string where
  "InstructionsVersion = utf8_lit ''V1.2''"

definition SerializeInstructions :: "('t \<Rightarrow> i64) \<Rightarrow> cs_string list \<Rightarrow> 't option \<Rightarrow> u8 list" where
  "SerializeInstructions to_ms keys afk =
     WriteString InstructionsVersion @
     WriteString (utf8_lit ''keys:'') @
     Write7BitEncodedInt64 (of_nat (length keys)) @
     concat (map WriteString keys) @
     (case afk of None \<Rightarrow> []
      | Some t \<Rightarrow> WriteString (utf8_lit ''afk:'') @ WriteDouble (to_ms t))"

text \<open>
  The \<open>while (ms.Position < ms.Length)\<close> loop. Each round reads at least the length byte of a tag,
  so the unread bytes shrink and the loop ends on every input.
\<close>

function read_sections ::
  "(i64 \<Rightarrow> 't option) \<Rightarrow> cs_string list \<Rightarrow> 't option \<Rightarrow> u8 list \<Rightarrow> net_exn + (cs_string list \<times> 't option)" where
  "read_sections from_ms keys afk bs =
     (if bs = [] then Inr (keys, afk)
      else rbind (ReadString bs) (\<lambda>(tag, r).
        if tag = utf8_lit ''keys:'' then
          rbind (Read7BitEncodedInt64 r) (\<lambda>(n, r').
          rbind (dec_n (nat (sint n)) ReadString r') (\<lambda>(ks, r'').
            read_sections from_ms (keys @ ks) afk r''))
        else if tag = utf8_lit ''afk:'' then
          rbind (ReadDouble r) (\<lambda>(d, r').
            case from_ms d of None \<Rightarrow> Inl ArgumentOutOfRangeException
            | Some limit \<Rightarrow> read_sections from_ms keys (Some limit) r')
        else read_sections from_ms keys afk r))"
  by pat_completeness auto
termination
  by (relation "measure (\<lambda>(_, _, _, bs). length bs)")
    (auto dest!: shrinksD [OF ReadString_shrinks] shrinksD [OF ReadDouble_shrinks]
       shrinksD [OF Read7BitEncodedInt64_shrinks] dec_n_shrinks [OF ReadString_shrinks])

declare read_sections.simps [simp del]

definition DeserializeInstructions ::
  "(i64 \<Rightarrow> 't option) \<Rightarrow> u8 list \<Rightarrow> net_exn + (cs_string list \<times> 't option)" where
  "DeserializeInstructions from_ms bs =
     (case rbind (ReadString bs) (\<lambda>(header, r).
        if header \<noteq> InstructionsVersion then Inl ProtocolViolationException
        else read_sections from_ms [] None r)
      of Inl _ \<Rightarrow> Inl ProtocolViolationException | Inr x \<Rightarrow> Inr x)"

lemma read_sections_Nil [simp]: "read_sections from_ms keys afk [] = Inr (keys, afk)"
  by (simp add: read_sections.simps)

lemma WriteString_not_Nil [simp]: "WriteString s \<noteq> []"
  by (simp add: WriteString_def Write7BitEncodedInt_def enc7.simps)

lemma lit_ok [simp]: "str_ok (utf8_lit s) \<longleftrightarrow> length s < 2 ^ 31"
  by (simp add: str_ok_def utf8_lit_def)

lemma read_sections_keys:
  assumes "list_all str_ok ks" and "length ks < 2 ^ 63"
  shows "read_sections from_ms keys afk
      (WriteString (utf8_lit ''keys:'') @ Write7BitEncodedInt64 (of_nat (length ks)) @
       concat (map WriteString ks) @ r) = read_sections from_ms (keys @ ks) afk r"
proof -
  have "sint (of_nat (length ks) :: i64) = int (length ks)"
    using assms(2) by (simp add: signed_of_nat signed_take_bit_int_eq_self)
  then show ?thesis
    using string_codec.dec_n_enc [OF assms(1), of r]
    by (subst read_sections.simps) (simp add: codec_simps)
qed

lemma read_sections_afk:
  "from_ms d = Some limit \<Longrightarrow>
   read_sections from_ms keys afk (WriteString (utf8_lit ''afk:'') @ WriteDouble d @ r)
   = read_sections from_ms keys (Some limit) r"
  by (subst read_sections.simps) (simp add: codec_simps, simp add: utf8_lit_def)

lemma Deserialize_SerializeInstructions:
  assumes "list_all str_ok keys" and "length keys < 2 ^ 63"
    and "\<And>t. afk = Some t \<Longrightarrow> from_ms (to_ms t) = Some t"
  shows "DeserializeInstructions from_ms (SerializeInstructions to_ms keys afk) = Inr (keys, afk)"
proof (cases afk)
  case None
  then show ?thesis
    using read_sections_keys [OF assms(1,2), of from_ms "[]" None "[]"]
    by (simp add: DeserializeInstructions_def SerializeInstructions_def InstructionsVersion_def codec_simps)
next
  case (Some t)
  then show ?thesis
    using read_sections_afk [where from_ms = from_ms and d = "to_ms t" and limit = t and r = "[]" and keys = keys and afk = None] assms(3)
    by (simp add: DeserializeInstructions_def SerializeInstructions_def InstructionsVersion_def codec_simps
      read_sections_keys [OF assms(1,2)])
qed

text \<open>Whatever the bytes, the reader answers, and its only failure is the protocol violation.\<close>

lemma DeserializeInstructions_error:
  "DeserializeInstructions from_ms bs = Inl e \<Longrightarrow> e = ProtocolViolationException"
  by (auto simp: DeserializeInstructions_def split: sum.splits)

end
