(* ===== verification/VotingManager.thy ===== *)
theory VotingManager
  imports Operations "HOL-Library.AList"
begin

text \<open>
  \<open>core/Server/VotingManager.cs\<close> with the parts of \<open>User.cs\<close>, \<open>ClientInfo.cs\<close> and
  \<open>VotingServer.cs\<close> that raise its events: who votes what, with which multiplier, and the tallies
  per operation type. C# \<open>int\<close> counters wrap, so they are \<^typ>\<open>i32\<close>.

  \<open>_clientVotes\<close> keeps one dictionary per client; its enumeration order is not specified, so it is
  an association list with distinct keys in some order, and no result below depends on the order.
  Each handler runs its whole body under \<open>managerLock\<close>, hence as one step. \<open>managerLock\<close> is a
  \<open>ReaderWriterLockSlim\<close> without recursion: what a handler leaves held is the field \<open>upgradeable\<close>.
\<close>

type_synonym client = nat
type_synonym user = nat
type_synonym thread = nat
type_synonym footprint = "(i64 \<times> OperationType \<times> VoteType) list"

record OperationTally =
  VotersField :: i32
  SupportersField :: i32

datatype notification =
    OnOperationCountChanged OperationType i32 i32
  | OnClientVoteCleared client "OperationType list"

record manager =
  tallies :: "i64 \<Rightarrow> OperationTally option"
  clientVotes :: "client \<Rightarrow> footprint option"
  upgradeable :: "thread option"
  published :: "notification list"
  VoteMultiplier :: "user \<Rightarrow> i32"
  ClientUser :: "client \<Rightarrow> user"
  ConnectedClients :: "user \<Rightarrow> client list"

definition initial_manager :: "(user \<Rightarrow> i32) \<Rightarrow> user \<Rightarrow> manager" where
  "initial_manager mult anonymous =
     \<lparr>tallies = (\<lambda>_. None), clientVotes = (\<lambda>_. None), upgradeable = None, published = [],
      VoteMultiplier = mult, ClientUser = (\<lambda>_. anonymous), ConnectedClients = (\<lambda>_. [])\<rparr>"

section \<open>Lock outcomes\<close>

text \<open>
  A handler finishes, throws \<open>LockRecursionException\<close> in the state it had reached, or waits for a
  lock that another thread holds.
\<close>

datatype 'a run = Done 'a | LockRecursionException 'a | Blocked

definition with_write_lock :: "thread \<Rightarrow> manager \<Rightarrow> (manager \<Rightarrow> manager) \<Rightarrow> manager run" where
  "with_write_lock t s body =
     (case upgradeable s of None \<Rightarrow> Done (body s)
      | Some h \<Rightarrow> if h = t then Done (body s) else Blocked)"

definition with_upgradeable_lock :: "thread \<Rightarrow> manager \<Rightarrow> (manager \<Rightarrow> manager run) \<Rightarrow> manager run" where
  "with_upgradeable_lock t s body =
     (case upgradeable s of None \<Rightarrow> body s
      | Some h \<Rightarrow> if h = t then LockRecursionException s else Blocked)"

section \<open>Tallies\<close>

fun ApplyVoteTally :: "OperationTally \<Rightarrow> VoteType \<Rightarrow> i32 \<Rightarrow> OperationTally" where
  "ApplyVoteTally tally Support multiplier =
     tally\<lparr>VotersField := VotersField tally + multiplier, SupportersField := SupportersField tally + multiplier\<rparr>"
| "ApplyVoteTally tally Against multiplier = tally\<lparr>VotersField := VotersField tally + multiplier\<rparr>"
| "ApplyVoteTally tally Abstain multiplier = tally"
| "ApplyVoteTally tally (Unnamed _) multiplier = tally"

fun RemoveVoteTally :: "OperationTally \<Rightarrow> VoteType \<Rightarrow> i32 \<Rightarrow> OperationTally" where
  "RemoveVoteTally tally Support multiplier =
     tally\<lparr>VotersField := VotersField tally + - multiplier, SupportersField := SupportersField tally + - multiplier\<rparr>"
| "RemoveVoteTally tally Against multiplier = tally\<lparr>VotersField := VotersField tally + - multiplier\<rparr>"
| "RemoveVoteTally tally Abstain multiplier = tally"
| "RemoveVoteTally tally (Unnamed _) multiplier = tally"

definition GetMetrics :: "manager \<Rightarrow> i64 \<Rightarrow> i32 \<times> i32" where
  "GetMetrics s operationTypeId =
     (case tallies s operationTypeId of
        Some tally \<Rightarrow> (VotersField tally, SupportersField tally) | None \<Rightarrow> (0, 0))"

text \<open>Store a tally and publish it: what every change of a tally ends with.\<close>

definition store_tally :: "OperationType \<Rightarrow> OperationTally \<Rightarrow> manager \<Rightarrow> manager" where
  "store_tally ty tally s =
     s\<lparr>tallies := (tallies s)(Id ty \<mapsto> tally),
       published := published s @ [OnOperationCountChanged ty (VotersField tally) (SupportersField tally)]\<rparr>"

section \<open>The handlers\<close>

definition operation_received :: "client \<Rightarrow> Operation \<Rightarrow> manager \<Rightarrow> manager" where
  "operation_received c opn s =
     (let opType = Type opn; typeId = Id opType; voteResult = Vote opn; m = VoteMultiplier s (ClientUser s c);
          tally = (case tallies s typeId of Some t \<Rightarrow> t | None \<Rightarrow> \<lparr>VotersField = 0, SupportersField = 0\<rparr>);
          operationsMap = (case clientVotes s c of Some f \<Rightarrow> f | None \<Rightarrow> []);
          tally' = (case map_of operationsMap typeId of
              None \<Rightarrow> ApplyVoteTally tally voteResult m
            | Some (_, previous) \<Rightarrow> ApplyVoteTally (RemoveVoteTally tally previous m) voteResult m)
      in store_tally opType tally'
           (s\<lparr>clientVotes := (clientVotes s)(c \<mapsto> AList.update typeId (opType, voteResult) operationsMap)\<rparr>))"

definition HandleOperationReceived :: "thread \<Rightarrow> client \<Rightarrow> Operation \<Rightarrow> manager \<Rightarrow> manager run" where
  "HandleOperationReceived t c opn s = with_write_lock t s (operation_received c opn)"

text \<open>The \<open>foreach\<close> over a footprint, with the change made to each tally as a parameter.\<close>

fun for_each_vote ::
  "(OperationTally \<Rightarrow> VoteType \<Rightarrow> i32 \<Rightarrow> OperationTally) \<Rightarrow> i32 \<Rightarrow> footprint \<Rightarrow> manager \<Rightarrow> manager" where
  "for_each_vote change m [] s = s"
| "for_each_vote change m ((typeId, ty, vote) # votes) s =
     for_each_vote change m votes
       (case tallies s (Id ty) of Some tally \<Rightarrow> store_tally ty (change tally vote m) s | None \<Rightarrow> s)"

definition affected_operations :: "footprint \<Rightarrow> manager \<Rightarrow> OperationType list" where
  "affected_operations votes s = map (fst \<circ> snd) (filter (\<lambda>(_, ty, _). tallies s (Id ty) \<noteq> None) votes)"

definition client_disconnected :: "client \<Rightarrow> manager \<Rightarrow> manager" where
  "client_disconnected c s =
     (case clientVotes s c of None \<Rightarrow> s
      | Some votes \<Rightarrow>
        let s1 = for_each_vote RemoveVoteTally (VoteMultiplier s (ClientUser s c)) votes
                   (s\<lparr>clientVotes := (clientVotes s)(c := None)\<rparr>);
            affected = affected_operations votes s
        in if affected \<noteq> [] then s1\<lparr>published := published s1 @ [OnClientVoteCleared c affected]\<rparr> else s1)"

definition HandleClientDisconnected :: "thread \<Rightarrow> client \<Rightarrow> manager \<Rightarrow> manager run" where
  "HandleClientDisconnected t c s = with_write_lock t s (client_disconnected c)"

definition footprint_of :: "manager \<Rightarrow> client \<Rightarrow> footprint" where
  "footprint_of s c = (case clientVotes s c of Some votes \<Rightarrow> votes | None \<Rightarrow> [])"

fun multiplier_changed :: "i32 \<Rightarrow> client list \<Rightarrow> manager \<Rightarrow> manager" where
  "multiplier_changed delta [] s = s"
| "multiplier_changed delta (c # cs) s =
     multiplier_changed delta cs (for_each_vote ApplyVoteTally delta (footprint_of s c) s)"

definition HandleUserVoteMultiplierChange :: "thread \<Rightarrow> user \<Rightarrow> i32 \<Rightarrow> i32 \<Rightarrow> manager \<Rightarrow> manager run" where
  "HandleUserVoteMultiplierChange t u original new s =
     (let clients = ConnectedClients s u
      in with_write_lock t s (multiplier_changed (new - original) clients))"

text \<open>
  \<open>ProcessVoteMultiplierChange\<close> enters the write lock for each tally. With the lock already held
  in write mode that throws, before anything has changed.
\<close>

definition ProcessVoteMultiplierChange :: "bool \<Rightarrow> client \<Rightarrow> i32 \<Rightarrow> manager \<Rightarrow> manager run" where
  "ProcessVoteMultiplierChange write_held c multiplierChange s =
     (if write_held \<and> (\<exists>(_, ty, _) \<in> set (footprint_of s c). tallies s (Id ty) \<noteq> None)
      then LockRecursionException s
      else Done (for_each_vote RemoveVoteTally multiplierChange (footprint_of s c) s))"

definition HandleClientUserChange :: "thread \<Rightarrow> client \<Rightarrow> user \<Rightarrow> user \<Rightarrow> manager \<Rightarrow> manager run" where
  "HandleClientUserChange t c oldUser newUser s =
     with_upgradeable_lock t s (\<lambda>s.
       let multiplierChange = VoteMultiplier s newUser - VoteMultiplier s oldUser
       in if multiplierChange \<noteq> 0 then ProcessVoteMultiplierChange True c multiplierChange s else Done s)"

definition SignalUnhandledUserChange :: "thread \<Rightarrow> client \<Rightarrow> user \<Rightarrow> manager \<Rightarrow> manager run" where
  "SignalUnhandledUserChange t c oldUser s =
     with_upgradeable_lock t s (\<lambda>s.
       if VoteMultiplier s (ClientUser s c) = VoteMultiplier s oldUser then Done s
       else ProcessVoteMultiplierChange False c (VoteMultiplier s (ClientUser s c) - VoteMultiplier s oldUser) s)"

text \<open>The handler of \<open>OnUserDeleted\<close> enters the upgradeable lock and never leaves it.\<close>

definition HandleUserDeleted :: "thread \<Rightarrow> manager \<Rightarrow> manager run" where
  "HandleUserDeleted t s = with_upgradeable_lock t s (\<lambda>s. Done (s\<lparr>upgradeable := Some t\<rparr>))"

section \<open>What raises the events\<close>

text \<open>The setter of \<open>User.VoteMultiplier\<close>: assign, and notify when the value is new.\<close>

definition SetVoteMultiplier :: "thread \<Rightarrow> user \<Rightarrow> i32 \<Rightarrow> manager \<Rightarrow> manager run" where
  "SetVoteMultiplier t u new s =
     (let original = VoteMultiplier s u; s1 = s\<lparr>VoteMultiplier := (VoteMultiplier s)(u := new)\<rparr>
      in if original \<noteq> new then HandleUserVoteMultiplierChange t u original new s1 else Done s1)"

text \<open>The setter of \<open>ClientInfo.User\<close>.\<close>

definition set_ClientUser :: "client \<Rightarrow> user \<Rightarrow> manager \<Rightarrow> manager" where
  "set_ClientUser c u s =
     (let cc1 = (ConnectedClients s)(ClientUser s c := removeAll c (ConnectedClients s (ClientUser s c)));
          cc2 = cc1(u := if c \<in> set (cc1 u) then cc1 u else cc1 u @ [c])
      in s\<lparr>ConnectedClients := cc2, ClientUser := (ClientUser s)(c := u)\<rparr>)"

definition channel_connected :: "client \<Rightarrow> manager \<Rightarrow> manager" where
  "channel_connected c s =
     (let u = ClientUser s c in
      s\<lparr>ConnectedClients := (ConnectedClients s)
          (u := if c \<in> set (ConnectedClients s u) then ConnectedClients s u else ConnectedClients s u @ [c])\<rparr>)"

text \<open>
  A disconnection has two parts: the server takes the client from its user, and the manager starts a thread that
  runs \<open>HandleClientDisconnected\<close> at some later time. What happens between the two is in the runs below.
\<close>

definition channel_disconnected :: "client \<Rightarrow> manager \<Rightarrow> manager" where
  "channel_disconnected c s = s\<lparr>ConnectedClients := (ConnectedClients s)
           (ClientUser s c := removeAll c (ConnectedClients s (ClientUser s c)))\<rparr>"

text \<open>A client that authenticates: \<open>User.TryAddClient\<close> succeeds, then the server raises the change.\<close>

definition authenticate :: "thread \<Rightarrow> client \<Rightarrow> user \<Rightarrow> user \<Rightarrow> manager \<Rightarrow> manager run" where
  "authenticate t c anonymous u s = HandleClientUserChange t c anonymous u (set_ClientUser c u s)"

section \<open>What a tally should hold\<close>

fun voters_weight :: "VoteType \<Rightarrow> i32" where
  "voters_weight Support = 1"
| "voters_weight Against = 1"
| "voters_weight _ = 0"

fun supporters_weight :: "VoteType \<Rightarrow> i32" where
  "supporters_weight Support = 1"
| "supporters_weight _ = 0"

text \<open>The weight of one client's footprint for the operation type \<open>k\<close>.\<close>

definition footprint_weight :: "(VoteType \<Rightarrow> i32) \<Rightarrow> footprint \<Rightarrow> i64 \<Rightarrow> i32" where
  "footprint_weight weight votes k = (case map_of votes k of None \<Rightarrow> 0 | Some (_, v) \<Rightarrow> weight v)"

definition expected :: "(VoteType \<Rightarrow> i32) \<Rightarrow> manager \<Rightarrow> i64 \<Rightarrow> i32" where
  "expected weight s k =
     (\<Sum>c \<in> dom (clientVotes s). footprint_weight weight (footprint_of s c) k * VoteMultiplier s (ClientUser s c))"

definition footprint_ok :: "(i64 \<Rightarrow> OperationTally option) \<Rightarrow> footprint \<Rightarrow> bool" where
  "footprint_ok tm votes \<longleftrightarrow> distinct (map fst votes) \<and> (\<forall>(k, ty, _) \<in> set votes. k = Id ty \<and> k \<in> dom tm)"

definition manager_inv :: "manager \<Rightarrow> bool" where
  "manager_inv s \<longleftrightarrow>
     finite (dom (clientVotes s)) \<and>
     (\<forall>c. footprint_ok (tallies s) (footprint_of s c)) \<and>
     (\<forall>u. distinct (ConnectedClients s u) \<and> (\<forall>c \<in> set (ConnectedClients s u). ClientUser s c = u))"

text \<open>No client of the user that holds votes is between the two parts of its disconnection.\<close>

definition voters_connected :: "user \<Rightarrow> manager \<Rightarrow> bool" where
  "voters_connected u s \<longleftrightarrow> (\<forall>c \<in> dom (clientVotes s). ClientUser s c = u \<longrightarrow> c \<in> set (ConnectedClients s u))"

text \<open>The property that the manager is for: every counter is the weighted sum of the live votes.\<close>

definition tallies_exact :: "manager \<Rightarrow> bool" where
  "tallies_exact s \<longleftrightarrow> (\<forall>k. GetMetrics s k = (expected voters_weight s k, expected supporters_weight s k))"

section \<open>One counter of a tally\<close>

text \<open>
  Both counters obey the same laws, so everything about sums is proved once, for a field of the
  tally and the weight a vote has in it.
\<close>

definition counter_of :: "(OperationTally \<Rightarrow> i32) \<Rightarrow> manager \<Rightarrow> i64 \<Rightarrow> i32" where
  "counter_of field s k = (case tallies s k of Some t \<Rightarrow> field t | None \<Rightarrow> 0)"

lemma GetMetrics_counters:
  "GetMetrics s k = (counter_of VotersField s k, counter_of SupportersField s k)"
  by (simp add: GetMetrics_def counter_of_def split: option.splits)

lemma tallies_exact_counters:
  "tallies_exact s \<longleftrightarrow> (\<forall>k. counter_of VotersField s k = expected voters_weight s k) \<and>
     (\<forall>k. counter_of SupportersField s k = expected supporters_weight s k)"
  by (auto simp: tallies_exact_def GetMetrics_counters)

lemma store_tally_simps [simp]:
  "tallies (store_tally ty t s) = (tallies s)(Id ty \<mapsto> t)"
  "clientVotes (store_tally ty t s) = clientVotes s"
  "upgradeable (store_tally ty t s) = upgradeable s"
  "VoteMultiplier (store_tally ty t s) = VoteMultiplier s"
  "ClientUser (store_tally ty t s) = ClientUser s"
  "ConnectedClients (store_tally ty t s) = ConnectedClients s"
  "footprint_of (store_tally ty t s) = footprint_of s"
  by (simp_all add: store_tally_def footprint_of_def fun_eq_iff)

lemma for_each_vote_frame [simp]:
  "clientVotes (for_each_vote ch m votes s) = clientVotes s"
  "upgradeable (for_each_vote ch m votes s) = upgradeable s"
  "VoteMultiplier (for_each_vote ch m votes s) = VoteMultiplier s"
  "ClientUser (for_each_vote ch m votes s) = ClientUser s"
  "ConnectedClients (for_each_vote ch m votes s) = ConnectedClients s"
  "dom (tallies (for_each_vote ch m votes s)) = dom (tallies s)"
  by (induction ch m votes s rule: for_each_vote.induct) (auto split: option.splits)

lemma footprint_of_for_each [simp]: "footprint_of (for_each_vote ch m votes s) = footprint_of s"
  by (simp add: footprint_of_def fun_eq_iff)

lemma multiplier_changed_frame [simp]:
  "clientVotes (multiplier_changed d cs s) = clientVotes s"
  "upgradeable (multiplier_changed d cs s) = upgradeable s"
  "VoteMultiplier (multiplier_changed d cs s) = VoteMultiplier s"
  "ClientUser (multiplier_changed d cs s) = ClientUser s"
  "ConnectedClients (multiplier_changed d cs s) = ConnectedClients s"
  "dom (tallies (multiplier_changed d cs s)) = dom (tallies s)"
  by (induction d cs s rule: multiplier_changed.induct) simp_all

lemma footprint_of_multiplier_changed [simp]: "footprint_of (multiplier_changed d cs s) = footprint_of s"
  by (simp add: footprint_of_def fun_eq_iff)

lemma footprint_ok_dom: "dom tm = dom tm' \<Longrightarrow> footprint_ok tm votes \<longleftrightarrow> footprint_ok tm' votes"
  by (simp add: footprint_ok_def)

locale tally_counter =
  fixes field :: "OperationTally \<Rightarrow> i32"
    and weight :: "VoteType \<Rightarrow> i32"
  assumes apply_vote: "field (ApplyVoteTally t v m) = field t + weight v * m"
    and remove_vote: "field (RemoveVoteTally t v m) = field t - weight v * m"
    and new_tally: "field \<lparr>VotersField = 0, SupportersField = 0\<rparr> = 0"
begin

lemma counter_store [simp]:
  "counter_of field (store_tally ty t s) k = (if k = Id ty then field t else counter_of field s k)"
  by (simp add: counter_of_def)

text \<open>A change that scales with the weight, made to every vote of a footprint.\<close>

lemma counter_for_each:
  assumes "\<And>t v. field (ch t v m) = field t + weight v * d" and "footprint_ok (tallies s) votes"
  shows "counter_of field (for_each_vote ch m votes s) k
    = counter_of field s k + footprint_weight weight votes k * d"
  using assms(2)
proof (induction votes arbitrary: s)
  case Nil
  then show ?case by (simp add: footprint_weight_def)
next
  case (Cons a votes)
  obtain j ty v where a: "a = (j, ty, v)" by (cases a)
  from Cons.prems a obtain t where t: "tallies s (Id ty) = Some t" and j: "j = Id ty"
    by (auto simp: footprint_ok_def)
  let ?s = "store_tally ty (ch t v m) s"
  have "dom (tallies ?s) = dom (tallies s)" using t by auto
  then have "footprint_ok (tallies ?s) votes"
    using Cons.prems footprint_ok_dom [of "tallies ?s" "tallies s" votes] by (auto simp: footprint_ok_def)
  then have "counter_of field (for_each_vote ch m votes ?s) k
    = counter_of field ?s k + footprint_weight weight votes k * d" by (rule Cons.IH)
  moreover have "map_of votes j = None"
    using Cons.prems a by (force simp: footprint_ok_def map_of_eq_None_iff)
  ultimately show ?case
    using a t j assms(1) by (auto simp: footprint_weight_def counter_of_def)
qed

lemma counter_for_each_apply:
  "footprint_ok (tallies s) votes \<Longrightarrow> counter_of field (for_each_vote ApplyVoteTally d votes s) k
    = counter_of field s k + footprint_weight weight votes k * d"
  by (rule counter_for_each [OF apply_vote])

lemma counter_for_each_remove:
  "footprint_ok (tallies s) votes \<Longrightarrow> counter_of field (for_each_vote RemoveVoteTally d votes s) k
    = counter_of field s k - footprint_weight weight votes k * d"
  using counter_for_each [of RemoveVoteTally d "- d" s votes k] remove_vote by simp

lemma counter_multiplier_changed:
  assumes "\<And>c. footprint_ok (tallies s) (footprint_of s c)"
  shows "counter_of field (multiplier_changed d cs s) k
    = counter_of field s k + (\<Sum>c\<leftarrow>cs. footprint_weight weight (footprint_of s c) k) * d"
  using assms
proof (induction cs arbitrary: s)
  case Nil
  then show ?case by simp
next
  case (Cons c cs)
  let ?s = "for_each_vote ApplyVoteTally d (footprint_of s c) s"
  have "\<And>c. footprint_ok (tallies ?s) (footprint_of ?s c)"
    using Cons.prems footprint_ok_dom [of "tallies ?s" "tallies s"] by simp
  then show ?case
    using Cons.IH [of ?s] counter_for_each_apply [OF Cons.prems] by (simp add: algebra_simps)
qed

lemma counter_received:
  "counter_of field (operation_received c opn s) k = counter_of field s k +
    (if k = Id (Type opn)
     then (weight (Vote opn) - footprint_weight weight (footprint_of s c) k) * VoteMultiplier s (ClientUser s c)
     else 0)"
  by (auto simp: operation_received_def Let_def counter_of_def footprint_weight_def footprint_of_def
    apply_vote remove_vote new_tally algebra_simps store_tally_def split: option.splits)

end

lemma vote_counter_laws:
  "VotersField (ApplyVoteTally t v m) = VotersField t + voters_weight v * m"
  "VotersField (RemoveVoteTally t v m) = VotersField t - voters_weight v * m"
  "SupportersField (ApplyVoteTally t v m) = SupportersField t + supporters_weight v * m"
  "SupportersField (RemoveVoteTally t v m) = SupportersField t - supporters_weight v * m"
  by (cases v; simp)+

interpretation voters: tally_counter VotersField voters_weight
  by unfold_locales (simp_all add: vote_counter_laws)

interpretation supporters: tally_counter SupportersField supporters_weight
  by unfold_locales (simp_all add: vote_counter_laws)

section \<open>The invariant and the exactness of the tallies\<close>

lemma footprint_weight_Nil [simp]: "footprint_weight weight [] k = 0"
  by (simp add: footprint_weight_def)

lemma footprint_of_None [simp]: "clientVotes s c = None \<Longrightarrow> footprint_of s c = []"
  by (simp add: footprint_of_def)

lemma expected_superset:
  assumes "finite A" and "dom (clientVotes s) \<subseteq> A"
  shows "expected weight s k =
    (\<Sum>c\<in>A. footprint_weight weight (footprint_of s c) k * VoteMultiplier s (ClientUser s c))"
  unfolding expected_def
proof (rule sum.mono_neutral_left [OF assms], rule ballI)
  fix c assume "c \<in> A - dom (clientVotes s)"
  then have "footprint_of s c = []" by (simp add: footprint_of_def domIff)
  then show "footprint_weight weight (footprint_of s c) k * VoteMultiplier s (ClientUser s c) = 0" by simp
qed

text \<open>Replacing one client's footprint moves the expected value by the difference of the weights.\<close>

lemma expected_replace:
  assumes fin: "finite (dom (clientVotes s))" "finite (dom (clientVotes s'))"
    and same: "VoteMultiplier s' = VoteMultiplier s" "ClientUser s' = ClientUser s"
    and others: "\<And>c'. c' \<noteq> c \<Longrightarrow> footprint_of s' c' = footprint_of s c'"
  shows "expected weight s' k = expected weight s k +
    (footprint_weight weight (footprint_of s' c) k - footprint_weight weight (footprint_of s c) k)
      * VoteMultiplier s (ClientUser s c)"
proof -
  let ?A = "insert c (dom (clientVotes s) \<union> dom (clientVotes s'))"
  let ?t = "\<lambda>s c. footprint_weight weight (footprint_of s c) k * VoteMultiplier s (ClientUser s c)"
  have A: "finite ?A" using fin by simp
  have split: "expected weight u k = ?t u c + (\<Sum>c\<in>?A - {c}. ?t u c)" if "dom (clientVotes u) \<subseteq> ?A" for u
    using expected_superset [OF A that] sum.remove [OF A, of c "?t u"] by simp
  have "(\<Sum>c\<in>?A - {c}. ?t s' c) = (\<Sum>c\<in>?A - {c}. ?t s c)"
    using others same by (intro sum.cong) auto
  moreover have "expected weight s' k = ?t s' c + (\<Sum>c\<in>?A - {c}. ?t s' c)" by (rule split) blast
  moreover have "expected weight s k = ?t s c + (\<Sum>c\<in>?A - {c}. ?t s c)" by (rule split) blast
  ultimately have "expected weight s' k = ?t s' c + (expected weight s k - ?t s c)"
    by (simp only: add_diff_cancel_left')
  then show ?thesis by (simp add: same algebra_simps)
qed

lemma operation_received_frame [simp]:
  "VoteMultiplier (operation_received c opn s) = VoteMultiplier s"
  "ClientUser (operation_received c opn s) = ClientUser s"
  "ConnectedClients (operation_received c opn s) = ConnectedClients s"
  "upgradeable (operation_received c opn s) = upgradeable s"
  "dom (clientVotes (operation_received c opn s)) = insert c (dom (clientVotes s))"
  "dom (tallies (operation_received c opn s)) = insert (Id (Type opn)) (dom (tallies s))"
  by (simp_all add: operation_received_def Let_def)

lemma footprint_received:
  "footprint_of (operation_received c opn s) c' =
    (if c' = c then AList.update (Id (Type opn)) (Type opn, Vote opn) (footprint_of s c) else footprint_of s c')"
  by (simp add: operation_received_def Let_def footprint_of_def split: option.splits)

lemma footprint_ok_update:
  assumes "footprint_ok tm votes"
  shows "footprint_ok (tm(Id ty \<mapsto> t)) (AList.update (Id ty) (ty, v) votes)"
proof -
  have d: "distinct (map fst (AList.update (Id ty) (ty, v) votes))"
    using assms by (simp add: footprint_ok_def AList.distinct_update)
  have "k = Id ty' \<and> k \<in> dom (tm(Id ty \<mapsto> t))"
    if "(k, ty', v') \<in> set (AList.update (Id ty) (ty, v) votes)" for k ty' v'
  proof -
    from that have "map_of (AList.update (Id ty) (ty, v) votes) k = Some (ty', v')"
      using d by (simp add: map_of_eq_Some_iff)
    then have "((map_of votes)(Id ty \<mapsto> (ty, v))) k = Some (ty', v')" by (simp add: AList.update_conv')
    then show ?thesis
      using assms by (auto simp: footprint_ok_def map_of_eq_Some_iff split: if_splits dest: map_of_SomeD)
  qed
  with d show ?thesis by (auto simp: footprint_ok_def)
qed

lemma footprint_ok_mono: "footprint_ok tm votes \<Longrightarrow> dom tm \<subseteq> dom tm' \<Longrightarrow> footprint_ok tm' votes"
  by (fastforce simp: footprint_ok_def)

lemma manager_invD:
  assumes "manager_inv s"
  shows "finite (dom (clientVotes s))" "footprint_ok (tallies s) (footprint_of s c)"
    "distinct (ConnectedClients s u)" "c \<in> set (ConnectedClients s u) \<Longrightarrow> ClientUser s c = u"
  using assms by (auto simp: manager_inv_def)

lemma manager_invI:
  assumes "finite (dom (clientVotes s))" and "\<And>c. footprint_ok (tallies s) (footprint_of s c)"
    and "\<And>u. distinct (ConnectedClients s u)"
    and "\<And>c u. c \<in> set (ConnectedClients s u) \<Longrightarrow> ClientUser s c = u"
  shows "manager_inv s"
  using assms unfolding manager_inv_def by blast

lemma operation_received_inv:
  assumes "manager_inv s"
  shows "manager_inv (operation_received c opn s)"
proof -
  let ?s = "operation_received c opn s"
  have dt: "dom (tallies ?s) = dom ((tallies s)(Id (Type opn) \<mapsto> undefined))" by simp
  have ok: "footprint_ok (tallies ?s) (footprint_of ?s c')" for c'
  proof (cases "c' = c")
    case True
    then show ?thesis
      using footprint_ok_update [OF manager_invD(2) [OF assms]] footprint_ok_dom [OF dt]
      by (simp add: footprint_received)
  next
    case False
    have "dom (tallies s) \<subseteq> dom (tallies ?s)" by auto
    with False show ?thesis
      using footprint_ok_mono [OF manager_invD(2) [OF assms]] by (simp add: footprint_received)
  qed
  show ?thesis
    by (rule manager_invI) (use manager_invD(1,3,4) [OF assms] ok in simp_all)
qed

lemma footprint_weight_update:
  "footprint_weight weight (AList.update (Id ty) (ty, v) votes) k =
    (if k = Id ty then weight v else footprint_weight weight votes k)"
  by (simp add: footprint_weight_def AList.update_conv')

lemma operation_received_exact:
  assumes "manager_inv s" and "tallies_exact s"
  shows "tallies_exact (operation_received c opn s)"
proof -
  have "expected weight (operation_received c opn s) k = expected weight s k +
      (if k = Id (Type opn)
       then (weight (Vote opn) - footprint_weight weight (footprint_of s c) k) * VoteMultiplier s (ClientUser s c)
       else 0)" for weight k
    using expected_replace [of s "operation_received c opn s" c weight k] manager_invD(1) [OF assms(1)]
    by (simp add: footprint_received footprint_weight_update)
  with assms(2) show ?thesis
    by (simp add: tallies_exact_counters voters.counter_received supporters.counter_received)
qed

section \<open>Disconnecting\<close>

lemma published_irrelevant [simp]:
  "tallies (s\<lparr>published := p\<rparr>) = tallies s" "footprint_of (s\<lparr>published := p\<rparr>) = footprint_of s"
  "counter_of field (s\<lparr>published := p\<rparr>) = counter_of field s"
  "expected weight (s\<lparr>published := p\<rparr>) = expected weight s"
  by (simp_all add: footprint_of_def counter_of_def expected_def fun_eq_iff)

lemma ConnectedClients_irrelevant [simp]:
  "footprint_of (s\<lparr>ConnectedClients := cc\<rparr>) = footprint_of s"
  "counter_of field (s\<lparr>ConnectedClients := cc\<rparr>) = counter_of field s"
  "expected weight (s\<lparr>ConnectedClients := cc\<rparr>) = expected weight s"
  by (simp_all add: footprint_of_def counter_of_def expected_def fun_eq_iff)

lemma clientVotes_irrelevant [simp]: "counter_of field (s\<lparr>clientVotes := cv\<rparr>) = counter_of field s"
  by (simp add: counter_of_def fun_eq_iff)

lemma client_disconnected_frame [simp]:
  "VoteMultiplier (client_disconnected c s) = VoteMultiplier s"
  "ClientUser (client_disconnected c s) = ClientUser s"
  "ConnectedClients (client_disconnected c s) = ConnectedClients s"
  "upgradeable (client_disconnected c s) = upgradeable s"
  "clientVotes (client_disconnected c s) = (clientVotes s)(c := None)"
  "dom (tallies (client_disconnected c s)) = dom (tallies s)"
  by (auto simp: client_disconnected_def Let_def split: option.splits)

lemma footprint_disconnected:
  "footprint_of (client_disconnected c s) c' = (if c' = c then [] else footprint_of s c')"
  by (simp add: footprint_of_def)

lemma tallies_disconnected:
  "clientVotes s c = Some votes \<Longrightarrow> tallies (client_disconnected c s) =
     tallies (for_each_vote RemoveVoteTally (VoteMultiplier s (ClientUser s c)) votes
                (s\<lparr>clientVotes := (clientVotes s)(c := None)\<rparr>))"
  by (simp add: client_disconnected_def Let_def)

lemma counter_disconnected:
  assumes "footprint_ok (tallies s) (footprint_of s c)"
  shows "counter_of VotersField (client_disconnected c s) k = counter_of VotersField s k
      - footprint_weight voters_weight (footprint_of s c) k * VoteMultiplier s (ClientUser s c)"
    and "counter_of SupportersField (client_disconnected c s) k = counter_of SupportersField s k
      - footprint_weight supporters_weight (footprint_of s c) k * VoteMultiplier s (ClientUser s c)"
proof -
  have "(\<forall>k. counter_of VotersField (client_disconnected c s) k = counter_of VotersField s k
      - footprint_weight voters_weight (footprint_of s c) k * VoteMultiplier s (ClientUser s c)) \<and>
    (\<forall>k. counter_of SupportersField (client_disconnected c s) k = counter_of SupportersField s k
      - footprint_weight supporters_weight (footprint_of s c) k * VoteMultiplier s (ClientUser s c))"
  proof (cases "clientVotes s c")
    case None
    then show ?thesis by (simp add: client_disconnected_def)
  next
    case (Some votes)
    then have "footprint_of s c = votes" by (simp add: footprint_of_def)
    with assms Some show ?thesis
      using voters.counter_for_each_remove [of "s\<lparr>clientVotes := (clientVotes s)(c := None)\<rparr>" votes]
        supporters.counter_for_each_remove [of "s\<lparr>clientVotes := (clientVotes s)(c := None)\<rparr>" votes]
      by (simp add: counter_of_def [of _ "client_disconnected c s"] tallies_disconnected counter_of_def)
  qed
  then show "counter_of VotersField (client_disconnected c s) k = counter_of VotersField s k
      - footprint_weight voters_weight (footprint_of s c) k * VoteMultiplier s (ClientUser s c)"
    and "counter_of SupportersField (client_disconnected c s) k = counter_of SupportersField s k
      - footprint_weight supporters_weight (footprint_of s c) k * VoteMultiplier s (ClientUser s c)"
    by auto
qed

lemma client_disconnected_exact:
  assumes "finite (dom (clientVotes s))" and "\<And>c. footprint_ok (tallies s) (footprint_of s c)"
    and "tallies_exact s"
  shows "tallies_exact (client_disconnected c s)"
proof -
  have "expected weight (client_disconnected c s) k = expected weight s k
      - footprint_weight weight (footprint_of s c) k * VoteMultiplier s (ClientUser s c)" for weight k
    using expected_replace [of s "client_disconnected c s" c weight k] assms(1)
    by (simp add: footprint_disconnected)
  with assms(3) show ?thesis
    by (simp add: tallies_exact_counters counter_disconnected [OF assms(2)])
qed

lemma channel_disconnected_frame [simp]:
  "tallies (channel_disconnected c s) = tallies s" "clientVotes (channel_disconnected c s) = clientVotes s"
  "footprint_of (channel_disconnected c s) = footprint_of s" "ClientUser (channel_disconnected c s) = ClientUser s"
  "counter_of field (channel_disconnected c s) = counter_of field s"
  "expected weight (channel_disconnected c s) = expected weight s"
  "upgradeable (channel_disconnected c s) = upgradeable s"
  by (simp_all add: channel_disconnected_def footprint_of_def)

lemma channel_disconnected_inv:
  assumes "manager_inv s"
  shows "manager_inv (channel_disconnected c s)"
proof -
  have "distinct (ConnectedClients (channel_disconnected c s) u)" for u
    using manager_invD(3) [OF assms] by (simp add: channel_disconnected_def distinct_removeAll)
  moreover have "ClientUser s c' = u" if "c' \<in> set (ConnectedClients (channel_disconnected c s) u)" for c' u
    using that manager_invD(4) [OF assms, of c' u] by (auto simp: channel_disconnected_def split: if_splits)
  ultimately show ?thesis by (intro manager_invI) (use manager_invD(1,2) [OF assms] in simp_all)
qed

lemma client_disconnected_inv:
  assumes "manager_inv s"
  shows "manager_inv (client_disconnected c s)"
proof -
  have "footprint_ok (tallies (client_disconnected c s)) (footprint_of (client_disconnected c s) c')" for c'
    using manager_invD(2) [OF assms, of c'] footprint_ok_dom [of "tallies (client_disconnected c s)" "tallies s"]
    by (simp add: footprint_disconnected footprint_ok_def)
  then show ?thesis by (intro manager_invI) (use manager_invD(1,3,4) [OF assms] in simp_all)
qed

section \<open>Changing a user's multiplier\<close>

definition set_multiplier :: "user \<Rightarrow> i32 \<Rightarrow> manager \<Rightarrow> manager" where
  "set_multiplier u new s =
     multiplier_changed (new - VoteMultiplier s u) (ConnectedClients s u)
       (s\<lparr>VoteMultiplier := (VoteMultiplier s)(u := new)\<rparr>)"

lemma multiplier_irrelevant [simp]:
  "footprint_of (s\<lparr>VoteMultiplier := vm\<rparr>) = footprint_of s"
  "counter_of field (s\<lparr>VoteMultiplier := vm\<rparr>) = counter_of field s"
  by (simp_all add: footprint_of_def counter_of_def fun_eq_iff)

text \<open>The clients whose votes a change of \<open>u\<close> touches are exactly its connected ones.\<close>

lemma expected_set_multiplier:
  assumes "manager_inv s" and "voters_connected u s"
  shows "expected weight (s\<lparr>VoteMultiplier := (VoteMultiplier s)(u := new)\<rparr>) k
    = expected weight s k
      + (\<Sum>c\<leftarrow>ConnectedClients s u. footprint_weight weight (footprint_of s c) k) * (new - VoteMultiplier s u)"
proof -
  let ?A = "dom (clientVotes s) \<union> set (ConnectedClients s u)"
  let ?w = "\<lambda>c. footprint_weight weight (footprint_of s c) k"
  let ?d = "new - VoteMultiplier s u"
  note inv = manager_invD [OF assms(1)]
  have A: "finite ?A" using inv(1) by simp
  have "expected weight (s\<lparr>VoteMultiplier := (VoteMultiplier s)(u := new)\<rparr>) k
      = (\<Sum>c\<in>?A. ?w c * ((VoteMultiplier s)(u := new)) (ClientUser s c))"
    using expected_superset [OF A, of "s\<lparr>VoteMultiplier := (VoteMultiplier s)(u := new)\<rparr>"] by simp
  also have "\<dots> = (\<Sum>c\<in>?A. ?w c * VoteMultiplier s (ClientUser s c) + (if ClientUser s c = u then ?w c * ?d else 0))"
    by (intro sum.cong) (auto simp: algebra_simps)
  also have "\<dots> = expected weight s k + (\<Sum>c\<in>?A. if ClientUser s c = u then ?w c * ?d else 0)"
    using expected_superset [OF A, of s] by (simp add: sum.distrib)
  also have "(\<Sum>c\<in>?A. if ClientUser s c = u then ?w c * ?d else 0) = (\<Sum>c\<in>set (ConnectedClients s u). ?w c * ?d)"
  proof (rule sum.mono_neutral_cong_right [OF A])
    show "\<forall>c\<in>?A - set (ConnectedClients s u). (if ClientUser s c = u then ?w c * ?d else 0) = 0"
      using assms(2) by (auto simp: voters_connected_def)
  qed (use inv(4) in auto)
  also have "\<dots> = (\<Sum>c\<leftarrow>ConnectedClients s u. ?w c) * ?d"
    using inv(3) [of u] by (simp add: sum_distrib_right [symmetric] sum_list_distinct_conv_sum_set)
  finally show ?thesis .
qed

lemma set_multiplier_exact:
  assumes "manager_inv s" and "tallies_exact s" and "voters_connected u s"
  shows "tallies_exact (set_multiplier u new s)"
proof -
  let ?s = "s\<lparr>VoteMultiplier := (VoteMultiplier s)(u := new)\<rparr>"
  have ok: "\<And>c. footprint_ok (tallies ?s) (footprint_of ?s c)"
    using manager_invD(2) [OF assms(1)] by simp
  have "expected weight (set_multiplier u new s) = expected weight ?s" for weight
    by (simp add: set_multiplier_def expected_def fun_eq_iff)
  with assms(2) show ?thesis
    using voters.counter_multiplier_changed [OF ok] supporters.counter_multiplier_changed [OF ok]
      expected_set_multiplier [OF assms(1,3)]
    by (simp add: tallies_exact_counters set_multiplier_def)
qed

lemma set_multiplier_inv:
  assumes "manager_inv s"
  shows "manager_inv (set_multiplier u new s)"
proof -
  have "footprint_ok (tallies (set_multiplier u new s)) (footprint_of s c)" for c
    using manager_invD(2) [OF assms, of c] footprint_ok_dom [of "tallies (set_multiplier u new s)" "tallies s"]
    by (simp add: set_multiplier_def)
  then show ?thesis
    by (intro manager_invI) (use manager_invD [OF assms] in \<open>simp_all add: set_multiplier_def domIff\<close>)
qed

lemma SetVoteMultiplier_Done:
  assumes "upgradeable s = None"
  shows "SetVoteMultiplier t u new s = Done (set_multiplier u new s)
    \<or> VoteMultiplier s u = new \<and> SetVoteMultiplier t u new s = Done s"
  using assms by (auto simp: SetVoteMultiplier_def set_multiplier_def HandleUserVoteMultiplierChange_def
    with_write_lock_def Let_def fun_upd_idem)

section \<open>Runs of the server\<close>

text \<open>
  The events of a server under two conditions, without which the counts can go wrong: a client authenticates
  before it votes, which is the order in which \<open>VotingClient.ConnectAsync\<close> does it, and the multiplier of a user
  does not change while a client of the user that holds votes is between the two parts of its disconnection.
  Users are not deleted. Any handler may run on any thread, and votes and other events may come between the
  parts of a disconnection.
\<close>

inductive manager_step :: "manager \<Rightarrow> manager \<Rightarrow> bool" where
  connect: "manager_step s (channel_connected c s)"
| vote: "HandleOperationReceived t c opn s = Done s' \<Longrightarrow> manager_step s s'"
| set_multiplier: "voters_connected u s \<Longrightarrow> SetVoteMultiplier t u new s = Done s' \<Longrightarrow> manager_step s s'"
| login: "clientVotes s c = None \<Longrightarrow> authenticate t c anonymous u s = Done s' \<Longrightarrow> manager_step s s'"
| disconnect: "manager_step s (channel_disconnected c s)"
| clear: "c \<notin> set (ConnectedClients s (ClientUser s c)) \<Longrightarrow> HandleClientDisconnected t c s = Done s' \<Longrightarrow> manager_step s s'"

inductive manager_reachable :: "manager \<Rightarrow> bool" where
  start: "manager_reachable (initial_manager mult anonymous)"
| step: "manager_reachable s \<Longrightarrow> manager_step s s' \<Longrightarrow> manager_reachable s'"

definition good_manager :: "manager \<Rightarrow> bool" where
  "good_manager s \<longleftrightarrow> upgradeable s = None \<and> manager_inv s \<and> tallies_exact s"

lemma good_initial: "good_manager (initial_manager mult anonymous)"
  by (simp add: good_manager_def initial_manager_def manager_inv_def tallies_exact_def GetMetrics_def
    expected_def footprint_of_def footprint_ok_def)

lemma channel_connected_good: "good_manager s \<Longrightarrow> good_manager (channel_connected c s)"
proof -
  assume g: "good_manager s"
  then have inv: "manager_inv s" by (simp add: good_manager_def)
  have fp: "footprint_of (channel_connected c s) = footprint_of s" "tallies (channel_connected c s) = tallies s"
    "clientVotes (channel_connected c s) = clientVotes s" "ClientUser (channel_connected c s) = ClientUser s"
    by (simp_all add: channel_connected_def Let_def)
  have cc: "set (ConnectedClients (channel_connected c s) v) =
      (if v = ClientUser s c then insert c (set (ConnectedClients s v)) else set (ConnectedClients s v))" for v
    by (auto simp: channel_connected_def Let_def)
  have "distinct (ConnectedClients (channel_connected c s) v)" for v
    using manager_invD(3) [OF inv] by (simp add: channel_connected_def Let_def)
  moreover have "ClientUser (channel_connected c s) c' = v"
    if "c' \<in> set (ConnectedClients (channel_connected c s) v)" for c' v
    using that manager_invD(4) [OF inv, of c' v] by (auto simp: fp cc split: if_splits)
  ultimately have "manager_inv (channel_connected c s)"
    by (intro manager_invI) (use manager_invD(1,2) [OF inv] in \<open>simp_all add: fp\<close>)
  with g show ?thesis
    by (simp add: good_manager_def channel_connected_def Let_def tallies_exact_counters)
qed

lemma set_ClientUser_inv:
  assumes "manager_inv s"
  shows "manager_inv (set_ClientUser c u s)"
proof -
  note inv = manager_invD [OF assms]
  have fp: "footprint_of (set_ClientUser c u s) = footprint_of s"
    "tallies (set_ClientUser c u s) = tallies s" "clientVotes (set_ClientUser c u s) = clientVotes s"
    "ClientUser (set_ClientUser c u s) = (ClientUser s)(c := u)"
    by (simp_all add: set_ClientUser_def Let_def footprint_of_def fun_eq_iff)
  have cc: "set (ConnectedClients (set_ClientUser c u s) v) =
      (if v = u then insert c (set (ConnectedClients s v) - {c}) else set (ConnectedClients s v) - {c})" for v
    using inv(4) [of c v] by (auto simp: set_ClientUser_def Let_def)
  have "distinct (ConnectedClients (set_ClientUser c u s) v)" for v
    using inv(3) by (auto simp: set_ClientUser_def Let_def distinct_removeAll)
  moreover have "ClientUser (set_ClientUser c u s) c' = v"
    if "c' \<in> set (ConnectedClients (set_ClientUser c u s) v)" for c' v
    using that inv(4) [of c' v] by (auto simp: fp cc split: if_splits)
  ultimately show ?thesis
    by (intro manager_invI) (use inv(1,2) in \<open>simp_all add: fp\<close>)
qed

lemma authenticate_before_voting:
  assumes "clientVotes s c = None" and "authenticate t c anonymous u s = Done s'"
  shows "s' = set_ClientUser c u s"
proof -
  have "footprint_of (set_ClientUser c u s) c = []"
    using assms(1) by (simp add: footprint_of_def set_ClientUser_def Let_def)
  with assms(2) show ?thesis
    by (auto simp: authenticate_def HandleClientUserChange_def with_upgradeable_lock_def Let_def
      ProcessVoteMultiplierChange_def split: option.splits if_splits)
qed

lemma expected_set_ClientUser:
  assumes "clientVotes s c = None"
  shows "expected weight (set_ClientUser c u s) k = expected weight s k"
  unfolding expected_def
  by (rule sum.cong) (use assms in \<open>auto simp: set_ClientUser_def Let_def footprint_of_def\<close>)

lemma login_good:
  assumes "good_manager s" and "clientVotes s c = None" and "authenticate t c anonymous u s = Done s'"
  shows "good_manager s'"
proof -
  have s': "s' = set_ClientUser c u s" using assms(2,3) by (rule authenticate_before_voting)
  have "counter_of field (set_ClientUser c u s) = counter_of field s" for field
    by (simp add: counter_of_def set_ClientUser_def Let_def fun_eq_iff)
  then show ?thesis
    using assms(1) set_ClientUser_inv
    by (simp add: good_manager_def s' tallies_exact_counters expected_set_ClientUser [OF assms(2)])
      (simp add: set_ClientUser_def Let_def)
qed

lemma set_multiplier_upgradeable: "upgradeable (set_multiplier u new s) = upgradeable s"
  by (simp add: set_multiplier_def)

lemma manager_step_good: "manager_step s s' \<Longrightarrow> good_manager s \<Longrightarrow> good_manager s'"
proof (induction rule: manager_step.induct)
  case (connect s c)
  then show ?case by (rule channel_connected_good)
next
  case (vote t c opn s s')
  then have "s' = operation_received c opn s"
    by (simp add: HandleOperationReceived_def with_write_lock_def good_manager_def)
  with vote show ?case
    by (simp add: good_manager_def operation_received_inv operation_received_exact)
next
  case (set_multiplier u s t new s')
  then have g: "upgradeable s = None" "manager_inv s" "tallies_exact s"
    by (simp_all only: good_manager_def)
  have "s' = set_multiplier u new s \<or> s' = s"
    using SetVoteMultiplier_Done [OF g(1), of t u new] set_multiplier.hyps(2) by auto
  moreover have "good_manager (set_multiplier u new s)"
    unfolding good_manager_def set_multiplier_upgradeable
    by (intro conjI g(1) set_multiplier_inv [OF g(2)] set_multiplier_exact [OF g(2,3) set_multiplier.hyps(1)])
  ultimately show ?case using set_multiplier.prems by blast
next
  case (login s c t anonymous u s')
  show ?case by (rule login_good [OF login.prems login.hyps])
next
  case (disconnect s c)
  then show ?case
    by (simp add: good_manager_def channel_disconnected_inv tallies_exact_counters)
next
  case (clear c s t s')
  then have "s' = client_disconnected c s"
    by (simp add: HandleClientDisconnected_def with_write_lock_def good_manager_def)
  with clear show ?case
    using client_disconnected_exact [OF manager_invD(1,2)] by (simp add: good_manager_def client_disconnected_inv)
qed

lemma manager_reachable_good: "manager_reachable s \<Longrightarrow> good_manager s"
  by (induction rule: manager_reachable.induct) (auto intro: good_initial manager_step_good)

end
