(* ===== verification/CoreProps.thy ===== *)
theory CoreProps
  imports BitPacker VotingManager
begin

text \<open>
  The properties of the C# core: the vote tallies of \<open>VotingManager\<close>, the lock it leaks when a user is
  deleted, the event it cannot process, and the round trips of the packed and serialised messages.
\<close>

section \<open>The tallies\<close>

definition ballot :: OperationType where "ballot = \<lparr>Id = 1, Instructions = []\<rparr>"

definition support :: Operation where "support = \<lparr>Type = ballot, Vote = Support, StateBytes = []\<rparr>"

definition lobby :: manager where
  "lobby = channel_connected 1 (initial_manager (\<lambda>u. if u = 5 then 3 else 1) 0)"

definition voted :: manager where "voted = operation_received 1 support lobby"

lemma voted_reachable: "manager_reachable lobby" "manager_reachable voted"
proof -
  show l: "manager_reachable lobby"
    unfolding lobby_def by (rule manager_reachable.step [OF manager_reachable.start manager_step.connect])
  have "HandleOperationReceived 0 1 support lobby = Done voted"
    by (simp add: HandleOperationReceived_def with_write_lock_def voted_def lobby_def channel_connected_def
        initial_manager_def Let_def)
  then show "manager_reachable voted"
    by (meson l manager_reachable.step manager_step.vote)
qed

lemmas manager_eval = voted_def lobby_def channel_connected_def initial_manager_def operation_received_def support_def
  ballot_def store_tally_def footprint_of_def set_ClientUser_def Let_def authenticate_def HandleClientUserChange_def
  with_upgradeable_lock_def with_write_lock_def ProcessVoteMultiplierChange_def GetMetrics_def tallies_exact_def
  expected_def footprint_weight_def channel_disconnected_def SetVoteMultiplier_def HandleUserVoteMultiplierChange_def
  HandleClientDisconnected_def client_disconnected_def affected_operations_def

text \<open>
  C1: In a run of connections, votes, logins, changes of a user's multiplier and disconnections, in any order and
  from any thread, in which every client logs in before its first vote and no multiplier changes while a client
  of the user that holds votes is between the two parts of its disconnection: the voters and the supporters that
  \<open>GetMetrics\<close> reports for every operation type are the sums, over the clients whose votes are held, of the
  multiplier of the client's user for votes that count there. Both conditions are needed
  (\<open>authenticate_after_vote_breaks_tally\<close>, \<open>multiplier_change_during_disconnect\<close>).
\<close>

theorem tallies_exact_when_reachable:
  assumes "manager_reachable s"
  shows "GetMetrics s k = (expected voters_weight s k, expected supporters_weight s k)"
  using manager_reachable_good [OF assms] by (simp add: good_manager_def tallies_exact_def)

lemma tallies_exact_when_reachable_witness: "GetMetrics voted 1 = (1, 1) \<and> expected voters_weight voted 1 = 1"
proof -
  have "GetMetrics voted 1 = (1, 1)" by (simp add: manager_eval)
  with tallies_exact_when_reachable [OF voted_reachable(2), of 1] show ?thesis by simp
qed

text \<open>
  A client that authenticates as a user with another multiplier after it has voted makes the handler
  of \<open>OnClientUserChange\<close> enter the write lock twice: \<open>LockRecursionException\<close> is thrown after the
  client's user has changed and before any tally has, so the tallies are wrong from then on.
\<close>

theorem authenticate_after_vote_breaks_tally:
  "\<exists>s. authenticate t 1 0 5 voted = LockRecursionException s \<and> ClientUser s 1 = 5
     \<and> GetMetrics s 1 = (1, 1) \<and> (expected voters_weight s 1, expected supporters_weight s 1) = (3, 3)"
  by (simp add: manager_eval)

text \<open>
  A disconnection is two steps, and a change of the multiplier between them is counted wrongly: the
  server removes the client from its user, the multiplier changes without touching the client's votes,
  and the thread that clears them then subtracts the new multiplier. The vote of the only client leaves
  a tally of 1 - 7 voters with no vote held.
\<close>

theorem multiplier_change_during_disconnect:
  "\<exists>s1 s2. SetVoteMultiplier t 0 7 (channel_disconnected 1 voted) = Done s1
     \<and> HandleClientDisconnected t' 1 s1 = Done s2 \<and> GetMetrics s2 1 = (- 6, - 6) \<and> dom (clientVotes s2) = {}"
  by (simp add: manager_eval)

text \<open>
  The handler of \<open>OnUserDeleted\<close> keeps the upgradeable lock. Afterwards no other thread gets past
  the manager's locks: no vote, no disconnection and no change of a multiplier is ever processed on
  another thread, and the next deletion on the same thread throws.
\<close>

theorem user_deletion_blocks_the_manager:
  assumes "HandleUserDeleted t s = Done s'" and "t' \<noteq> t"
  shows "HandleOperationReceived t' c opn s' = Blocked \<and> HandleClientDisconnected t' c s' = Blocked
    \<and> HandleUserVoteMultiplierChange t' u original new s' = Blocked \<and> HandleUserDeleted t' s' = Blocked
    \<and> HandleUserDeleted t s' = LockRecursionException s'"
  using assms
  by (auto simp: HandleUserDeleted_def with_upgradeable_lock_def with_write_lock_def HandleOperationReceived_def
      HandleClientDisconnected_def HandleUserVoteMultiplierChange_def Let_def split: option.splits if_splits)

lemma user_deletion_blocks_the_manager_witness:
  "\<exists>s'. HandleUserDeleted 0 voted = Done s' \<and> HandleOperationReceived 1 1 support s' = Blocked"
proof -
  obtain s' where s': "HandleUserDeleted 0 voted = Done s'"
    by (simp add: HandleUserDeleted_def manager_eval)
  with user_deletion_blocks_the_manager [OF s', of 1] show ?thesis by auto
qed

section \<open>Messages\<close>

text \<open>Unpacking a packed stream gives back the leading bit and every byte.\<close>

theorem Unpack_Pack: "Unpack (Pack b data) = (if b = 1 then 1 else 0, data)"
  by (rule Unpack_Pack_aux)

definition templates :: "OperationType list" where "templates = [ballot, \<lparr>Id = 2, Instructions = [9]\<rparr>]"

text \<open>
  C21: What a client serialises for one of the server's templates, the server reads back as the same vote
  and state bytes on its own template, and it stops exactly at the end of the message.
\<close>

theorem server_reads_what_client_wrote:
  assumes "ids_are_positions opList" and "ty \<in> set opList" and "cId (cType c) = Id ty"
    and "vote_canonical (cVote c)" and "length (cStateBytes c) < 2 ^ 31" and "ClientSerialize c = Some bs"
  shows "Deserialize opList (bs @ rest) = Inr (Some \<lparr>Type = ty, Vote = cVote c, StateBytes = cStateBytes c\<rparr>, rest)"
  by (rule Deserialize_ClientSerialize [OF assms])

lemma server_reads_what_client_wrote_witness:
  "Deserialize templates ([1, 0, 0, 0, 0, 0, 0, 0, 1, 2, 0, 0, 0, 7, 8] @ [5]) =
     Inr (Some \<lparr>Type = ballot, Vote = Support, StateBytes = [7, 8]\<rparr>, [5])"
proof -
  let ?c = "\<lparr>cType = \<lparr>cId = 1, cInstructions = [], cTypeDisposed = False\<rparr>, cVote = Support,
              cStateBytes = [7, 8], cDisposed = False\<rparr>"
  have "ids_are_positions templates"
    by (auto simp: ids_are_positions_def templates_def ballot_def nth_Cons split: nat.splits)
  moreover have "ClientSerialize ?c = Some [1, 0, 0, 0, 0, 0, 0, 0, 1, 2, 0, 0, 0, 7, 8]"
    by (simp add: ClientSerialize_def WriteInt64_def WriteInt32_def le_bytes_def upt_rec)
  ultimately show ?thesis
    using server_reads_what_client_wrote [of templates ballot ?c _ "[5]"]
    by (simp add: templates_def ballot_def)
qed

text \<open>
  The instruction profile a server writes (its keys and its limit of inactivity) is what the client
  reads, for every list of keys that fits the format and every limit the .NET conversion keeps.
\<close>

theorem instructions_round_trip:
  assumes "list_all str_ok keys" and "length keys < 2 ^ 63"
    and "\<And>t. afk = Some t \<Longrightarrow> from_ms (to_ms t) = Some t"
  shows "DeserializeInstructions from_ms (SerializeInstructions to_ms keys afk) = Inr (keys, afk)"
  by (rule Deserialize_SerializeInstructions [OF assms])

lemma instructions_round_trip_witness:
  "DeserializeInstructions Some (SerializeInstructions id [[107], [65, 66]] (Some 5)) = Inr ([[107], [65, 66]], Some 5)"
  by (rule instructions_round_trip) (simp_all add: str_ok_def)

end
