(* ===== verification/Utf8.thy ===== *)
theory Utf8
  imports Prelude
begin

unbundle bit_operations_syntax

text \<open>
  The string transcoding of \<open>page/html/_framework/dotnet.native.686cmdkyav.js\<close>: how a JavaScript
  string crosses into the WebAssembly heap and back. A JavaScript string is its list of UTF-16 code
  units, a heap its list of bytes; a store past the end of a typed array has no effect, which is what
  \<open>list_update\<close> does there. A number the code computes with bit operators stays below \<open>2 ^ 31\<close>, so it
  is a \<^typ>\<open>nat\<close>.
\<close>

type_synonym js_units = "u16 list"
type_synonym heap = "u8 list"

abbreviation byte :: "nat \<Rightarrow> u8" where "byte n \<equiv> of_nat n"

definition is_surrogate :: "nat \<Rightarrow> bool" where
  "is_surrogate u \<longleftrightarrow> 0xD800 \<le> u \<and> u \<le> 0xDFFF"

text \<open>\<open>charCodeAt\<close> past the end is \<open>NaN\<close>, which \<open>&\<close> reads as 0.\<close>

definition pair_code_point :: "nat \<Rightarrow> js_units \<Rightarrow> nat" where
  "pair_code_point u rest =
     (let u1 = (case rest of [] \<Rightarrow> 0 | c # _ \<Rightarrow> unat c)
      in (0x10000 + push_bit 10 (u AND 0x3FF)) OR (u1 AND 0x3FF))"

definition code_point :: "u16 \<Rightarrow> js_units \<Rightarrow> nat" where
  "code_point c rest = (if is_surrogate (unat c) then pair_code_point (unat c) rest else unat c)"

definition after_code_point :: "u16 \<Rightarrow> js_units \<Rightarrow> js_units" where
  "after_code_point c rest = (if is_surrogate (unat c) then drop 1 rest else rest)"

lemma after_code_point_length [simp]: "length (after_code_point c rest) \<le> length rest"
  by (simp add: after_code_point_def)

section \<open>Measuring and writing\<close>

fun lengthBytesUTF8 :: "js_units \<Rightarrow> nat" where
  "lengthBytesUTF8 [] = 0"
| "lengthBytesUTF8 (c # str) =
     (let u = unat c in
      if u \<le> 0x7F then 1 + lengthBytesUTF8 str
      else if u \<le> 0x7FF then 2 + lengthBytesUTF8 str
      else if 0xD800 \<le> u \<and> u \<le> 0xDFFF then 4 + lengthBytesUTF8 (drop 1 str)
      else 3 + lengthBytesUTF8 str)"

text \<open>The bytes one code point is written as.\<close>

definition utf8_bytes :: "nat \<Rightarrow> u8 list" where
  "utf8_bytes u =
     (if u \<le> 0x7F then [byte u]
      else if u \<le> 0x7FF then [byte (0xC0 OR drop_bit 6 u), byte (0x80 OR (u AND 63))]
      else if u \<le> 0xFFFF then
        [byte (0xE0 OR drop_bit 12 u), byte (0x80 OR (drop_bit 6 u AND 63)), byte (0x80 OR (u AND 63))]
      else
        [byte (0xF0 OR drop_bit 18 u), byte (0x80 OR (drop_bit 12 u AND 63)),
         byte (0x80 OR (drop_bit 6 u AND 63)), byte (0x80 OR (u AND 63))])"

fun write_bytes :: "heap \<Rightarrow> nat \<Rightarrow> u8 list \<Rightarrow> heap" where
  "write_bytes heap outIdx [] = heap"
| "write_bytes heap outIdx (b # bs) = write_bytes (heap[outIdx := b]) (outIdx + 1) bs"

function utf8_loop :: "js_units \<Rightarrow> heap \<Rightarrow> nat \<Rightarrow> nat \<Rightarrow> heap \<times> nat" where
  "utf8_loop [] heap outIdx endIdx = (heap, outIdx)"
| "utf8_loop (c # str) heap outIdx endIdx =
     (let bs = utf8_bytes (code_point c str) in
      if outIdx + (length bs - 1) \<ge> endIdx then (heap, outIdx)
      else utf8_loop (after_code_point c str) (write_bytes heap outIdx bs) (outIdx + length bs) endIdx)"
  by pat_completeness auto
termination
  by (relation "measure (length o fst)") (auto simp: le_imp_less_Suc)

text \<open>A negative limit behaves as 0, so the limit is a \<^typ>\<open>nat\<close>.\<close>

definition stringToUTF8Array :: "js_units \<Rightarrow> heap \<Rightarrow> nat \<Rightarrow> nat \<Rightarrow> heap \<times> nat" where
  "stringToUTF8Array str heap outIdx maxBytesToWrite =
     (if \<not> maxBytesToWrite > 0 then (heap, 0)
      else let (heap', out') = utf8_loop str heap outIdx (outIdx + maxBytesToWrite - 1)
           in (heap'[out' := 0], out' - outIdx))"

definition intArrayFromString :: "js_units \<Rightarrow> bool \<Rightarrow> nat \<Rightarrow> u8 list" where
  "intArrayFromString stringy dontAddNull len0 =
     (let len = (if len0 > 0 then len0 else lengthBytesUTF8 stringy + 1);
          (u8array, numBytesWritten) = stringToUTF8Array stringy (replicate len 0) 0 len
      in if dontAddNull then take numBytesWritten u8array else u8array)"

section \<open>Reading\<close>

text \<open>A read past the end is \<open>undefined\<close>, which \<open>&\<close> reads as 0.\<close>

definition byte_at :: "heap \<Rightarrow> nat \<Rightarrow> nat" where
  "byte_at heap i = (if i < length heap then unat (heap ! i) else 0)"

function scan_end :: "heap \<Rightarrow> nat \<Rightarrow> nat option \<Rightarrow> nat" where
  "scan_end heap endPtr endIdx =
     (if byte_at heap endPtr \<noteq> 0 \<and> \<not> (case endIdx of None \<Rightarrow> False | Some e \<Rightarrow> endPtr \<ge> e)
      then scan_end heap (endPtr + 1) endIdx else endPtr)"
  by pat_completeness auto
termination
  by (relation "measure (\<lambda>(heap, endPtr, _). length heap - endPtr)") (auto simp: byte_at_def split: if_splits)

definition fromCharCode :: "nat \<Rightarrow> u16" where
  "fromCharCode u = of_nat u"

text \<open>One round of the decoding loop: the units it appends, and the next index.\<close>

definition decode_step :: "heap \<Rightarrow> nat \<Rightarrow> js_units \<times> nat" where
  "decode_step heap idx =
     (let u0 = byte_at heap idx in
      if u0 AND 0x80 = 0 then ([fromCharCode u0], idx + 1)
      else let u1 = byte_at heap (idx + 1) AND 63 in
      if u0 AND 0xE0 = 0xC0 then ([fromCharCode (push_bit 6 (u0 AND 31) OR u1)], idx + 2)
      else let u2 = byte_at heap (idx + 2) AND 63;
               (v, next) =
                 (if u0 AND 0xF0 = 0xE0 then (push_bit 12 (u0 AND 15) OR push_bit 6 u1 OR u2, idx + 3)
                  else (push_bit 18 (u0 AND 7) OR push_bit 12 u1 OR push_bit 6 u2
                          OR (byte_at heap (idx + 3) AND 63), idx + 4))
      in if v < 0x10000 then ([fromCharCode v], next)
         else let ch = v - 0x10000
              in ([fromCharCode (0xD800 OR drop_bit 10 ch), fromCharCode (0xDC00 OR (ch AND 0x3FF))], next))"

lemma decode_step_advances: "idx < snd (decode_step heap idx)"
  by (auto simp: decode_step_def Let_def)

function decode_loop :: "heap \<Rightarrow> nat \<Rightarrow> nat \<Rightarrow> js_units" where
  "decode_loop heap idx endPtr =
     (if idx < endPtr
      then fst (decode_step heap idx) @ decode_loop heap (snd (decode_step heap idx)) endPtr
      else [])"
  by pat_completeness auto
termination
  by (relation "measure (\<lambda>(_, idx, endPtr). endPtr - idx)") (auto intro: diff_less_mono2 decode_step_advances)

declare scan_end.simps [simp del] and decode_loop.simps [simp del]

text \<open>
  \<open>decoder\<close> is the browser's \<open>TextDecoder\<close> where there is one and the array is a typed array.
\<close>

definition UTF8ArrayToString ::
  "(u8 list \<Rightarrow> js_units) option \<Rightarrow> heap \<Rightarrow> nat \<Rightarrow> nat option \<Rightarrow> js_units" where
  "UTF8ArrayToString decoder heap idx maxBytesToRead =
     (let endPtr = scan_end heap idx (map_option (\<lambda>m. idx + m) maxBytesToRead) in
      case decoder of
        Some decode \<Rightarrow> if endPtr - idx > 16 then decode (take (endPtr - idx) (drop idx heap))
                        else decode_loop heap idx endPtr
      | None \<Rightarrow> decode_loop heap idx endPtr)"

definition UTF8ToString ::
  "(u8 list \<Rightarrow> js_units) option \<Rightarrow> heap \<Rightarrow> nat \<Rightarrow> nat option \<Rightarrow> js_units" where
  "UTF8ToString decoder HEAPU8 ptr maxBytesToRead =
     (if ptr \<noteq> 0 then UTF8ArrayToString decoder HEAPU8 ptr maxBytesToRead else [])"

section \<open>Bit arithmetic of UTF-8\<close>

lemma and_masks: "(u::nat) AND 63 = u mod 64" "u AND 31 = u mod 32" "u AND 15 = u mod 16"
  "u AND 7 = u mod 8" "u AND 0x3FF = u mod 1024"
  using take_bit_eq_mask [of 6 u] take_bit_eq_mask [of 5 u] take_bit_eq_mask [of 4 u]
    take_bit_eq_mask [of 3 u] take_bit_eq_mask [of 10 u]
  by (simp_all add: take_bit_eq_mod mask_eq_exp_minus_1)

lemma or_is_add: "b < 2 ^ n \<Longrightarrow> push_bit n a OR b = a * 2 ^ n + (b :: nat)"
proof -
  assume b: "b < 2 ^ n"
  have "push_bit n a AND take_bit n b = 0"
    by (rule bit_eqI) (simp add: bit_simps)
  with b have "push_bit n a AND b = 0" by (simp add: take_bit_nat_eq_self)
  then have "push_bit n a + b = push_bit n a OR b" by (rule disjunctive_add_eq_or)
  then show ?thesis by (simp only: push_bit_eq_mult)
qed

lemma lead_bytes:
  "x < 64 \<Longrightarrow> 0x80 OR x = 128 + (x :: nat)"
  "x < 32 \<Longrightarrow> 0xC0 OR x = 192 + x"
  "x < 16 \<Longrightarrow> 0xE0 OR x = 224 + x"
  "x < 8 \<Longrightarrow> 0xF0 OR x = 240 + x"
  "x < 1024 \<Longrightarrow> 0xD800 OR x = 0xD800 + x"
  "x < 1024 \<Longrightarrow> 0xDC00 OR x = 0xDC00 + x"
  using or_is_add [of x 6 2] or_is_add [of x 5 6] or_is_add [of x 4 14] or_is_add [of x 3 30]
    or_is_add [of x 10 54] or_is_add [of x 10 55]
  by (simp_all add: push_bit_eq_mult)

lemma and_field: "(u::nat) AND push_bit n (mask m) = (u div 2 ^ n mod 2 ^ m) * 2 ^ n"
proof -
  have "u AND push_bit n (mask m) = push_bit n (take_bit m (drop_bit n u))"
    by (rule bit_eqI) (auto simp: bit_simps)
  then show ?thesis by (simp only: push_bit_eq_mult take_bit_eq_mod drop_bit_eq_div)
qed

lemma lead_tests:
  assumes "(u :: nat) < 256"
  shows "u AND 0x80 = 0 \<longleftrightarrow> u < 128" "u AND 0xE0 = 0xC0 \<longleftrightarrow> 192 \<le> u \<and> u < 224"
    "u AND 0xF0 = 0xE0 \<longleftrightarrow> 224 \<le> u \<and> u < 240"
proof -
  have "u AND 0x80 = (u div 128 mod 2) * 128" "u AND 0xE0 = (u div 32 mod 8) * 32"
    "u AND 0xF0 = (u div 16 mod 16) * 16"
    using and_field [of u 7 1] and_field [of u 5 3] and_field [of u 4 4]
    by (simp_all add: push_bit_eq_mult mask_eq_exp_minus_1)
  moreover have "u div 128 < 2" "u div 32 < 8" "u div 16 < 16" using assms by auto
  ultimately have *: "u AND 0x80 = (u div 128) * 128" "u AND 0xE0 = (u div 32) * 32"
    "u AND 0xF0 = (u div 16) * 16"
    by simp_all
  show "u AND 0x80 = 0 \<longleftrightarrow> u < 128" using *(1) by auto
  show "u AND 0xE0 = 0xC0 \<longleftrightarrow> 192 \<le> u \<and> u < 224" using *(2) by auto
  show "u AND 0xF0 = 0xE0 \<longleftrightarrow> 224 \<le> u \<and> u < 240" using *(3) by auto
qed

lemma unat_byte [simp]: "n < 256 \<Longrightarrow> unat (byte n) = n"
  by (simp add: unat_of_nat)

lemma utf8_bytes_arith:
  assumes "u < 0x110000"
  shows "utf8_bytes u =
     (if u \<le> 0x7F then [byte u]
      else if u \<le> 0x7FF then [byte (192 + u div 64), byte (128 + u mod 64)]
      else if u \<le> 0xFFFF then [byte (224 + u div 4096), byte (128 + u div 64 mod 64), byte (128 + u mod 64)]
      else [byte (240 + u div 262144), byte (128 + u div 4096 mod 64), byte (128 + u div 64 mod 64),
            byte (128 + u mod 64)])"
proof -
  have "u \<le> 0x7FF \<Longrightarrow> u div 64 < 32" "u \<le> 0xFFFF \<Longrightarrow> u div 4096 < 16" "u div 262144 < 8"
    using assms by auto
  then show ?thesis
    by (simp add: utf8_bytes_def drop_bit_eq_div and_masks lead_bytes)
qed

lemma length_utf8_bytes:
  "length (utf8_bytes u) = (if u \<le> 0x7F then 1 else if u \<le> 0x7FF then 2 else if u \<le> 0xFFFF then 3 else 4)"
  by (simp add: utf8_bytes_def)

lemma utf8_bytes_nonempty [simp]: "0 < length (utf8_bytes u)" "utf8_bytes u \<noteq> []"
  by (auto simp: utf8_bytes_def)

definition code_units :: "nat \<Rightarrow> js_units" where
  "code_units u =
     (if u < 0x10000 then [of_nat u]
      else [of_nat (0xD800 + (u - 0x10000) div 1024), of_nat (0xDC00 + (u - 0x10000) mod 1024)])"

lemma byte_at_nth: "take (length bs) (drop idx heap) = bs \<Longrightarrow> i < length bs \<Longrightarrow> byte_at heap (idx + i) = unat (bs ! i)"
proof -
  assume t: "take (length bs) (drop idx heap) = bs" and i: "i < length bs"
  have "length bs \<le> length heap - idx" using arg_cong [OF t, of length] by simp
  with i have "idx + i < length heap" by linarith
  then have "heap ! (idx + i) = take (length bs) (drop idx heap) ! i" using i by simp
  with t \<open>idx + i < length heap\<close> show ?thesis by (simp add: byte_at_def)
qed

lemma strip_lead: "x < m \<Longrightarrow> (k * m + x) mod m = (x :: nat)"
  by simp

lemma six_bits: "(128 + x mod 64) mod 64 = (x mod 64 :: nat)"
  using strip_lead [of "x mod 64" 64 2] by simp

lemma strip_six: "x < 64 \<Longrightarrow> (128 + x) mod 64 = (x :: nat)"
  using strip_lead [of x 64 2] by simp

lemma decode_two:
  assumes "byte_at heap idx = 192 + a" "byte_at heap (idx + 1) = 128 + b" and "a < 32" "b < 64"
  shows "decode_step heap idx = ([of_nat (a * 64 + b)], idx + 2)"
proof -
  have "(192 + a) mod 32 = a" using assms strip_lead [of a 32 6] by simp
  then show ?thesis
    using assms or_is_add [of b 6 a]
    by (simp add: decode_step_def lead_tests and_masks strip_six fromCharCode_def)
qed

lemma decode_three:
  assumes "byte_at heap idx = 224 + a" "byte_at heap (idx + 1) = 128 + b" "byte_at heap (idx + 2) = 128 + c"
    and "a < 16" "b < 64" "c < 64"
  shows "decode_step heap idx = ([of_nat (a * 4096 + b * 64 + c)], idx + 3)"
proof -
  have "(224 + a) mod 16 = a" using assms strip_lead [of a 16 14] by simp
  moreover have "push_bit 12 a OR push_bit 6 b OR c = a * 4096 + b * 64 + c"
    using assms or_is_add [of c 6 b] or_is_add [of "b * 64 + c" 12 a] by (simp add: or.assoc)
  ultimately show ?thesis
    using assms by (simp add: decode_step_def lead_tests and_masks strip_six fromCharCode_def)
qed

lemma decode_four:
  assumes "byte_at heap idx = 240 + a" "byte_at heap (idx + 1) = 128 + b" "byte_at heap (idx + 2) = 128 + c"
    "byte_at heap (idx + 3) = 128 + d" and "a < 8" "b < 64" "c < 64" "d < 64"
    and v: "v = a * 262144 + b * 4096 + c * 64 + d" "0x10000 \<le> v" "v < 0x110000"
  shows "decode_step heap idx = (code_units v, idx + 4)"
proof -
  have "(240 + a) mod 8 = a" using assms strip_lead [of a 8 30] by simp
  moreover have "push_bit 18 a OR push_bit 12 b OR push_bit 6 c OR d = v"
    using assms or_is_add [of d 6 c] or_is_add [of "c * 64 + d" 12 b] or_is_add [of "b * 4096 + (c * 64 + d)" 18 a]
    by (simp add: or.assoc)
  moreover have "(v - 0x10000) div 1024 < 1024" using v by auto
  ultimately show ?thesis
    using assms(1-8) v(2)
    by (simp add: decode_step_def lead_tests and_masks strip_six fromCharCode_def code_units_def
        drop_bit_eq_div lead_bytes Let_def del: of_nat_add)
qed

lemma decode_step_encoded:
  assumes u: "u < 0x110000" and at: "take (length (utf8_bytes u)) (drop idx heap) = utf8_bytes u"
  shows "decode_step heap idx = (code_units u, idx + length (utf8_bytes u))"
proof -
  note nth = byte_at_nth [OF at]
  consider "u \<le> 0x7F" | "0x7F < u" "u \<le> 0x7FF" | "0x7FF < u" "u \<le> 0xFFFF" | "0xFFFF < u" by linarith
  then show ?thesis
  proof cases
    case 1
    then show ?thesis
      using nth [of 0]
      by (simp add: utf8_bytes_arith [OF u] decode_step_def lead_tests code_units_def fromCharCode_def)
  next
    case 2
    then have "byte_at heap idx = 192 + u div 64" "byte_at heap (idx + 1) = 128 + u mod 64" "u div 64 < 32"
      using nth [of 0] nth [of 1] by (auto simp: utf8_bytes_arith [OF u] simp del: of_nat_add)
    from decode_two [OF this] 2 show ?thesis
      by (simp add: code_units_def length_utf8_bytes)
  next
    case 3
    then have "byte_at heap idx = 224 + u div 4096" "byte_at heap (idx + 1) = 128 + u div 64 mod 64"
      "byte_at heap (idx + 2) = 128 + u mod 64" "u div 4096 < 16"
      using nth [of 0] nth [of 1] nth [of 2]
      by (auto simp: utf8_bytes_arith [OF u] nth_Cons' simp del: of_nat_add)
    moreover have "u div 4096 * 4096 + u div 64 mod 64 * 64 + u mod 64 = u"
      using mod_mult2_eq [of u 64 64] div_mult_mod_eq [of u 4096] by simp
    ultimately show ?thesis
      using decode_three [of heap idx "u div 4096" "u div 64 mod 64" "u mod 64"] 3
      by (simp add: code_units_def length_utf8_bytes del: of_nat_add)
  next
    case 4
    then have "byte_at heap idx = 240 + u div 262144" "byte_at heap (idx + 1) = 128 + u div 4096 mod 64"
      "byte_at heap (idx + 2) = 128 + u div 64 mod 64" "byte_at heap (idx + 3) = 128 + u mod 64"
      "u div 262144 < 8"
      using nth [of 0] nth [of 1] nth [of 2] nth [of 3] u
      by (auto simp: utf8_bytes_arith [OF u] nth_Cons' simp del: of_nat_add)
    moreover have "u = u div 262144 * 262144 + u div 4096 mod 64 * 4096 + u div 64 mod 64 * 64 + u mod 64"
      using mod_mult2_eq [of u 64 64] mod_mult2_eq [of u 4096 64] div_mult_mod_eq [of u 262144] by simp
    ultimately show ?thesis
      using decode_four [of heap idx "u div 262144" "u div 4096 mod 64" "u div 64 mod 64" "u mod 64" u] 4 u
      by (simp add: length_utf8_bytes)
  qed
qed

section \<open>The whole string\<close>

fun utf8_encode :: "js_units \<Rightarrow> u8 list" where
  "utf8_encode [] = []"
| "utf8_encode (c # str) = utf8_bytes (code_point c str) @ utf8_encode (after_code_point c str)"

text \<open>The longest prefix of whole code points whose bytes fit in \<open>n\<close> bytes.\<close>

fun utf8_prefix :: "js_units \<Rightarrow> nat \<Rightarrow> u8 list" where
  "utf8_prefix [] n = []"
| "utf8_prefix (c # str) n =
     (let bs = utf8_bytes (code_point c str)
      in if length bs > n then [] else bs @ utf8_prefix (after_code_point c str) (n - length bs))"

lemma pair_code_point_range: "0x10000 \<le> pair_code_point u rest" "pair_code_point u rest < 0x110000"
proof -
  define a where "a = u mod 1024"
  define b where "b = (case rest of [] \<Rightarrow> 0 | c # _ \<Rightarrow> unat c) mod 1024"
  have "pair_code_point u rest = push_bit 10 (64 + a) OR b"
    by (simp add: pair_code_point_def and_masks a_def b_def push_bit_eq_mult)
  then have "pair_code_point u rest = (64 + a) * 1024 + b" using or_is_add [of b 10] by (simp add: b_def)
  moreover have "a < 1024" "b < 1024" by (simp_all add: a_def b_def)
  ultimately show "0x10000 \<le> pair_code_point u rest" "pair_code_point u rest < 0x110000" by simp_all
qed

lemma code_point_range: "code_point c rest < 0x110000"
  using u16_cases_bound [of c] pair_code_point_range by (auto simp: code_point_def intro: less_trans)

lemma length_utf8_encode: "length (utf8_encode str) = lengthBytesUTF8 str"
proof (induction str rule: utf8_encode.induct)
  case (2 c str)
  have "unat c < 65536" by (rule u16_cases_bound)
  with 2 show ?case
    using pair_code_point_range [of "unat c" str]
    by (auto simp: length_utf8_bytes code_point_def after_code_point_def is_surrogate_def Let_def)
qed simp

lemma utf8_prefix_length: "length (utf8_prefix str n) \<le> n"
  by (induction str n rule: utf8_prefix.induct) (auto simp: Let_def)

lemma utf8_prefix_all: "length (utf8_encode str) \<le> n \<Longrightarrow> utf8_prefix str n = utf8_encode str"
  by (induction str n rule: utf8_prefix.induct) (auto simp: Let_def)

lemma write_bytes_eq:
  "outIdx + length bs \<le> length heap \<Longrightarrow>
   write_bytes heap outIdx bs = take outIdx heap @ bs @ drop (outIdx + length bs) heap"
proof (induction bs arbitrary: heap outIdx)
  case (Cons b bs)
  then show ?case
    by (simp add: take_Suc_conv_app_nth drop_update_cancel)
qed simp

lemma write_bytes_append:
  "write_bytes heap outIdx (bs @ bs') = write_bytes (write_bytes heap outIdx bs) (outIdx + length bs) bs'"
  by (induction bs arbitrary: heap outIdx) simp_all

lemma utf8_loop_eq:
  "outIdx \<le> endIdx \<Longrightarrow>
   utf8_loop str heap outIdx endIdx =
     (write_bytes heap outIdx (utf8_prefix str (endIdx - outIdx)), outIdx + length (utf8_prefix str (endIdx - outIdx)))"
proof (induction str heap outIdx endIdx rule: utf8_loop.induct)
  case (2 c str heap outIdx endIdx)
  let ?bs = "utf8_bytes (code_point c str)"
  have "0 < length ?bs" by simp
  then have iff: "outIdx + (length ?bs - 1) \<ge> endIdx \<longleftrightarrow> length ?bs > endIdx - outIdx"
    using 2(2) by linarith
  show ?case
  proof (cases "length ?bs > endIdx - outIdx")
    case True
    with iff show ?thesis by (simp add: Let_def)
  next
    case False
    with iff have "\<not> outIdx + (length ?bs - 1) \<ge> endIdx" by simp
    from 2(1) [OF refl this] False show ?thesis
      using \<open>\<not> outIdx + (length ?bs - 1) \<ge> endIdx\<close>
      by (simp add: Let_def write_bytes_append del: One_nat_def)
  qed
qed simp

lemma stringToUTF8Array_heap:
  fixes str :: js_units
  assumes "0 < maxBytesToWrite" and "outIdx + maxBytesToWrite \<le> length heap"
  defines "bs \<equiv> utf8_prefix str (maxBytesToWrite - 1)"
  shows "stringToUTF8Array str heap outIdx maxBytesToWrite =
      (take outIdx heap @ bs @ [0] @ drop (outIdx + length bs + 1) heap, length bs)"
proof -
  have "length bs \<le> maxBytesToWrite - 1" unfolding bs_def by (rule utf8_prefix_length)
  then have fits: "outIdx + length bs < length heap" using assms(1,2) by linarith
  then have "write_bytes heap outIdx bs = take outIdx heap @ bs @ drop (outIdx + length bs) heap"
    by (simp add: write_bytes_eq)
  moreover have "drop (outIdx + length bs) heap = heap ! (outIdx + length bs) # drop (outIdx + length bs + 1) heap"
    using fits by (simp add: Cons_nth_drop_Suc)
  moreover have "utf8_loop str heap outIdx (outIdx + maxBytesToWrite - 1) = (write_bytes heap outIdx bs, outIdx + length bs)"
    using assms(1) utf8_loop_eq [of outIdx "outIdx + maxBytesToWrite - 1" str heap] by (simp add: bs_def)
  ultimately show ?thesis
    using assms(1) fits by (simp add: stringToUTF8Array_def list_update_append)
qed

fun well_formed :: "js_units \<Rightarrow> bool" where
  "well_formed [] = True"
| "well_formed (c # str) =
     (if 0xD800 \<le> unat c \<and> unat c \<le> 0xDBFF
      then (case str of [] \<Rightarrow> False | d # str' \<Rightarrow> 0xDC00 \<le> unat d \<and> unat d \<le> 0xDFFF \<and> well_formed str')
      else \<not> (0xDC00 \<le> unat c \<and> unat c \<le> 0xDFFF) \<and> well_formed str)"

lemma pair_units:
  assumes "0xD800 \<le> unat c" "unat c \<le> 0xDBFF" "0xDC00 \<le> unat d" "unat d \<le> 0xDFFF"
  shows "code_units (pair_code_point (unat c) (d # rest)) = [c, d]"
proof -
  define a where "a = unat c - 0xD800"
  define b where "b = unat d - 0xDC00"
  have ab: "unat c = 0xD800 + a" "unat d = 0xDC00 + b" "a < 1024" "b < 1024"
    using assms by (simp_all add: a_def b_def)
  have "unat c mod 1024 = a" "unat d mod 1024 = b"
    using ab strip_lead [of a 1024 54] strip_lead [of b 1024 55] by simp_all
  then have "pair_code_point (unat c) (d # rest) = push_bit 10 (64 + a) OR b"
    by (simp add: pair_code_point_def and_masks push_bit_eq_mult)
  also have "\<dots> = (64 + a) * 1024 + b" using or_is_add [of b 10] ab by simp
  finally have v: "pair_code_point (unat c) (d # rest) = 0x10000 + (a * 1024 + b)" by simp
  have "(of_nat (0xD800 + a) :: u16) = c" "(of_nat (0xDC00 + b) :: u16) = d"
    by (simp_all only: ab(1,2) [symmetric]) simp_all
  then show ?thesis using ab(3,4) by (simp add: v code_units_def del: of_nat_add)
qed

lemma well_formed_step:
  assumes "well_formed (c # str)"
  shows "code_units (code_point c str) @ after_code_point c str = c # str" "well_formed (after_code_point c str)"
proof -
  have "unat c < 65536" by (rule u16_cases_bound)
  then show "code_units (code_point c str) @ after_code_point c str = c # str"
    using assms pair_units [of c "hd str" "tl str"]
    by (cases str) (auto simp: code_point_def after_code_point_def is_surrogate_def code_units_def
      split: if_splits)
  show "well_formed (after_code_point c str)"
    using assms by (cases str) (auto simp: after_code_point_def is_surrogate_def split: if_splits)
qed

lemma take_drop_append:
  "take (length (xs @ ys)) (drop i h) = xs @ ys \<Longrightarrow>
   take (length xs) (drop i h) = xs \<and> take (length ys) (drop (i + length xs) h) = ys"
proof -
  assume t: "take (length (xs @ ys)) (drop i h) = xs @ ys"
  then obtain r where r: "drop i h = xs @ ys @ r"
    using append_take_drop_id [of "length (xs @ ys)" "drop i h"] by (metis append.assoc)
  moreover have "drop (i + length xs) h = drop (length xs) (drop i h)" by (simp add: add.commute)
  ultimately show ?thesis by simp
qed

lemma decode_loop_encode:
  "well_formed str \<Longrightarrow> take (length (utf8_encode str)) (drop idx heap) = utf8_encode str \<Longrightarrow>
   decode_loop heap idx (idx + length (utf8_encode str)) = str"
proof (induction str arbitrary: idx rule: utf8_encode.induct)
  case (2 c str)
  let ?u = "code_point c str"
  note parts = take_drop_append [OF 2(3) [unfolded utf8_encode.simps]]
  have step: "decode_step heap idx = (code_units ?u, idx + length (utf8_bytes ?u))"
    using parts by (intro decode_step_encoded code_point_range) blast
  have "decode_loop heap (idx + length (utf8_bytes ?u))
      (idx + length (utf8_bytes ?u) + length (utf8_encode (after_code_point c str))) = after_code_point c str"
    using parts by (intro 2(1) well_formed_step(2) [OF 2(2)]) blast
  then show ?case
    using well_formed_step(1) [OF 2(2)] by (subst decode_loop.simps) (simp add: step add.assoc)
qed (simp add: decode_loop.simps)

lemma scan_end_at:
  assumes "\<And>i. i < n \<Longrightarrow> byte_at heap (idx + i) \<noteq> 0" and "byte_at heap (idx + n) = 0"
    and "case limit of None \<Rightarrow> True | Some e \<Rightarrow> idx + n \<le> e"
  shows "scan_end heap idx limit = idx + n"
  using assms
proof (induction n arbitrary: idx)
  case 0
  then show ?case by (subst scan_end.simps) simp
next
  case (Suc n)
  have "scan_end heap (idx + 1) limit = (idx + 1) + n"
    using Suc.prems(1) [of "Suc i" for i] Suc.prems(2,3) by (intro Suc.IH) (auto split: option.splits)
  moreover have "byte_at heap idx \<noteq> 0" using Suc.prems(1) [of 0] by simp
  ultimately show ?case using Suc.prems(3) by (subst scan_end.simps) (auto split: option.splits)
qed

lemma utf8_bytes_nonzero: "0 < u \<Longrightarrow> u < 0x110000 \<Longrightarrow> 0 \<notin> set (utf8_bytes u)"
proof -
  have nz: "0 < n \<Longrightarrow> n < 256 \<Longrightarrow> byte n \<noteq> 0" for n
    using unat_byte [of n] by (metis less_irrefl unat_0)
  assume u: "0 < u" "u < 0x110000"
  then have "u \<le> 0x7FF \<Longrightarrow> u div 64 < 32" "u \<le> 0xFFFF \<Longrightarrow> u div 4096 < 16" "u div 262144 < 8"
    by auto
  moreover have "128 + x mod 64 < 256" for x :: nat using mod_less_divisor [of 64 x] by linarith
  ultimately show ?thesis
    using nz [of u] nz [of "192 + u div 64"] nz [of "224 + u div 4096"] nz [of "240 + u div 262144"]
      nz [of "128 + u mod 64"] nz [of "128 + u div 64 mod 64"] nz [of "128 + u div 4096 mod 64"] u
    by (auto simp: utf8_bytes_arith simp del: of_nat_add)
qed

lemma utf8_encode_nonzero: "0 \<notin> set str \<Longrightarrow> 0 \<notin> set (utf8_encode str)"
proof (induction str rule: utf8_encode.induct)
  case (2 c str)
  have "0 \<notin> set (after_code_point c str)" using 2(2) set_drop_subset [of 1 str] by (auto simp: after_code_point_def)
  moreover have "0 < code_point c str"
    using 2(2) pair_code_point_range(1) [of "unat c" str]
    by (auto simp: code_point_def unat_gt_0)
  ultimately show ?case
    using 2(1) utf8_bytes_nonzero [OF _ code_point_range, of c str] by simp
qed simp

lemma UTF8ArrayToString_at:
  assumes "well_formed str" "0 \<notin> set str"
    and "take (length (utf8_encode str) + 1) (drop idx heap) = utf8_encode str @ [0]"
    and "limit = None \<or> length (utf8_encode str) \<le> the limit"
  shows "UTF8ArrayToString decoder heap idx limit
    = (case decoder of Some decode \<Rightarrow> if length (utf8_encode str) > 16 then decode (utf8_encode str) else str | None \<Rightarrow> str)"
proof -
  let ?E = "utf8_encode str"
  have at: "take (length ?E) (drop idx heap) = ?E" "take (length [0]) (drop (idx + length ?E) heap) = [0]"
    using take_drop_append [of ?E "[0]" idx heap] assms(3) by simp_all
  have "byte_at heap (idx + i) \<noteq> 0" if "i < length ?E" for i
  proof -
    have "?E ! i \<noteq> 0" using utf8_encode_nonzero [OF assms(2)] that by (metis nth_mem)
    then show ?thesis using byte_at_nth [OF at(1) that] by (simp add: unat_eq_zero)
  qed
  moreover have "byte_at heap (idx + length ?E) = 0" using byte_at_nth [OF at(2), of 0] by simp
  ultimately have "scan_end heap idx (map_option (\<lambda>m. idx + m) limit) = idx + length ?E"
    using assms(4) by (intro scan_end_at) (auto split: option.splits)
  then show ?thesis
    using decode_loop_encode [OF assms(1) at(1)] at(1)
    by (auto simp: UTF8ArrayToString_def Let_def split: option.splits)
qed

section \<open>Properties\<close>

text \<open>The code points of a string, as the code reads its units: a surrogate takes the unit after it along.\<close>

fun code_points :: "js_units \<Rightarrow> nat list" where
  "code_points [] = []"
| "code_points (c # str) = code_point c str # code_points (after_code_point c str)"

lemma utf8_encode_code_points: "utf8_encode str = concat (map utf8_bytes (code_points str))"
  by (induction str rule: utf8_encode.induct) simp_all

lemma utf8_prefix_longest:
  "\<exists>k \<le> length (code_points str). utf8_prefix str n = concat (map utf8_bytes (take k (code_points str)))
     \<and> (k < length (code_points str) \<longrightarrow> n < length (utf8_prefix str n) + length (utf8_bytes (code_points str ! k)))"
proof (induction str n rule: utf8_prefix.induct)
  case (2 c str n)
  let ?bs = "utf8_bytes (code_point c str)"
  show ?case
  proof (cases "length ?bs > n")
    case True
    then show ?thesis by (intro exI [of _ 0]) simp
  next
    case False
    from 2 [OF refl this] obtain k where k: "k \<le> length (code_points (after_code_point c str))"
      "utf8_prefix (after_code_point c str) (n - length ?bs)
         = concat (map utf8_bytes (take k (code_points (after_code_point c str))))"
      "k < length (code_points (after_code_point c str)) \<Longrightarrow> n - length ?bs
         < length (utf8_prefix (after_code_point c str) (n - length ?bs))
           + length (utf8_bytes (code_points (after_code_point c str) ! k))"
      by blast
    show ?thesis
    proof (intro exI [of _ "Suc k"] conjI impI)
      assume "Suc k < length (code_points (c # str))"
      with k(3) False show "n < length (utf8_prefix (c # str) n) + length (utf8_bytes (code_points (c # str) ! Suc k))"
        by (simp add: Let_def)
    qed (use k(1,2) False in \<open>simp_all add: Let_def\<close>)
  qed
qed simp

text \<open>
  C18: Writing a string into a buffer of at least one byte inside the heap stores the encodings of its first
  \<open>k\<close> code points and a 0 after them, and changes no other byte of the heap, also none in the rest of
  the buffer. It returns the number of bytes before the 0. \<open>k\<close> is as large as the buffer allows: no code
  point is cut, the next one would not fit together with the 0, and where all of the string's
  \<open>lengthBytesUTF8\<close> bytes fit, all of them are written. The string may be any list of code units.
\<close>

theorem stringToUTF8Array_writes_prefix:
  assumes "0 < maxBytesToWrite" and "outIdx + maxBytesToWrite \<le> length heap"
    and "stringToUTF8Array str heap outIdx maxBytesToWrite = (heap', n)"
  shows "\<exists>k \<le> length (code_points str).
      n = length (concat (map utf8_bytes (take k (code_points str)))) \<and> n < maxBytesToWrite
    \<and> heap' = take outIdx heap @ concat (map utf8_bytes (take k (code_points str))) @ [0] @ drop (outIdx + n + 1) heap
    \<and> (k < length (code_points str) \<longrightarrow> maxBytesToWrite \<le> n + length (utf8_bytes (code_points str ! k)))
    \<and> (lengthBytesUTF8 str < maxBytesToWrite \<longrightarrow> k = length (code_points str) \<and> n = lengthBytesUTF8 str)"
proof -
  define bs where "bs = utf8_prefix str (maxBytesToWrite - 1)"
  have h: "heap' = take outIdx heap @ bs @ [0] @ drop (outIdx + length bs + 1) heap" "n = length bs"
    using stringToUTF8Array_heap [OF assms(1,2), of str] assms(3) by (simp_all add: bs_def)
  have lt: "length bs < maxBytesToWrite" using utf8_prefix_length [of str "maxBytesToWrite - 1"] assms(1)
    by (simp add: bs_def)
  obtain k where k: "k \<le> length (code_points str)" "bs = concat (map utf8_bytes (take k (code_points str)))"
    "k < length (code_points str) \<Longrightarrow> maxBytesToWrite \<le> length bs + length (utf8_bytes (code_points str ! k))"
    using utf8_prefix_longest [of str "maxBytesToWrite - 1"] by (fastforce simp: bs_def)
  have "k = length (code_points str) \<and> n = lengthBytesUTF8 str" if fits: "lengthBytesUTF8 str < maxBytesToWrite"
  proof -
    have bs: "bs = utf8_encode str" unfolding bs_def using fits by (intro utf8_prefix_all) (simp add: length_utf8_encode)
    have "utf8_encode str = bs @ concat (map utf8_bytes (drop k (code_points str)))"
      unfolding k(2) utf8_encode_code_points by (metis append_take_drop_id concat_append map_append)
    then have "drop k (code_points str) = []" using bs by (cases "drop k (code_points str)") auto
    then show ?thesis using k(1) bs h(2) by (simp add: length_utf8_encode)
  qed
  then show ?thesis
    using k(1,3) lt unfolding h by (intro exI [of _ k]) (simp add: k(2) [symmetric])
qed

lemma stringToUTF8Array_writes_prefix_witness:
  "\<exists>k. [7, 0x41, 0xC3, 0xA9, 0, 7, 7, 7]
     = take 1 [7, 7, 7, 7, 7, 7, 7, 7 :: u8] @ concat (map utf8_bytes (take k [0x41, 0xE9, 0x20AC])) @ [0] @ [7, 7, 7]"
proof -
  have "stringToUTF8Array [0x41, 0xE9, 0x20AC] [7, 7, 7, 7, 7, 7, 7, 7] 1 5 = ([7, 0x41, 0xC3, 0xA9, 0, 7, 7, 7], 3)"
    by (simp add: stringToUTF8Array_def code_point_def is_surrogate_def after_code_point_def utf8_bytes_def)
  moreover have "(0 :: nat) < 5" "1 + 5 \<le> length [7, 7, 7, 7, 7, 7, 7, 7 :: u8]" by simp_all
  moreover have "code_points [0x41, 0xE9, 0x20AC] = [0x41, 0xE9, 0x20AC]"
    by (simp add: code_point_def after_code_point_def is_surrogate_def)
  ultimately obtain k where
    "[7, 0x41, 0xC3, 0xA9, 0, 7, 7, 7] = take 1 [7, 7, 7, 7, 7, 7, 7, 7 :: u8]
       @ concat (map utf8_bytes (take k [0x41, 0xE9, 0x20AC])) @ [0] @ drop (1 + 3 + 1) [7, 7, 7, 7, 7, 7, 7, 7]"
    using stringToUTF8Array_writes_prefix [of 5 1 "[7, 7, 7, 7, 7, 7, 7, 7]" "[0x41, 0xE9, 0x20AC]"] by force
  then show ?thesis by (intro exI [of _ k]) (simp del: take_Cons')
qed

text \<open>
  The decoder of the browser is not code of the program. It decodes the encoding of every well-formed string,
  and takes a byte order mark at the start away, as the Encoding standard says of a \<open>TextDecoder\<close> made without
  \<open>ignoreBOM\<close>.
\<close>

definition without_bom :: "js_units \<Rightarrow> js_units" where
  "without_bom str = (case str of [] \<Rightarrow> [] | c # cs \<Rightarrow> if c = 0xFEFF then cs else str)"

definition decodes_utf8 :: "(u8 list \<Rightarrow> js_units) \<Rightarrow> bool" where
  "decodes_utf8 decode \<longleftrightarrow> (\<forall>str. well_formed str \<longrightarrow> decode (utf8_encode str) = without_bom str)"

text \<open>
  C19: A well-formed string without 0 units, written to a buffer inside the heap in which it fits, is read back
  from there, with or without a length limit that covers it, whether the browser has a \<open>TextDecoder\<close> or not. It is
  read back unchanged, with one exception: of a string of more than 16 bytes that starts with U+FEFF, a browser that
  has a \<open>TextDecoder\<close> returns the rest only.
\<close>

theorem UTF8ToString_stringToUTF8Array:
  assumes "well_formed str" and "0 \<notin> set str" and "lengthBytesUTF8 str < maxBytesToWrite"
    and "0 < ptr" and "ptr + maxBytesToWrite \<le> length heap"
    and "\<And>decode. decoder = Some decode \<Longrightarrow> decodes_utf8 decode"
    and "limit = None \<or> lengthBytesUTF8 str \<le> the limit"
  shows "UTF8ToString decoder (fst (stringToUTF8Array str heap ptr maxBytesToWrite)) ptr limit
    = (if decoder \<noteq> None \<and> lengthBytesUTF8 str > 16 then without_bom str else str)"
proof -
  have pre: "utf8_prefix str (maxBytesToWrite - 1) = utf8_encode str"
    using assms(3) by (intro utf8_prefix_all) (simp add: length_utf8_encode)
  have pos: "0 < maxBytesToWrite" using assms(3) by simp
  have "take (length (utf8_encode str) + 1) (drop ptr (fst (stringToUTF8Array str heap ptr maxBytesToWrite)))
      = utf8_encode str @ [0]"
    using assms(5) by (simp add: stringToUTF8Array_heap [OF pos assms(5)] pre del: One_nat_def) simp
  then have "UTF8ArrayToString decoder (fst (stringToUTF8Array str heap ptr maxBytesToWrite)) ptr limit
      = (case decoder of Some decode \<Rightarrow> if length (utf8_encode str) > 16 then decode (utf8_encode str) else str | None \<Rightarrow> str)"
    using assms(7) by (intro UTF8ArrayToString_at [OF assms(1,2)]) (simp_all add: length_utf8_encode)
  with assms(1,4,6) show ?thesis
    by (auto simp: UTF8ToString_def length_utf8_encode decodes_utf8_def split: option.splits)
qed

lemma decode_loop_decodes: "decodes_utf8 (\<lambda>bs. without_bom (decode_loop bs 0 (length bs)))"
  using decode_loop_encode [of _ 0 "utf8_encode _"] by (simp add: decodes_utf8_def)

lemma ascii_text: "well_formed (replicate n 0x41)" "lengthBytesUTF8 (replicate n 0x41) = n"
  by (induction n) (simp_all add: Let_def)

lemma UTF8ToString_stringToUTF8Array_witness:
  "UTF8ToString (Some (\<lambda>bs. without_bom (decode_loop bs 0 (length bs))))
     (fst (stringToUTF8Array (0xFEFF # replicate 14 0x41) (replicate 20 7) 1 19)) 1 (Some 18) = replicate 14 0x41"
proof -
  let ?s = "0xFEFF # replicate 14 0x41 :: js_units"
  have s: "well_formed ?s" "0 \<notin> set ?s" "lengthBytesUTF8 ?s = 17" "without_bom ?s = replicate 14 0x41"
    by (simp_all add: ascii_text without_bom_def Let_def)
  have fits: "lengthBytesUTF8 ?s < 19" "(0 :: nat) < 1" "1 + 19 \<le> length (replicate 20 7 :: heap)"
    "Some (18 :: nat) = None \<or> lengthBytesUTF8 ?s \<le> the (Some 18)"
    unfolding s(3) by simp_all
  have dec: "decodes_utf8 decode" if "Some (\<lambda>bs. without_bom (decode_loop bs 0 (length bs))) = Some decode" for decode
    using that decode_loop_decodes by simp
  show ?thesis
    using UTF8ToString_stringToUTF8Array
      [where decoder = "Some (\<lambda>bs. without_bom (decode_loop bs 0 (length bs)))", OF s(1,2) fits(1-3) dec fits(4)]
    unfolding s(3,4) by simp
qed

text \<open>
  An array made from a string is its encoding, with the terminating 0 unless the caller asked
  for none, whatever the string, unpaired surrogates included.
\<close>

theorem intArrayFromString_encodes:
  "intArrayFromString str dontAddNull 0 = utf8_encode str @ (if dontAddNull then [] else [0])"
proof -
  have "stringToUTF8Array str (replicate (lengthBytesUTF8 str + 1) 0) 0 (lengthBytesUTF8 str + 1)
      = (utf8_encode str @ [0], lengthBytesUTF8 str)"
    using stringToUTF8Array_heap [of "lengthBytesUTF8 str + 1" 0 "replicate (lengthBytesUTF8 str + 1) 0" str]
      utf8_prefix_all [of str "lengthBytesUTF8 str"]
    by (simp add: length_utf8_encode)
  then show ?thesis by (simp add: intArrayFromString_def length_utf8_encode [symmetric])
qed

end
