(* ===== verification/Paths.thy ===== *)
theory Paths
  imports Prelude
begin

text \<open>
  \<open>PATH\<close> and \<open>PATH_FS\<close> of \<open>page/html/_framework/dotnet.native.686cmdkyav.js\<close>: the path algebra of the
  in-browser file system. The reference is a walk: a path is a list of components that push a name,
  stay, or pop, and \<open>normalizeArray\<close>, which runs from the last component to the first with a counter
  of pending \<open>..\<close>, computes the same stack.
\<close>

abbreviation slash :: char where "slash \<equiv> CHR ''/''"

section \<open>Splitting and joining\<close>

fun split :: "string \<Rightarrow> string list" where
  "split [] = [[]]"
| "split (c # cs) = (if c = slash then [] # split cs else (c # hd (split cs)) # List.tl (split cs))"

fun join_slash :: "string list \<Rightarrow> string" where
  "join_slash [] = []"
| "join_slash [p] = p"
| "join_slash (p # ps) = p @ slash # join_slash ps"

definition parts_of :: "string \<Rightarrow> string list" where
  "parts_of path = filter (\<lambda>p. p \<noteq> []) (split path)"

section \<open>PATH\<close>

definition isAbs :: "string \<Rightarrow> bool" where
  "isAbs path \<longleftrightarrow> (case path of [] \<Rightarrow> False | c # _ \<Rightarrow> c = slash)"

text \<open>
  The regular expression of \<open>splitPath\<close> takes a leading slash as the root and then the shortest
  directory part after which only one component and slashes are left.
\<close>

definition splitPath :: "string \<Rightarrow> string \<times> string" where
  "splitPath filename =
     (let root = (if isAbs filename then [slash] else []);
          rest = (if isAbs filename then drop 1 filename else filename)
      in (root, rev (dropWhile (\<lambda>c. c \<noteq> slash) (dropWhile (\<lambda>c. c = slash) (rev rest)))))"

text \<open>
  The loop of \<open>normalizeArray\<close> runs from the last part to the first: it takes the parts in reverse,
  \<open>kept\<close> is what it leaves behind it.
\<close>

fun normalize_loop :: "string list \<Rightarrow> nat \<Rightarrow> string list \<Rightarrow> string list \<times> nat" where
  "normalize_loop [] up kept = (kept, up)"
| "normalize_loop (part # earlier) up kept =
     (if part = ''.'' then normalize_loop earlier up kept
      else if part = ''..'' then normalize_loop earlier (up + 1) kept
      else if up > 0 then normalize_loop earlier (up - 1) kept
      else normalize_loop earlier up (part # kept))"

definition normalizeArray :: "string list \<Rightarrow> bool \<Rightarrow> string list" where
  "normalizeArray parts allowAboveRoot =
     (let (kept, up) = normalize_loop (rev parts) 0 []
      in if allowAboveRoot then replicate up ''..'' @ kept else kept)"

definition normalize :: "string \<Rightarrow> string" where
  "normalize path =
     (let isAbsolute = isAbs path;
          trailingSlash = (path \<noteq> [] \<and> last path = slash);
          path1 = join_slash (normalizeArray (parts_of path) (\<not> isAbsolute));
          path2 = (if path1 = [] \<and> \<not> isAbsolute then ''.'' else path1);
          path3 = (if path2 \<noteq> [] \<and> trailingSlash then path2 @ [slash] else path2)
      in (if isAbsolute then [slash] else []) @ path3)"

definition dirname :: "string \<Rightarrow> string" where
  "dirname path =
     (let (root, dir) = splitPath path
      in if root = [] \<and> dir = [] then ''.''
         else root @ (if dir \<noteq> [] then take (length dir - 1) dir else dir))"

definition basename :: "string \<Rightarrow> string" where
  "basename path =
     (if path = [slash] then [slash]
      else let path1 = normalize path;
               path2 = (if path1 \<noteq> [] \<and> last path1 = slash then butlast path1 else path1)
           in if slash \<notin> set path2 then path2 else rev (takeWhile (\<lambda>c. c \<noteq> slash) (rev path2)))"

definition join :: "string list \<Rightarrow> string" where
  "join paths = normalize (join_slash paths)"

definition join2 :: "string \<Rightarrow> string \<Rightarrow> string" where
  "join2 l r = normalize (l @ slash # r)"

section \<open>PATH_FS\<close>

text \<open>
  The loop of \<open>resolve\<close> runs over the arguments from the last to the first, and then \<open>FS.cwd()\<close>.
  \<open>None\<close> is the early return of the empty string.
\<close>

fun resolve_loop :: "string list \<Rightarrow> string \<Rightarrow> (string \<times> bool) option" where
  "resolve_loop [] resolvedPath = Some (resolvedPath, False)"
| "resolve_loop (path # paths) resolvedPath =
     (if path = [] then None
      else if isAbs path then Some (path @ slash # resolvedPath, True)
      else resolve_loop paths (path @ slash # resolvedPath))"

definition resolve :: "string \<Rightarrow> string list \<Rightarrow> string" where
  "resolve cwd args =
     (case resolve_loop (rev args @ [cwd]) [] of
        None \<Rightarrow> []
      | Some (resolvedPath, resolvedAbsolute) \<Rightarrow>
          let path = join_slash (normalizeArray (parts_of resolvedPath) (\<not> resolvedAbsolute));
              result = (if resolvedAbsolute then [slash] else []) @ path
          in if result = [] then ''.'' else result)"

text \<open>
  \<open>trim\<close> keeps \<open>arr.slice(start, end - start + 1)\<close>, whose second argument is an index and not a
  length; \<open>start\<close> and \<open>stop\<close> are one past the last index here, so the code's \<open>end\<close> is \<open>stop - 1\<close>.
\<close>

definition trim :: "string list \<Rightarrow> string list" where
  "trim arr =
     (let start = length (takeWhile (\<lambda>p. p = []) arr);
          stop = length (dropWhile (\<lambda>p. p = []) (rev arr))
      in if start \<ge> stop then [] else drop start (take (stop - start) arr))"

fun same_parts :: "string list \<Rightarrow> string list \<Rightarrow> nat" where
  "same_parts (x # xs) (y # ys) = (if x = y then same_parts xs ys + 1 else 0)"
| "same_parts [] ys = 0"
| "same_parts xs [] = 0"

definition relative :: "string \<Rightarrow> string \<Rightarrow> string \<Rightarrow> string" where
  "relative cwd from to =
     (let fromParts = trim (split (drop 1 (resolve cwd [from])));
          toParts = trim (split (drop 1 (resolve cwd [to])));
          samePartsLength = same_parts fromParts toParts
      in join_slash (replicate (length fromParts - samePartsLength) ''..'' @ drop samePartsLength toParts))"

section \<open>The walk a path describes\<close>

text \<open>One component moves the current directory, a stack with the innermost name first.\<close>

fun walk_step :: "string list \<Rightarrow> string \<Rightarrow> string list" where
  "walk_step st p = (if p = ''.'' then st else if p = ''..'' then drop 1 st else p # st)"

definition walk :: "string list \<Rightarrow> string list \<Rightarrow> string list" where
  "walk st parts = foldl walk_step st parts"

definition plain :: "string \<Rightarrow> bool" where
  "plain p \<longleftrightarrow> p \<noteq> [] \<and> slash \<notin> set p \<and> p \<noteq> ''.'' \<and> p \<noteq> ''..''"

lemma walk_simps [simp]:
  "walk st [] = st" "walk st (p # ps) = walk (walk_step st p) ps"
  "walk st (ps @ qs) = walk (walk st ps) qs"
  by (simp_all add: walk_def)

lemma split_not_Nil [simp]: "split s \<noteq> []"
  by (induction s) auto

lemma split_no_slash: "p \<in> set (split s) \<Longrightarrow> slash \<notin> set p"
proof (induction s arbitrary: p)
  case (Cons c cs)
  have "hd (split cs) \<in> set (split cs)" by simp
  with Cons show ?case by (auto split: if_splits dest: list.set_sel(2) [OF split_not_Nil])
qed simp

lemma split_plain_word: "slash \<notin> set p \<Longrightarrow> split p = [p]"
  by (induction p) auto

lemma split_append_slash: "split (xs @ slash # ys) = split xs @ split ys"
proof (induction xs)
  case (Cons c cs)
  then show ?case by (cases "split cs") (simp_all add: split_not_Nil)
qed simp

lemma parts_of_append_slash [simp]: "parts_of (xs @ slash # ys) = parts_of xs @ parts_of ys"
  by (simp add: parts_of_def split_append_slash)

lemma parts_of_simps [simp]: "parts_of [] = []" "parts_of (slash # ys) = parts_of ys"
  by (simp_all add: parts_of_def)

lemma parts_of_word: "p \<noteq> [] \<Longrightarrow> slash \<notin> set p \<Longrightarrow> parts_of p = [p]"
  by (simp add: parts_of_def split_plain_word)

lemma parts_of_words: "p \<in> set (parts_of s) \<Longrightarrow> p \<noteq> [] \<and> slash \<notin> set p"
  by (auto simp: parts_of_def dest: split_no_slash)

lemma parts_of_join:
  "(\<And>p. p \<in> set ps \<Longrightarrow> p \<noteq> [] \<and> slash \<notin> set p) \<Longrightarrow> parts_of (join_slash ps) = ps"
  by (induction ps rule: join_slash.induct) (simp_all add: parts_of_word)

lemma split_join:
  "(\<And>p. p \<in> set ps \<Longrightarrow> p \<noteq> [] \<and> slash \<notin> set p) \<Longrightarrow> ps \<noteq> [] \<Longrightarrow> split (join_slash ps) = ps"
  by (induction ps rule: join_slash.induct) (simp_all add: split_plain_word split_append_slash)

section \<open>normalizeArray is the walk\<close>

lemma normalize_loop_walk:
  "fst (normalize_loop (rev parts) up kept) = rev (drop up (walk [] parts)) @ kept"
proof (induction parts arbitrary: up kept rule: rev_induct)
  case (snoc p ps)
  then show ?case by (cases up) (auto simp: drop_Suc)
qed simp

lemma normalizeArray_walk: "normalizeArray parts False = rev (walk [] parts)"
  using normalize_loop_walk [of parts 0 "[]"]
  by (simp add: normalizeArray_def case_prod_beta)

lemma walk_members: "p \<in> set (walk st parts) \<Longrightarrow> p \<in> set st \<or> (p \<in> set parts \<and> p \<noteq> ''.'' \<and> p \<noteq> ''..'')"
proof (induction parts arbitrary: st)
  case (Cons q qs)
  then show ?case by (auto dest!: Cons.IH dest: in_set_dropD split: if_splits)
qed simp

lemma walk_plain: "(\<And>p. p \<in> set parts \<Longrightarrow> plain p) \<Longrightarrow> walk st parts = rev parts @ st"
  by (induction parts arbitrary: st) (auto simp: plain_def)

lemma walk_up: "walk st (replicate n ''..'') = drop n st"
  by (induction n arbitrary: st) (simp_all add: drop_Suc)

section \<open>resolve is a change of directory\<close>

definition cd :: "string list \<Rightarrow> string \<Rightarrow> string list" where
  "cd st path = walk (if isAbs path then [] else st) (parts_of path)"

text \<open>The absolute path of a stack of names.\<close>

definition path_of :: "string list \<Rightarrow> string" where
  "path_of st = slash # join_slash (rev st)"

definition clean :: "string list \<Rightarrow> bool" where
  "clean st \<longleftrightarrow> (\<forall>p \<in> set st. plain p)"

lemma clean_simps [simp]: "clean []" "clean (p # st) \<longleftrightarrow> plain p \<and> clean st" "clean (rev st) \<longleftrightarrow> clean st"
  "clean (st @ st') \<longleftrightarrow> clean st \<and> clean st'"
  by (auto simp: clean_def)

lemma clean_drop: "clean st \<Longrightarrow> clean (drop n st)"
  by (auto simp: clean_def dest: in_set_dropD)

lemma clean_take: "clean st \<Longrightarrow> clean (take n st)"
  by (auto simp: clean_def dest: in_set_takeD)

lemma clean_walk: "clean st \<Longrightarrow> (\<And>p. p \<in> set parts \<Longrightarrow> p \<noteq> [] \<and> slash \<notin> set p) \<Longrightarrow> clean (walk st parts)"
  by (auto simp: clean_def plain_def dest!: walk_members)

lemma clean_cd: "clean st \<Longrightarrow> clean (cd st path)"
  unfolding cd_def by (rule clean_walk) (auto dest: parts_of_words)

lemma clean_cds: "clean st \<Longrightarrow> clean (foldl cd st args)"
  by (induction args arbitrary: st) (simp_all add: clean_cd)

lemma clean_words: "clean st \<Longrightarrow> p \<in> set st \<Longrightarrow> p \<noteq> [] \<and> slash \<notin> set p"
  by (auto simp: clean_def plain_def)

lemma resolve_loop_cds:
  assumes "isAbs cwd" and "[] \<notin> set args"
  shows "\<exists>full. resolve_loop (rev args @ [cwd]) rp = Some (full, True)
     \<and> walk [] (parts_of full) = walk (foldl cd (cd [] cwd) args) (parts_of rp)"
  using assms(2)
proof (induction args arbitrary: rp rule: rev_induct)
  case Nil
  then show ?case using assms(1) by (auto simp: cd_def isAbs_def split: list.splits)
next
  case (snoc a args)
  show ?case
  proof (cases "isAbs a")
    case True
    then show ?thesis using snoc.prems by (auto simp: cd_def)
  next
    case False
    with snoc.IH [of "a @ slash # rp"] snoc.prems show ?thesis by (auto simp: cd_def)
  qed
qed

lemma resolve_cds:
  assumes "isAbs cwd" and "[] \<notin> set args"
  shows "resolve cwd args = path_of (foldl cd (cd [] cwd) args)"
  using resolve_loop_cds [OF assms, of "[]"]
  by (auto simp: resolve_def normalizeArray_walk path_of_def Let_def)

lemma resolve_empty [simp]: "resolve cwd [[]] = []"
  by (simp add: resolve_def)

lemma parts_of_path_of: "clean st \<Longrightarrow> parts_of (path_of st) = rev st"
  using parts_of_join [of "rev st"] by (simp add: path_of_def) (metis clean_words)

lemma isAbs_path_of [simp]: "isAbs (path_of st)"
  by (simp add: isAbs_def path_of_def)

lemma path_of_not_Nil [simp]: "path_of st \<noteq> []" "[] \<noteq> path_of st"
  by (simp_all add: path_of_def not_sym)

lemma cd_path_of [simp]: "clean st \<Longrightarrow> cd st' (path_of st) = st"
proof -
  assume c: "clean st"
  then have "walk [] (rev st) = rev (rev st) @ []" by (intro walk_plain) (auto simp: clean_def)
  with c show ?thesis by (simp add: cd_def parts_of_path_of)
qed

lemma resolve_path_of: "isAbs cwd \<Longrightarrow> clean st \<Longrightarrow> resolve cwd [path_of st] = path_of st"
  by (simp add: resolve_cds)

section \<open>relative\<close>

lemma same_parts_take: "take (same_parts xs ys) xs = take (same_parts xs ys) ys"
  by (induction xs ys rule: same_parts.induct) auto

lemma same_parts_le: "same_parts xs ys \<le> length xs" "same_parts xs ys \<le> length ys"
  by (induction xs ys rule: same_parts.induct) auto

lemma same_parts_all: "length xs \<le> same_parts xs ys \<Longrightarrow> length ys \<le> same_parts xs ys \<Longrightarrow> xs = ys"
  using same_parts_take [of xs ys] by simp

lemma trim_split_path_of:
  assumes "clean st"
  shows "trim (split (drop (Suc 0) (path_of st))) = rev st"
proof (cases "st = []")
  case True
  then show ?thesis by (simp add: path_of_def trim_def)
next
  case False
  have ne: "p \<in> set st \<Longrightarrow> p \<noteq> []" for p using clean_words [OF assms] by blast
  have "split (join_slash (rev st)) = rev st"
    using clean_words [OF assms] False by (intro split_join) auto
  moreover have "takeWhile (\<lambda>p. p = []) (rev st) = []" using ne False by (cases "rev st") (auto simp: rev_eq_Cons_iff)
  moreover have "dropWhile (\<lambda>p. p = []) (rev (rev st)) = st" using ne False by (cases st) auto
  ultimately show ?thesis using False by (simp add: path_of_def trim_def)
qed

lemma relative_path_of:
  assumes "isAbs cwd" and "from \<noteq> []" and "to \<noteq> []"
  shows "relative cwd from to =
    (let a = rev (cd (cd [] cwd) from); b = rev (cd (cd [] cwd) to); k = same_parts a b
     in join_slash (replicate (length a - k) ''..'' @ drop k b))"
  using assms
  by (simp add: relative_def resolve_cds trim_split_path_of clean_cd Let_def)

lemma isAbs_join: "ps \<noteq> [] \<Longrightarrow> (\<And>p. p \<in> set ps \<Longrightarrow> p \<noteq> [] \<and> slash \<notin> set p) \<Longrightarrow> \<not> isAbs (join_slash ps)"
proof -
  assume "ps \<noteq> []" and w: "\<And>p. p \<in> set ps \<Longrightarrow> p \<noteq> [] \<and> slash \<notin> set p"
  then obtain c cs qs where ps: "ps = (c # cs) # qs" by (metis list.exhaust list.set_intros(1))
  with w [of "c # cs"] have "c \<noteq> slash" by auto
  with ps show ?thesis by (cases qs) (simp_all add: isAbs_def)
qed

lemma join_slash_Nil: "(\<And>p. p \<in> set ps \<Longrightarrow> p \<noteq> []) \<Longrightarrow> join_slash ps = [] \<longleftrightarrow> ps = []"
  by (cases ps rule: join_slash.cases) auto

section \<open>dirname and basename of a resolved path\<close>

lemma last_join: "ps \<noteq> [] \<Longrightarrow> (\<And>p. p \<in> set ps \<Longrightarrow> p \<noteq> []) \<Longrightarrow> last (join_slash ps) = last (last ps)"
proof (induction ps rule: join_slash.induct)
  case (3 p q ps)
  then have "join_slash (q # ps) \<noteq> []" by (subst join_slash_Nil) auto
  with 3 show ?case by simp
qed simp_all

lemma join_slash_snoc: "ps \<noteq> [] \<Longrightarrow> join_slash (ps @ [x]) = join_slash ps @ slash # x"
  by (induction ps rule: join_slash.induct) auto

lemma last_word: "p \<noteq> [] \<Longrightarrow> slash \<notin> set p \<Longrightarrow> last p \<noteq> slash"
  by (metis last_in_set)

lemma drop_word: "slash \<notin> set p \<Longrightarrow> dropWhile (\<lambda>c. c \<noteq> slash) (rev p @ xs) = dropWhile (\<lambda>c. c \<noteq> slash) xs"
  by (rule dropWhile_append2) auto

lemma normalize_path_of:
  assumes "clean st"
  shows "normalize (path_of st) = path_of st"
proof -
  have "normalizeArray (parts_of (path_of st)) False = rev st"
    using cd_path_of [OF assms, of "[]"] by (simp add: normalizeArray_walk cd_def)
  moreover have "last (path_of st) \<noteq> slash" if "st \<noteq> []"
  proof -
    have "hd st \<in> set st" using that by simp
    then have w: "hd st \<noteq> []" "slash \<notin> set (hd st)" using clean_words [OF assms] by blast+
    have "last (join_slash (rev st)) = last (hd st)"
      using that clean_words [OF assms] by (subst last_join) (auto simp: last_rev)
    moreover have "join_slash (rev st) \<noteq> []" using that clean_words [OF assms] by (subst join_slash_Nil) auto
    ultimately show ?thesis using last_word [OF w] by (auto simp: path_of_def)
  qed
  ultimately show ?thesis
    by (cases "st = []") (auto simp: normalize_def Let_def, simp_all add: path_of_def isAbs_def)
qed

lemma basename_path_of:
  assumes "clean (p # st)"
  shows "basename (path_of (p # st)) = p"
proof -
  have w: "p \<noteq> []" "slash \<notin> set p" using assms by (simp_all add: plain_def)
  obtain pre where pre: "path_of (p # st) = pre @ slash # p"
    by (cases "st = []") (auto simp: path_of_def join_slash_snoc intro: that)
  have nl: "last (pre @ slash # p) \<noteq> slash" using last_word [OF w] w by simp
  have "takeWhile (\<lambda>c. c \<noteq> slash) (rev p @ slash # rev pre) = rev p"
    using w(2) by (subst takeWhile_append2) auto
  then show ?thesis
    using normalize_path_of [OF assms] nl w(1)
    by (auto simp: basename_def pre Let_def append_eq_Cons_conv)
qed

lemma splitPath_slash_word:
  assumes "p \<noteq> []" "slash \<notin> set p"
  shows "splitPath (slash # pre @ slash # p) = ([slash], pre @ [slash])" "splitPath (slash # p) = ([slash], [])"
proof -
  have hd: "rev p \<noteq> []" "hd (rev p) \<noteq> slash" using assms last_word by (simp_all add: hd_rev)
  have "dropWhile (\<lambda>c. c = slash) (rev p @ xs) = rev p @ xs" for xs
    using hd by (cases "rev p") auto
  from this [of "slash # rev pre"] this [of "[]"] drop_word [OF assms(2), of "slash # rev pre"]
    drop_word [OF assms(2), of "[]"]
  show "splitPath (slash # pre @ slash # p) = ([slash], pre @ [slash])" "splitPath (slash # p) = ([slash], [])"
    by (simp_all add: splitPath_def isAbs_def)
qed

lemma dirname_path_of:
  assumes "clean (p # st)"
  shows "dirname (path_of (p # st)) = path_of st"
proof -
  have w: "p \<noteq> []" "slash \<notin> set p" using assms by (simp_all add: plain_def)
  show ?thesis
    using splitPath_slash_word [OF w]
    by (cases "st = []") (simp_all add: path_of_def dirname_def join_slash_snoc)
qed

section \<open>normalize is idempotent\<close>

lemma normalize_loop_up: "normalize_loop (replicate n ''..'') up kept = (kept, up + n)"
  by (induction n arbitrary: up) simp_all

lemma normalize_loop_plain:
  "(\<And>p. p \<in> set ps \<Longrightarrow> plain p) \<Longrightarrow> normalize_loop (ps @ qs) 0 kept = normalize_loop qs 0 (rev ps @ kept)"
  by (induction ps arbitrary: kept) (auto simp: plain_def)

lemma normalizeArray_fixed:
  assumes "\<And>p. p \<in> set ks \<Longrightarrow> plain p" and "allow \<or> n = 0"
  shows "normalizeArray (replicate n ''..'' @ ks) allow = replicate n ''..'' @ ks"
  using assms normalize_loop_plain [of "rev ks" "replicate n ''..''" "[]"]
  by (auto simp: normalizeArray_def normalize_loop_up)

lemma normalize_loop_kept:
  "fst (normalize_loop parts up kept) = k \<Longrightarrow> p \<in> set k \<Longrightarrow>
   p \<in> set kept \<or> p \<in> set parts \<and> p \<noteq> ''.'' \<and> p \<noteq> ''..''"
  by (induction parts up kept rule: normalize_loop.induct) (auto split: if_splits)

lemma normalizeArray_form:
  assumes "\<And>p. p \<in> set parts \<Longrightarrow> p \<noteq> [] \<and> slash \<notin> set p"
  obtains n ks where "normalizeArray parts allow = replicate n ''..'' @ ks" "\<And>p. p \<in> set ks \<Longrightarrow> plain p"
    "allow \<or> n = 0"
proof -
  obtain ks up where l: "normalize_loop (rev parts) 0 [] = (ks, up)" by fastforce
  have "plain p" if "p \<in> set ks" for p
    using normalize_loop_kept [of "rev parts" 0 "[]" ks p] l that assms by (auto simp: plain_def)
  then show thesis
    using that [of "if allow then up else 0" ks] l by (auto simp: normalizeArray_def)
qed

lemma dots_words:
  assumes "\<And>p. p \<in> set ks \<Longrightarrow> plain p" and "p \<in> set (replicate n ''..'' @ ks)"
  shows "p \<noteq> [] \<and> slash \<notin> set p"
  using assms by (auto simp: plain_def)

lemma normalize_again:
  fixes abs trailing :: bool
  assumes ks: "\<And>p. p \<in> set ks \<Longrightarrow> plain p" and n: "\<not> abs \<or> n = 0"
  defines "ps \<equiv> replicate n ''..'' @ ks"
  defines "body \<equiv> (if ps = [] \<and> \<not> abs then ''.'' else join_slash ps)"
  defines "path \<equiv> (if abs then [slash] else []) @ (if body \<noteq> [] \<and> trailing then body @ [slash] else body)"
  shows "normalize path = path"
proof -
  have words: "p \<in> set ps \<Longrightarrow> p \<noteq> [] \<and> slash \<notin> set p" for p
    unfolding ps_def by (rule dots_words [OF ks])
  have join: "join_slash ps = [] \<longleftrightarrow> ps = []" using words by (intro join_slash_Nil) auto
  have notabs: "\<not> isAbs (join_slash ps)" if "ps \<noteq> []" using isAbs_join [OF that] words by blast
  have parts: "parts_of (join_slash ps) = ps" using words by (intro parts_of_join) auto
  have fixed: "normalizeArray ps (\<not> abs) = ps" using ks n unfolding ps_def by (intro normalizeArray_fixed) auto
  have dot: "normalizeArray [''.''] (\<not> abs) = []" by (simp add: normalizeArray_def)
  have ends: "last (join_slash ps) \<noteq> slash" if "ps \<noteq> []"
    using last_join [OF that] words that last_word by (metis last_in_set)
  have "parts_of [CHR ''.'', slash] = [''.'']" by (simp add: parts_of_def)
  then have "parts_of path = (if ps = [] \<and> \<not> abs then [''.''] else ps)"
    using parts parts_of_append_slash [of body "[]"] parts_of_word [of "''.''"]
    by (auto simp: path_def body_def)
  moreover have "isAbs path = abs"
    using notabs join by (cases abs; cases "ps = []") (auto simp: path_def body_def isAbs_def split: list.splits)
  moreover have "last path = slash \<longleftrightarrow> trailing \<or> abs \<and> ps = []"
    using ends join by (cases "ps = []"; cases abs) (auto simp: path_def body_def)
  ultimately show ?thesis
    using fixed dot join
    by (cases "ps = []"; cases abs; cases trailing)
      (simp_all add: normalize_def path_def body_def normalizeArray_def Let_def)
qed

section \<open>Properties\<close>

text \<open>
  \<open>PATH.normalizeArray\<close> on an absolute path computes exactly the stack of names reached by walking
  the components from the root, where \<open>..\<close> at the root stays there.
\<close>

theorem normalizeArray_is_walk: "normalizeArray parts False = rev (walk [] parts)"
  by (rule normalizeArray_walk)

text \<open>\<open>PATH.normalize\<close> is idempotent, for relative and absolute paths, with or without a final slash.\<close>

theorem normalize_idempotent: "normalize (normalize path) = normalize path"
proof (cases "path = []")
  case True
  then show ?thesis by (simp add: normalize_def normalizeArray_def parts_of_def isAbs_def)
next
  case False
  obtain n ks where f: "normalizeArray (parts_of path) (\<not> isAbs path) = replicate n ''..'' @ ks"
      "\<And>p. p \<in> set ks \<Longrightarrow> plain p" "\<not> isAbs path \<or> n = 0"
    using normalizeArray_form parts_of_words by metis
  have "join_slash (replicate n ''..'' @ ks) = [] \<longleftrightarrow> replicate n ''..'' @ ks = []"
    using dots_words [OF f(2)] by (intro join_slash_Nil) blast
  then have "normalize path = (if isAbs path then [slash] else [])
      @ (let body = (if replicate n ''..'' @ ks = [] \<and> \<not> isAbs path then ''.'' else join_slash (replicate n ''..'' @ ks))
         in if body \<noteq> [] \<and> last path = slash then body @ [slash] else body)"
    using False by (auto simp: normalize_def f(1) Let_def)
  moreover have "normalize ((if isAbs path then [slash] else [])
      @ (let body = (if replicate n ''..'' @ ks = [] \<and> \<not> isAbs path then ''.'' else join_slash (replicate n ''..'' @ ks))
         in if body \<noteq> [] \<and> last path = slash then body @ [slash] else body)) = \<dots>"
    unfolding Let_def by (rule normalize_again) (use f(2,3) in auto)
  ultimately show ?thesis by simp
qed

text \<open>
  C20: With an absolute current directory, \<open>PATH_FS.resolve\<close> of non-empty arguments is the absolute path
  reached by changing directory along them, and its components are plain names.
\<close>

theorem resolve_follows_arguments:
  assumes "isAbs cwd" and "[] \<notin> set args"
  shows "resolve cwd args = path_of (foldl cd (cd [] cwd) args) \<and> clean (foldl cd (cd [] cwd) args)"
  using resolve_cds [OF assms] by (simp add: clean_cds clean_cd)

lemma resolve_follows_arguments_witness: "resolve ''/a/b'' [''../c'', ''./d//e''] = ''/a/c/d/e''"
proof -
  have "resolve ''/a/b'' [''../c'', ''./d//e''] = path_of (foldl cd (cd [] ''/a/b'') [''../c'', ''./d//e''])"
    using resolve_follows_arguments [of "''/a/b''" "[''../c'', ''./d//e'']"] by (simp add: isAbs_def)
  then show ?thesis by (simp add: cd_def path_of_def parts_of_def isAbs_def)
qed

text \<open>
  A relative path computed by \<open>PATH_FS.relative\<close> leads from its first argument to its second,
  unless they are the same place, where it is the empty string.
\<close>

theorem relative_leads_there:
  assumes "isAbs cwd" and "from \<noteq> []" and "to \<noteq> []" and "resolve cwd [from] \<noteq> resolve cwd [to]"
  shows "resolve cwd [from, relative cwd from to] = resolve cwd [to]"
proof -
  let ?a = "rev (cd (cd [] cwd) from)" and ?b = "rev (cd (cd [] cwd) to)"
  define k where "k = same_parts ?a ?b"
  define ps where "ps = replicate (length ?a - k) ''..'' @ drop k ?b"
  have cl: "clean ?a" "clean ?b" by (simp_all add: clean_cd)
  have words: "p \<noteq> [] \<and> slash \<notin> set p" if "p \<in> set ps" for p
  proof -
    from that have "p = ''..'' \<or> p \<in> set ?b" by (auto simp: ps_def dest: in_set_dropD)
    then show ?thesis using clean_words [OF cl(2), of p] by auto
  qed
  have rel: "relative cwd from to = join_slash ps"
    using relative_path_of [OF assms(1-3)] by (simp add: Let_def ps_def k_def)
  have "?a \<noteq> ?b" using assms by (auto simp: resolve_cds)
  then have "ps \<noteq> []" using same_parts_all [of ?a ?b] by (auto simp: ps_def k_def)
  then have "\<not> isAbs (join_slash ps)" "join_slash ps \<noteq> []"
    using isAbs_join words join_slash_Nil by blast+
  moreover have "walk (rev ?a) ps = rev ?b"
  proof -
    have "walk (rev ?a) ps = rev (drop k ?b) @ drop (length ?a - k) (rev ?a)"
      using clean_drop [OF cl(2), of k] by (simp add: ps_def walk_up walk_plain clean_def)
    also have "drop (length ?a - k) (rev ?a) = rev (take k ?b)"
      using same_parts_take [of ?a ?b] by (simp only: k_def rev_take [symmetric])
    finally show ?thesis by (metis append_take_drop_id rev_append)
  qed
  ultimately show ?thesis
    using assms words by (simp add: resolve_cds rel cd_def [of _ "join_slash ps"] parts_of_join)
qed

lemma relative_leads_there_witness:
  "resolve ''/home'' [''/a/b/c'', relative ''/home'' ''/a/b/c'' ''x''] = resolve ''/home'' [''x'']"
  by (rule relative_leads_there)
    (simp_all add: resolve_cds isAbs_def cd_def parts_of_def path_of_def)

end
