(* ===== verification/FsState.thy ===== *)
theory FsState
  imports Paths Utf8 "HOL-Library.AList"
begin

unbundle bit_operations_syntax

text \<open>
  The state of the in-browser file system (\<open>FS\<close> and \<open>MEMFS\<close> of
  \<open>page/html/_framework/dotnet.native.686cmdkyav.js\<close>): nodes, mounts, open streams and the name table.

  Objects the code mutates and shares are entries of tables, and a reference is the number of the
  entry: a node is its \<open>id\<close> (the code numbers nodes from \<open>nextInode\<close>), a mount, a stream and the
  \<open>shared\<close> part of a stream are numbered in the order they are made. \<open>mode\<close>, \<open>flags\<close> and device
  numbers are 32-bit words, on which the code uses the bit operators. A directory's \<open>contents\<close> object
  is an association list in insertion order, and \<open>proto\<close> is the node that an assignment to its property
  \<open>__proto__\<close> has made its prototype.
\<close>

type_synonym nid = nat
type_synonym mid = nat

text \<open>
  What a call may end with instead of a result. \<open>RangeError\<close> is the engine's answer when the call
  stack is exhausted. \<open>Diverges\<close> is no exception: the call does not return, and no handler sees it.
\<close>

datatype fs_exn = ErrnoError nat | TypeError | RangeError | Error string | Diverges

type_synonym 'a result = "fs_exn + 'a"

datatype node_ops = DirOps | FileOps | LinkOps | ChrdevOps | NoOps

datatype node_contents = Entries "(string \<times> nid) list" | Bytes "u8 list" | Null

record fsnode =
  parent :: nid
  mount_ref :: "mid option"
  mounted :: "mid option"
  node_name :: string
  mode :: i32
  node_ops :: node_ops
  rdev :: i32
  contents :: node_contents
  proto :: "nid option"
  usedBytes :: nat
  link :: string
  timestamp :: nat
  name_next :: "nid option"

record fsmount =
  mountpoint :: string
  mounts :: "mid list"
  mount_root :: nid

text \<open>
  What is registered for a device number: \<open>/dev/null\<close>, a terminal with one of the two sets of terminal
  operations (\<open>default_tty_ops\<close> reads and prints with \<open>out\<close>, \<open>default_tty1_ops\<close> only prints with \<open>err\<close>),
  or a device made by \<open>createDevice\<close> with or without its two callbacks.
\<close>

datatype tty_ops = DefaultTty | DefaultTty1

datatype device = NullDevice | TtyDevice | CallbackDevice bool bool

datatype stream_ops = DirStream | FileStream | NoStream | ChrdevStream | DeviceStream i32 device

record tty =
  tty_output :: "u8 list"
  tty_kind :: tty_ops

record fsstream =
  stream_node :: nid
  stream_path :: string
  stream_fd :: "nat option"
  seekable :: bool
  stream_ops :: stream_ops
  stream_tty :: "i32 option"
  getdents :: "string list option"
  shared :: nat

record shared_state =
  flags :: i32
  position :: int

text \<open>
  \<open>clock\<close> is what \<open>Date.now()\<close> returns, \<open>stack\<close> how many nested path lookups the engine's call stack has
  room for. The world outside is part of the state: \<open>stdin_answers\<close> is what the prompt for a line of
  input will return, \<open>console\<close> the lines printed (on standard error, or not), and for a device
  \<open>device_input\<close> is what its input callback will return, \<open>device_output\<close> what its output callback was
  given, and \<open>output_room\<close> how many bytes that callback takes before it throws (\<open>None\<close>: it never does).
  \<open>streams\<close> is the array of open streams; a slot is empty when it is \<open>None\<close> or past the end.
\<close>

datatype input_event = Byte u8 | NoInput | EndOfInput | InputThrows

datatype stdin_answer = StdinText js_units | StdinNull | StdinThrows

record fs =
  root :: "nid option"
  nodes :: "nid \<Rightarrow> fsnode"
  nextInode :: nat
  nameTable :: "nat \<Rightarrow> nid option"
  mount_table :: "mid \<Rightarrow> fsmount"
  nextMount :: mid
  streams :: "nat option list"
  stream_table :: "nat \<Rightarrow> fsstream"
  nextStream :: nat
  shared_table :: "nat \<Rightarrow> shared_state"
  currentPath :: string
  ignorePermissions :: bool
  devices :: "i32 \<Rightarrow> device option"
  device_input :: "i32 \<Rightarrow> input_event list"
  device_output :: "i32 \<Rightarrow> u8 list"
  output_room :: "i32 \<Rightarrow> nat option"
  ttys :: "i32 \<Rightarrow> tty option"
  stdin_buffer :: "u8 list"
  stdin_answers :: "stdin_answer list"
  console :: "(bool \<times> js_units) list"
  nextMajor :: nat
  clock :: nat
  stack :: nat

type_synonym 'a io = "(fs, fs_exn, 'a) comp"

text \<open>An assignment to fields of a node.\<close>

definition upd_node :: "nid \<Rightarrow> (fsnode \<Rightarrow> fsnode) \<Rightarrow> fs \<Rightarrow> fs" where
  "upd_node n f s = s\<lparr>nodes := (nodes s)(n := f (nodes s n))\<rparr>"

lemma upd_node_simps [simp]:
  "nodes (upd_node n f s) = (nodes s)(n := f (nodes s n))"
  "nameTable (upd_node n f s) = nameTable s" "nextInode (upd_node n f s) = nextInode s"
  "root (upd_node n f s) = root s" "mount_table (upd_node n f s) = mount_table s"
  "currentPath (upd_node n f s) = currentPath s" "ignorePermissions (upd_node n f s) = ignorePermissions s"
  "streams (upd_node n f s) = streams s" "stream_table (upd_node n f s) = stream_table s"
  "shared_table (upd_node n f s) = shared_table s" "clock (upd_node n f s) = clock s"
  "stack (upd_node n f s) = stack s" "nextMount (upd_node n f s) = nextMount s"
  "devices (upd_node n f s) = devices s" "nextStream (upd_node n f s) = nextStream s"
  by (simp_all add: upd_node_def)

text \<open>
  A \<open>try\<close> block whose handler ignores the exception: \<open>None\<close> is the handler's case. A call that does
  not return is not handled.
\<close>

definition attempt :: "'a result \<Rightarrow> 'a option result" where
  "attempt r = (case r of Inr x \<Rightarrow> Inr (Some x) | Inl Diverges \<Rightarrow> Inl Diverges | Inl _ \<Rightarrow> Inr None)"

lemma attempt_simps [simp]:
  "attempt (Inr x) = Inr (Some x)" "attempt (Inl Diverges) = Inl Diverges"
  "e \<noteq> Diverges \<Longrightarrow> attempt (Inl e) = Inr None"
  by (simp_all add: attempt_def split: fs_exn.splits)

text \<open>Reading a field through a null reference.\<close>

definition deref :: "nid option \<Rightarrow> nid result" where
  "deref p = (case p of Some n \<Rightarrow> Inr n | None \<Rightarrow> Inl TypeError)"

lemma deref_simps [simp]: "deref (Some n) = Inr n" "deref None = Inl TypeError"
  by (simp_all add: deref_def)

section \<open>File types and permissions\<close>

definition isFile :: "i32 \<Rightarrow> bool" where "isFile m \<longleftrightarrow> m AND 61440 = 32768"
definition isDir :: "i32 \<Rightarrow> bool" where "isDir m \<longleftrightarrow> m AND 61440 = 16384"
definition isLink :: "i32 \<Rightarrow> bool" where "isLink m \<longleftrightarrow> m AND 61440 = 40960"
definition isChrdev :: "i32 \<Rightarrow> bool" where "isChrdev m \<longleftrightarrow> m AND 61440 = 8192"
definition isBlkdev :: "i32 \<Rightarrow> bool" where "isBlkdev m \<longleftrightarrow> m AND 61440 = 24576"
definition isFIFO :: "i32 \<Rightarrow> bool" where "isFIFO m \<longleftrightarrow> m AND 61440 = 4096"
definition isSocket :: "i32 \<Rightarrow> bool" where "isSocket m \<longleftrightarrow> m AND 49152 = 49152"

definition isRoot :: "nid \<Rightarrow> fs \<Rightarrow> bool" where
  "isRoot n s \<longleftrightarrow> parent (nodes s n) = n"

definition isMountpoint :: "nid \<Rightarrow> fs \<Rightarrow> bool" where
  "isMountpoint n s \<longleftrightarrow> mounted (nodes s n) \<noteq> None"

text \<open>
  \<open>['r', 'w', 'rw'][flag & 3]\<close> is \<open>undefined\<close> for 3, and a string once \<open>'w'\<close> is added to it.
\<close>

definition flagsToPermissionString :: "i32 \<Rightarrow> string option" where
  "flagsToPermissionString flag =
     (let perms = (if flag AND 3 = 0 then Some ''r'' else if flag AND 3 = 1 then Some ''w''
                   else if flag AND 3 = 2 then Some ''rw'' else None)
      in if flag AND 512 \<noteq> 0
         then Some ((case perms of Some p \<Rightarrow> p | None \<Rightarrow> ''undefined'') @ ''w'') else perms)"

definition nodePermissions :: "nid \<Rightarrow> string option \<Rightarrow> fs \<Rightarrow> nat result" where
  "nodePermissions n perms s =
     (if ignorePermissions s then Inr 0
      else case perms of None \<Rightarrow> Inl TypeError
      | Some p \<Rightarrow> Inr
         (if CHR ''r'' \<in> set p \<and> mode (nodes s n) AND 292 = 0 then 2
          else if CHR ''w'' \<in> set p \<and> mode (nodes s n) AND 146 = 0 then 2
          else if CHR ''x'' \<in> set p \<and> mode (nodes s n) AND 73 = 0 then 2
          else 0))"

definition FS_modeStringToFlags :: "string \<Rightarrow> i32 result" where
  "FS_modeStringToFlags str =
     (if str = ''r'' then Inr 0 else if str = ''r+'' then Inr 2
      else if str = ''w'' then Inr (512 OR 64 OR 1) else if str = ''w+'' then Inr (512 OR 64 OR 2)
      else if str = ''a'' then Inr (1024 OR 64 OR 1) else if str = ''a+'' then Inr (1024 OR 64 OR 2)
      else Inl (Error (''Unknown file open mode: '' @ str)))"

definition FS_getMode :: "bool \<Rightarrow> bool \<Rightarrow> i32" where
  "FS_getMode canRead canWrite =
     (let m = (if canRead then 0 OR (292 OR 73) else 0) in if canWrite then m OR 146 else m)"

definition major :: "i32 \<Rightarrow> i32" where "major dev = signed_drop_bit 8 dev"
definition minor :: "i32 \<Rightarrow> i32" where "minor dev = dev AND 0xff"
definition makedev :: "nat \<Rightarrow> nat \<Rightarrow> i32" where "makedev ma mi = push_bit 8 (of_nat ma) OR of_nat mi"

end
