(* ===== verification/NameTable.thy ===== *)
theory NameTable
  imports FsState
begin

text \<open>
  The name table of \<open>FS\<close>: 4096 buckets, each a chain of nodes linked by \<open>name_next\<close>, that caches which
  node has which parent and name. A chain is walked with \<open>nextInode\<close> rounds of fuel; a chain without a
  cycle has fewer nodes, and a chain with one is walked forever (\<open>Diverges\<close>).

  The table refines a function from bucket numbers to lists of nodes (\<open>table_rep\<close>), and, where no two
  cached nodes share parent and name, a map from (parent, name) to nodes: that is the contract
  \<open>name_cache\<close> the rest of the file system uses.
\<close>

definition hashName :: "nid \<Rightarrow> string \<Rightarrow> nat" where
  "hashName parentid name =
     unat (of_nat parentid + foldl (\<lambda>hash c. push_bit 5 hash - hash + of_char c) (0 :: i32) name) mod 4096"

definition node_hash :: "fs \<Rightarrow> nid \<Rightarrow> nat" where
  "node_hash s n = hashName (parent (nodes s n)) (node_name (nodes s n))"

definition hashAddNode :: "nid \<Rightarrow> fs \<Rightarrow> fs" where
  "hashAddNode n s =
     (let hash = node_hash s n;
          s1 = upd_node n (\<lambda>d. d\<lparr>name_next := nameTable s hash\<rparr>) s
      in s1\<lparr>nameTable := (nameTable s1)(hash := Some n)\<rparr>)"

fun unlink_chain :: "nat \<Rightarrow> nid \<Rightarrow> nid option \<Rightarrow> fs \<Rightarrow> fs result" where
  "unlink_chain 0 n current s = Inl Diverges"
| "unlink_chain (Suc fuel) n None s = Inr s"
| "unlink_chain (Suc fuel) n (Some current) s =
     (if name_next (nodes s current) = Some n
      then Inr (upd_node current (\<lambda>d. d\<lparr>name_next := name_next (nodes s n)\<rparr>) s)
      else unlink_chain fuel n (name_next (nodes s current)) s)"

definition hashRemoveNode :: "nid \<Rightarrow> fs \<Rightarrow> fs result" where
  "hashRemoveNode n s =
     (let hash = node_hash s n in
      if nameTable s hash = Some n
      then Inr (s\<lparr>nameTable := (nameTable s)(hash := name_next (nodes s n))\<rparr>)
      else unlink_chain (Suc (nextInode s)) n (nameTable s hash) s)"

fun find_chain :: "nat \<Rightarrow> nid \<Rightarrow> string \<Rightarrow> nid option \<Rightarrow> fs \<Rightarrow> nid option result" where
  "find_chain 0 pid name current s = Inl Diverges"
| "find_chain (Suc fuel) pid name None s = Inr None"
| "find_chain (Suc fuel) pid name (Some n) s =
     (if parent (nodes s n) = pid \<and> node_name (nodes s n) = name then Inr (Some n)
      else find_chain fuel pid name (name_next (nodes s n)) s)"

text \<open>The loop of \<open>lookupNode\<close>.\<close>

definition find_cached :: "nid \<Rightarrow> string \<Rightarrow> fs \<Rightarrow> nid option result" where
  "find_cached pid name s =
     find_chain (Suc (nextInode s)) pid name (nameTable s (hashName pid name)) s"

lemma hashName_bound [simp]: "hashName p name < 4096"
  by (simp add: hashName_def)

section \<open>Refinement of lists\<close>

fun linked :: "(nid \<Rightarrow> nid option) \<Rightarrow> nid option \<Rightarrow> nid list \<Rightarrow> bool" where
  "linked nx p [] \<longleftrightarrow> p = None"
| "linked nx p (n # ns) \<longleftrightarrow> p = Some n \<and> linked nx (nx n) ns"

definition next_of :: "fs \<Rightarrow> nid \<Rightarrow> nid option" where
  "next_of s n = name_next (nodes s n)"

definition table_rep :: "fs \<Rightarrow> (nat \<Rightarrow> nid list) \<Rightarrow> bool" where
  "table_rep s B \<longleftrightarrow>
     (\<forall>h. linked (next_of s) (nameTable s h) (B h) \<and> distinct (B h)
        \<and> (\<forall>n \<in> set (B h). n < nextInode s \<and> node_hash s n = h))"

lemma table_repD:
  assumes "table_rep s B"
  shows "linked (next_of s) (nameTable s h) (B h)" "distinct (B h)"
    "n \<in> set (B h) \<Longrightarrow> n < nextInode s" "n \<in> set (B h) \<Longrightarrow> node_hash s n = h"
  using assms by (auto simp: table_rep_def)

lemma linked_update: "m \<notin> set ns \<Longrightarrow> linked (nx(m := v)) p ns = linked nx p ns"
  by (induction ns arbitrary: p) auto

lemma linked_deterministic: "linked nx p ns \<Longrightarrow> linked nx p ns' \<Longrightarrow> ns = ns'"
  by (induction ns arbitrary: p ns') (case_tac ns'; auto)+

lemma distinct_below: "distinct ns \<Longrightarrow> (\<And>n. n \<in> set ns \<Longrightarrow> n < (k :: nat)) \<Longrightarrow> length ns \<le> k"
proof -
  assume d: "distinct ns" and b: "\<And>n. n \<in> set ns \<Longrightarrow> n < k"
  have "card (set ns) \<le> card {..<k}" using b by (intro card_mono) auto
  then show ?thesis using d by (simp add: distinct_card)
qed

lemma bucket_length: "table_rep s B \<Longrightarrow> length (B h) \<le> nextInode s"
  using table_repD by (intro distinct_below) auto

subsection \<open>Adding\<close>

lemma table_rep_add:
  assumes rep: "table_rep s B" and n: "n < nextInode s" "n \<notin> set (B (node_hash s n))"
  shows "table_rep (hashAddNode n s) (B(node_hash s n := n # B (node_hash s n)))"
proof -
  let ?h = "node_hash s n" and ?s = "hashAddNode n s"
  have nodes: "next_of ?s = (next_of s)(n := nameTable s ?h)" "nameTable ?s = (nameTable s)(?h := Some n)"
    "nextInode ?s = nextInode s"
    by (auto simp: hashAddNode_def Let_def next_of_def fun_eq_iff)
  have hash: "node_hash ?s m = node_hash s m" for m
    by (simp add: hashAddNode_def Let_def node_hash_def)
  have notin: "n \<notin> set (B h)" for h using n(2) table_repD(4) [OF rep, of n h] by auto
  show ?thesis
    unfolding table_rep_def nodes hash
    using table_repD [OF rep] n notin by (auto simp: linked_update)
qed

subsection \<open>Finding\<close>

definition has_key :: "fs \<Rightarrow> nid \<Rightarrow> string \<Rightarrow> nid \<Rightarrow> bool" where
  "has_key s pid name n \<longleftrightarrow> parent (nodes s n) = pid \<and> node_name (nodes s n) = name"

lemma find_chain_find:
  "linked (next_of s) p ns \<Longrightarrow> length ns < fuel \<Longrightarrow>
   find_chain fuel pid name p s = Inr (find (has_key s pid name) ns)"
proof (induction ns arbitrary: p fuel)
  case Nil
  then show ?case by (cases fuel) auto
next
  case (Cons n ns)
  then show ?case by (cases fuel) (auto simp: has_key_def next_of_def)
qed

lemma find_cached_find:
  assumes "table_rep s B"
  shows "find_cached pid name s = Inr (find (has_key s pid name) (B (hashName pid name)))"
  unfolding find_cached_def
  by (rule find_chain_find) (simp_all add: table_repD [OF assms] bucket_length [OF assms] less_Suc_eq_le)

subsection \<open>Removing\<close>

lemma linked_remove:
  assumes "linked nx p ns" "distinct ns" "m \<in> set ns" "nx m = Some n" "n \<in> set ns"
  shows "linked (nx(m := nx n)) p (remove1 n ns)"
  using assms
proof (induction ns arbitrary: p)
  case (Cons x ns)
  show ?case
  proof (cases "x = m")
    case True
    with Cons.prems obtain ns' where ns: "ns = n # ns'" by (cases ns) auto
    with True Cons.prems have l: "linked nx (nx n) ns'" "m \<notin> set ns'" "p = Some m" "n \<noteq> m" by auto
    then have "linked (nx(m := nx n)) (nx n) ns'" using linked_update [of m ns' nx "nx n" "nx n"] by blast
    with l True ns show ?thesis by (simp add: fun_upd_def)
  next
    case False
    with Cons.prems have m: "m \<in> set ns" by simp
    show ?thesis
    proof (cases "x = n")
      case True
      have "linked nx q xs \<Longrightarrow> m \<in> set xs \<Longrightarrow> n \<in> set xs" for q xs
      proof (induction xs arbitrary: q)
        case (Cons y ys)
        then show ?case using assms(4) by (cases ys) auto
      qed simp
      with m Cons.prems(1) have "n \<in> set ns" by auto
      with True Cons.prems(2) show ?thesis by simp
    next
      case False
      with \<open>x \<noteq> m\<close> m Cons show ?thesis by auto
    qed
  qed
qed simp

lemma unlink_chain_remove:
  "linked (next_of s) p ns \<Longrightarrow> length ns < fuel \<Longrightarrow> distinct ns \<Longrightarrow> p \<noteq> Some n \<Longrightarrow>
   \<exists>s'. unlink_chain fuel n p s = Inr s' \<and>
     (if n \<in> set ns then \<exists>m \<in> set ns. next_of s m = Some n \<and>
        s' = upd_node m (\<lambda>d. d\<lparr>name_next := next_of s n\<rparr>) s else s' = s)"
proof (induction ns arbitrary: p fuel)
  case Nil
  then show ?case by (cases fuel) auto
next
  case (Cons x ns)
  then obtain fuel' where fuel: "fuel = Suc fuel'" "length ns < fuel'" by (cases fuel) auto
  from Cons.prems have p: "p = Some x" "linked (next_of s) (next_of s x) ns" "n \<noteq> x" by auto
  show ?case
  proof (cases "next_of s x = Some n")
    case True
    with p have "n \<in> set ns" by (cases ns) auto
    with True p fuel show ?thesis by (auto simp: next_of_def)
  next
    case False
    with Cons.IH [OF p(2) fuel(2)] Cons.prems p fuel show ?thesis by (auto simp: next_of_def)
  qed
qed

lemma linked_no_self: "linked nx p ns \<Longrightarrow> distinct ns \<Longrightarrow> m \<in> set ns \<Longrightarrow> nx m \<noteq> Some m"
proof (induction ns arbitrary: p)
  case (Cons x ns)
  then show ?case by (cases ns) auto
qed simp

lemma hashRemoveNode_cases:
  assumes rep: "table_rep s B"
  shows "\<exists>s'. hashRemoveNode n s = Inr s' \<and> table_rep s' (\<lambda>h. remove1 n (B h))
     \<and> (\<forall>m. \<exists>v. nodes s' m = nodes s m \<lparr>name_next := v\<rparr>)
     \<and> s' = s\<lparr>nodes := nodes s', nameTable := nameTable s'\<rparr>"
proof -
  let ?h = "node_hash s n"
  note R = table_repD [OF rep]
  have other: "remove1 n (B h) = B h" if "h \<noteq> ?h" for h
    by (rule remove1_idem) (use R(4) [of n h] that in auto)
  show ?thesis
  proof (cases "nameTable s ?h = Some n")
    case True
    then obtain ns where ns: "B ?h = n # ns" using R(1) [of ?h] by (cases "B ?h") auto
    let ?s = "s\<lparr>nameTable := (nameTable s)(?h := name_next (nodes s n))\<rparr>"
    have eq: "next_of ?s = next_of s" "node_hash ?s = node_hash s" "nextInode ?s = nextInode s"
      by (auto simp: next_of_def node_hash_def fun_eq_iff)
    have "linked (next_of s) (nameTable ?s h) (remove1 n (B h))" for h
      using R(1) [of h] other [of h] R(1) [of ?h] R(2) [of ?h] by (auto simp: ns next_of_def)
    then have "table_rep ?s (\<lambda>h. remove1 n (B h))"
      using R unfolding table_rep_def eq by (auto dest: notin_set_remove1 simp: distinct_remove1)
    moreover have "\<exists>v. nodes s m = nodes s m\<lparr>name_next := v\<rparr>" for m
      by (rule exI [of _ "name_next (nodes s m)"]) simp
    ultimately show ?thesis using True by (auto simp: hashRemoveNode_def intro!: exI [of _ ?s])
  next
    case False
    obtain s' where s': "unlink_chain (Suc (nextInode s)) n (nameTable s ?h) s = Inr s'"
      and cases: "if n \<in> set (B ?h) then \<exists>m \<in> set (B ?h). next_of s m = Some n \<and>
        s' = upd_node m (\<lambda>d. d\<lparr>name_next := next_of s n\<rparr>) s else s' = s"
      using unlink_chain_remove [OF R(1), of ?h "Suc (nextInode s)" n] bucket_length [OF rep, of ?h]
        R(2) [of ?h] False by (auto simp: less_Suc_eq_le)
    show ?thesis
    proof (cases "n \<in> set (B ?h)")
      case True
      with cases obtain m where m: "m \<in> set (B ?h)" "next_of s m = Some n"
        and s'_eq: "s' = upd_node m (\<lambda>d. d\<lparr>name_next := next_of s n\<rparr>) s" by auto
      have nx: "next_of s' = (next_of s)(m := next_of s n)" "node_hash s' = node_hash s"
        "nameTable s' = nameTable s" "nextInode s' = nextInode s"
        by (auto simp: s'_eq next_of_def node_hash_def fun_eq_iff)
      have "linked (next_of s') (nameTable s' h) (remove1 n (B h))" for h
      proof (cases "h = ?h")
        case True
        with linked_remove [OF R(1) R(2) m \<open>n \<in> set (B ?h)\<close>] show ?thesis by (simp add: nx)
      next
        case False
        then have "m \<notin> set (B h)" using R(4) m(1) by metis
        with R(1) [of h] show ?thesis by (simp add: nx other [OF False] linked_update)
      qed
      then have "table_rep s' (\<lambda>h. remove1 n (B h))"
        using R unfolding table_rep_def nx by (auto dest: notin_set_remove1 simp: distinct_remove1)
      moreover have "\<exists>v. nodes s' k = nodes s k\<lparr>name_next := v\<rparr>" for k
        by (cases "k = m") (auto simp: s'_eq intro: exI [of _ "name_next (nodes s k)"])
      moreover have "s' = s\<lparr>nodes := nodes s', nameTable := nameTable s'\<rparr>"
        by (simp add: s'_eq upd_node_def)
      ultimately show ?thesis using s' False by (auto simp: hashRemoveNode_def)
    next
      case notin: False
      then have "remove1 n (B h) = B h" for h using other by (cases "h = ?h") (auto simp: remove1_idem)
      moreover have "\<exists>v. nodes s m = nodes s m\<lparr>name_next := v\<rparr>" for m
        by (rule exI [of _ "name_next (nodes s m)"]) simp
      ultimately show ?thesis using s' cases notin False rep by (auto simp: hashRemoveNode_def)
    qed
  qed
qed

section \<open>The table as a map\<close>

text \<open>
  The contract: while no two cached nodes have the same key, adding and removing a node are update and
  deletion in a map. What the clients prove from it: entries of other nodes never change, and taking a
  node out, giving it a new key and putting it back moves exactly its entry.
\<close>

locale name_cache =
  fixes ok :: "'s \<Rightarrow> bool" and cached :: "'s \<Rightarrow> 'k \<Rightarrow> 'n option" and key :: "'s \<Rightarrow> 'n \<Rightarrow> 'k"
    and exists :: "'s \<Rightarrow> 'n \<Rightarrow> bool"
    and add :: "'n \<Rightarrow> 's \<Rightarrow> 's" and remove :: "'n \<Rightarrow> 's \<Rightarrow> 's"
  assumes add_ok: "ok s \<Longrightarrow> exists s n \<Longrightarrow> cached s (key s n) = None \<Longrightarrow> ok (add n s)"
    and add_cached: "ok s \<Longrightarrow> exists s n \<Longrightarrow> cached s (key s n) = None \<Longrightarrow>
      cached (add n s) = (cached s)(key s n \<mapsto> n)"
    and remove_ok: "ok s \<Longrightarrow> ok (remove n s)"
    and remove_cached: "ok s \<Longrightarrow> cached s (key s n) = Some n \<Longrightarrow>
      cached (remove n s) = (cached s)(key s n := None)"
    and remove_absent: "ok s \<Longrightarrow> cached s (key s n) \<noteq> Some n \<Longrightarrow> cached (remove n s) = cached s"
    and key_add: "key (add n s) = key s" and key_remove: "ok s \<Longrightarrow> key (remove n s) = key s"
    and cached_key: "ok s \<Longrightarrow> cached s k = Some n \<Longrightarrow> key s n = k"
begin

lemma remove_uncaches: "ok s \<Longrightarrow> cached (remove n s) (key s n) \<noteq> Some n"
  by (cases "cached s (key s n) = Some n") (simp_all add: remove_cached remove_absent)

lemma remove_other: "ok s \<Longrightarrow> k \<noteq> key s n \<Longrightarrow> cached (remove n s) k = cached s k"
  by (cases "cached s (key s n) = Some n") (simp_all add: remove_cached remove_absent)

lemma add_remove:
  assumes "ok s" and "exists s n" and "cached s (key s n) = None"
  shows "cached (remove n (add n s)) = cached s"
  using assms remove_cached [OF add_ok [OF assms], of n]
  by (auto simp: add_cached key_add fun_upd_idem_iff)

lemma remove_twice: "ok s \<Longrightarrow> cached (remove n (remove n s)) = cached (remove n s)"
  using remove_absent [OF remove_ok, of s n n] remove_uncaches [of s n] by (simp add: key_remove)

lemma cached_inj: "ok s \<Longrightarrow> cached s k = Some n \<Longrightarrow> cached s k' = Some n \<Longrightarrow> k = k'"
  using cached_key by metis

end

definition node_key :: "fs \<Rightarrow> nid \<Rightarrow> nid \<times> string" where
  "node_key s n = (parent (nodes s n), node_name (nodes s n))"

definition cached :: "fs \<Rightarrow> nid \<times> string \<Rightarrow> nid option" where
  "cached s k = (case find_cached (fst k) (snd k) s of Inr r \<Rightarrow> r | Inl _ \<Rightarrow> None)"

definition node_exists :: "fs \<Rightarrow> nid \<Rightarrow> bool" where
  "node_exists s n \<longleftrightarrow> n < nextInode s"

definition destroyNode :: "nid \<Rightarrow> fs \<Rightarrow> fs result" where
  "destroyNode n s = hashRemoveNode n s"

definition removed :: "nid \<Rightarrow> fs \<Rightarrow> fs" where
  "removed n s = (case hashRemoveNode n s of Inr s' \<Rightarrow> s' | Inl _ \<Rightarrow> s)"

text \<open>No two cached nodes have the same parent and name.\<close>

definition unique_keys :: "fs \<Rightarrow> (nat \<Rightarrow> nid list) \<Rightarrow> bool" where
  "unique_keys s B \<longleftrightarrow>
     (\<forall>h m n. m \<in> set (B h) \<longrightarrow> n \<in> set (B h) \<longrightarrow> node_key s m = node_key s n \<longrightarrow> m = n)"

definition table_ok :: "fs \<Rightarrow> bool" where
  "table_ok s \<longleftrightarrow> (\<exists>B. table_rep s B \<and> unique_keys s B)"

lemma unique_keysD:
  "unique_keys s B \<Longrightarrow> m \<in> set (B h) \<Longrightarrow> n \<in> set (B h) \<Longrightarrow> node_key s m = node_key s n \<Longrightarrow> m = n"
  by (simp add: unique_keys_def)

lemma has_key_iff: "has_key s pid name n \<longleftrightarrow> node_key s n = (pid, name)"
  by (auto simp: has_key_def node_key_def)

lemma cached_find: "table_rep s B \<Longrightarrow> cached s k = find (\<lambda>n. node_key s n = k) (B (hashName (fst k) (snd k)))"
  by (simp add: cached_def find_cached_find has_key_iff [abs_def])

lemma cached_Some:
  assumes rep: "table_rep s B" and u: "unique_keys s B"
  shows "cached s k = Some n \<longleftrightarrow> n \<in> set (B (hashName (fst k) (snd k))) \<and> node_key s n = k"
proof
  assume "cached s k = Some n"
  then show "n \<in> set (B (hashName (fst k) (snd k))) \<and> node_key s n = k"
    unfolding cached_find [OF rep] find_Some_iff by (metis nth_mem)
next
  assume n: "n \<in> set (B (hashName (fst k) (snd k))) \<and> node_key s n = k"
  then have "cached s k \<noteq> None" unfolding cached_find [OF rep] find_None_iff by blast
  then obtain m where m: "cached s k = Some m" by blast
  then have "m \<in> set (B (hashName (fst k) (snd k)))" "node_key s m = k"
    unfolding cached_find [OF rep] find_Some_iff by (metis nth_mem)+
  with n m show "cached s k = Some n" using unique_keysD [OF u] by metis
qed

lemma node_key_hash: "hashName (fst (node_key s n)) (snd (node_key s n)) = node_hash s n"
  by (simp add: node_key_def node_hash_def)

lemma cached_None:
  assumes "table_rep s B" and "unique_keys s B" and "cached s (node_key s n) = None"
  shows "m \<in> set (B h) \<Longrightarrow> node_key s m \<noteq> node_key s n"
proof
  assume m: "m \<in> set (B h)" "node_key s m = node_key s n"
  then have "h = hashName (fst (node_key s n)) (snd (node_key s n))"
    using table_repD(4) [OF assms(1) m(1)] by (simp add: node_key_def node_hash_def)
  with m have "cached s (node_key s n) = Some m" using cached_Some [OF assms(1,2)] by blast
  with assms(3) show False by simp
qed

lemma node_key_add [simp]: "node_key (hashAddNode n s) = node_key s"
  by (auto simp: node_key_def hashAddNode_def Let_def fun_eq_iff)

lemma table_ok_add:
  assumes "table_ok s" and "node_exists s n" and "cached s (node_key s n) = None"
  shows "table_ok (hashAddNode n s)" "cached (hashAddNode n s) = (cached s)(node_key s n \<mapsto> n)"
proof -
  obtain B where B: "table_rep s B" and u: "unique_keys s B" using assms(1) by (auto simp: table_ok_def)
  let ?B = "B(node_hash s n := n # B (node_hash s n))" and ?s = "hashAddNode n s"
  note keys = cached_None [OF B u assms(3)]
  then have notin: "n \<notin> set (B (node_hash s n))" by blast
  have rep: "table_rep ?s ?B"
    using assms(2) by (intro table_rep_add [OF B _ notin]) (simp add: node_exists_def)
  have mem: "m \<in> set (?B h) \<longleftrightarrow> m \<in> set (B h) \<or> m = n \<and> h = node_hash s n" for m h by auto
  have u': "unique_keys ?s ?B"
    unfolding unique_keys_def node_key_add mem using keys unique_keysD [OF u] by metis
  show "table_ok ?s" using rep u' by (auto simp: table_ok_def)
  have "cached ?s k = Some m \<longleftrightarrow> ((cached s)(node_key s n \<mapsto> n)) k = Some m" for k m
    unfolding cached_Some [OF rep u'] node_key_add mem fun_upd_apply
    using keys cached_Some [OF B u, of k m] node_key_hash by (cases "k = node_key s n") auto
  then show "cached ?s = (cached s)(node_key s n \<mapsto> n)"
    by (metis ext not_Some_eq)
qed

lemma removed_rep:
  assumes "table_rep s B"
  shows "hashRemoveNode n s = Inr (removed n s)" "table_rep (removed n s) (\<lambda>h. remove1 n (B h))"
    "\<exists>v. nodes (removed n s) m = nodes s m\<lparr>name_next := v\<rparr>"
    "removed n s = s\<lparr>nodes := nodes (removed n s), nameTable := nameTable (removed n s)\<rparr>"
  using hashRemoveNode_cases [OF assms, of n] by (auto simp: removed_def)

lemma removed_fields:
  assumes "table_ok s"
  shows "hashRemoveNode n s = Inr (removed n s)"
    "parent (nodes (removed n s) m) = parent (nodes s m)" "node_name (nodes (removed n s) m) = node_name (nodes s m)"
    "mode (nodes (removed n s) m) = mode (nodes s m)" "contents (nodes (removed n s) m) = contents (nodes s m)"
    "node_ops (nodes (removed n s) m) = node_ops (nodes s m)" "mounted (nodes (removed n s) m) = mounted (nodes s m)"
    "mount_ref (nodes (removed n s) m) = mount_ref (nodes s m)"
    "nextInode (removed n s) = nextInode s" "ignorePermissions (removed n s) = ignorePermissions s"
    "root (removed n s) = root s" "mount_table (removed n s) = mount_table s" "clock (removed n s) = clock s"
    "currentPath (removed n s) = currentPath s" "stack (removed n s) = stack s"
    "proto (nodes (removed n s) m) = proto (nodes s m)"
proof -
  obtain B where B: "table_rep s B" using assms by (auto simp: table_ok_def)
  show "hashRemoveNode n s = Inr (removed n s)" by (rule removed_rep(1) [OF B])
  obtain v where v: "nodes (removed n s) m = nodes s m\<lparr>name_next := v\<rparr>" using removed_rep(3) [OF B] by blast
  show "parent (nodes (removed n s) m) = parent (nodes s m)" "node_name (nodes (removed n s) m) = node_name (nodes s m)"
    "mode (nodes (removed n s) m) = mode (nodes s m)" "contents (nodes (removed n s) m) = contents (nodes s m)"
    "node_ops (nodes (removed n s) m) = node_ops (nodes s m)" "proto (nodes (removed n s) m) = proto (nodes s m)" "mounted (nodes (removed n s) m) = mounted (nodes s m)"
    "mount_ref (nodes (removed n s) m) = mount_ref (nodes s m)"
    by (simp_all add: v)
  show "nextInode (removed n s) = nextInode s" "ignorePermissions (removed n s) = ignorePermissions s"
    "root (removed n s) = root s" "mount_table (removed n s) = mount_table s" "clock (removed n s) = clock s"
    "currentPath (removed n s) = currentPath s" "stack (removed n s) = stack s"
    by (subst removed_rep(4) [OF B], simp)+
qed

lemma node_key_removed: "table_ok s \<Longrightarrow> node_key (removed n s) = node_key s"
  by (simp add: node_key_def removed_fields fun_eq_iff)

lemma table_ok_removed:
  assumes "table_ok s"
  shows "table_ok (removed n s)"
    "cached (removed n s) k = (if cached s k = Some n \<and> k = node_key s n then None else cached s k)"
proof -
  obtain B where B: "table_rep s B" and u: "unique_keys s B" using assms by (auto simp: table_ok_def)
  let ?B = "\<lambda>h. remove1 n (B h)"
  have mem: "m \<in> set (?B h) \<longleftrightarrow> m \<in> set (B h) \<and> m \<noteq> n" for m h
    using table_repD(2) [OF B, of h] by simp
  note rep = removed_rep(2) [OF B, of n]
  have u': "unique_keys (removed n s) ?B"
    unfolding unique_keys_def node_key_removed [OF assms] mem using unique_keysD [OF u] by blast
  show "table_ok (removed n s)" using rep u' by (auto simp: table_ok_def)
  have *: "cached (removed n s) k = Some m \<longleftrightarrow> cached s k = Some m \<and> m \<noteq> n" for m
    unfolding cached_Some [OF rep u'] cached_Some [OF B u] node_key_removed [OF assms] mem by blast
  have "cached s k = Some n \<Longrightarrow> k = node_key s n" unfolding cached_Some [OF B u] by simp
  then show "cached (removed n s) k = (if cached s k = Some n \<and> k = node_key s n then None else cached s k)"
    using * by (metis not_Some_eq)
qed

lemma table_ok_key: "table_ok s \<Longrightarrow> cached s k = Some n \<Longrightarrow> node_key s n = k"
  unfolding table_ok_def by (metis cached_Some)

lemma table_ok_bound: "table_ok s \<Longrightarrow> cached s k = Some n \<Longrightarrow> n < nextInode s"
  unfolding table_ok_def by (metis cached_Some table_repD(3))

lemma linked_cong: "(\<And>n. n \<in> set ns \<Longrightarrow> nx n = nx' n) \<Longrightarrow> linked nx p ns = linked nx' p ns"
  by (induction ns arbitrary: p) auto

text \<open>A change that leaves the keys and chains of the cached nodes alone leaves the table alone.\<close>

lemma table_frame:
  assumes "nameTable s' = nameTable s" and "nextInode s \<le> nextInode s'"
    and same: "\<And>m k. cached s k = Some m \<Longrightarrow> parent (nodes s' m) = parent (nodes s m)
      \<and> node_name (nodes s' m) = node_name (nodes s m) \<and> name_next (nodes s' m) = name_next (nodes s m)"
    and ok: "table_ok s"
  shows "table_ok s'" "cached s' = cached s"
proof -
  obtain B where B: "table_rep s B" and u: "unique_keys s B" using ok by (auto simp: table_ok_def)
  have eq: "next_of s' n = next_of s n" "node_hash s' n = node_hash s n" "node_key s' n = node_key s n"
    if "n \<in> set (B h)" for n h
  proof -
    have "cached s (node_key s n) = Some n"
      using that table_repD(4) [OF B that] unfolding cached_Some [OF B u] node_key_hash by simp
    from same [OF this] show "next_of s' n = next_of s n" "node_hash s' n = node_hash s n" "node_key s' n = node_key s n"
      by (simp_all add: next_of_def node_hash_def node_key_def)
  qed
  have "linked (next_of s') (nameTable s' h) (B h)" for h
    using table_repD(1) [OF B, of h] linked_cong [of "B h" "next_of s'" "next_of s"] eq(1)
    by (simp add: assms(1))
  then have rep: "table_rep s' B"
    unfolding table_rep_def using table_repD(2-4) [OF B] eq(2) assms(2) by (metis less_le_trans)
  have u': "unique_keys s' B"
    unfolding unique_keys_def using unique_keysD [OF u] eq(3) by metis
  show "table_ok s'" using rep u' by (auto simp: table_ok_def)
  have "cached s' k = Some n \<longleftrightarrow> cached s k = Some n" for k n
    unfolding cached_Some [OF rep u'] cached_Some [OF B u] using eq(3) by auto
  then show "cached s' = cached s" by (metis ext not_Some_eq)
qed

interpretation name_table: name_cache table_ok cached node_key node_exists hashAddNode removed
  by unfold_locales
    (auto simp: table_ok_add table_ok_removed node_key_removed fun_eq_iff dest: table_ok_key)

end
