(* ===== verification/FsLookup.thy ===== *)
theory FsLookup
  imports NameTable
begin

text \<open>
  Path lookup in \<open>FS\<close>: \<open>lookupNode\<close>, \<open>lookupPath\<close> with its mount points and symbolic links,
  \<open>getPath\<close>, and the permission checks built on them. They only read the state, so they are functions
  from \<^typ>\<open>fs\<close> to a result.

  \<open>lookupPath\<close> calls itself for every link it follows; the first argument of the model is the number of
  nested calls the engine's stack has room for, and none left is \<open>RangeError\<close>. \<open>getPath\<close> climbs to the
  root with \<open>nextInode\<close> rounds of fuel, more than a chain of parents without a cycle has.
\<close>

section \<open>One directory\<close>

definition mayLookup :: "nid \<Rightarrow> fs \<Rightarrow> nat result" where
  "mayLookup dir s =
     (if \<not> isDir (mode (nodes s dir)) then Inr 54
      else rbind (nodePermissions dir (Some ''x'') s) (\<lambda>errCode.
        if errCode \<noteq> 0 then Inr errCode
        else if node_ops (nodes s dir) \<noteq> DirOps then Inr 2 else Inr 0))"

definition FS_lookup :: "nid \<Rightarrow> string \<Rightarrow> fs \<Rightarrow> nid result" where
  "FS_lookup dir name s =
     (if node_ops (nodes s dir) = DirOps then Inl (ErrnoError 44) else Inl TypeError)"

definition lookupNode :: "nid \<Rightarrow> string \<Rightarrow> fs \<Rightarrow> nid result" where
  "lookupNode dir name s =
     rbind (mayLookup dir s) (\<lambda>errCode.
     if errCode \<noteq> 0 then Inl (ErrnoError errCode)
     else rbind (find_cached dir name s) (\<lambda>found.
       case found of Some n \<Rightarrow> Inr n | None \<Rightarrow> FS_lookup dir name s))"

section \<open>Absolute paths of nodes\<close>

fun getPath_loop :: "nat \<Rightarrow> nid \<Rightarrow> string \<Rightarrow> fs \<Rightarrow> string result" where
  "getPath_loop 0 n path s = Inl Diverges"
| "getPath_loop (Suc fuel) n path s =
     (if isRoot n s
      then (case mount_ref (nodes s n) of
             None \<Rightarrow> Inl TypeError
           | Some m \<Rightarrow>
               let mount = mountpoint (mount_table s m) in
               Inr (if path = [] then mount
                    else if mount = [] \<or> last mount \<noteq> slash then mount @ slash # path else mount @ path))
      else getPath_loop fuel (parent (nodes s n))
             (if path \<noteq> [] then node_name (nodes s n) @ slash # path else node_name (nodes s n)) s)"

definition getPath :: "nid \<Rightarrow> fs \<Rightarrow> string result" where
  "getPath n s = getPath_loop (Suc (nextInode s)) n [] s"

section \<open>Paths\<close>

record lookup_opts =
  opt_parent :: bool
  opt_follow :: bool
  follow_mount :: bool
  recurse_count :: nat

definition no_opts :: lookup_opts where
  "no_opts = \<lparr>opt_parent = False, opt_follow = False, follow_mount = True, recurse_count = 0\<rparr>"

definition of_parent :: lookup_opts where "of_parent = no_opts\<lparr>opt_parent := True\<rparr>"
definition following :: "bool \<Rightarrow> lookup_opts" where "following b = no_opts\<lparr>opt_follow := b\<rparr>"
definition not_mounted :: lookup_opts where "not_mounted = no_opts\<lparr>follow_mount := False\<rparr>"

type_synonym lookup = "string \<times> nid option"

text \<open>\<open>FS.readlink\<close> once its path has been looked up.\<close>

definition readlink_at :: "fs \<Rightarrow> lookup \<Rightarrow> string result" where
  "readlink_at s found =
     (case snd found of
        None \<Rightarrow> Inl (ErrnoError 44)
      | Some n \<Rightarrow>
          if node_ops (nodes s n) \<noteq> LinkOps then Inl (ErrnoError 28)
          else rbind (getPath (parent (nodes s n)) s) (\<lambda>dir.
            if \<not> isLink (mode (nodes s n)) then Inl (ErrnoError 28)
            else Inr (resolve (currentPath s) [dir, link (nodes s n)])))"

text \<open>
  The \<open>while\<close> loop over consecutive links: at most 42 rounds, the last of which throws. The calls it
  makes are arguments.
\<close>

fun follow_links ::
  "(string \<Rightarrow> string result) \<Rightarrow> (string \<Rightarrow> lookup result) \<Rightarrow> fs \<Rightarrow> nat \<Rightarrow> string \<Rightarrow> nid option \<Rightarrow> lookup result" where
  "follow_links read_link lookup_next s 0 path current = Inl (ErrnoError 32)"
| "follow_links read_link lookup_next s (Suc rounds) path current =
     rbind (deref current) (\<lambda>n.
     if \<not> isLink (mode (nodes s n)) then Inr (path, current)
     else rbind (read_link path) (\<lambda>target.
       let path' = resolve (currentPath s) [dirname path, target] in
       rbind (lookup_next path') (\<lambda>found.
       if rounds = 0 then Inl (ErrnoError 32)
       else follow_links read_link lookup_next s rounds path' (snd found))))"

fun walk_parts ::
  "(string \<Rightarrow> string result) \<Rightarrow> (string \<Rightarrow> lookup result) \<Rightarrow> fs \<Rightarrow> lookup_opts \<Rightarrow> string list
     \<Rightarrow> string \<Rightarrow> nid option \<Rightarrow> lookup result" where
  "walk_parts read_link lookup_next s opts [] path current = Inr (path, current)"
| "walk_parts read_link lookup_next s opts (p # ps) path current =
     (let islast = (ps = []) in
      if islast \<and> opt_parent opts then Inr (path, current)
      else
        rbind (deref current) (\<lambda>dir.
        rbind (lookupNode dir p s) (\<lambda>n.
        let path1 = join2 path p;
            n1 = (case mounted (nodes s n) of
                    Some m \<Rightarrow> if \<not> islast \<or> follow_mount opts then mount_root (mount_table s m) else n
                  | None \<Rightarrow> n)
        in rbind (if \<not> islast \<or> opt_follow opts
                  then follow_links read_link lookup_next s 42 path1 (Some n1) else Inr (path1, Some n1))
             (\<lambda>(path2, current2). walk_parts read_link lookup_next s opts ps path2 current2))))"

fun lookupPath :: "nat \<Rightarrow> fs \<Rightarrow> string \<Rightarrow> lookup_opts \<Rightarrow> lookup result" where
  "lookupPath 0 s path opts = Inl RangeError"
| "lookupPath (Suc frames) s path opts =
     (let path1 = resolve (currentPath s) [path] in
      if path1 = [] then Inr ([], None)
      else if recurse_count opts > 8 then Inl (ErrnoError 32)
      else walk_parts
             (\<lambda>p. rbind (lookupPath frames s p no_opts) (readlink_at s))
             (\<lambda>p. lookupPath frames s p (no_opts\<lparr>recurse_count := recurse_count opts + 1\<rparr>))
             s opts (parts_of path1) [slash] (root s))"

definition FS_lookupPath :: "string \<Rightarrow> lookup_opts \<Rightarrow> fs \<Rightarrow> lookup result" where
  "FS_lookupPath path opts s = lookupPath (stack s) s path opts"

definition FS_readlink :: "string \<Rightarrow> fs \<Rightarrow> string result" where
  "FS_readlink path s = rbind (FS_lookupPath path no_opts s) (readlink_at s)"

section \<open>What a caller may do\<close>

definition mayCreate :: "nid \<Rightarrow> string \<Rightarrow> fs \<Rightarrow> nat result" where
  "mayCreate dir name s =
     rbind (attempt (lookupNode dir name s)) (\<lambda>found.
     if found \<noteq> None then Inr 20 else nodePermissions dir (Some ''wx'') s)"

text \<open>
  The handler of \<open>mayDelete\<close> returns \<open>e.errno\<close>, which is \<open>undefined\<close>, and so no error, for an exception
  that is not an \<open>ErrnoError\<close>.
\<close>

definition mayDelete :: "nid \<Rightarrow> string \<Rightarrow> bool \<Rightarrow> fs \<Rightarrow> nat result" where
  "mayDelete dir name isdir s =
     (case lookupNode dir name s of
        Inl (ErrnoError e) \<Rightarrow> Inr e
      | Inl Diverges \<Rightarrow> Inl Diverges
      | Inl _ \<Rightarrow> Inr 0
      | Inr n \<Rightarrow>
          rbind (nodePermissions dir (Some ''wx'') s) (\<lambda>errCode.
          if errCode \<noteq> 0 then Inr errCode
          else if isdir then
            if \<not> isDir (mode (nodes s n)) then Inr 54
            else if isRoot n s then Inr 10
            else rbind (getPath n s) (\<lambda>p. Inr (if p = currentPath s then 10 else 0))
          else if isDir (mode (nodes s n)) then Inr 31 else Inr 0))"

definition mayOpen :: "nid option \<Rightarrow> i32 \<Rightarrow> fs \<Rightarrow> nat result" where
  "mayOpen node fl s =
     (case node of None \<Rightarrow> Inr 44
      | Some n \<Rightarrow>
          if isLink (mode (nodes s n)) then Inr 32
          else if isDir (mode (nodes s n)) \<and> (flagsToPermissionString fl \<noteq> Some ''r'' \<or> fl AND 512 \<noteq> 0) then Inr 31
          else nodePermissions n (flagsToPermissionString fl) s)"

section \<open>The name table and the directories\<close>

text \<open>What a directory holds under a name, by its \<open>contents\<close>.\<close>

definition entry :: "fs \<Rightarrow> nid \<Rightarrow> string \<Rightarrow> nid option" where
  "entry s d name = (case contents (nodes s d) of Entries es \<Rightarrow> map_of es name | _ \<Rightarrow> None)"

text \<open>
  The table is a faithful cache: for every directory and every name a path can contain, it holds what
  the directory holds.
\<close>

definition coherent :: "fs \<Rightarrow> bool" where
  "coherent s \<longleftrightarrow> table_ok s
     \<and> (\<forall>d < nextInode s. \<forall>name. plain name \<longrightarrow> cached s (d, name) = entry s d name)"

definition searchable :: "fs \<Rightarrow> nid \<Rightarrow> bool" where
  "searchable s d \<longleftrightarrow> d < nextInode s \<and> mayLookup d s = Inr 0"

lemma find_cached_total: "table_ok s \<Longrightarrow> find_cached d name s = Inr (cached s (d, name))"
proof -
  assume "table_ok s"
  then obtain B where B: "table_rep s B" by (auto simp: table_ok_def)
  show ?thesis by (simp add: cached_def find_cached_find [OF B])
qed

lemma lookupNode_entry:
  assumes "coherent s" and "searchable s d" and "plain name"
  shows "lookupNode d name s = (case entry s d name of Some n \<Rightarrow> Inr n | None \<Rightarrow> Inl (ErrnoError 44))"
proof -
  have "node_ops (nodes s d) = DirOps"
    using assms(2) by (auto simp: searchable_def mayLookup_def rbind_eq_Inr split: if_splits)
  moreover have "find_cached d name s = Inr (entry s d name)"
    using assms by (simp add: coherent_def find_cached_total searchable_def)
  ultimately show ?thesis
    using assms(2) by (auto simp: lookupNode_def searchable_def FS_lookup_def split: option.splits)
qed

text \<open>The walk through directories only: no link and no mount point on the way.\<close>

fun descend :: "fs \<Rightarrow> nid \<Rightarrow> string list \<Rightarrow> nid option" where
  "descend s d [] = Some d"
| "descend s d (p # ps) =
     (case entry s d p of None \<Rightarrow> None
      | Some n \<Rightarrow> if ps = [] then Some n else descend s n ps)"

fun plain_way :: "fs \<Rightarrow> nid \<Rightarrow> string list \<Rightarrow> bool" where
  "plain_way s d [] \<longleftrightarrow> True"
| "plain_way s d (p # ps) \<longleftrightarrow> searchable s d \<and> plain p \<and>
     (case entry s d p of None \<Rightarrow> True
      | Some n \<Rightarrow> mounted (nodes s n) = None \<and> \<not> isLink (mode (nodes s n)) \<and> (ps \<noteq> [] \<longrightarrow> plain_way s n ps))"

lemma join2_path_of:
  assumes "plain p" and "clean st"
  shows "join2 (path_of st) p = path_of (p # st)"
proof -
  have "parts_of (path_of st @ slash # p) = rev (p # st)"
    using assms by (simp add: parts_of_path_of parts_of_word plain_def)
  moreover have "walk [] (rev (p # st)) = p # st"
    using assms by (subst walk_plain) (auto simp: clean_def)
  moreover have "last p \<noteq> slash" "p \<noteq> []" using assms(1) last_word by (auto simp: plain_def)
  moreover have "isAbs (path_of st @ slash # p)" by (simp add: isAbs_def path_of_def)
  ultimately show ?thesis
    by (simp add: join2_def normalize_def normalizeArray_walk Let_def) (simp add: path_of_def)
qed

lemma follow_links_plain:
  "\<not> isLink (mode (nodes s n)) \<Longrightarrow> follow_links rl ln s 42 path (Some n) = Inr (path, Some n)"
  by (simp add: numeral_eq_Suc)

lemma walk_parts_descend:
  assumes "coherent s" and "\<not> opt_parent opts"
  shows "plain_way s d ps \<Longrightarrow> clean st \<Longrightarrow>
    walk_parts rl ln s opts ps (path_of st) (Some d) =
      (case descend s d ps of Some n \<Rightarrow> Inr (path_of (rev ps @ st), Some n) | None \<Rightarrow> Inl (ErrnoError 44))"
proof (induction ps arbitrary: d st)
  case (Cons p ps)
  then have p: "searchable s d" "plain p" by auto
  show ?case
  proof (cases "entry s d p")
    case None
    with lookupNode_entry [OF assms(1) p] assms(2) show ?thesis by simp
  next
    case (Some n)
    with Cons.prems have n: "mounted (nodes s n) = None" "\<not> isLink (mode (nodes s n))"
      "ps \<noteq> [] \<Longrightarrow> plain_way s n ps" by auto
    with Some lookupNode_entry [OF assms(1) p] assms(2) join2_path_of [OF p(2) Cons.prems(2)]
      Cons.IH [of n "p # st"] Cons.prems(2) p(2) follow_links_plain [OF n(2)]
    show ?thesis by (cases "ps = []") (auto simp: Let_def split: option.splits)
  qed
qed simp

lemma walk_parts_parent:
  assumes "coherent s" and "opt_parent opts"
  shows "plain_way s d ps \<Longrightarrow> descend s d ps = Some n \<Longrightarrow> clean st \<Longrightarrow>
    walk_parts rl ln s opts (ps @ [x]) (path_of st) (Some d) = Inr (path_of (rev ps @ st), Some n)"
proof (induction ps arbitrary: d st)
  case Nil
  then show ?case using assms(2) by simp
next
  case (Cons p ps)
  then have p: "searchable s d" "plain p" by auto
  from Cons.prems(2) obtain m where m: "entry s d p = Some m" by (auto split: option.splits)
  with Cons.prems have n: "mounted (nodes s m) = None" "\<not> isLink (mode (nodes s m))"
    "plain_way s m ps" "descend s m ps = Some n" by (auto split: if_splits)
  with m lookupNode_entry [OF assms(1) p] assms(2) join2_path_of [OF p(2) Cons.prems(3)]
    Cons.IH [of m "p # st"] Cons.prems(3) p(2) follow_links_plain [OF n(2)]
  show ?case by (simp add: Let_def)
qed

lemma lookupPath_plain:
  assumes "coherent s" and "isAbs (currentPath s)" and "path \<noteq> []" and "root s = Some r"
    and "plain_way s r (rev (cd (cd [] (currentPath s)) path))" and "recurse_count opts \<le> 8" and "\<not> opt_parent opts"
  shows "lookupPath (Suc frames) s path opts =
    (case descend s r (rev (cd (cd [] (currentPath s)) path)) of
       Some n \<Rightarrow> Inr (resolve (currentPath s) [path], Some n)
     | None \<Rightarrow> Inl (ErrnoError 44))"
proof -
  let ?st = "cd (cd [] (currentPath s)) path"
  have c: "clean ?st" by (simp add: clean_cd)
  have r: "resolve (currentPath s) [path] = path_of ?st" using assms(2,3) by (simp add: resolve_cds)
  have "path_of [] = [slash]" by (simp add: path_of_def)
  with walk_parts_descend [OF assms(1,7,5), of "[]"] assms(4,6) show ?thesis
    by (simp add: r parts_of_path_of [OF c] Let_def split: option.splits)
qed

lemma lookupPath_parent:
  assumes "coherent s" and "isAbs (currentPath s)" and "path \<noteq> []" and "root s = Some r"
    and st: "cd (cd [] (currentPath s)) path = x # st"
    and "plain_way s r (rev st)" "descend s r (rev st) = Some n"
  shows "lookupPath (Suc frames) s path of_parent = Inr (path_of st, Some n)"
proof -
  have c: "clean (x # st)" using st clean_cd [of "cd [] (currentPath s)" path] clean_cd [of "[]"] by simp
  have r: "resolve (currentPath s) [path] = path_of (x # st)" using assms(2,3) st by (simp add: resolve_cds)
  have "path_of [] = [slash]" by (simp add: path_of_def)
  with walk_parts_parent [OF assms(1) _ assms(6,7), of of_parent "[]"] assms(4) show ?thesis
    using parts_of_path_of [OF c] by (simp add: r Let_def of_parent_def no_opts_def)
qed

end
