(* ===== verification/FileStorage.thy ===== *)
theory FileStorage
  imports FsState
begin

text \<open>
  The storage of one regular file in \<open>MEMFS\<close>: \<open>contents\<close> is an array with spare capacity of which the
  first \<open>usedBytes\<close> are the file. The array operations are given with the clipping of \<open>subarray\<close> and the
  \<open>RangeError\<close> of \<open>set\<close>. That a stored array may be a view of the caller's buffer (\<open>canOwn\<close>) is not
  modelled: the bytes are copied.

  The storage refines a list of bytes (\<open>file_bytes\<close>); the contract \<open>byte_file\<close> is what programs rely on:
  a write reads back, leaves the other bytes, and fills a gap with zeros.
\<close>

section \<open>Arrays\<close>

definition subarray :: "nat \<Rightarrow> nat \<Rightarrow> u8 list \<Rightarrow> u8 list" where
  "subarray first past bs = drop first (take past bs)"

definition array_set :: "nat \<Rightarrow> u8 list \<Rightarrow> u8 list \<Rightarrow> u8 list result" where
  "array_set at source target =
     (if at + length source \<le> length target
      then Inr (take at target @ source @ drop (at + length source) target) else Inl RangeError)"

text \<open>The element loops: an index past the end of the source is \<open>undefined\<close>, which is stored as 0.\<close>

definition elements :: "nat \<Rightarrow> nat \<Rightarrow> u8 list \<Rightarrow> u8 list" where
  "elements first n bs = map (\<lambda>i. if first + i < length bs then bs ! (first + i) else 0) [0..<n]"

fun store_elements :: "nat \<Rightarrow> u8 list \<Rightarrow> u8 list \<Rightarrow> u8 list" where
  "store_elements at [] target = target"
| "store_elements at (b # bs) target = store_elements (at + 1) bs (target[at := b])"

section \<open>The storage operations of MEMFS\<close>

definition byte_array :: "fsnode \<Rightarrow> u8 list" where
  "byte_array d = (case contents d of Bytes bs \<Rightarrow> bs | _ \<Rightarrow> [])"

definition getFileDataAsTypedArray :: "fsnode \<Rightarrow> u8 list" where
  "getFileDataAsTypedArray d = subarray 0 (usedBytes d) (byte_array d)"

definition CAPACITY_DOUBLING_MAX :: nat where "CAPACITY_DOUBLING_MAX = 1024 * 1024"

definition new_capacity :: "nat \<Rightarrow> nat \<Rightarrow> nat" where
  "new_capacity prevCapacity newCapacity =
     (let grown = (if prevCapacity < CAPACITY_DOUBLING_MAX then prevCapacity * 2 else prevCapacity * 9 div 8) mod 2 ^ 32;
          c = max newCapacity grown
      in if prevCapacity \<noteq> 0 then max c 256 else c)"

definition expandFileStorage :: "nat \<Rightarrow> fsnode \<Rightarrow> fsnode result" where
  "expandFileStorage newCapacity d =
     (let prevCapacity = length (byte_array d) in
      if prevCapacity \<ge> newCapacity then Inr d
      else let fresh = replicate (new_capacity prevCapacity newCapacity) 0 in
        if usedBytes d > 0
        then (case contents d of
               Bytes old \<Rightarrow>
                 rbind (array_set 0 (subarray 0 (usedBytes d) old) fresh) (\<lambda>bs. Inr (d\<lparr>contents := Bytes bs\<rparr>))
             | _ \<Rightarrow> Inl TypeError)
        else Inr (d\<lparr>contents := Bytes fresh\<rparr>))"

definition resizeFileStorage :: "nat \<Rightarrow> fsnode \<Rightarrow> fsnode result" where
  "resizeFileStorage newSize d =
     (if usedBytes d = newSize then Inr d
      else if newSize = 0 then Inr (d\<lparr>contents := Null, usedBytes := 0\<rparr>)
      else case contents d of
          Bytes old \<Rightarrow>
            rbind (array_set 0 (subarray 0 (min newSize (usedBytes d)) old) (replicate newSize 0))
              (\<lambda>bs. Inr (d\<lparr>contents := Bytes bs, usedBytes := newSize\<rparr>))
        | _ \<Rightarrow> Inr (d\<lparr>contents := Bytes (replicate newSize 0), usedBytes := newSize\<rparr>))"

text \<open>
  \<open>stream_ops.read\<close>, with the caller's buffer as argument and result, and \<open>stream_ops.write\<close>, with the
  clock; \<open>typed\<close> says that the caller's buffer is a typed array.
\<close>

definition read_file :: "fsnode \<Rightarrow> u8 list \<Rightarrow> nat \<Rightarrow> nat \<Rightarrow> nat \<Rightarrow> (nat \<times> u8 list) result" where
  "read_file d buffer offset len pos =
     (if pos \<ge> usedBytes d then Inr (0, buffer)
      else let size = min (usedBytes d - pos) len in
        if size > 8
        then rbind (array_set offset (subarray pos (pos + size) (byte_array d)) buffer) (\<lambda>b. Inr (size, b))
        else Inr (size, store_elements offset (elements pos size (byte_array d)) buffer))"

definition write_file ::
  "fsnode \<Rightarrow> u8 list \<Rightarrow> nat \<Rightarrow> nat \<Rightarrow> nat \<Rightarrow> bool \<Rightarrow> bool \<Rightarrow> nat \<Rightarrow> (nat \<times> fsnode) result" where
  "write_file d buffer offset len pos canOwn typed now =
     (if len = 0 then Inr (0, d)
      else
        let d1 = d\<lparr>timestamp := now\<rparr>;
            chunk = subarray offset (offset + len) buffer
        in if typed \<and> canOwn then Inr (len, d1\<lparr>contents := Bytes chunk, usedBytes := len\<rparr>)
           else if typed \<and> usedBytes d = 0 \<and> pos = 0 then Inr (len, d1\<lparr>contents := Bytes chunk, usedBytes := len\<rparr>)
           else if typed \<and> pos + len \<le> usedBytes d
           then rbind (array_set pos chunk (byte_array d)) (\<lambda>bs. Inr (len, d1\<lparr>contents := Bytes bs\<rparr>))
           else rbind (expandFileStorage (pos + len) d1) (\<lambda>d2.
             rbind (if typed then array_set pos chunk (byte_array d2)
                    else Inr (store_elements pos (elements offset len buffer) (byte_array d2))) (\<lambda>bs.
             Inr (len, d2\<lparr>contents := Bytes bs, usedBytes := max (usedBytes d2) (pos + len)\<rparr>))))"

definition allocate_file :: "fsnode \<Rightarrow> nat \<Rightarrow> nat \<Rightarrow> fsnode result" where
  "allocate_file d offset len =
     rbind (expandFileStorage (offset + len) d) (\<lambda>d1.
     Inr (d1\<lparr>usedBytes := max (usedBytes d1) (offset + len)\<rparr>))"

definition llseek_file :: "fsnode \<Rightarrow> int \<Rightarrow> int \<Rightarrow> int \<Rightarrow> int result" where
  "llseek_file d current offset whence =
     (let p = (if whence = 1 then offset + current
               else if whence = 2 then (if isFile (mode d) then offset + int (usedBytes d) else offset)
               else offset)
      in if p < 0 then Inl (ErrnoError 28) else Inr p)"

section \<open>The file a node stores\<close>

definition file_bytes :: "fsnode \<Rightarrow> u8 list" where
  "file_bytes d = take (usedBytes d) (byte_array d)"

text \<open>The array covers the file, and what lies past the file is zero.\<close>

definition file_ok :: "fsnode \<Rightarrow> bool" where
  "file_ok d \<longleftrightarrow> usedBytes d \<le> length (byte_array d)
     \<and> drop (usedBytes d) (byte_array d) = replicate (length (byte_array d) - usedBytes d) 0
     \<and> (contents d = Null \<or> (\<exists>bs. contents d = Bytes bs))"

text \<open>A list of bytes grown with zeros, and one with a chunk put at a position.\<close>

definition padded :: "nat \<Rightarrow> u8 list \<Rightarrow> u8 list" where
  "padded n bs = bs @ replicate (n - length bs) 0"

definition put :: "nat \<Rightarrow> u8 list \<Rightarrow> u8 list \<Rightarrow> u8 list" where
  "put pos chunk bs = take pos (padded pos bs) @ chunk @ drop (pos + length chunk) bs"

lemma length_padded [simp]: "length (padded n bs) = max n (length bs)"
  by (simp add: padded_def)

lemma length_put: "length (put pos chunk bs) = max (length bs) (pos + length chunk)"
  by (simp add: put_def)

lemma padded_nth: "i < max n (length bs) \<Longrightarrow> padded n bs ! i = (if i < length bs then bs ! i else 0)"
  by (auto simp: padded_def nth_append)

lemma put_nth:
  "i < length (put pos chunk bs) \<Longrightarrow>
   put pos chunk bs ! i =
     (if i < pos then (if i < length bs then bs ! i else 0)
      else if i < pos + length chunk then chunk ! (i - pos) else bs ! i)"
  by (auto simp: put_def nth_append padded_nth length_put)

lemma file_okD:
  assumes "file_ok d"
  shows "length (file_bytes d) = usedBytes d"
    "byte_array d = file_bytes d @ replicate (length (byte_array d) - usedBytes d) 0"
  using assms append_take_drop_id [of "usedBytes d" "byte_array d"]
  by (auto simp: file_ok_def file_bytes_def)

lemma file_okI:
  assumes "contents d = Bytes (bs @ replicate k 0)" and "usedBytes d = length bs"
  shows "file_ok d" "file_bytes d = bs"
  using assms by (simp_all add: file_ok_def file_bytes_def byte_array_def)

lemma store_elements_eq:
  "at + length bs \<le> length target \<Longrightarrow>
   store_elements at bs target = take at target @ bs @ drop (at + length bs) target"
proof (induction bs arbitrary: at target)
  case (Cons b bs)
  then show ?case by (simp add: take_Suc_conv_app_nth drop_update_cancel)
qed simp

lemma elements_subarray: "first + n \<le> length bs \<Longrightarrow> elements first n bs = subarray first (first + n) bs"
  by (auto simp: elements_def subarray_def intro!: nth_equalityI)

lemma length_subarray [simp]: "length (subarray a b bs) = min b (length bs) - a"
  by (simp add: subarray_def)

section \<open>Each operation on the bytes\<close>

lemma new_capacity_ge: "n \<le> new_capacity prev n"
  by (auto simp: new_capacity_def Let_def max.coboundedI1)

lemma expand_Inr:
  assumes ok: "file_ok d" and n: "0 < n"
  shows "\<exists>k. expandFileStorage n d = Inr (d\<lparr>contents := Bytes (file_bytes d @ replicate k 0)\<rparr>)
    \<and> n \<le> length (file_bytes d) + k"
proof (cases "length (byte_array d) \<ge> n")
  case True
  then obtain bs where bs: "contents d = Bytes bs"
    using n ok by (auto simp: file_ok_def byte_array_def)
  have "byte_array d = file_bytes d @ replicate (length (byte_array d) - usedBytes d) 0"
    by (rule file_okD(2) [OF ok])
  moreover have "d\<lparr>contents := Bytes (byte_array d)\<rparr> = d" using bs by (simp add: byte_array_def)
  ultimately show ?thesis
    using True file_okD(1) [OF ok] ok
    by (intro exI [of _ "length (byte_array d) - usedBytes d"]) (simp add: expandFileStorage_def file_ok_def)
next
  case False
  let ?c = "new_capacity (length (byte_array d)) n"
  have c: "usedBytes d < ?c" "n \<le> ?c"
    using False new_capacity_ge [of n "length (byte_array d)"] ok by (auto simp: file_ok_def)
  show ?thesis
  proof (cases "usedBytes d = 0")
    case True
    then have "file_bytes d = []" by (simp add: file_bytes_def)
    with True False c show ?thesis
      by (intro exI [of _ ?c]) (simp add: expandFileStorage_def Let_def)
  next
    case False
    then obtain bs where bs: "contents d = Bytes bs" using ok by (auto simp: file_ok_def byte_array_def)
    have "subarray 0 (usedBytes d) bs = file_bytes d"
      using bs by (simp add: subarray_def file_bytes_def byte_array_def)
    with False \<open>\<not> n \<le> length (byte_array d)\<close> c bs file_okD(1) [OF ok] show ?thesis
      by (intro exI [of _ "?c - usedBytes d"]) (simp add: expandFileStorage_def array_set_def Let_def)
  qed
qed

lemma put_append:
  assumes "pos + length chunk \<le> length bs + k"
  shows "take pos (bs @ replicate k 0) @ chunk @ drop (pos + length chunk) (bs @ replicate k 0)
    = put pos chunk bs @ replicate (length bs + k - length (put pos chunk bs)) 0"
proof -
  have "take pos (bs @ replicate k 0) = take pos (padded pos bs)"
  proof -
    have "min (pos - length bs) k = pos - length bs" using assms by simp
    then show ?thesis by (simp add: padded_def)
  qed
  moreover have "drop (pos + length chunk) (bs @ replicate k 0)
      = drop (pos + length chunk) bs @ replicate (length bs + k - length (put pos chunk bs)) 0"
  proof -
    have "length bs + k - length (put pos chunk bs) = k - (pos + length chunk - length bs)"
      by (simp add: length_put max_def add.commute)
    then show ?thesis by simp
  qed
  ultimately show ?thesis by (simp add: put_def)
qed

lemma put_inside: "pos + length chunk \<le> length bs \<Longrightarrow> put pos chunk bs = take pos bs @ chunk @ drop (pos + length chunk) bs"
  by (simp add: put_def padded_def)

lemma put_all: "put 0 chunk [] = chunk"
  by (simp add: put_def)

text \<open>A write of \<open>len\<close> bytes that the buffer holds: what it returns and which file it leaves.\<close>

definition same_meta :: "fsnode \<Rightarrow> fsnode \<Rightarrow> bool" where
  "same_meta d d' \<longleftrightarrow>
     parent d' = parent d \<and> mount_ref d' = mount_ref d \<and> mounted d' = mounted d \<and> node_name d' = node_name d
     \<and> mode d' = mode d \<and> node_ops d' = node_ops d \<and> rdev d' = rdev d \<and> link d' = link d
     \<and> name_next d' = name_next d"

lemma same_meta_simps [simp]:
  "same_meta d d" "same_meta d (d\<lparr>contents := c\<rparr>)" "same_meta d (d\<lparr>contents := c, usedBytes := u\<rparr>)"
  "same_meta d (d\<lparr>timestamp := t, contents := c\<rparr>)"
  "same_meta d (d\<lparr>timestamp := t, contents := c, usedBytes := u\<rparr>)"
  by (simp_all add: same_meta_def)

lemma write_file_ok:
  assumes ok: "file_ok d" and len: "0 < len" "offset + len \<le> length buffer"
  shows "\<exists>d'. write_file d buffer offset len pos canOwn typed now = Inr (len, d') \<and> file_ok d' \<and> same_meta d d'
     \<and> file_bytes d' = (if typed \<and> canOwn then take len (drop offset buffer)
                        else put pos (take len (drop offset buffer)) (file_bytes d))"
proof -
  define chunk where "chunk = take len (drop offset buffer)"
  have chunk: "subarray offset (offset + len) buffer = chunk" "length chunk = len" "chunk \<noteq> []"
    using len by (auto simp: chunk_def subarray_def drop_take)
  have els: "elements offset len buffer = chunk" using len chunk by (simp add: elements_subarray)
  let ?d1 = "d\<lparr>timestamp := now\<rparr>"
  have ok1: "file_ok ?d1" "file_bytes ?d1 = file_bytes d"
    using ok by (simp_all add: file_ok_def file_bytes_def byte_array_def)
  consider (own) "typed" "canOwn" | (first) "typed" "\<not> canOwn" "usedBytes d = 0" "pos = 0"
    | (inside) "typed" "\<not> canOwn" "\<not> (usedBytes d = 0 \<and> pos = 0)" "pos + len \<le> usedBytes d"
    | (grow) "\<not> (typed \<and> canOwn)" "\<not> (typed \<and> usedBytes d = 0 \<and> pos = 0)" "\<not> (typed \<and> pos + len \<le> usedBytes d)"
    by (cases typed; cases canOwn) auto
  then show ?thesis
  proof cases
    case own
    let ?d = "?d1\<lparr>contents := Bytes chunk, usedBytes := len\<rparr>"
    have "file_ok ?d" "file_bytes ?d = chunk" using file_okI [of ?d chunk 0] chunk by simp_all
    with own len chunk show ?thesis
      by (simp add: write_file_def chunk_def [symmetric] Let_def)
  next
    case first
    let ?d = "?d1\<lparr>contents := Bytes chunk, usedBytes := len\<rparr>"
    have "file_ok ?d" "file_bytes ?d = chunk" using file_okI [of ?d chunk 0] chunk by simp_all
    moreover have "file_bytes d = []" using first by (simp add: file_bytes_def)
    ultimately show ?thesis using first len chunk
      by (simp add: write_file_def chunk_def [symmetric] Let_def put_all)
  next
    case inside
    let ?k = "length (byte_array d) - usedBytes d"
    have arr: "byte_array d = file_bytes d @ replicate ?k 0" "length (file_bytes d) = usedBytes d"
      "usedBytes d \<le> length (byte_array d)"
      using file_okD [OF ok] ok by (simp_all add: file_ok_def)
    let ?bs = "take pos (byte_array d) @ chunk @ drop (pos + len) (byte_array d)"
    have len_put: "length (put pos chunk (file_bytes d)) = usedBytes d" using inside arr chunk by (simp add: length_put)
    have "?bs = put pos chunk (file_bytes d) @ replicate ?k 0"
      using put_append [of pos chunk "file_bytes d" ?k] arr inside chunk len_put by simp
    then have "file_ok (?d1\<lparr>contents := Bytes ?bs\<rparr>)" "file_bytes (?d1\<lparr>contents := Bytes ?bs\<rparr>) = put pos chunk (file_bytes d)"
      using file_okI [of "?d1\<lparr>contents := Bytes ?bs\<rparr>" "put pos chunk (file_bytes d)" ?k] len_put by simp_all
    then show ?thesis using inside len chunk arr
      by (simp add: write_file_def chunk_def [symmetric] Let_def array_set_def)
  next
    case grow
    obtain k where k: "expandFileStorage (pos + len) ?d1 = Inr (?d1\<lparr>contents := Bytes (file_bytes d @ replicate k 0)\<rparr>)"
      "pos + len \<le> length (file_bytes d) + k"
      using expand_Inr [OF ok1(1), of "pos + len"] len ok1(2) by auto
    let ?a = "file_bytes d @ replicate k 0"
    let ?bs = "take pos ?a @ chunk @ drop (pos + len) ?a"
    let ?d = "?d1\<lparr>contents := Bytes ?bs, usedBytes := max (usedBytes d) (pos + len)\<rparr>"
    have arr: "length (file_bytes d) = usedBytes d" using file_okD [OF ok] by simp
    have "?bs = put pos chunk (file_bytes d) @ replicate (usedBytes d + k - length (put pos chunk (file_bytes d))) 0"
      using put_append [of pos chunk "file_bytes d" k] k(2) chunk arr by simp
    then have "file_ok ?d" "file_bytes ?d = put pos chunk (file_bytes d)"
      using file_okI [of ?d "put pos chunk (file_bytes d)"] arr chunk by (simp_all add: length_put)
    moreover have "store_elements pos chunk ?a = ?bs" using k(2) chunk by (simp add: store_elements_eq)
    ultimately show ?thesis using grow len chunk k els
      by (auto simp: write_file_def chunk_def [symmetric] Let_def array_set_def byte_array_def)
  qed
qed

lemma write_file_nothing: "write_file d buffer offset 0 pos canOwn typed now = Inr (0, d)"
  by (simp add: write_file_def)

lemma read_file_ok:
  assumes ok: "file_ok d" and len: "offset + len \<le> length buffer"
  shows "read_file d buffer offset len pos =
    (let chunk = take len (drop pos (file_bytes d))
     in Inr (length chunk, take offset buffer @ chunk @ drop (offset + length chunk) buffer))"
proof (cases "pos \<ge> usedBytes d")
  case True
  then show ?thesis using file_okD(1) [OF ok] by (simp add: read_file_def)
next
  case False
  define size where "size = min (usedBytes d - pos) len"
  have used: "usedBytes d \<le> length (byte_array d)" using ok by (simp add: file_ok_def)
  have sub: "subarray pos (pos + size) (byte_array d) = take len (drop pos (file_bytes d))"
    using False used by (auto simp: subarray_def file_bytes_def drop_take size_def min_def)
  have "length (take len (drop pos (file_bytes d))) = size"
    using file_okD(1) [OF ok] by (simp add: size_def min.commute)
  moreover have "elements pos size (byte_array d) = subarray pos (pos + size) (byte_array d)"
    using False used by (intro elements_subarray) (auto simp: size_def)
  moreover have "offset + size \<le> length buffer" using len by (simp add: size_def)
  ultimately show ?thesis using False sub
    by (simp add: read_file_def size_def [symmetric] Let_def array_set_def store_elements_eq)
qed

lemma resize_file_ok:
  assumes ok: "file_ok d"
  shows "\<exists>d'. resizeFileStorage n d = Inr d' \<and> file_ok d' \<and> same_meta d d'
    \<and> file_bytes d' = take n (padded n (file_bytes d))"
proof -
  have used: "length (file_bytes d) = usedBytes d" by (rule file_okD(1) [OF ok])
  consider "usedBytes d = n" | "usedBytes d \<noteq> n" "n = 0" | "usedBytes d \<noteq> n" "0 < n" by auto
  then show ?thesis
  proof cases
    case 1
    then show ?thesis using ok used by (simp add: resizeFileStorage_def padded_def)
  next
    case 2
    then show ?thesis by (simp add: resizeFileStorage_def file_ok_def file_bytes_def byte_array_def padded_def)
  next
    case 3
    let ?bs = "take n (padded n (file_bytes d))"
    let ?d = "d\<lparr>contents := Bytes ?bs, usedBytes := n\<rparr>"
    have "file_ok ?d" "file_bytes ?d = ?bs" using file_okI [of ?d ?bs 0] by simp_all
    moreover have "resizeFileStorage n d = Inr ?d"
    proof (cases "contents d")
      case (Bytes bs)
      have "subarray 0 (min n (usedBytes d)) bs = take n (file_bytes d)"
        by (simp add: subarray_def file_bytes_def byte_array_def Bytes)
      with 3 Bytes used show ?thesis
        by (auto simp: resizeFileStorage_def array_set_def padded_def min_def)
    next
      case Null
      then have "file_bytes d = []" by (simp add: file_bytes_def byte_array_def)
      with 3 Null show ?thesis by (simp add: resizeFileStorage_def padded_def)
    qed (use ok in \<open>auto simp: file_ok_def\<close>)
    ultimately show ?thesis by simp
  qed
qed

lemma allocate_file_ok:
  assumes ok: "file_ok d" and len: "0 < len"
  shows "\<exists>d'. allocate_file d offset len = Inr d' \<and> file_ok d' \<and> same_meta d d'
    \<and> file_bytes d' = padded (offset + len) (file_bytes d)"
proof -
  obtain k where k: "expandFileStorage (offset + len) d = Inr (d\<lparr>contents := Bytes (file_bytes d @ replicate k 0)\<rparr>)"
      "offset + len \<le> length (file_bytes d) + k"
    using expand_Inr [OF ok, of "offset + len"] len by auto
  have used: "length (file_bytes d) = usedBytes d" by (rule file_okD(1) [OF ok])
  let ?p = "padded (offset + len) (file_bytes d)"
  let ?d = "d\<lparr>contents := Bytes (file_bytes d @ replicate k 0), usedBytes := max (usedBytes d) (offset + len)\<rparr>"
  have "file_bytes d @ replicate k 0 = ?p @ replicate (usedBytes d + k - length ?p) 0"
    using k(2) used by (simp add: padded_def replicate_add [symmetric])
  then have "file_ok ?d" "file_bytes ?d = ?p" using file_okI [of ?d ?p] used by (simp_all add: max.commute)
  then show ?thesis using k(1) by (simp add: allocate_file_def)
qed

section \<open>The contract of a file\<close>

locale byte_file =
  fixes ok :: "'f \<Rightarrow> bool" and bytes :: "'f \<Rightarrow> u8 list"
    and write_at :: "nat \<Rightarrow> u8 list \<Rightarrow> 'f \<Rightarrow> 'f" and resize_to :: "nat \<Rightarrow> 'f \<Rightarrow> 'f"
    and read_at :: "nat \<Rightarrow> nat \<Rightarrow> 'f \<Rightarrow> u8 list"
  assumes write_ok: "ok f \<Longrightarrow> ok (write_at pos chunk f)"
    and write_bytes: "ok f \<Longrightarrow> bytes (write_at pos chunk f) = (if chunk = [] then bytes f else put pos chunk (bytes f))"
    and resize_ok: "ok f \<Longrightarrow> ok (resize_to n f)"
    and resize_bytes: "ok f \<Longrightarrow> bytes (resize_to n f) = take n (padded n (bytes f))"
    and read_bytes: "ok f \<Longrightarrow> read_at pos n f = take n (drop pos (bytes f))"
begin

lemma read_after_write:
  assumes "ok f" and "chunk \<noteq> []"
  shows "read_at pos (length chunk) (write_at pos chunk f) = chunk"
  using assms by (simp add: read_bytes write_ok write_bytes put_def)

lemma read_before_write:
  assumes "ok f" and "pos' + n \<le> pos" and "pos \<le> length (bytes f)"
  shows "read_at pos' n (write_at pos chunk f) = read_at pos' n f"
proof -
  have "take n (drop pos' (take pos (bytes f) @ xs)) = take n (drop pos' (bytes f))" for xs
    using assms(2,3) by (simp add: drop_take [symmetric] take_drop min_def)
  moreover have "padded pos (bytes f) = bytes f" using assms(3) by (simp add: padded_def)
  ultimately have "take n (drop pos' (put pos chunk (bytes f))) = take n (drop pos' (bytes f))"
    by (simp only: put_def)
  then show ?thesis using assms(1) by (simp add: read_bytes write_ok write_bytes)
qed

lemma read_behind_write:
  assumes "ok f" and "pos + length chunk \<le> pos'"
  shows "read_at pos' n (write_at pos chunk f) = read_at pos' n f"
proof -
  have "drop pos' (put pos chunk (bytes f)) = drop pos' (bytes f)"
    using assms(2) by (simp add: put_def)
  then show ?thesis using assms(1) by (simp add: read_bytes write_ok write_bytes)
qed

lemma append_bytes: "ok f \<Longrightarrow> bytes (write_at (length (bytes f)) chunk f) = bytes f @ chunk"
  by (simp add: write_bytes put_def padded_def)

lemma gap_is_zero:
  assumes "ok f" and "chunk \<noteq> []" and "length (bytes f) \<le> i" and "i < pos"
  shows "bytes (write_at pos chunk f) ! i = 0"
  using assms by (simp add: write_bytes put_nth length_put)

lemma write_length:
  "ok f \<Longrightarrow> chunk \<noteq> [] \<Longrightarrow> length (bytes (write_at pos chunk f)) = max (length (bytes f)) (pos + length chunk)"
  by (simp add: write_bytes length_put)

lemma truncated_is_empty: "ok f \<Longrightarrow> bytes (resize_to 0 f) = []"
  by (simp add: resize_bytes)

lemma extended_reads_zero:
  "ok f \<Longrightarrow> length (bytes f) \<le> n \<Longrightarrow> bytes (resize_to n f) = bytes f @ replicate (n - length (bytes f)) 0"
  by (simp add: resize_bytes padded_def)

end

text \<open>The operations of the storage as functions, for a caller whose buffer is exactly the chunk.\<close>

definition stored :: "nat \<Rightarrow> u8 list \<Rightarrow> fsnode \<Rightarrow> fsnode" where
  "stored pos chunk d =
     (case write_file d chunk 0 (length chunk) pos False True (timestamp d) of Inr (_, d') \<Rightarrow> d' | Inl _ \<Rightarrow> d)"

definition resized :: "nat \<Rightarrow> fsnode \<Rightarrow> fsnode" where
  "resized n d = (case resizeFileStorage n d of Inr d' \<Rightarrow> d' | Inl _ \<Rightarrow> d)"

definition loaded :: "nat \<Rightarrow> nat \<Rightarrow> fsnode \<Rightarrow> u8 list" where
  "loaded pos n d =
     (case read_file d (replicate n 0) 0 n pos of Inr (k, buffer) \<Rightarrow> take k buffer | Inl _ \<Rightarrow> [])"

lemma stored_ok:
  assumes "file_ok d"
  shows "file_ok (stored pos chunk d)"
    "file_bytes (stored pos chunk d) = (if chunk = [] then file_bytes d else put pos chunk (file_bytes d))"
proof -
  have "file_ok (stored pos chunk d) \<and>
      file_bytes (stored pos chunk d) = (if chunk = [] then file_bytes d else put pos chunk (file_bytes d))"
  proof (cases "chunk = []")
    case True
    then show ?thesis using assms by (simp add: stored_def write_file_nothing)
  next
    case False
    then show ?thesis
      using write_file_ok [OF assms, of "length chunk" 0 chunk pos False True "timestamp d"]
      by (auto simp: stored_def)
  qed
  then show "file_ok (stored pos chunk d)"
    "file_bytes (stored pos chunk d) = (if chunk = [] then file_bytes d else put pos chunk (file_bytes d))"
    by blast+
qed

lemma resized_ok:
  assumes "file_ok d"
  shows "file_ok (resized n d)" "file_bytes (resized n d) = take n (padded n (file_bytes d))"
  using resize_file_ok [OF assms, of n] by (auto simp: resized_def)

lemma loaded_ok: "file_ok d \<Longrightarrow> loaded pos n d = take n (drop pos (file_bytes d))"
  by (simp add: loaded_def read_file_ok Let_def min_def)

interpretation memfs_file: byte_file file_ok file_bytes stored resized loaded
  by unfold_locales (simp_all add: stored_ok resized_ok loaded_ok)

section \<open>Properties\<close>

text \<open>
  Writing into a well-formed file always succeeds, returns the number of bytes asked for, keeps the
  file well-formed and puts exactly the caller's bytes at the position: the rest of the file is
  unchanged and a gap past its end is filled with zeros, whichever of the four storage paths is taken.
\<close>

theorem write_refines_put:
  assumes "file_ok d" and "0 < len" and "offset + len \<le> length buffer" and "\<not> canOwn"
  shows "\<exists>d'. write_file d buffer offset len pos canOwn typed now = Inr (len, d') \<and> file_ok d'
     \<and> file_bytes d' = put pos (take len (drop offset buffer)) (file_bytes d)"
  using write_file_ok [OF assms(1-3), of pos canOwn typed now] assms(4) by auto

definition sample_file :: fsnode where
  "sample_file =
     \<lparr>parent = 1, mount_ref = Some 0, mounted = None, node_name = ''f'', mode = 33206, node_ops = FileOps, rdev = 0,
      contents = Bytes [1, 2, 3, 0, 0], proto = None, usedBytes = 3, link = [], timestamp = 0, name_next = None\<rparr>"

lemma sample_file_ok: "file_ok sample_file" "file_bytes sample_file = [1, 2, 3]"
  using file_okI [of sample_file "[1, 2, 3]" 2] by (simp_all add: sample_file_def numeral_2_eq_2)

lemma write_refines_put_witness:
  "\<exists>d'. write_file sample_file [7, 8, 9] 1 2 4 False True 0 = Inr (2, d') \<and> file_ok d'
     \<and> file_bytes d' = [1, 2, 3, 0, 8, 9]"
  using write_refines_put [OF sample_file_ok(1), of 2 1 "[7, 8, 9]" False 4 True 0]
  by (simp add: sample_file_ok(2) put_def padded_def)

text \<open>
  What was written at a position is read back from it, and a read of any range that the write did
  not touch returns what it returned before.
\<close>

theorem read_back:
  assumes "file_ok d" and "chunk \<noteq> []"
  shows "loaded pos (length chunk) (stored pos chunk d) = chunk
    \<and> (\<forall>pos' n. pos + length chunk \<le> pos' \<or> pos' + n \<le> pos \<and> pos \<le> length (file_bytes d)
         \<longrightarrow> loaded pos' n (stored pos chunk d) = loaded pos' n d)"
proof (intro conjI allI impI)
  show "loaded pos (length chunk) (stored pos chunk d) = chunk"
    by (rule memfs_file.read_after_write [OF assms])
  fix pos' n
  assume "pos + length chunk \<le> pos' \<or> pos' + n \<le> pos \<and> pos \<le> length (file_bytes d)"
  then show "loaded pos' n (stored pos chunk d) = loaded pos' n d"
    using memfs_file.read_before_write [OF assms(1), of pos' n pos chunk]
      memfs_file.read_behind_write [OF assms(1), of pos chunk pos' n] by argo
qed

lemma read_back_witness: "loaded 1 2 (stored 1 [8, 9] sample_file) = [8, 9]"
proof -
  have "loaded 1 (length [8, 9 :: u8]) (stored 1 [8, 9] sample_file) = [8, 9]"
    using read_back [OF sample_file_ok(1), of "[8, 9]" 1] by blast
  then show ?thesis by (simp add: numeral_2_eq_2)
qed

text \<open>
  Resizing a well-formed file never fails: it keeps the first bytes, extends with zeros and leaves a
  well-formed file; no byte of the old file reappears when it grows again.
\<close>

theorem resize_refines_take:
  assumes "file_ok d"
  shows "\<exists>d'. resizeFileStorage n d = Inr d' \<and> file_ok d' \<and> file_bytes d' = take n (padded n (file_bytes d))
    \<and> (\<forall>m \<ge> n. file_bytes (resized m d') = take n (padded n (file_bytes d)) @ replicate (m - n) 0)"
proof -
  obtain d' where d': "resizeFileStorage n d = Inr d'" "file_ok d'" "file_bytes d' = take n (padded n (file_bytes d))"
    using resize_file_ok [OF assms, of n] by blast
  moreover have "file_bytes (resized m d') = file_bytes d' @ replicate (m - n) 0" if "n \<le> m" for m
    using memfs_file.extended_reads_zero [OF d'(2), of m] that by (simp add: d'(3))
  ultimately show ?thesis by auto
qed

lemma resize_refines_take_witness:
  "\<exists>d'. resizeFileStorage 1 sample_file = Inr d' \<and> file_bytes (resized 3 d') = [1, 0, 0]"
proof -
  from resize_refines_take [OF sample_file_ok(1), of 1] obtain d' where
    "resizeFileStorage 1 sample_file = Inr d'" "file_bytes (resized 3 d') = take 1 [1, 2, 3] @ replicate (3 - 1) 0"
    by (auto simp: sample_file_ok(2) padded_def)
  then show ?thesis by (simp add: numeral_2_eq_2)
qed

end
