(* ===== verification/FsTree.thy ===== *)
theory FsTree
  imports FsLookup FileStorage
begin

unbundle bit_operations_syntax

text \<open>
  The operations of \<open>FS\<close> on the tree of names: making, linking, renaming and removing nodes, their
  attributes, and mounting. Each is the whole method: lookups, checks in the order of the code, the
  \<open>MEMFS\<close> operation it calls through \<open>node_ops\<close>, and the name table.

  The second half shows what a successful call does to the directories, and that it keeps the name
  table coherent with them, on which every later lookup depends. \<open>rename\<close> onto an existing name is the
  exception: the replaced node stays in the table.
\<close>

section \<open>Making nodes\<close>

text \<open>The constructor of \<open>FSNode\<close>.\<close>

definition new_node :: "nid option \<Rightarrow> string \<Rightarrow> i32 \<Rightarrow> i32 \<Rightarrow> fs \<Rightarrow> nid \<times> fs" where
  "new_node dir name m dev s =
     (let n = nextInode s;
          node = \<lparr>parent = (case dir of Some d \<Rightarrow> d | None \<Rightarrow> n),
                  mount_ref = (case dir of Some d \<Rightarrow> mount_ref (nodes s d) | None \<Rightarrow> None),
                  mounted = None, node_name = name, mode = m, node_ops = NoOps, rdev = dev,
                  contents = Null, proto = None, usedBytes = 0, link = [], timestamp = 0, name_next = None\<rparr>
      in (n, s\<lparr>nodes := (nodes s)(n := node), nextInode := n + 1\<rparr>))"

definition FS_createNode :: "nid option \<Rightarrow> string \<Rightarrow> i32 \<Rightarrow> i32 \<Rightarrow> fs \<Rightarrow> nid \<times> fs" where
  "FS_createNode dir name m dev s = (let (n, s1) = new_node dir name m dev s in (n, hashAddNode n s1))"

text \<open>A property key that is an array index.\<close>

definition digit_value :: "char \<Rightarrow> nat" where "digit_value c = of_char c - 48"

definition is_digit :: "char \<Rightarrow> bool" where "is_digit c \<longleftrightarrow> 48 \<le> (of_char c :: nat) \<and> (of_char c :: nat) \<le> 57"

definition decimal :: "string \<Rightarrow> nat" where
  "decimal p = foldl (\<lambda>n c. n * 10 + digit_value c) 0 p"

definition is_array_index :: "string \<Rightarrow> bool" where
  "is_array_index p \<longleftrightarrow> p \<noteq> [] \<and> list_all is_digit p \<and> (length p = 1 \<or> hd p \<noteq> CHR ''0'') \<and> decimal p < 4294967295"

text \<open>
  \<open>contents[name] = node\<close> and \<open>delete contents[name]\<close>. On the byte array of a file, an index stores
  \<open>NaN\<close>, which is 0, and any other name becomes a property that nothing reads. The \<open>contents\<close> of a directory are
  a plain object: the name \<open>__proto__\<close> is no key of it, and assigning to it sets the prototype.
\<close>

definition set_entry :: "string \<Rightarrow> nid \<Rightarrow> fsnode \<Rightarrow> fsnode" where
  "set_entry name n d =
     (case contents d of
        Entries es \<Rightarrow> if name = ''__proto__'' then d\<lparr>proto := Some n\<rparr> else d\<lparr>contents := Entries (AList.update name n es)\<rparr>
      | Bytes bs \<Rightarrow> if is_array_index name then d\<lparr>contents := Bytes (bs[decimal name := 0])\<rparr> else d
      | Null \<Rightarrow> d)"

definition delete_entry :: "string \<Rightarrow> fsnode \<Rightarrow> fsnode" where
  "delete_entry name d =
     (case contents d of Entries es \<Rightarrow> d\<lparr>contents := Entries (AList.delete name es)\<rparr> | _ \<Rightarrow> d)"

text \<open>What \<open>MEMFS.createNode\<close> gives a node of each type.\<close>

definition typed_node :: "fsnode \<Rightarrow> fsnode" where
  "typed_node d =
     (if isDir (mode d) then d\<lparr>node_ops := DirOps, contents := Entries []\<rparr>
      else if isFile (mode d) then d\<lparr>node_ops := FileOps, usedBytes := 0, contents := Null\<rparr>
      else if isLink (mode d) then d\<lparr>node_ops := LinkOps\<rparr>
      else if isChrdev (mode d) then d\<lparr>node_ops := ChrdevOps\<rparr>
      else d)"

definition MEMFS_createNode :: "nid option \<Rightarrow> string \<Rightarrow> i32 \<Rightarrow> i32 \<Rightarrow> nid io" where
  "MEMFS_createNode dir name m dev s =
     (if isBlkdev m \<or> isFIFO m then (Inl (ErrnoError 63), s)
      else
        let (n, s1) = FS_createNode dir name m dev s;
            s2 = upd_node n (\<lambda>d. (typed_node d)\<lparr>timestamp := clock s\<rparr>) s1
        in case dir of
             None \<Rightarrow> (Inr n, s2)
           | Some p \<Rightarrow>
               if contents (nodes s2 p) = Null then (Inl TypeError, s2)
               else (Inr n, upd_node p (\<lambda>d. (set_entry name n d)\<lparr>timestamp := clock s\<rparr>) s2))"

definition FS_mknod :: "string \<Rightarrow> i32 \<Rightarrow> i32 \<Rightarrow> nid io" where
  "FS_mknod path m dev =
     bnd (ask (FS_lookupPath path of_parent)) (\<lambda>(_, dir).
     let name = basename path in
     thn (check (\<not> (name = [] \<or> name = ''.'' \<or> name = ''..'')) (ErrnoError 28))
     (bnd (ask (\<lambda>s. deref dir)) (\<lambda>d.
      bnd (ask (mayCreate d name)) (\<lambda>errCode.
      thn (check (errCode = 0) (ErrnoError errCode))
      (bnd (ask (\<lambda>s. Inr (node_ops (nodes s d)))) (\<lambda>ops.
       thn (check (ops = DirOps) (ErrnoError 63))
       (MEMFS_createNode (Some d) name m dev)))))))"

definition FS_create :: "string \<Rightarrow> i32 option \<Rightarrow> nid io" where
  "FS_create path m = FS_mknod path ((case m of Some x \<Rightarrow> x | None \<Rightarrow> 438) AND 4095 OR 32768) 0"

definition FS_mkdir :: "string \<Rightarrow> i32 option \<Rightarrow> nid io" where
  "FS_mkdir path m = FS_mknod path ((case m of Some x \<Rightarrow> x | None \<Rightarrow> 511) AND (511 OR 512) OR 16384) 0"

fun mkdirs :: "string \<Rightarrow> string list \<Rightarrow> i32 option \<Rightarrow> unit io" where
  "mkdirs d [] m = ret ()"
| "mkdirs d (p # ps) m =
     (if p = [] then mkdirs d ps m
      else let d' = d @ slash # p in
        (\<lambda>s. case FS_mkdir d' m s of
               (Inl e, s') \<Rightarrow> if e = ErrnoError 20 then mkdirs d' ps m s' else (Inl e, s')
             | (Inr _, s') \<Rightarrow> mkdirs d' ps m s'))"

definition FS_mkdirTree :: "string \<Rightarrow> i32 option \<Rightarrow> unit io" where
  "FS_mkdirTree path m = mkdirs [] (split path) m"

text \<open>With two arguments, \<open>mkdev\<close> takes the device number second.\<close>

definition FS_mkdev :: "string \<Rightarrow> i32 \<Rightarrow> i32 option \<Rightarrow> nid io" where
  "FS_mkdev path m dev =
     (case dev of None \<Rightarrow> FS_mknod path (438 OR 8192) m | Some d \<Rightarrow> FS_mknod path (m OR 8192) d)"

definition MEMFS_symlink :: "nid \<Rightarrow> string \<Rightarrow> string \<Rightarrow> nid io" where
  "MEMFS_symlink d newname oldpath =
     bnd (MEMFS_createNode (Some d) newname (511 OR 40960) 0) (\<lambda>n.
     thn (upd (upd_node n (\<lambda>x. x\<lparr>link := oldpath\<rparr>))) (ret n))"

definition FS_symlink :: "string \<Rightarrow> string \<Rightarrow> nid io" where
  "FS_symlink oldpath newpath =
     thn (\<lambda>s. check (resolve (currentPath s) [oldpath] \<noteq> []) (ErrnoError 44) s)
     (bnd (ask (FS_lookupPath newpath of_parent)) (\<lambda>(_, dir).
      thn (check (dir \<noteq> None) (ErrnoError 44))
      (bnd (ask (\<lambda>s. deref dir)) (\<lambda>d.
       let newname = basename newpath in
       bnd (ask (mayCreate d newname)) (\<lambda>errCode.
       thn (check (errCode = 0) (ErrnoError errCode))
       (bnd (ask (\<lambda>s. Inr (node_ops (nodes s d)))) (\<lambda>ops.
        thn (check (ops = DirOps) (ErrnoError 63))
        (MEMFS_symlink d newname oldpath))))))))"

section \<open>Removing and renaming\<close>

text \<open>\<open>for (var i in node.contents)\<close> also meets the properties that are inherited from a node.\<close>

definition has_entries :: "fsnode \<Rightarrow> bool" where
  "has_entries d = (case contents d of Entries es \<Rightarrow> es \<noteq> [] \<or> proto d \<noteq> None | Bytes bs \<Rightarrow> bs \<noteq> [] | Null \<Rightarrow> False)"

definition MEMFS_unlink :: "nid \<Rightarrow> string \<Rightarrow> unit io" where
  "MEMFS_unlink d name = (\<lambda>s. upd (upd_node d (\<lambda>x. (delete_entry name x)\<lparr>timestamp := clock s\<rparr>)) s)"

definition MEMFS_rmdir :: "nid \<Rightarrow> string \<Rightarrow> unit io" where
  "MEMFS_rmdir d name =
     bnd (ask (lookupNode d name)) (\<lambda>n.
     bnd (ask (\<lambda>s. Inr (has_entries (nodes s n)))) (\<lambda>full.
     thn (check (\<not> full) (ErrnoError 55))
     (\<lambda>s. upd (upd_node d (\<lambda>x. (delete_entry name x)\<lparr>timestamp := clock s\<rparr>)) s)))"

text \<open>The internal rewiring: a \<open>new_dir\<close> without \<open>contents\<close> stops it half way.\<close>

definition MEMFS_rewire :: "nid \<Rightarrow> nid \<Rightarrow> string \<Rightarrow> unit io" where
  "MEMFS_rewire old new_dir new_name s =
     (let old_dir = parent (nodes s old);
          s1 = upd_node old_dir (\<lambda>x. (delete_entry (node_name (nodes s old)) x)\<lparr>timestamp := clock s\<rparr>) s;
          s2 = upd_node old (\<lambda>x. x\<lparr>node_name := new_name\<rparr>) s1
      in if contents (nodes s2 new_dir) = Null then (Inl TypeError, s2)
         else let s3 = upd_node new_dir (\<lambda>x. (set_entry new_name old x)\<lparr>timestamp := clock s\<rparr>) s2
              in (Inr (), upd_node old (\<lambda>x. x\<lparr>parent := new_dir\<rparr>) s3))"

definition MEMFS_rename :: "nid \<Rightarrow> nid \<Rightarrow> string \<Rightarrow> unit io" where
  "MEMFS_rename old new_dir new_name s =
     (if isDir (mode (nodes s old))
      then (case attempt (lookupNode new_dir new_name s) of
              Inl e \<Rightarrow> (Inl e, s)
            | Inr (Some n) \<Rightarrow> if has_entries (nodes s n) then (Inl (ErrnoError 55), s)
                              else MEMFS_rewire old new_dir new_name s
            | Inr None \<Rightarrow> MEMFS_rewire old new_dir new_name s)
      else MEMFS_rewire old new_dir new_name s)"

text \<open>\<open>relative.charAt(0) !== '.'\<close>\<close>

definition starts_with_dot :: "string \<Rightarrow> bool" where
  "starts_with_dot p \<longleftrightarrow> (case p of [] \<Rightarrow> False | c # _ \<Rightarrow> c = CHR ''.'')"

text \<open>The second half of \<open>rename\<close>: both directories, the node and what it replaces are known.\<close>

definition rename_move :: "nid \<Rightarrow> nid \<Rightarrow> string \<Rightarrow> unit io" where
  "rename_move old_node new_dir new_name =
     thn (trans (hashRemoveNode old_node))
       (\<lambda>s. case MEMFS_rename old_node new_dir new_name s of (r, s') \<Rightarrow> (r, hashAddNode old_node s'))"

definition rename_checked :: "nid \<Rightarrow> string \<Rightarrow> nid \<Rightarrow> nid \<Rightarrow> string \<Rightarrow> nid option \<Rightarrow> unit io" where
  "rename_checked old_dir old_name old_node new_dir new_name target s =
     (let isdir = isDir (mode (nodes s old_node)) in
      case mayDelete old_dir old_name isdir s of
        Inl e \<Rightarrow> (Inl e, s)
      | Inr errCode \<Rightarrow>
        if errCode \<noteq> 0 then (Inl (ErrnoError errCode), s)
        else case (if target \<noteq> None then mayDelete new_dir new_name isdir s else mayCreate new_dir new_name s) of
          Inl e \<Rightarrow> (Inl e, s)
        | Inr errCode \<Rightarrow>
          if errCode \<noteq> 0 then (Inl (ErrnoError errCode), s)
          else if node_ops (nodes s old_dir) \<noteq> DirOps then (Inl (ErrnoError 63), s)
          else if isMountpoint old_node s \<or> (case target of Some n \<Rightarrow> isMountpoint n s | None \<Rightarrow> False)
          then (Inl (ErrnoError 10), s)
          else case (if new_dir \<noteq> old_dir then nodePermissions old_dir (Some ''w'') s else Inr 0) of
            Inl e \<Rightarrow> (Inl e, s)
          | Inr errCode \<Rightarrow>
            if errCode \<noteq> 0 then (Inl (ErrnoError errCode), s)
            else rename_move old_node new_dir new_name s)"

definition FS_rename :: "string \<Rightarrow> string \<Rightarrow> unit io" where
  "FS_rename old_path new_path s =
     (let old_name = basename old_path; new_name = basename new_path in
      case FS_lookupPath old_path of_parent s of
        Inl e \<Rightarrow> (Inl e, s)
      | Inr (_, old_dir0) \<Rightarrow>
        case FS_lookupPath new_path of_parent s of
          Inl e \<Rightarrow> (Inl e, s)
        | Inr (_, new_dir0) \<Rightarrow>
          case (old_dir0, new_dir0) of
            (Some old_dir, Some new_dir) \<Rightarrow>
              if mount_ref (nodes s old_dir) \<noteq> mount_ref (nodes s new_dir) then (Inl (ErrnoError 75), s)
              else (case lookupNode old_dir old_name s of
                Inl e \<Rightarrow> (Inl e, s)
              | Inr old_node \<Rightarrow>
                if \<not> starts_with_dot (relative (currentPath s) old_path (dirname new_path))
                then (Inl (ErrnoError 28), s)
                else if \<not> starts_with_dot (relative (currentPath s) new_path (dirname old_path))
                then (Inl (ErrnoError 55), s)
                else (case attempt (lookupNode new_dir new_name s) of
                    Inl e \<Rightarrow> (Inl e, s)
                  | Inr target \<Rightarrow>
                      if target = Some old_node then (Inr (), s)
                      else rename_checked old_dir old_name old_node new_dir new_name target s))
          | _ \<Rightarrow> (Inl (ErrnoError 44), s))"

definition FS_rmdir :: "string \<Rightarrow> unit io" where
  "FS_rmdir path =
     bnd (ask (FS_lookupPath path of_parent)) (\<lambda>(_, dir).
     let name = basename path in
     bnd (ask (\<lambda>s. deref dir)) (\<lambda>d.
     bnd (ask (lookupNode d name)) (\<lambda>n.
     bnd (ask (mayDelete d name True)) (\<lambda>errCode.
     thn (check (errCode = 0) (ErrnoError errCode))
     (thn (\<lambda>s. check (node_ops (nodes s d) = DirOps) (ErrnoError 63) s)
      (thn (\<lambda>s. check (\<not> isMountpoint n s) (ErrnoError 10) s)
       (thn (MEMFS_rmdir d name)
        (trans (destroyNode n)))))))))"

definition FS_unlink :: "string \<Rightarrow> unit io" where
  "FS_unlink path =
     bnd (ask (FS_lookupPath path of_parent)) (\<lambda>(_, dir).
     thn (check (dir \<noteq> None) (ErrnoError 44))
     (let name = basename path in
      bnd (ask (\<lambda>s. deref dir)) (\<lambda>d.
      bnd (ask (lookupNode d name)) (\<lambda>n.
      bnd (ask (mayDelete d name False)) (\<lambda>errCode.
      thn (check (errCode = 0) (ErrnoError errCode))
      (thn (\<lambda>s. check (node_ops (nodes s d) = DirOps) (ErrnoError 63) s)
       (thn (\<lambda>s. check (\<not> isMountpoint n s) (ErrnoError 10) s)
        (thn (MEMFS_unlink d name)
         (trans (destroyNode n))))))))))"

section \<open>Listing\<close>

text \<open>
  \<open>Object.keys\<close> lists the keys that are array indices first, in ascending order, and then the others in
  the order they were added.
\<close>

definition js_keys :: "(string \<times> nid) list \<Rightarrow> string list" where
  "js_keys es = sort_key decimal (filter is_array_index (map fst es)) @ filter (\<lambda>p. \<not> is_array_index p) (map fst es)"

definition MEMFS_readdir :: "nid \<Rightarrow> fs \<Rightarrow> string list" where
  "MEMFS_readdir n s =
     [''.'', ''..''] @ (case contents (nodes s n) of Entries es \<Rightarrow> js_keys es | _ \<Rightarrow> [])"

definition FS_readdir :: "string \<Rightarrow> fs \<Rightarrow> string list result" where
  "FS_readdir path s =
     rbind (FS_lookupPath path (following True) s) (\<lambda>found.
     rbind (deref (snd found)) (\<lambda>n.
     if node_ops (nodes s n) \<noteq> DirOps then Inl (ErrnoError 54) else Inr (MEMFS_readdir n s)))"

section \<open>Well-formed file systems\<close>

text \<open>
  References point to nodes that exist, a directory's operations and contents go together, and no
  \<open>contents\<close> has had its prototype set. After that, the accessors \<open>read\<close>, \<open>write\<close>, \<open>isFolder\<close> and
  \<open>isDevice\<close> of the node that became the prototype would take assignments to these names, which
  \<open>set_entry\<close> does not model.
\<close>

definition refs_ok :: "fs \<Rightarrow> bool" where
  "refs_ok s \<longleftrightarrow> (\<forall>r. root s = Some r \<longrightarrow> r < nextInode s)
     \<and> (\<forall>d < nextInode s. \<forall>name n. entry s d name = Some n \<longrightarrow> n < nextInode s)
     \<and> (\<forall>d < nextInode s. \<forall>m. mounted (nodes s d) = Some m \<longrightarrow> mount_root (mount_table s m) < nextInode s)
     \<and> (\<forall>n < nextInode s. parent (nodes s n) < nextInode s)"

definition dirs_ok :: "fs \<Rightarrow> bool" where
  "dirs_ok s \<longleftrightarrow> (\<forall>d < nextInode s. proto (nodes s d) = None
     \<and> (node_ops (nodes s d) = DirOps \<longrightarrow> isDir (mode (nodes s d)) \<and> (\<exists>es. contents (nodes s d) = Entries es)))"

text \<open>
  The chain of parents of every node ends, in a root. \<open>inside p a n\<close>: \<open>n\<close> is \<open>a\<close> or below it.
\<close>

inductive rooted :: "(nid \<Rightarrow> nid) \<Rightarrow> nid \<Rightarrow> bool" for p where
  top: "p n = n \<Longrightarrow> rooted p n"
| up: "rooted p (p n) \<Longrightarrow> rooted p n"

inductive inside :: "(nid \<Rightarrow> nid) \<Rightarrow> nid \<Rightarrow> nid \<Rightarrow> bool" for p a where
  here: "inside p a a"
| below: "inside p a (p n) \<Longrightarrow> inside p a n"

definition parent_of :: "fs \<Rightarrow> nid \<Rightarrow> nid" where "parent_of s n = parent (nodes s n)"

definition tree_ok :: "fs \<Rightarrow> bool" where
  "tree_ok s \<longleftrightarrow> (\<forall>n < nextInode s. rooted (parent_of s) n)"

definition fs_wf :: "fs \<Rightarrow> bool" where
  "fs_wf s \<longleftrightarrow> coherent s \<and> refs_ok s \<and> dirs_ok s \<and> tree_ok s"

lemma rooted_step: "rooted p m \<Longrightarrow> p n = m \<Longrightarrow> rooted p n"
  using rooted.up [of p n] by simp

lemma rooted_cong:
  "rooted p n \<Longrightarrow> n < b \<Longrightarrow> (\<And>x. x < b \<Longrightarrow> p x < b \<and> p' x = p x) \<Longrightarrow> rooted p' n"
proof (induction rule: rooted.induct)
  case (top n)
  then have "p' n = n" by metis
  then show ?case by (rule rooted.top)
next
  case (up n)
  then have "rooted p' (p n)" "p' n = p n" by metis+
  then show ?case by (rule rooted_step)
qed

text \<open>
  A node that moves to a place outside of it leaves every chain ending; a node that moves below itself
  ends in a circle.
\<close>

lemma rooted_outside:
  assumes "rooted p x" and "\<not> inside p a x"
  shows "rooted (p(a := e)) x"
  using assms
proof (induction rule: rooted.induct)
  case (top x)
  then have "x \<noteq> a" using inside.here [of p a] by auto
  with top(1) show ?case by (intro rooted.top) simp
next
  case (up x)
  then have x: "x \<noteq> a" using inside.here [of p a] by auto
  have "rooted (p(a := e)) (p x)" using up(2,3) inside.below [of p a x] by blast
  then show ?case by (rule rooted_step) (simp add: x)
qed

lemma rooted_move:
  assumes "rooted p n" and "rooted p d" and "\<not> inside p a d"
  shows "rooted (p(a := d)) n"
  using assms(1)
proof (induction rule: rooted.induct)
  case (top x)
  show ?case
  proof (cases "x = a")
    case True
    then show ?thesis by (intro rooted_step [OF rooted_outside [OF assms(2,3)]]) simp
  next
    case False
    with top show ?thesis by (intro rooted.top) simp
  qed
next
  case (up x)
  show ?case
  proof (cases "x = a")
    case True
    then show ?thesis by (intro rooted_step [OF rooted_outside [OF assms(2,3)]]) simp
  next
    case False
    then show ?thesis by (intro rooted_step [OF up(2)]) simp
  qed
qed

lemma rooted_circle: "rooted p x \<Longrightarrow> x \<in> C \<Longrightarrow> (\<And>y. y \<in> C \<Longrightarrow> p y \<in> C \<and> p y \<noteq> y) \<Longrightarrow> False"
  by (induction rule: rooted.induct) blast+

lemma not_inside_root: "inside p a d \<Longrightarrow> p d = d \<Longrightarrow> d = a"
  by (induction rule: inside.induct) simp_all

lemma fs_wfD:
  assumes "fs_wf s"
  shows "table_ok s" "coherent s" "refs_ok s" "dirs_ok s"
    "d < nextInode s \<Longrightarrow> plain name \<Longrightarrow> cached s (d, name) = entry s d name"
    "n < nextInode s \<Longrightarrow> rooted (parent_of s) n"
  using assms by (auto simp: fs_wf_def coherent_def tree_ok_def)

lemma refs_entry: "refs_ok s \<Longrightarrow> d < nextInode s \<Longrightarrow> entry s d name = Some n \<Longrightarrow> n < nextInode s"
  by (simp add: refs_ok_def)

lemma refs_mount:
  "refs_ok s \<Longrightarrow> d < nextInode s \<Longrightarrow> mounted (nodes s d) = Some m \<Longrightarrow> mount_root (mount_table s m) < nextInode s"
  by (simp add: refs_ok_def)

lemma refs_parent: "refs_ok s \<Longrightarrow> n < nextInode s \<Longrightarrow> parent (nodes s n) < nextInode s"
  by (simp add: refs_ok_def)

lemma refs_root: "refs_ok s \<Longrightarrow> root s = Some r \<Longrightarrow> r < nextInode s"
  by (simp add: refs_ok_def)

lemma refs_okI:
  assumes "\<And>r. root s = Some r \<Longrightarrow> r < nextInode s"
    and "\<And>d name n. entry s d name = Some n \<Longrightarrow> d < nextInode s \<Longrightarrow> n < nextInode s"
    and "\<And>d m. mounted (nodes s d) = Some m \<Longrightarrow> d < nextInode s \<Longrightarrow> mount_root (mount_table s m) < nextInode s"
    and "\<And>n. n < nextInode s \<Longrightarrow> parent (nodes s n) < nextInode s"
  shows "refs_ok s"
  unfolding refs_ok_def using assms by blast

lemma lookupNode_bound:
  assumes "table_ok s" and "lookupNode d name s = Inr n"
  shows "n < nextInode s" "cached s (d, name) = Some n"
proof -
  have "cached s (d, name) = Some n"
    using assms(2)
    by (auto simp: lookupNode_def rbind_eq_Inr find_cached_total [OF assms(1)] FS_lookup_def
      split: if_splits option.splits)
  then show "n < nextInode s" "cached s (d, name) = Some n"
    using table_ok_bound [OF assms(1)] by blast+
qed

lemma follow_links_bound:
  assumes "\<And>p q n. ln p = Inr (q, Some n) \<Longrightarrow> n < nextInode s"
  shows "follow_links rl ln s k path cur = Inr (p, Some n) \<Longrightarrow> (\<And>c. cur = Some c \<Longrightarrow> c < nextInode s) \<Longrightarrow> n < nextInode s"
proof (induction k arbitrary: path cur)
  case (Suc k)
  show ?case
  proof (cases cur)
    case None
    with Suc.prems show ?thesis by simp
  next
    case (Some c)
    with Suc.prems show ?thesis
      by (auto simp: rbind_eq_Inr Let_def split: if_splits dest!: Suc.IH dest: assms)
  qed
qed simp

lemma walk_parts_bound:
  assumes ln: "\<And>p q n. ln p = Inr (q, Some n) \<Longrightarrow> n < nextInode s" and ok: "table_ok s" and refs: "refs_ok s"
  shows "walk_parts rl ln s opts ps path cur = Inr (p, Some n) \<Longrightarrow> (\<And>c. cur = Some c \<Longrightarrow> c < nextInode s) \<Longrightarrow> n < nextInode s"
proof (induction ps arbitrary: path cur)
  case (Cons x xs)
  show ?case
  proof (cases "xs = [] \<and> opt_parent opts")
    case True
    with Cons.prems show ?thesis by auto
  next
    case False
    with Cons.prems(1) obtain d m where d: "cur = Some d" and m: "lookupNode d x s = Inr m"
      by (cases cur) (auto simp: rbind_eq_Inr Let_def split: if_splits)
    define m1 where "m1 = (case mounted (nodes s m) of
        Some k \<Rightarrow> if xs \<noteq> [] \<or> follow_mount opts then mount_root (mount_table s k) else m | None \<Rightarrow> m)"
    have mb: "m < nextInode s" by (rule lookupNode_bound(1) [OF ok m])
    then have m1: "m1 < nextInode s" using refs by (auto simp: m1_def refs_ok_def split: option.splits)
    have "\<exists>path2 cur2. walk_parts rl ln s opts xs path2 cur2 = Inr (p, Some n)
        \<and> (cur2 = Some m1 \<or> follow_links rl ln s 42 (join2 path x) (Some m1) = Inr (path2, cur2))"
      using Cons.prems(1) False d m
      by (auto simp: rbind_eq_Inr Let_def m1_def [symmetric] split: if_splits)
    then obtain path2 cur2 where w: "walk_parts rl ln s opts xs path2 cur2 = Inr (p, Some n)"
      and c: "cur2 = Some m1 \<or> follow_links rl ln s 42 (join2 path x) (Some m1) = Inr (path2, cur2)" by blast
    have "k < nextInode s" if "cur2 = Some k" for k
      using c that m1 follow_links_bound [of ln s rl 42 "join2 path x" "Some m1" path2 k] ln by auto
    with Cons.IH [OF w] show ?thesis by blast
  qed
qed auto

lemma lookupPath_bound:
  assumes "table_ok s" and "refs_ok s"
  shows "lookupPath k s path opts = Inr (p, Some n) \<Longrightarrow> n < nextInode s"
proof (induction k arbitrary: path opts p n)
  case (Suc k)
  have "root s = Some c \<Longrightarrow> c < nextInode s" for c using assms(2) by (simp add: refs_ok_def)
  with Suc.prems show ?case
    by (auto simp: Let_def split: if_splits elim!: walk_parts_bound [OF _ assms, rotated] dest: Suc.IH)
qed simp

section \<open>What a new node changes\<close>

lemma typed_node_key [simp]:
  "parent (typed_node d) = parent d" "node_name (typed_node d) = node_name d"
  "name_next (typed_node d) = name_next d" "mode (typed_node d) = mode d" "mounted (typed_node d) = mounted d"
  "mount_ref (typed_node d) = mount_ref d" "proto (typed_node d) = proto d"
  by (simp_all add: typed_node_def)

lemma typed_node_contents:
  "contents d = Null \<Longrightarrow> contents (typed_node d) = (if isDir (mode d) then Entries [] else Null)"
  "node_ops d = NoOps \<Longrightarrow> node_ops (typed_node d) = DirOps \<longleftrightarrow> isDir (mode d)"
  by (simp_all add: typed_node_def)

lemma set_entry_key [simp]:
  "parent (set_entry name n d) = parent d" "node_name (set_entry name n d) = node_name d"
  "name_next (set_entry name n d) = name_next d" "mode (set_entry name n d) = mode d"
  "mounted (set_entry name n d) = mounted d" "node_ops (set_entry name n d) = node_ops d"
  "mount_ref (set_entry name n d) = mount_ref d" "name \<noteq> ''__proto__'' \<Longrightarrow> proto (set_entry name n d) = proto d"
  by (simp_all add: set_entry_def split: node_contents.splits)

lemma delete_entry_key [simp]:
  "parent (delete_entry name d) = parent d" "node_name (delete_entry name d) = node_name d"
  "name_next (delete_entry name d) = name_next d" "mode (delete_entry name d) = mode d"
  "mounted (delete_entry name d) = mounted d" "node_ops (delete_entry name d) = node_ops d"
  "mount_ref (delete_entry name d) = mount_ref d" "proto (delete_entry name d) = proto d"
  by (simp_all add: delete_entry_def split: node_contents.splits)

lemma set_entry_contents:
  "contents d = Entries es \<Longrightarrow> name \<noteq> ''__proto__'' \<Longrightarrow> contents (set_entry name n d) = Entries (AList.update name n es)"
  "contents d = Entries es \<Longrightarrow> name = ''__proto__'' \<Longrightarrow> set_entry name n d = d\<lparr>proto := Some n\<rparr>"
  by (simp add: set_entry_def, simp add: set_entry_def cong: if_cong)

lemma delete_entry_contents: "contents d = Entries es \<Longrightarrow> contents (delete_entry name d) = Entries (AList.delete name es)"
  by (simp add: delete_entry_def)

lemma hashAddNode_fields [simp]:
  "nextInode (hashAddNode n s) = nextInode s" "root (hashAddNode n s) = root s"
  "mount_table (hashAddNode n s) = mount_table s" "currentPath (hashAddNode n s) = currentPath s"
  "ignorePermissions (hashAddNode n s) = ignorePermissions s" "clock (hashAddNode n s) = clock s"
  "stack (hashAddNode n s) = stack s"
  "m \<noteq> n \<Longrightarrow> nodes (hashAddNode n s) m = nodes s m"
  "parent (nodes (hashAddNode n s) m) = parent (nodes s m)"
  "node_name (nodes (hashAddNode n s) m) = node_name (nodes s m)"
  "mode (nodes (hashAddNode n s) m) = mode (nodes s m)"
  "contents (nodes (hashAddNode n s) m) = contents (nodes s m)"
  "node_ops (nodes (hashAddNode n s) m) = node_ops (nodes s m)"
  "mounted (nodes (hashAddNode n s) m) = mounted (nodes s m)"
  "mount_ref (nodes (hashAddNode n s) m) = mount_ref (nodes s m)"
  "proto (nodes (hashAddNode n s) m) = proto (nodes s m)"
  by (simp_all add: hashAddNode_def Let_def)

lemma createNode_state:
  assumes "fs_wf s" and "d < nextInode s" "node_ops (nodes s d) = DirOps"
    and "MEMFS_createNode (Some d) name m dev s = (Inr n, s')"
  defines "s1 \<equiv> snd (new_node (Some d) name m dev s)"
  defines "s2 \<equiv> upd_node n (\<lambda>x. (typed_node x)\<lparr>timestamp := clock s\<rparr>) (hashAddNode n s1)"
  shows "n = nextInode s" "s' = upd_node d (\<lambda>x. (set_entry name n x)\<lparr>timestamp := clock s\<rparr>) s2"
proof -
  have n: "fst (new_node (Some d) name m dev s) = nextInode s" by (simp add: new_node_def Let_def)
  obtain es where es: "contents (nodes s d) = Entries es" using assms(1-3) by (auto simp: fs_wf_def dirs_ok_def)
  have d: "nodes s1 d = nodes s d" using assms(2) by (auto simp: s1_def new_node_def Let_def)
  show nn: "n = nextInode s"
    using assms(4) n by (auto simp: MEMFS_createNode_def FS_createNode_def case_prod_beta Let_def split: if_splits)
  have "contents (nodes s2 d) = Entries es"
    using d es assms(2) nn by (simp add: s2_def)
  then show "s' = upd_node d (\<lambda>x. (set_entry name n x)\<lparr>timestamp := clock s\<rparr>) s2"
    using assms(4) n nn
    by (auto simp: MEMFS_createNode_def FS_createNode_def case_prod_beta Let_def s2_def s1_def split: if_splits)
qed

lemma createNode_effect:
  assumes wf: "fs_wf s" and d: "d < nextInode s" "node_ops (nodes s d) = DirOps"
    and fresh: "cached s (d, name) = None"
    and made: "MEMFS_createNode (Some d) name m dev s = (Inr n, s')"
  shows "n = nextInode s" "nextInode s' = Suc n"
    "table_ok s'" "cached s' = (cached s)((d, name) \<mapsto> n)"
    "nodes s' n = (typed_node (nodes (snd (new_node (Some d) name m dev s)) n))
       \<lparr>timestamp := clock s, name_next := name_next (nodes s' n)\<rparr>"
    "nodes s' d = (set_entry name n (nodes s d))\<lparr>timestamp := clock s\<rparr>"
    "k < nextInode s \<Longrightarrow> k \<noteq> d \<Longrightarrow> nodes s' k = nodes s k"
    "root s' = root s" "mount_table s' = mount_table s" "currentPath s' = currentPath s"
    "ignorePermissions s' = ignorePermissions s" "stack s' = stack s"
proof -
  let ?s1 = "snd (new_node (Some d) name m dev s)"
  let ?s2 = "hashAddNode n ?s1"
  note st = createNode_state [OF wf d made]
  show n: "n = nextInode s" by (rule st(1))
  have s1: "nodes ?s1 k = nodes s k" if "k < nextInode s" for k
    using that by (simp add: new_node_def Let_def)
  have s1': "nameTable ?s1 = nameTable s" "nextInode ?s1 = Suc n" "node_key ?s1 n = (d, name)"
    by (simp_all add: new_node_def Let_def n node_key_def)
  have t1: "table_ok ?s1" "cached ?s1 = cached s"
    by (rule table_frame [of ?s1 s];
      use s1 [OF table_ok_bound [OF fs_wfD(1) [OF wf]]] s1' n fs_wfD(1) [OF wf] in simp)+
  have t2: "table_ok ?s2" "cached ?s2 = (cached s)((d, name) \<mapsto> n)"
    using table_ok_add [OF t1(1), of n] fresh by (simp_all add: s1' t1(2) node_exists_def)
  have same: "parent (nodes s' k) = parent (nodes ?s2 k) \<and> node_name (nodes s' k) = node_name (nodes ?s2 k)
      \<and> name_next (nodes s' k) = name_next (nodes ?s2 k)" for k
    by (simp add: st(2))
  have fr: "nameTable s' = nameTable ?s2" "nextInode s' = nextInode ?s2" by (simp_all add: st(2))
  show "table_ok s'" "cached s' = (cached s)((d, name) \<mapsto> n)"
    using table_frame [of s' ?s2] same fr t2 by simp_all
  show "nextInode s' = Suc n" using fr s1' by simp
  have dn: "d \<noteq> n" using d(1) n by simp
  show "nodes s' d = (set_entry name n (nodes s d))\<lparr>timestamp := clock s\<rparr>"
    using s1 [OF d(1)] dn by (simp add: st(2))
  show "nodes s' k = nodes s k" if "k < nextInode s" "k \<noteq> d"
    using s1 [OF that(1)] that n by (simp add: st(2))
  show "nodes s' n = (typed_node (nodes ?s1 n))\<lparr>timestamp := clock s, name_next := name_next (nodes s' n)\<rparr>"
    using dn by (simp add: st(2) hashAddNode_def Let_def typed_node_def)
  show "root s' = root s" "mount_table s' = mount_table s" "currentPath s' = currentPath s"
    "ignorePermissions s' = ignorePermissions s" "stack s' = stack s"
    by (simp_all add: st(2) new_node_def Let_def)
qed

lemma new_node_fields:
  "contents (nodes (snd (new_node dir name m dev s)) (nextInode s)) = Null"
  "node_ops (nodes (snd (new_node dir name m dev s)) (nextInode s)) = NoOps"
  "mode (nodes (snd (new_node dir name m dev s)) (nextInode s)) = m"
  "mounted (nodes (snd (new_node dir name m dev s)) (nextInode s)) = None"
  "parent (nodes (snd (new_node (Some d) name m dev s)) (nextInode s)) = d"
  "proto (nodes (snd (new_node dir name m dev s)) (nextInode s)) = None"
  by (simp_all add: new_node_def Let_def)

lemma createNode_entry:
  assumes "fs_wf s" and "d < nextInode s" "node_ops (nodes s d) = DirOps" and "cached s (d, name) = None"
    and "MEMFS_createNode (Some d) name m dev s = (Inr n, s')" and "k \<le> nextInode s"
  shows "entry s' k nm = (if k = d \<and> nm = name \<and> name \<noteq> ''__proto__'' then Some n else if k = n then None else entry s k nm)"
proof -
  note e = createNode_effect [OF assms(1-5)]
  obtain es where es: "contents (nodes s d) = Entries es" using assms(1-3) by (auto simp: fs_wf_def dirs_ok_def)
  consider "k = d" | "k = n" "k \<noteq> d" | "k < nextInode s" "k \<noteq> d" using assms(6) e(1) by linarith
  then show ?thesis
  proof cases
    case 1
    with assms(2) e(1,6) es show ?thesis
      by (cases "name = ''__proto__''") (simp_all add: entry_def set_entry_contents update_conv')
  next
    case 2
    with e(1) have "contents (nodes s' k) = (if isDir m then Entries [] else Null)"
      by (subst 2(1), subst e(5)) (simp add: typed_node_contents new_node_fields)
    with 2 show ?thesis by (simp add: entry_def)
  next
    case 3
    with e(1,7) show ?thesis by (simp add: entry_def)
  qed
qed

lemma createNode_wf:
  assumes "fs_wf s" and "d < nextInode s" "node_ops (nodes s d) = DirOps" and "cached s (d, name) = None"
    and "MEMFS_createNode (Some d) name m dev s = (Inr n, s')" and "name \<noteq> ''__proto__''"
  shows "fs_wf s'"
proof -
  note e = createNode_effect [OF assms(1-5)]
  note ent = createNode_entry [OF assms(1-5)]
  note W = fs_wfD [OF assms(1)]
  obtain es where es: "contents (nodes s d) = Entries es" using assms(1-3) by (auto simp: fs_wf_def dirs_ok_def)
  have node_n: "mode (nodes s' n) = m" "mounted (nodes s' n) = None" "parent (nodes s' n) = d"
    "node_ops (nodes s' n) = DirOps \<longleftrightarrow> isDir m" "isDir m \<Longrightarrow> contents (nodes s' n) = Entries []"
    "proto (nodes s' n) = None"
    using e(1) by (subst e(5), simp add: new_node_fields typed_node_contents)+
  have none: "cached s (n, nm) = None" for nm
  proof (rule ccontr)
    assume "cached s (n, nm) \<noteq> None"
    then obtain q where q: "cached s (n, nm) = Some q" by blast
    then have "parent (nodes s q) = n" "q < nextInode s"
      using table_ok_key [OF W(1) q] table_ok_bound [OF W(1) q] by (simp_all add: node_key_def)
    with W(3) e(1) show False by (auto simp: refs_ok_def)
  qed
  have "cached s' (k, nm) = entry s' k nm" if k: "k < nextInode s'" "plain nm" for k nm
  proof (cases "k = n")
    case True
    with e(1,2,4) ent [of k nm] none assms(2,6) show ?thesis by simp
  next
    case False
    with k e(1,2) have "k < nextInode s" by simp
    with e(4) ent [of k nm] W(5) [OF this k(2)] False assms(6) show ?thesis by auto
  qed
  then have "coherent s'" using e(3) by (simp add: coherent_def)
  moreover have "refs_ok s'"
  proof (rule refs_okI)
    show "entry s' k nm = Some q \<Longrightarrow> k < nextInode s' \<Longrightarrow> q < nextInode s'" for k nm q
      using ent [of k nm] refs_entry [OF W(3), of k nm q] e(1,2)
      by (cases "k = n") (auto simp: less_Suc_eq split: if_splits)
    have fields: "mounted (nodes s' k) = mounted (nodes s k)" "parent (nodes s' k) = parent (nodes s k)"
      if "k < nextInode s" for k
      by (cases "k = d"; simp add: e(6) e(7) [OF that])+
    show "mounted (nodes s' k) = Some j \<Longrightarrow> k < nextInode s' \<Longrightarrow> mount_root (mount_table s' j) < nextInode s'" for k j
      using refs_mount [OF W(3), of k j] fields(1) [of k] node_n(2) unfolding e(2,9)
      by (cases "k = n") (auto simp: less_Suc_eq e(1))
    show "k < nextInode s' \<Longrightarrow> parent (nodes s' k) < nextInode s'" for k
      using refs_parent [OF W(3), of k] fields(2) [of k] node_n(3) assms(2) unfolding e(2)
      by (cases "k = n") (auto simp: less_Suc_eq e(1))
    show "root s' = Some r \<Longrightarrow> r < nextInode s'" for r
      using refs_root [OF W(3), of r] unfolding e(2,8) e(1) by (simp add: less_Suc_eq)
  qed
  moreover have "dirs_ok s'"
    unfolding dirs_ok_def
  proof (intro allI impI)
    fix k assume k: "k < nextInode s'"
    consider "k = n" | "k = d" "k \<noteq> n" | "k < nextInode s" "k \<noteq> d" using k e(1,2) by linarith
    then show "proto (nodes s' k) = None
      \<and> (node_ops (nodes s' k) = DirOps \<longrightarrow> isDir (mode (nodes s' k)) \<and> (\<exists>es. contents (nodes s' k) = Entries es))"
    proof cases
      case 1
      with node_n show ?thesis by simp
    next
      case 2
      with W(4) assms(2,3,6) es e(6) show ?thesis by (simp add: dirs_ok_def set_entry_contents)
    next
      case 3
      with W(4) e(7) show ?thesis by (simp add: dirs_ok_def)
    qed
  qed
  moreover have "tree_ok s'"
    unfolding tree_ok_def
  proof (intro allI impI)
    fix k assume k: "k < nextInode s'"
    have same: "parent_of s x < nextInode s \<and> parent_of s' x = parent_of s x" if "x < nextInode s" for x
      using refs_parent [OF W(3) that] by (cases "x = d"; simp add: parent_of_def e(6) e(7) [OF that])
    have old: "rooted (parent_of s') x" if "x < nextInode s" for x
      using rooted_cong [OF W(6) [OF that] that same] .
    show "rooted (parent_of s') k"
    proof (cases "k = n")
      case True
      then show ?thesis using node_n(3) by (intro rooted_step [OF old [OF assms(2)]]) (simp add: parent_of_def)
    next
      case False
      then show ?thesis using old [of k] k e(1,2) by simp
    qed
  qed
  ultimately show ?thesis by (simp add: fs_wf_def)
qed

section \<open>What a successful mknod did\<close>

lemma nodePermissions_wx: "nodePermissions d (Some ''wx'') s = Inr 0 \<Longrightarrow> nodePermissions d (Some ''x'') s = Inr 0"
  by (auto simp: nodePermissions_def split: if_splits)

lemma mayCreate_0:
  assumes "fs_wf s" and "d < nextInode s" "node_ops (nodes s d) = DirOps" and "mayCreate d name s = Inr 0"
  shows "cached s (d, name) = None" "searchable s d"
proof -
  have dir: "isDir (mode (nodes s d))" using assms(1-3) by (auto simp: fs_wf_def dirs_ok_def)
  obtain found where f: "attempt (lookupNode d name s) = Inr found" "found = None" "nodePermissions d (Some ''wx'') s = Inr 0"
    using assms(4) by (auto simp: mayCreate_def rbind_eq_Inr split: if_splits)
  have "mayLookup d s = Inr 0" using dir assms(3) nodePermissions_wx [OF f(3)] by (simp add: mayLookup_def)
  then show "searchable s d" using assms(2) by (simp add: searchable_def)
  show "cached s (d, name) = None"
  proof (rule ccontr)
    assume "cached s (d, name) \<noteq> None"
    then obtain q where "cached s (d, name) = Some q" by blast
    then have "lookupNode d name s = Inr q"
      using \<open>mayLookup d s = Inr 0\<close> find_cached_total [OF fs_wfD(1) [OF assms(1)]] by (simp add: lookupNode_def)
    with f(1,2) show False by simp
  qed
qed

lemma FS_mknod_Inr:
  assumes "FS_mknod path m dev s = (Inr n, s')"
  obtains p d where "FS_lookupPath path of_parent s = Inr (p, Some d)"
    "basename path \<noteq> []" "mayCreate d (basename path) s = Inr 0" "node_ops (nodes s d) = DirOps"
    "MEMFS_createNode (Some d) (basename path) m dev s = (Inr n, s')"
proof -
  from assms obtain p dir where l: "FS_lookupPath path of_parent s = Inr (p, dir)"
    by (auto simp: FS_mknod_def split: sum.splits)
  with assms obtain d where "dir = Some d"
    by (cases dir) (auto simp: FS_mknod_def Let_def split: if_splits)
  with l assms that [of p d] show thesis
    by (auto simp: FS_mknod_def Let_def split: if_splits sum.splits)
qed

lemma FS_lookupPath_bound: "fs_wf s \<Longrightarrow> FS_lookupPath path opts s = Inr (p, Some n) \<Longrightarrow> n < nextInode s"
  unfolding FS_lookupPath_def by (rule lookupPath_bound) (simp_all add: fs_wfD)

section \<open>Taking an entry out\<close>

lemma frame_fields:
  assumes "\<And>m. parent (f (nodes s m)) = parent (nodes s m) \<and> node_name (f (nodes s m)) = node_name (nodes s m)
      \<and> name_next (f (nodes s m)) = name_next (nodes s m)" and "table_ok s"
  shows "table_ok (upd_node d f s)" "cached (upd_node d f s) = cached s" "node_key (upd_node d f s) = node_key s"
  by (rule table_frame [of _ s]; use assms in simp)+ (use assms in \<open>auto simp: node_key_def fun_eq_iff\<close>)

lemma drop_entry_effect:
  fixes t :: nat
  assumes wf: "fs_wf s" and d: "d < nextInode s" "node_ops (nodes s d) = DirOps" and n: "cached s (d, name) = Some n"
  defines "s1 \<equiv> upd_node d (\<lambda>x. (delete_entry name x)\<lparr>timestamp := t\<rparr>) s"
  shows "hashRemoveNode n s1 = Inr (removed n s1)" "fs_wf (removed n s1)"
    "entry (removed n s1) k nm = (if k = d \<and> nm = name then None else entry s k nm)"
    "cached (removed n s1) = (cached s)((d, name) := None)"
proof -
  note W = fs_wfD [OF wf]
  obtain es where es: "contents (nodes s d) = Entries es" using wf d by (auto simp: fs_wf_def dirs_ok_def)
  have t1: "table_ok s1" "cached s1 = cached s" "node_key s1 = node_key s"
    using frame_fields [of "\<lambda>x. (delete_entry name x)\<lparr>timestamp := t\<rparr>" s d] W(1) by (simp_all add: s1_def)
  note R = removed_fields [OF t1(1)]
  have key: "node_key s n = (d, name)" by (rule table_ok_key [OF W(1) n])
  show "hashRemoveNode n s1 = Inr (removed n s1)" by (rule R(1))
  show c: "cached (removed n s1) = (cached s)((d, name) := None)"
    using n key by (auto simp: fun_eq_iff table_ok_removed(2) [OF t1(1)] t1)
  have F: "mode (nodes (removed n s1) m) = mode (nodes s m)" "mounted (nodes (removed n s1) m) = mounted (nodes s m)"
    "parent (nodes (removed n s1) m) = parent (nodes s m)" "node_ops (nodes (removed n s1) m) = node_ops (nodes s m)"
    "contents (nodes (removed n s1) m) = (if m = d then Entries (AList.delete name es) else contents (nodes s m))"
    "nextInode (removed n s1) = nextInode s" "root (removed n s1) = root s" "mount_table (removed n s1) = mount_table s"
    "proto (nodes (removed n s1) m) = proto (nodes s m)"
    for m
    using es by (simp_all only: R) (simp_all add: s1_def delete_entry_contents)
  show ent: "entry (removed n s1) k nm = (if k = d \<and> nm = name then None else entry s k nm)" for k nm
    using es by (auto simp: entry_def F delete_conv')
  have "coherent (removed n s1)"
    using table_ok_removed(1) [OF t1(1)] W(5) by (auto simp: coherent_def c ent F)
  moreover have "refs_ok (removed n s1)"
  proof (rule refs_okI)
    show "root (removed n s1) = Some r \<Longrightarrow> r < nextInode (removed n s1)" for r
      using refs_root [OF W(3)] by (simp add: F)
    show "entry (removed n s1) k nm = Some q \<Longrightarrow> k < nextInode (removed n s1) \<Longrightarrow> q < nextInode (removed n s1)" for k nm q
      using refs_entry [OF W(3), of k nm q] by (simp add: ent F split: if_splits)
    show "mounted (nodes (removed n s1) k) = Some m \<Longrightarrow> k < nextInode (removed n s1) \<Longrightarrow>
        mount_root (mount_table (removed n s1) m) < nextInode (removed n s1)" for k m
      using refs_mount [OF W(3), of k m] by (simp add: F)
    show "k < nextInode (removed n s1) \<Longrightarrow> parent (nodes (removed n s1) k) < nextInode (removed n s1)" for k
      using refs_parent [OF W(3), of k] by (simp add: F)
  qed
  moreover have "dirs_ok (removed n s1)"
    using W(4) by (auto simp: dirs_ok_def F)
  moreover have "tree_ok (removed n s1)"
  proof -
    have "parent_of (removed n s1) = parent_of s" by (simp add: parent_of_def F fun_eq_iff)
    then show ?thesis using W(6) by (simp add: tree_ok_def F)
  qed
  ultimately show "fs_wf (removed n s1)" by (simp add: fs_wf_def)
qed

lemma FS_unlink_Inr:
  assumes "FS_unlink path s = (Inr (), s')"
  obtains p d n where "FS_lookupPath path of_parent s = Inr (p, Some d)" "lookupNode d (basename path) s = Inr n"
    "mayDelete d (basename path) False s = Inr 0" "node_ops (nodes s d) = DirOps" "mounted (nodes s n) = None"
    "hashRemoveNode n (upd_node d (\<lambda>x. (delete_entry (basename path) x)\<lparr>timestamp := clock s\<rparr>) s) = Inr s'"
proof -
  from assms obtain p dir where l: "FS_lookupPath path of_parent s = Inr (p, dir)"
    by (auto simp: FS_unlink_def split: sum.splits)
  with assms obtain d where "dir = Some d"
    by (cases dir) (auto simp: FS_unlink_def Let_def split: if_splits)
  with l assms that [of p d] show thesis
    by (auto simp: FS_unlink_def Let_def MEMFS_unlink_def isMountpoint_def trans_def destroyNode_def bnd_def
      split: if_splits sum.splits)
qed

lemma FS_rmdir_Inr:
  assumes "FS_rmdir path s = (Inr (), s')"
  obtains p d n where "FS_lookupPath path of_parent s = Inr (p, Some d)" "lookupNode d (basename path) s = Inr n"
    "mayDelete d (basename path) True s = Inr 0" "node_ops (nodes s d) = DirOps" "mounted (nodes s n) = None"
    "\<not> has_entries (nodes s n)"
    "hashRemoveNode n (upd_node d (\<lambda>x. (delete_entry (basename path) x)\<lparr>timestamp := clock s\<rparr>) s) = Inr s'"
proof -
  from assms obtain p dir where l: "FS_lookupPath path of_parent s = Inr (p, dir)"
    by (auto simp: FS_rmdir_def split: sum.splits)
  with assms obtain d where "dir = Some d"
    by (cases dir) (auto simp: FS_rmdir_def Let_def split: if_splits)
  with l assms that [of p d] show thesis
    by (auto simp: FS_rmdir_def Let_def MEMFS_rmdir_def isMountpoint_def trans_def destroyNode_def bnd_def
      split: if_splits sum.splits)
qed

section \<open>Moving an entry\<close>

lemma rewire_fields:
  assumes "contents (nodes s (parent (nodes s old))) = Entries es" and "contents (nodes s new_dir) = Entries es'"
    and "new_name \<noteq> ''__proto__''"
    and "MEMFS_rewire old new_dir new_name s = (r, s')"
  shows "r = Inr ()" "nameTable s' = nameTable s" "nextInode s' = nextInode s" "root s' = root s"
    "mount_table s' = mount_table s"
    "parent (nodes s' m) = (if m = old then new_dir else parent (nodes s m))"
    "node_name (nodes s' m) = (if m = old then new_name else node_name (nodes s m))"
    "name_next (nodes s' m) = name_next (nodes s m)" "mode (nodes s' m) = mode (nodes s m)"
    "mounted (nodes s' m) = mounted (nodes s m)" "node_ops (nodes s' m) = node_ops (nodes s m)"
    "m \<noteq> new_dir \<Longrightarrow> m \<noteq> parent (nodes s old) \<Longrightarrow> contents (nodes s' m) = contents (nodes s m)"
    "new_dir \<noteq> parent (nodes s old) \<Longrightarrow> contents (nodes s' new_dir) = Entries (AList.update new_name old es')"
    "new_dir \<noteq> parent (nodes s old) \<Longrightarrow>
       contents (nodes s' (parent (nodes s old))) = Entries (AList.delete (node_name (nodes s old)) es)"
    "new_dir = parent (nodes s old) \<Longrightarrow>
       contents (nodes s' new_dir) = Entries (AList.update new_name old (AList.delete (node_name (nodes s old)) es))"
    "proto (nodes s' m) = proto (nodes s m)"
  using assms
  by (auto simp: MEMFS_rewire_def Let_def delete_entry_contents set_entry_contents split: if_splits)

lemma rename_effect:
  assumes wf: "fs_wf s" and old_dir: "od < nextInode s" "node_ops (nodes s od) = DirOps"
    and new_dir: "nd < nextInode s" "node_ops (nodes s nd) = DirOps"
    and old: "cached s (od, on) = Some old" and free: "cached s (nd, nn) = None"
    and name: "nn \<noteq> ''__proto__''"
    and run: "MEMFS_rewire old nd nn (removed old s) = (r, s2)"
  shows "r = Inr ()" "coherent (hashAddNode old s2)"
    "k < nextInode s \<Longrightarrow> entry (hashAddNode old s2) k nm =
       (if k = nd \<and> nm = nn then Some old else if k = od \<and> nm = on then None else entry s k nm)"
    "cached (hashAddNode old s2) = (cached s)((od, on) := None, (nd, nn) \<mapsto> old)"
    "parent_of (hashAddNode old s2) = (parent_of s)(old := nd)"
    "\<not> inside (parent_of s) old nd \<Longrightarrow> fs_wf (hashAddNode old s2)"
proof -
  note W = fs_wfD [OF wf]
  note R = removed_fields [OF W(1), of old]
  have key: "parent (nodes s old) = od" "node_name (nodes s old) = on"
    using table_ok_key [OF W(1) old] by (simp_all add: node_key_def)
  have old_lt: "old < nextInode s" by (rule table_ok_bound [OF W(1) old])
  obtain es es' where es: "contents (nodes s od) = Entries es" "contents (nodes s nd) = Entries es'"
    using wf old_dir new_dir by (fastforce simp: fs_wf_def dirs_ok_def)
  have es1: "contents (nodes (removed old s) (parent (nodes (removed old s) old))) = Entries es"
    "contents (nodes (removed old s) nd) = Entries es'"
    using es key by (simp_all add: R)
  note F0 = rewire_fields [OF es1 name run]
  note F = F0 [unfolded R key]
  show "r = Inr ()" by (rule F(1))
  let ?s1 = "removed old s" and ?s3 = "hashAddNode old s2"
  have t1: "table_ok ?s1" "cached ?s1 = (cached s)((od, on) := None)"
    using table_ok_removed [OF W(1), of old] old by (auto simp: fun_eq_iff node_key_def key)
  have not_old: "cached ?s1 k \<noteq> Some old" for k
  proof
    assume "cached ?s1 k = Some old"
    then have "k = (od, on)" using table_ok_key [OF t1(1), of k old] by (simp add: node_key_def R key)
    with \<open>cached ?s1 k = Some old\<close> t1(2) show False by simp
  qed
  have "parent (nodes s2 m) = parent (nodes ?s1 m) \<and> node_name (nodes s2 m) = node_name (nodes ?s1 m)
      \<and> name_next (nodes s2 m) = name_next (nodes ?s1 m)" if "cached ?s1 k = Some m" for m k
  proof -
    have "m \<noteq> old" using that not_old by blast
    then show ?thesis by (simp add: F0)
  qed
  then have t2: "table_ok s2" "cached s2 = (cached s)((od, on) := None)"
    using table_frame [of s2 ?s1] t1 F0(2,3) by simp_all
  have key2: "node_key s2 old = (nd, nn)" by (simp add: node_key_def F)
  have "cached s2 (node_key s2 old) = None" using free by (simp add: t2(2) key2)
  from table_ok_add [OF t2(1) _ this] old_lt
  have t3: "table_ok ?s3" "cached ?s3 = (cached s)((od, on) := None, (nd, nn) \<mapsto> old)"
    by (simp_all add: node_exists_def F t2(2) key2)
  show "cached ?s3 = (cached s)((od, on) := None, (nd, nn) \<mapsto> old)" by (rule t3(2))
  have C: "contents (nodes s2 m) = (if m = nd then Entries (AList.update nn old (if nd = od then AList.delete on es else es'))
      else if m = od then Entries (AList.delete on es) else contents (nodes s m))" for m
    using F(12) [of m] F(13) F(14) F(15) by auto
  show ent: "entry ?s3 k nm =
       (if k = nd \<and> nm = nn then Some old else if k = od \<and> nm = on then None else entry s k nm)"
    for k nm
    using es by (auto simp: entry_def C update_conv' delete_conv')
  show coherent: "coherent ?s3"
    using t3 W(5) by (auto simp: coherent_def ent F)
  have "refs_ok ?s3"
  proof (rule refs_okI)
    show "root ?s3 = Some q \<Longrightarrow> q < nextInode ?s3" for q
      using refs_root [OF W(3)] by (simp add: F)
    show "entry ?s3 k nm = Some q \<Longrightarrow> k < nextInode ?s3 \<Longrightarrow> q < nextInode ?s3" for k nm q
      using refs_entry [OF W(3), of k nm q] old_lt by (simp add: ent F split: if_splits)
    show "mounted (nodes ?s3 k) = Some m \<Longrightarrow> k < nextInode ?s3 \<Longrightarrow> mount_root (mount_table ?s3 m) < nextInode ?s3" for k m
      using refs_mount [OF W(3), of k m] by (simp add: F)
    show "k < nextInode ?s3 \<Longrightarrow> parent (nodes ?s3 k) < nextInode ?s3" for k
      using refs_parent [OF W(3), of k] new_dir by (simp add: F)
  qed
  moreover have "dirs_ok ?s3"
    using W(4) by (auto simp: dirs_ok_def F C)
  moreover show p: "parent_of ?s3 = (parent_of s)(old := nd)" by (simp add: parent_of_def F fun_eq_iff)
  have "tree_ok ?s3" if "\<not> inside (parent_of s) old nd"
    using rooted_move [OF W(6) W(6) [OF new_dir(1)] that] by (simp add: tree_ok_def F p)
  ultimately show "\<not> inside (parent_of s) old nd \<Longrightarrow> fs_wf ?s3" using coherent by (simp add: fs_wf_def)
qed

lemma rename_checked_Inr:
  assumes "rename_checked od on old nd nn target s = (Inr (), s')"
  shows "mayDelete od on (isDir (mode (nodes s old))) s = Inr 0" "target = None \<Longrightarrow> mayCreate nd nn s = Inr 0"
    "node_ops (nodes s od) = DirOps"
    "\<exists>s1 s2. hashRemoveNode old s = Inr s1 \<and> MEMFS_rename old nd nn s1 = (Inr (), s2) \<and> s' = hashAddNode old s2"
  using assms
  by (auto simp: rename_checked_def rename_move_def Let_def trans_def bnd_def
    split: sum.splits if_splits prod.splits)

lemma FS_rename_Inr:
  assumes "FS_rename old_path new_path s = (Inr (), s')"
  obtains p p' od nd old target where
      "FS_lookupPath old_path of_parent s = Inr (p, Some od)" "FS_lookupPath new_path of_parent s = Inr (p', Some nd)"
      "lookupNode od (basename old_path) s = Inr old"
      "attempt (lookupNode nd (basename new_path) s) = Inr target"
      "target = Some old \<and> s' = s
       \<or> rename_checked od (basename old_path) old nd (basename new_path) target s = (Inr (), s')"
  using assms
  by (auto simp: FS_rename_def Let_def split: sum.splits if_splits prod.splits option.splits)

lemma MEMFS_rename_Inr:
  "MEMFS_rename old nd nn s = (Inr (), s') \<Longrightarrow> MEMFS_rewire old nd nn s = (Inr (), s')"
  by (auto simp: MEMFS_rename_def split: if_splits sum.splits option.splits)

end
