(* ===== verification/FsAttr.thy ===== *)
theory FsAttr
  imports FsTree
begin

unbundle bit_operations_syntax

text \<open>
  The operations of \<open>FS\<close> that read or change what a node holds rather than where it hangs
  (\<open>stat\<close>, \<open>chmod\<close>, \<open>chown\<close>, \<open>truncate\<close>, \<open>utime\<close>), mounting and unmounting, the current directory,
  and the helpers \<open>analyzePath\<close>, \<open>findObject\<close>, \<open>createPath\<close> and \<open>createFile\<close>. The mounted file system is
  always \<open>MEMFS\<close>; a method that takes a node or a path is two definitions.
\<close>

section \<open>Attributes\<close>

record attr =
  attr_dev :: nat
  attr_ino :: nid
  attr_mode :: i32
  attr_nlink :: nat
  attr_uid :: nat
  attr_gid :: nat
  attr_rdev :: i32
  attr_size :: nat
  attr_atime :: nat
  attr_mtime :: nat
  attr_ctime :: nat
  attr_blksize :: nat
  attr_blocks :: nat

definition MEMFS_getattr :: "nid \<Rightarrow> fs \<Rightarrow> attr" where
  "MEMFS_getattr n s =
     (let d = nodes s n;
          sz = (if isDir (mode d) then 4096 else if isFile (mode d) then usedBytes d
                  else if isLink (mode d) then length (link d) else 0)
      in \<lparr>attr_dev = (if isChrdev (mode d) then n else 1), attr_ino = n, attr_mode = mode d, attr_nlink = 1,
          attr_uid = 0, attr_gid = 0, attr_rdev = rdev d, attr_size = sz, attr_atime = timestamp d,
          attr_mtime = timestamp d, attr_ctime = timestamp d, attr_blksize = 4096,
          attr_blocks = (sz + 4095) div 4096\<rparr>)"

definition MEMFS_setattr :: "nid \<Rightarrow> i32 option \<Rightarrow> nat option \<Rightarrow> nat option \<Rightarrow> unit io" where
  "MEMFS_setattr n new_mode new_timestamp new_size =
     thn (upd (upd_node n (\<lambda>d. case new_mode of Some m \<Rightarrow> d\<lparr>mode := m\<rparr> | None \<Rightarrow> d)))
     (thn (upd (upd_node n (\<lambda>d. case new_timestamp of Some t \<Rightarrow> d\<lparr>timestamp := t\<rparr> | None \<Rightarrow> d)))
      (trans (\<lambda>s. case new_size of
         None \<Rightarrow> Inr s
       | Some len \<Rightarrow> rbind (resizeFileStorage len (nodes s n)) (\<lambda>d. Inr (upd_node n (\<lambda>_. d) s)))))"

definition FS_stat :: "string \<Rightarrow> bool \<Rightarrow> fs \<Rightarrow> attr result" where
  "FS_stat path dontFollow s =
     rbind (FS_lookupPath path (following (\<not> dontFollow)) s) (\<lambda>found.
     case snd found of
       None \<Rightarrow> Inl (ErrnoError 44)
     | Some n \<Rightarrow> if node_ops (nodes s n) = NoOps then Inl (ErrnoError 63) else Inr (MEMFS_getattr n s))"

definition FS_lstat :: "string \<Rightarrow> fs \<Rightarrow> attr result" where "FS_lstat path = FS_stat path True"

definition chmod_node :: "nid \<Rightarrow> i32 \<Rightarrow> unit io" where
  "chmod_node n m s =
     (if node_ops (nodes s n) = NoOps then (Inl (ErrnoError 63), s)
      else MEMFS_setattr n (Some ((m AND 4095) OR (mode (nodes s n) AND NOT 4095))) (Some (clock s)) None s)"

definition FS_chmod :: "string \<Rightarrow> i32 \<Rightarrow> bool \<Rightarrow> unit io" where
  "FS_chmod path m dontFollow =
     bnd (ask (FS_lookupPath path (following (\<not> dontFollow)))) (\<lambda>(_, node).
     bnd (ask (\<lambda>s. deref node)) (\<lambda>n. chmod_node n m))"

definition FS_lchmod :: "string \<Rightarrow> i32 \<Rightarrow> unit io" where "FS_lchmod path m = FS_chmod path m True"

definition chown_node :: "nid \<Rightarrow> unit io" where
  "chown_node n s =
     (if node_ops (nodes s n) = NoOps then (Inl (ErrnoError 63), s)
      else MEMFS_setattr n None (Some (clock s)) None s)"

definition FS_chown :: "string \<Rightarrow> nat \<Rightarrow> nat \<Rightarrow> bool \<Rightarrow> unit io" where
  "FS_chown path uid gid dontFollow =
     bnd (ask (FS_lookupPath path (following (\<not> dontFollow)))) (\<lambda>(_, node).
     bnd (ask (\<lambda>s. deref node)) chown_node)"

definition FS_lchown :: "string \<Rightarrow> nat \<Rightarrow> nat \<Rightarrow> unit io" where "FS_lchown path uid gid = FS_chown path uid gid True"

text \<open>The part of \<open>truncate\<close> behind the node: the length has been checked.\<close>

definition truncate_checked :: "nid \<Rightarrow> nat \<Rightarrow> unit io" where
  "truncate_checked n len s =
     (if node_ops (nodes s n) = NoOps then (Inl (ErrnoError 63), s)
      else if isDir (mode (nodes s n)) then (Inl (ErrnoError 31), s)
      else if \<not> isFile (mode (nodes s n)) then (Inl (ErrnoError 28), s)
      else case nodePermissions n (Some ''w'') s of
          Inl e \<Rightarrow> (Inl e, s)
        | Inr errCode \<Rightarrow>
            if errCode \<noteq> 0 then (Inl (ErrnoError errCode), s)
            else MEMFS_setattr n None (Some (clock s)) (Some len) s)"

definition truncate_node :: "nid \<Rightarrow> int \<Rightarrow> unit io" where
  "truncate_node n len = thn (check (\<not> len < 0) (ErrnoError 28)) (truncate_checked n (nat len))"

definition FS_truncate :: "string \<Rightarrow> int \<Rightarrow> unit io" where
  "FS_truncate path len =
     thn (check (\<not> len < 0) (ErrnoError 28))
     (bnd (ask (FS_lookupPath path (following True))) (\<lambda>(_, node).
      bnd (ask (\<lambda>s. deref node)) (\<lambda>n. truncate_checked n (nat len))))"

definition FS_utime :: "string \<Rightarrow> nat \<Rightarrow> nat \<Rightarrow> unit io" where
  "FS_utime path atime mtime =
     bnd (ask (FS_lookupPath path (following True))) (\<lambda>(_, node).
     bnd (ask (\<lambda>s. deref node)) (\<lambda>n.
     thn (\<lambda>s. check (node_ops (nodes s n) \<noteq> NoOps) TypeError s)
      (MEMFS_setattr n None (Some (max atime mtime)) None)))"

definition FS_chdir :: "string \<Rightarrow> unit io" where
  "FS_chdir path s =
     (case FS_lookupPath path (following True) s of
        Inl e \<Rightarrow> (Inl e, s)
      | Inr (found, None) \<Rightarrow> (Inl (ErrnoError 44), s)
      | Inr (found, Some n) \<Rightarrow>
          if \<not> isDir (mode (nodes s n)) then (Inl (ErrnoError 54), s)
          else case nodePermissions n (Some ''x'') s of
            Inl e \<Rightarrow> (Inl e, s)
          | Inr errCode \<Rightarrow>
              if errCode \<noteq> 0 then (Inl (ErrnoError errCode), s) else (Inr (), s\<lparr>currentPath := found\<rparr>))"

section \<open>Mounts\<close>

text \<open>\<open>pop\<close> takes the last element of the array of pending mounts; every mount is a child of one mount.\<close>

fun getMounts_loop :: "nat \<Rightarrow> mid list \<Rightarrow> mid list \<Rightarrow> fs \<Rightarrow> mid list result" where
  "getMounts_loop 0 pending found s = (if pending = [] then Inr found else Inl Diverges)"
| "getMounts_loop (Suc fuel) pending found s =
     (if pending = [] then Inr found
      else let m = last pending
           in getMounts_loop fuel (butlast pending @ mounts (mount_table s m)) (found @ [m]) s)"

definition getMounts :: "mid \<Rightarrow> fs \<Rightarrow> mid list result" where
  "getMounts m s = getMounts_loop (nextMount s) [m] [] s"

text \<open>The second half of \<open>mount\<close>: \<open>node\<close> is the mount point, if there is one.\<close>

definition mount_at :: "string \<Rightarrow> nid option \<Rightarrow> bool \<Rightarrow> nid io" where
  "mount_at path node is_root s =
     (let m = nextMount s;
          s1 = s\<lparr>nextMount := m + 1,
                 mount_table := (mount_table s)(m := \<lparr>mountpoint = path, mounts = [], mount_root = 0\<rparr>)\<rparr>
      in case MEMFS_createNode None [slash] (16384 OR 511) 0 s1 of
           (Inl e, s2) \<Rightarrow> (Inl e, s2)
         | (Inr mountRoot, s2) \<Rightarrow>
             let s3 = upd_node mountRoot (\<lambda>d. d\<lparr>mount_ref := Some m\<rparr>) s2;
                 s4 = s3\<lparr>mount_table := (mount_table s3)(m := (mount_table s3 m)\<lparr>mount_root := mountRoot\<rparr>)\<rparr>
             in if is_root then (Inr mountRoot, s4\<lparr>root := Some mountRoot\<rparr>)
                else case node of
                  None \<Rightarrow> (Inr mountRoot, s4)
                | Some n \<Rightarrow>
                    let s5 = upd_node n (\<lambda>d. d\<lparr>mounted := Some m\<rparr>) s4
                    in case mount_ref (nodes s5 n) of
                         None \<Rightarrow> (Inr mountRoot, s5)
                       | Some up \<Rightarrow> (Inr mountRoot,
                           s5\<lparr>mount_table := (mount_table s5)
                                (up := (mount_table s5 up)\<lparr>mounts := mounts (mount_table s5 up) @ [m]\<rparr>)\<rparr>))"

definition FS_mount :: "string \<Rightarrow> nid io" where
  "FS_mount path s =
     (let is_root = (path = [slash]); pseudo = (path = []) in
      if is_root \<and> root s \<noteq> None then (Inl (ErrnoError 10), s)
      else if \<not> is_root \<and> \<not> pseudo then
        (case FS_lookupPath path not_mounted s of
           Inl e \<Rightarrow> (Inl e, s)
         | Inr (found, None) \<Rightarrow> (Inl TypeError, s)
         | Inr (found, Some n) \<Rightarrow>
             if isMountpoint n s then (Inl (ErrnoError 10), s)
             else if \<not> isDir (mode (nodes s n)) then (Inl (ErrnoError 54), s)
             else mount_at found (Some n) False s)
      else mount_at path None is_root s)"

text \<open>
  \<open>unmount\<close> destroys the nodes of the mounts in each chain; a round saves the next node before it
  destroys the current one.
\<close>

fun unmount_chain :: "nat \<Rightarrow> mid list \<Rightarrow> nid option \<Rightarrow> fs \<Rightarrow> fs result" where
  "unmount_chain 0 ms current s = Inl Diverges"
| "unmount_chain (Suc fuel) ms None s = Inr s"
| "unmount_chain (Suc fuel) ms (Some n) s =
     (let next = name_next (nodes s n) in
      if (case mount_ref (nodes s n) of Some m \<Rightarrow> m \<in> set ms | None \<Rightarrow> False)
      then rbind (destroyNode n s) (unmount_chain fuel ms next)
      else unmount_chain fuel ms next s)"

fun unmount_chains :: "mid list \<Rightarrow> nat list \<Rightarrow> fs \<Rightarrow> fs result" where
  "unmount_chains ms [] s = Inr s"
| "unmount_chains ms (h # hs) s =
     rbind (unmount_chain (Suc (nextInode s)) ms (nameTable s h) s) (unmount_chains ms hs)"

text \<open>\<open>splice(indexOf(m), 1)\<close>: without the element the index is -1, and the last element goes.\<close>

definition splice_out :: "mid \<Rightarrow> mid list \<Rightarrow> mid list" where
  "splice_out m ms = (if m \<in> set ms then remove1 m ms else butlast ms)"

definition FS_unmount :: "string \<Rightarrow> unit io" where
  "FS_unmount path s =
     (case FS_lookupPath path not_mounted s of
        Inl e \<Rightarrow> (Inl e, s)
      | Inr (found, None) \<Rightarrow> (Inl TypeError, s)
      | Inr (found, Some n) \<Rightarrow>
          (case mounted (nodes s n) of
             None \<Rightarrow> (Inl (ErrnoError 28), s)
           | Some m \<Rightarrow>
               (case rbind (getMounts m s) (\<lambda>ms. unmount_chains ms [0..<4096] s) of
                  Inl e \<Rightarrow> (Inl e, s)
                | Inr s1 \<Rightarrow>
                    let s2 = upd_node n (\<lambda>d. d\<lparr>mounted := None\<rparr>) s1 in
                    case mount_ref (nodes s2 n) of
                      None \<Rightarrow> (Inl TypeError, s2)
                    | Some up \<Rightarrow> (Inr (), s2\<lparr>mount_table := (mount_table s2)
                        (up := (mount_table s2 up)\<lparr>mounts := splice_out m (mounts (mount_table s2 up))\<rparr>)\<rparr>))))"

section \<open>Helpers over paths\<close>

record analysis =
  an_isRoot :: bool
  an_exists :: bool
  an_error :: "nat option"
  an_name :: "string option"
  an_path :: "string option"
  an_object :: "nid option"
  an_parentExists :: bool
  an_parentPath :: "string option"
  an_parentObject :: "nid option"

text \<open>\<open>e.errno\<close> of a caught exception.\<close>

definition errno_of :: "fs_exn \<Rightarrow> nat option" where
  "errno_of e = (case e of ErrnoError n \<Rightarrow> Some n | _ \<Rightarrow> None)"

definition analyzePath :: "string \<Rightarrow> bool \<Rightarrow> fs \<Rightarrow> analysis result" where
  "analyzePath path dontResolveLastLink s =
     rbind (attempt (FS_lookupPath path (following (\<not> dontResolveLastLink)) s)) (\<lambda>first.
     let path1 = (case first of Some (p, _) \<Rightarrow> p | None \<Rightarrow> path);
         none = \<lparr>an_isRoot = False, an_exists = False, an_error = Some 0, an_name = None, an_path = None,
                 an_object = None, an_parentExists = False, an_parentPath = None, an_parentObject = None\<rparr>
     in case FS_lookupPath path1 of_parent s of
          Inl Diverges \<Rightarrow> Inl Diverges
        | Inl e \<Rightarrow> Inr (none\<lparr>an_error := errno_of e\<rparr>)
        | Inr (pp, pn) \<Rightarrow>
            let some = none\<lparr>an_parentExists := True, an_parentPath := Some pp, an_parentObject := pn,
                            an_name := Some (basename path1)\<rparr>
            in case FS_lookupPath path1 (following (\<not> dontResolveLastLink)) s of
                 Inl Diverges \<Rightarrow> Inl Diverges
               | Inl e \<Rightarrow> Inr (some\<lparr>an_error := errno_of e\<rparr>)
               | Inr (p, node) \<Rightarrow>
                   let found = some\<lparr>an_exists := True, an_path := Some p, an_object := node\<rparr>
                   in case node of
                        None \<Rightarrow> Inr (found\<lparr>an_error := None\<rparr>)
                      | Some n \<Rightarrow> Inr (found\<lparr>an_name := Some (node_name (nodes s n)), an_isRoot := (p = [slash])\<rparr>))"

definition findObject :: "string \<Rightarrow> bool \<Rightarrow> fs \<Rightarrow> nid option result" where
  "findObject path dontResolveLastLink s =
     rbind (analyzePath path dontResolveLastLink s) (\<lambda>a. Inr (if an_exists a then an_object a else None))"

fun create_parts :: "string \<Rightarrow> string option \<Rightarrow> string list \<Rightarrow> string option io" where
  "create_parts dir current [] = ret current"
| "create_parts dir current (part # ps) =
     (if part = [] then create_parts dir current ps
      else let next = join2 dir part in
        (\<lambda>s. case FS_mkdir next None s of
               (Inl Diverges, s') \<Rightarrow> (Inl Diverges, s')
             | (_, s') \<Rightarrow> create_parts next (Some next) ps s'))"

definition createPath :: "string \<Rightarrow> string \<Rightarrow> string option io" where
  "createPath dir path = create_parts dir None (split path)"

definition createFile :: "string \<Rightarrow> string \<Rightarrow> bool \<Rightarrow> bool \<Rightarrow> nid io" where
  "createFile dir name canRead canWrite = FS_create (join2 dir name) (Some (FS_getMode canRead canWrite))"

section \<open>The first file system\<close>

definition no_node :: fsnode where
  "no_node = \<lparr>parent = 0, mount_ref = None, mounted = None, node_name = [], mode = 0, node_ops = NoOps, rdev = 0,
     contents = Null, proto = None, usedBytes = 0, link = [], timestamp = 0, name_next = None\<rparr>"

text \<open>The call stack has room for \<open>frames\<close> nested lookups besides the first.\<close>

definition initial_fs :: "nat \<Rightarrow> fs" where
  "initial_fs frames =
     \<lparr>root = None, nodes = (\<lambda>_. no_node), nextInode = 1, nameTable = (\<lambda>_. None),
      mount_table = (\<lambda>_. \<lparr>mountpoint = [], mounts = [], mount_root = 0\<rparr>), nextMount = 0, streams = [],
      stream_table = (\<lambda>_. \<lparr>stream_node = 0, stream_path = [], stream_fd = None, seekable = False,
                            stream_ops = NoStream, stream_tty = None,
                            getdents = None, shared = 0\<rparr>),
      nextStream = 0, shared_table = (\<lambda>_. \<lparr>flags = 0, position = 0\<rparr>), currentPath = [slash],
      ignorePermissions = True, devices = (\<lambda>_. None), device_input = (\<lambda>_. []), device_output = (\<lambda>_. []),
      output_room = (\<lambda>_. None), ttys = (\<lambda>_. None), stdin_buffer = [], stdin_answers = [], console = [],
      nextMajor = 64, clock = 0, stack = Suc frames\<rparr>"

definition mounted_fs :: "nat \<Rightarrow> fs" where "mounted_fs frames = snd (FS_mount [slash] (initial_fs frames))"

end
