(* ===== verification/FsStreams.thy ===== *)
theory FsStreams
  imports FsAttr
begin

unbundle bit_operations_syntax

text \<open>
  Open streams of \<open>FS\<close>: the table of descriptors, \<open>open\<close>, \<open>close\<close>, \<open>dup\<close>, \<open>read\<close>, \<open>write\<close>, \<open>llseek\<close>,
  \<open>allocate\<close> and the whole-file helpers, with the stream operations of \<open>MEMFS\<close>, of the terminals and of
  the other character devices behind them.

  A stream object is the number of its entry in \<open>stream_table\<close>; streams made by \<open>dup\<close> share flags and
  position through \<open>shared_table\<close>. A buffer the caller passes to a read is an argument and part of the
  result; what a read that throws left in it is not kept.
\<close>

section \<open>Descriptors\<close>

definition getStream :: "nat \<Rightarrow> fs \<Rightarrow> nat option" where
  "getStream fd s = (if fd < length (streams s) then streams s ! fd else None)"

definition getStreamChecked :: "nat \<Rightarrow> fs \<Rightarrow> nat result" where
  "getStreamChecked fd s = (case getStream fd s of Some x \<Rightarrow> Inr x | None \<Rightarrow> Inl (ErrnoError 8))"

definition MAX_OPEN_FDS :: nat where "MAX_OPEN_FDS = 4096"

text \<open>The loop of \<open>nextfd\<close>, over the slots from \<open>fd\<close> on.\<close>

fun free_slot :: "nat option list \<Rightarrow> nat \<Rightarrow> nat result" where
  "free_slot [] fd = (if fd \<le> MAX_OPEN_FDS then Inr fd else Inl (ErrnoError 33))"
| "free_slot (x # xs) fd =
     (if \<not> fd \<le> MAX_OPEN_FDS then Inl (ErrnoError 33)
      else if x = None then Inr fd else free_slot xs (fd + 1))"

definition nextfd :: "fs \<Rightarrow> nat result" where
  "nextfd s = free_slot (streams s) 0"

definition set_slot :: "nat \<Rightarrow> nat option \<Rightarrow> nat option list \<Rightarrow> nat option list" where
  "set_slot fd x xs = (xs @ replicate (Suc fd - length xs) None)[fd := x]"

definition upd_stream :: "nat \<Rightarrow> (fsstream \<Rightarrow> fsstream) \<Rightarrow> fs \<Rightarrow> fs" where
  "upd_stream x f s = s\<lparr>stream_table := (stream_table s)(x := f (stream_table s x))\<rparr>"

definition upd_shared :: "nat \<Rightarrow> (shared_state \<Rightarrow> shared_state) \<Rightarrow> fs \<Rightarrow> fs" where
  "upd_shared x f s =
     (let h = shared (stream_table s x) in s\<lparr>shared_table := (shared_table s)(h := f (shared_table s h))\<rparr>)"

definition stream_flags :: "nat \<Rightarrow> fs \<Rightarrow> i32" where
  "stream_flags x s = flags (shared_table s (shared (stream_table s x)))"

definition stream_position :: "nat \<Rightarrow> fs \<Rightarrow> int" where
  "stream_position x s = position (shared_table s (shared (stream_table s x)))"

text \<open>\<open>createStream\<close>: the argument is the object to clone, with its \<open>shared\<close> part already chosen.\<close>

definition createStream :: "fsstream \<Rightarrow> nat option \<Rightarrow> nat io" where
  "createStream st fd0 s =
     (case (case fd0 of Some fd \<Rightarrow> Inr fd | None \<Rightarrow> nextfd s) of
        Inl e \<Rightarrow> (Inl e, s)
      | Inr fd \<Rightarrow>
          let x = nextStream s
          in (Inr x, s\<lparr>nextStream := x + 1, stream_table := (stream_table s)(x := st\<lparr>stream_fd := Some fd\<rparr>),
                       streams := set_slot fd (Some x) (streams s)\<rparr>))"

definition closeStream :: "nat \<Rightarrow> fs \<Rightarrow> fs" where
  "closeStream fd s = s\<lparr>streams := set_slot fd None (streams s)\<rparr>"

definition dupStream :: "nat \<Rightarrow> nat option \<Rightarrow> nat io" where
  "dupStream orig fd s = createStream (stream_table s orig) fd s"

definition isClosed :: "nat \<Rightarrow> fs \<Rightarrow> bool" where
  "isClosed x s \<longleftrightarrow> stream_fd (stream_table s x) = None"

section \<open>Terminals\<close>

definition registerDevice :: "i32 \<Rightarrow> device \<Rightarrow> fs \<Rightarrow> fs" where
  "registerDevice dev ops s = s\<lparr>devices := (devices s)(dev \<mapsto> ops)\<rparr>"

definition tty_register :: "i32 \<Rightarrow> tty_ops \<Rightarrow> fs \<Rightarrow> fs" where
  "tty_register dev kind s =
     registerDevice dev TtyDevice (s\<lparr>ttys := (ttys s)(dev \<mapsto> \<lparr>tty_output = [], tty_kind = kind\<rparr>)\<rparr>)"

text \<open>
  \<open>FS_stdin_getChar\<close> in a browser: \<open>window.prompt\<close> asks for a line when the buffer is empty; a cancelled
  prompt is the end of input, and a line ends with the line feed the code appends. \<open>stdin_answers\<close> past
  its end stands for prompts that are cancelled.
\<close>

definition FS_stdin_getChar :: "fs \<Rightarrow> input_event \<times> fs" where
  "FS_stdin_getChar s =
     (case stdin_buffer s of
        b # rest \<Rightarrow> (Byte b, s\<lparr>stdin_buffer := rest\<rparr>)
      | [] \<Rightarrow>
          (case stdin_answers s of
             [] \<Rightarrow> (EndOfInput, s)
           | answer # answers \<Rightarrow>
               let s1 = s\<lparr>stdin_answers := answers\<rparr> in
               case answer of
                 StdinThrows \<Rightarrow> (InputThrows, s1)
               | StdinNull \<Rightarrow> (EndOfInput, s1)
               | StdinText text \<Rightarrow>
                   (case intArrayFromString (text @ [10]) True 0 of
                      [] \<Rightarrow> (EndOfInput, s1)
                    | b # rest \<Rightarrow> (Byte b, s1\<lparr>stdin_buffer := rest\<rparr>))))"

text \<open>\<open>out\<close> or \<open>err\<close> of the pending line.\<close>

definition tty_flush :: "i32 \<Rightarrow> tty \<Rightarrow> fs \<Rightarrow> fs" where
  "tty_flush dev t s =
     s\<lparr>console := console s @ [(tty_kind t = DefaultTty1, UTF8ArrayToString None (tty_output t) 0 None)],
       ttys := (ttys s)(dev \<mapsto> t\<lparr>tty_output := []\<rparr>)\<rparr>"

definition put_char :: "i32 \<Rightarrow> u8 \<Rightarrow> fs \<Rightarrow> fs" where
  "put_char dev val s =
     (case ttys s dev of
        None \<Rightarrow> s
      | Some t \<Rightarrow>
          if val = 10 then tty_flush dev t s
          else if val \<noteq> 0 then s\<lparr>ttys := (ttys s)(dev \<mapsto> t\<lparr>tty_output := tty_output t @ [val]\<rparr>)\<rparr>
          else s)"

definition tty_fsync :: "i32 \<Rightarrow> fs \<Rightarrow> fs" where
  "tty_fsync dev s =
     (case ttys s dev of
        None \<Rightarrow> s
      | Some t \<Rightarrow> if length (tty_output t) > 0 then tty_flush dev t s else s)"

section \<open>Stream operations of the devices\<close>

text \<open>The input callback of a device made by \<open>createDevice\<close>.\<close>

definition callback_input :: "i32 \<Rightarrow> fs \<Rightarrow> input_event \<times> fs" where
  "callback_input dev s =
     (case device_input s dev of
        [] \<Rightarrow> (EndOfInput, s)
      | e # es \<Rightarrow> (e, s\<lparr>device_input := (device_input s)(dev := es)\<rparr>))"

text \<open>
  The loop both \<open>read\<close> operations have: \<open>i\<close> bytes are read, \<open>todo\<close> are still wanted.
\<close>

fun read_chars ::
  "(fs \<Rightarrow> input_event \<times> fs) \<Rightarrow> nat \<Rightarrow> nat \<Rightarrow> nat \<Rightarrow> u8 list \<Rightarrow> (nat \<times> u8 list) io" where
  "read_chars get offset i 0 buffer s = (Inr (i, buffer), s)"
| "read_chars get offset i (Suc todo) buffer s =
     (case get s of
        (InputThrows, s1) \<Rightarrow> (Inl (ErrnoError 29), s1)
      | (NoInput, s1) \<Rightarrow> if i = 0 then (Inl (ErrnoError 6), s1) else (Inr (i, buffer), s1)
      | (EndOfInput, s1) \<Rightarrow> (Inr (i, buffer), s1)
      | (Byte b, s1) \<Rightarrow> read_chars get offset (i + 1) todo (buffer[offset + i := b]) s1)"

definition touch :: "nid \<Rightarrow> bool \<Rightarrow> fs \<Rightarrow> fs" where
  "touch n really s = (if really then upd_node n (\<lambda>d. d\<lparr>timestamp := clock s\<rparr>) s else s)"

definition device_read :: "nat \<Rightarrow> (fs \<Rightarrow> input_event \<times> fs) \<Rightarrow> u8 list \<Rightarrow> nat \<Rightarrow> nat \<Rightarrow> (nat \<times> u8 list) io" where
  "device_read x get buffer offset len =
     bnd (read_chars get offset 0 len buffer) (\<lambda>(bytesRead, buffer').
     thn (\<lambda>s. upd (touch (stream_node (stream_table s x)) (bytesRead > 0)) s) (ret (bytesRead, buffer')))"

fun write_chars :: "i32 \<Rightarrow> u8 list \<Rightarrow> unit io" where
  "write_chars dev [] s = (Inr (), s)"
| "write_chars dev (b # bs) s =
     (case output_room s dev of
        Some 0 \<Rightarrow> (Inl (ErrnoError 29), s)
      | room \<Rightarrow> write_chars dev bs
          (s\<lparr>device_output := (device_output s)(dev := device_output s dev @ [b]),
             output_room := (output_room s)(dev := map_option (\<lambda>k. k - 1) room)\<rparr>))"

definition stream_read :: "nat \<Rightarrow> u8 list \<Rightarrow> nat \<Rightarrow> nat \<Rightarrow> nat \<Rightarrow> (nat \<times> u8 list) io" where
  "stream_read x buffer offset len pos s =
     (case stream_ops (stream_table s x) of
        FileStream \<Rightarrow> ask (\<lambda>s. read_file (nodes s (stream_node (stream_table s x))) buffer offset len pos) s
      | DeviceStream dev NullDevice \<Rightarrow> (Inr (0, buffer), s)
      | DeviceStream dev TtyDevice \<Rightarrow>
          (case stream_tty (stream_table s x) of
             None \<Rightarrow> (Inl (ErrnoError 60), s)
           | Some t \<Rightarrow>
               if map_option tty_kind (ttys s t) \<noteq> Some DefaultTty then (Inl (ErrnoError 60), s)
               else device_read x FS_stdin_getChar buffer offset len s)
      | DeviceStream dev (CallbackDevice has_input has_output) \<Rightarrow>
          device_read x (if has_input then callback_input dev else (\<lambda>s. (InputThrows, s))) buffer offset len s
      | _ \<Rightarrow> (Inl (ErrnoError 28), s))"

definition stream_write :: "nat \<Rightarrow> u8 list \<Rightarrow> nat \<Rightarrow> nat \<Rightarrow> nat \<Rightarrow> bool \<Rightarrow> bool \<Rightarrow> nat io" where
  "stream_write x buffer offset len pos canOwn typed s =
     (let n = stream_node (stream_table s x) in
      case stream_ops (stream_table s x) of
        FileStream \<Rightarrow>
          (case write_file (nodes s n) buffer offset len pos canOwn typed (clock s) of
             Inl e \<Rightarrow> (Inl e, s)
           | Inr (k, d) \<Rightarrow> (Inr k, upd_node n (\<lambda>_. d) s))
      | DeviceStream dev NullDevice \<Rightarrow> (Inr len, s)
      | DeviceStream dev TtyDevice \<Rightarrow>
          (case stream_tty (stream_table s x) of
             None \<Rightarrow> (Inl (ErrnoError 60), s)
           | Some t \<Rightarrow> (Inr len, touch n (len > 0) (fold (put_char t) (elements offset len buffer) s)))
      | DeviceStream dev (CallbackDevice has_input has_output) \<Rightarrow>
          if len > 0 \<and> \<not> has_output then (Inl (ErrnoError 29), s)
          else bnd (write_chars dev (elements offset len buffer)) (\<lambda>_.
               thn (upd (touch n (len > 0))) (ret len)) s
      | _ \<Rightarrow> (Inl (ErrnoError 28), s))"

section \<open>Reading, writing and seeking\<close>

definition has_rw :: "stream_ops \<Rightarrow> bool" where
  "has_rw ops \<longleftrightarrow> (case ops of FileStream \<Rightarrow> True | DeviceStream _ _ \<Rightarrow> True | _ \<Rightarrow> False)"

definition has_llseek :: "stream_ops \<Rightarrow> bool" where
  "has_llseek ops \<longleftrightarrow> ops = DirStream \<or> ops = FileStream \<or> ops = ChrdevStream"

definition stream_llseek :: "nat \<Rightarrow> int \<Rightarrow> int \<Rightarrow> fs \<Rightarrow> int result" where
  "stream_llseek x offset whence s =
     (if stream_ops (stream_table s x) = ChrdevStream then Inl (ErrnoError 70)
      else llseek_file (nodes s (stream_node (stream_table s x))) (stream_position x s) offset whence)"

definition set_position :: "nat \<Rightarrow> int \<Rightarrow> fs \<Rightarrow> fs" where
  "set_position x p = upd_shared x (\<lambda>h. h\<lparr>position := p\<rparr>)"

definition FS_llseek :: "nat \<Rightarrow> int \<Rightarrow> int \<Rightarrow> int io" where
  "FS_llseek x offset whence s =
     (let st = stream_table s x in
      if isClosed x s then (Inl (ErrnoError 8), s)
      else if \<not> seekable st \<or> \<not> has_llseek (stream_ops st) then (Inl (ErrnoError 70), s)
      else if whence \<noteq> 0 \<and> whence \<noteq> 1 \<and> whence \<noteq> 2 then (Inl (ErrnoError 28), s)
      else case stream_llseek x offset whence s of
             Inl e \<Rightarrow> (Inl e, s)
           | Inr p \<Rightarrow> (Inr p, set_position x p s))"

text \<open>
  The checks \<open>read\<close> and \<open>write\<close> share; \<open>bad\<close> is the access mode that does not allow the operation, and
  \<open>pos\<close> is \<open>None\<close> where the caller gave no position.
\<close>

definition rw_error :: "nat \<Rightarrow> int \<Rightarrow> int option \<Rightarrow> i32 \<Rightarrow> fs \<Rightarrow> nat" where
  "rw_error x len pos bad s =
     (let st = stream_table s x in
      if len < 0 \<or> (case pos of Some p \<Rightarrow> p < 0 | None \<Rightarrow> False) then 28
      else if isClosed x s then 8
      else if stream_flags x s AND 2097155 = bad then 8
      else if isDir (mode (nodes s (stream_node st))) then 31
      else if \<not> has_rw (stream_ops st) then 28
      else 0)"

definition FS_read :: "nat \<Rightarrow> u8 list \<Rightarrow> nat \<Rightarrow> int \<Rightarrow> int option \<Rightarrow> (nat \<times> u8 list) io" where
  "FS_read x buffer offset len pos s =
     (let e = rw_error x len pos 1 s in
      if e \<noteq> 0 then (Inl (ErrnoError e), s)
      else if pos \<noteq> None \<and> \<not> seekable (stream_table s x) then (Inl (ErrnoError 70), s)
      else let p = (case pos of Some q \<Rightarrow> q | None \<Rightarrow> stream_position x s) in
        case stream_read x buffer offset (nat len) (nat p) s of
          (Inl e, s1) \<Rightarrow> (Inl e, s1)
        | (Inr (bytesRead, buffer'), s1) \<Rightarrow>
            (Inr (bytesRead, buffer'),
             if pos = None then set_position x (stream_position x s1 + int bytesRead) s1 else s1))"

definition FS_write :: "nat \<Rightarrow> u8 list \<Rightarrow> nat \<Rightarrow> int \<Rightarrow> int option \<Rightarrow> bool \<Rightarrow> bool \<Rightarrow> nat io" where
  "FS_write x buffer offset len pos canOwn typed s =
     (let e = rw_error x len pos 0 s in
      if e \<noteq> 0 then (Inl (ErrnoError e), s)
      else
        case (if seekable (stream_table s x) \<and> stream_flags x s AND 1024 \<noteq> 0
              then FS_llseek x 0 2 s else (Inr 0, s)) of
          (Inl e, s1) \<Rightarrow> (Inl e, s1)
        | (Inr _, s1) \<Rightarrow>
            if pos \<noteq> None \<and> \<not> seekable (stream_table s1 x) then (Inl (ErrnoError 70), s1)
            else let p = (case pos of Some q \<Rightarrow> q | None \<Rightarrow> stream_position x s1) in
              case stream_write x buffer offset (nat len) (nat p) canOwn typed s1 of
                (Inl e, s2) \<Rightarrow> (Inl e, s2)
              | (Inr bytesWritten, s2) \<Rightarrow>
                  (Inr bytesWritten,
                   if pos = None then set_position x (stream_position x s2 + int bytesWritten) s2 else s2))"

definition FS_allocate :: "nat \<Rightarrow> int \<Rightarrow> int \<Rightarrow> unit io" where
  "FS_allocate x offset len s =
     (let st = stream_table s x; n = stream_node st; m = mode (nodes s n) in
      if isClosed x s then (Inl (ErrnoError 8), s)
      else if offset < 0 \<or> len \<le> 0 then (Inl (ErrnoError 28), s)
      else if stream_flags x s AND 2097155 = 0 then (Inl (ErrnoError 8), s)
      else if \<not> isFile m \<and> \<not> isDir m then (Inl (ErrnoError 43), s)
      else if stream_ops st \<noteq> FileStream then (Inl (ErrnoError 138), s)
      else case allocate_file (nodes s n) (nat offset) (nat len) of
             Inl e \<Rightarrow> (Inl e, s)
           | Inr d \<Rightarrow> (Inr (), upd_node n (\<lambda>_. d) s))"

definition FS_msync :: "nat \<Rightarrow> u8 list \<Rightarrow> nat \<Rightarrow> nat \<Rightarrow> nat io" where
  "FS_msync x buffer offset len =
     (\<lambda>s. if stream_ops (stream_table s x) \<noteq> FileStream then (Inr 0, s)
          else bnd (stream_write x buffer 0 len offset False True) (\<lambda>_. ret 0) s)"

text \<open>No stream operations here have an \<open>ioctl\<close>.\<close>

definition FS_ioctl :: "nat \<Rightarrow> i32 \<Rightarrow> i32 \<Rightarrow> i32 io" where
  "FS_ioctl x cmd arg = throw (ErrnoError 59)"

definition FS_ftruncate :: "nat \<Rightarrow> int \<Rightarrow> unit io" where
  "FS_ftruncate fd len s =
     (case getStreamChecked fd s of
        Inl e \<Rightarrow> (Inl e, s)
      | Inr x \<Rightarrow>
          if stream_flags x s AND 2097155 = 0 then (Inl (ErrnoError 28), s)
          else truncate_node (stream_node (stream_table s x)) len s)"

definition FS_fchmod :: "nat \<Rightarrow> i32 \<Rightarrow> unit io" where
  "FS_fchmod fd m = bnd (ask (getStreamChecked fd)) (\<lambda>x s. chmod_node (stream_node (stream_table s x)) m s)"

definition FS_fchown :: "nat \<Rightarrow> nat \<Rightarrow> nat \<Rightarrow> unit io" where
  "FS_fchown fd uid gid = bnd (ask (getStreamChecked fd)) (\<lambda>x s. chown_node (stream_node (stream_table s x)) s)"

section \<open>Opening and closing\<close>

definition node_stream_ops :: "fsnode \<Rightarrow> stream_ops" where
  "node_stream_ops d =
     (case node_ops d of DirOps \<Rightarrow> DirStream | FileOps \<Rightarrow> FileStream | ChrdevOps \<Rightarrow> ChrdevStream | _ \<Rightarrow> NoStream)"

text \<open>
  The \<open>open\<close> operation of a new stream: a character device installs the operations registered for its
  number, and calls their \<open>open\<close>.
\<close>

definition stream_open :: "nat \<Rightarrow> unit io" where
  "stream_open x s =
     (if stream_ops (stream_table s x) \<noteq> ChrdevStream then (Inr (), s)
      else
        let dev = rdev (nodes s (stream_node (stream_table s x))) in
        case devices s dev of
          None \<Rightarrow> (Inl TypeError, s)
        | Some ops \<Rightarrow>
            let s1 = upd_stream x (\<lambda>st. st\<lparr>stream_ops := DeviceStream dev ops\<rparr>) s in
            case ops of
              NullDevice \<Rightarrow> (Inr (), s1)
            | CallbackDevice _ _ \<Rightarrow> (Inr (), upd_stream x (\<lambda>st. st\<lparr>seekable := False\<rparr>) s1)
            | TtyDevice \<Rightarrow>
                if ttys s dev = None then (Inl (ErrnoError 43), s1)
                else (Inr (), upd_stream x (\<lambda>st. st\<lparr>stream_tty := Some dev, seekable := False\<rparr>) s1))"

text \<open>\<open>open\<close> once the node is known.\<close>

definition open_node :: "nid \<Rightarrow> i32 \<Rightarrow> bool \<Rightarrow> nat io" where
  "open_node n fl0 created s =
     (let fl = (if isChrdev (mode (nodes s n)) then fl0 AND NOT 512 else fl0) in
      if fl AND 65536 \<noteq> 0 \<and> \<not> isDir (mode (nodes s n)) then (Inl (ErrnoError 54), s)
      else case (if created then Inr 0 else mayOpen (Some n) fl s) of
        Inl e \<Rightarrow> (Inl e, s)
      | Inr errCode \<Rightarrow>
        if errCode \<noteq> 0 then (Inl (ErrnoError errCode), s)
        else case (if fl AND 512 \<noteq> 0 \<and> \<not> created then truncate_node n 0 s else (Inr (), s)) of
          (Inl e, s1) \<Rightarrow> (Inl e, s1)
        | (Inr _, s1) \<Rightarrow>
          let fl1 = fl AND NOT (128 OR 512 OR 131072) in
          case getPath n s1 of
            Inl e \<Rightarrow> (Inl e, s1)
          | Inr path \<Rightarrow>
            let h = nextStream s1;
                s2 = s1\<lparr>shared_table := (shared_table s1)(h := \<lparr>flags = fl1, position = 0\<rparr>)\<rparr>
            in case createStream \<lparr>stream_node = n, stream_path = path, stream_fd = None, seekable = True,
                      stream_ops = node_stream_ops (nodes s2 n), stream_tty = None, getdents = None, shared = h\<rparr> None s2 of
                 (Inl e, s3) \<Rightarrow> (Inl e, s3)
               | (Inr x, s3) \<Rightarrow>
                   (case stream_open x s3 of (Inl e, s4) \<Rightarrow> (Inl e, s4) | (Inr _, s4) \<Rightarrow> (Inr x, s4)))"

definition FS_open :: "string \<Rightarrow> i32 \<Rightarrow> i32 option \<Rightarrow> nat io" where
  "FS_open path0 fl mode0 s =
     (if path0 = [] then (Inl (ErrnoError 44), s)
      else
        let m = (case mode0 of Some x \<Rightarrow> x | None \<Rightarrow> 438);
            m1 = (if fl AND 64 \<noteq> 0 then (m AND 4095) OR 32768 else 0);
            path = normalize path0
        in case attempt (FS_lookupPath path (following (fl AND 131072 = 0)) s) of
             Inl e \<Rightarrow> (Inl e, s)
           | Inr found \<Rightarrow>
               (case (case found of Some (_, node) \<Rightarrow> node | None \<Rightarrow> None) of
                  Some n \<Rightarrow>
                    if fl AND 64 \<noteq> 0 \<and> fl AND 128 \<noteq> 0 then (Inl (ErrnoError 20), s)
                    else open_node n fl False s
                | None \<Rightarrow>
                    if fl AND 64 \<noteq> 0
                    then bnd (FS_mknod path m1 0) (\<lambda>n. open_node n fl True) s
                    else (Inl (ErrnoError 44), s)))"

definition FS_close :: "nat \<Rightarrow> unit io" where
  "FS_close x s =
     (case stream_fd (stream_table s x) of
        None \<Rightarrow> (Inl (ErrnoError 8), s)
      | Some fd \<Rightarrow>
          let s1 = upd_stream x (\<lambda>st. st\<lparr>getdents := None\<rparr>) s;
              s2 = (case (stream_ops (stream_table s x), stream_tty (stream_table s x)) of
                      (DeviceStream _ TtyDevice, Some t) \<Rightarrow> tty_fsync t s1
                    | _ \<Rightarrow> s1)
          in (Inr (), upd_stream x (\<lambda>st. st\<lparr>stream_fd := None\<rparr>) (closeStream fd s2)))"

fun close_all :: "nat option list \<Rightarrow> unit io" where
  "close_all [] = ret ()"
| "close_all (None # xs) = close_all xs"
| "close_all (Some x # xs) = thn (FS_close x) (close_all xs)"

text \<open>\<open>quit\<close> after \<open>_fflush\<close>, which is compiled code.\<close>

definition FS_quit :: "unit io" where
  "FS_quit s = close_all (streams s) s"

section \<open>Whole files\<close>

definition FS_readFile :: "string \<Rightarrow> i32 \<Rightarrow> u8 list io" where
  "FS_readFile path fl =
     bnd (FS_open path fl None) (\<lambda>x.
     bnd (ask (FS_stat path False)) (\<lambda>st.
     bnd (FS_read x (replicate (attr_size st) 0) 0 (int (attr_size st)) (Some 0)) (\<lambda>(_, buf).
     thn (FS_close x) (ret buf))))"

definition FS_readFile_utf8 :: "(u8 list \<Rightarrow> js_units) option \<Rightarrow> string \<Rightarrow> i32 \<Rightarrow> js_units io" where
  "FS_readFile_utf8 decoder path fl =
     bnd (FS_readFile path fl) (\<lambda>buf. ret (UTF8ArrayToString decoder buf 0 None))"

text \<open>\<open>writeFile\<close> of bytes, and of a string; 577 is \<open>O_TRUNC | O_CREAT | O_WRONLY\<close>.\<close>

definition write_flags :: "i32 option \<Rightarrow> i32" where
  "write_flags fl = (case fl of Some f \<Rightarrow> if f = 0 then 577 else f | None \<Rightarrow> 577)"

definition FS_writeFile :: "string \<Rightarrow> u8 list \<Rightarrow> i32 option \<Rightarrow> i32 option \<Rightarrow> bool \<Rightarrow> unit io" where
  "FS_writeFile path bytes fl m canOwn =
     bnd (FS_open path (write_flags fl) m) (\<lambda>x.
     thn (FS_write x bytes 0 (int (length bytes)) None canOwn True)
      (FS_close x))"

definition FS_writeFile_string :: "string \<Rightarrow> js_units \<Rightarrow> i32 option \<Rightarrow> i32 option \<Rightarrow> bool \<Rightarrow> unit io" where
  "FS_writeFile_string path text fl m canOwn =
     bnd (FS_open path (write_flags fl) m) (\<lambda>x.
     let len = lengthBytesUTF8 text + 1;
         (buf, n) = stringToUTF8Array text (replicate len 0) 0 len in
     thn (FS_write x buf 0 (int n) None canOwn True)
      (FS_close x))"

section \<open>The descriptor table\<close>

lemma free_slot_Inr:
  "free_slot xs k = Inr fd \<Longrightarrow> k \<le> fd \<and> fd \<le> MAX_OPEN_FDS \<and> (fd - k < length xs \<longrightarrow> xs ! (fd - k) = None)
     \<and> (\<forall>i. i + k < fd \<longrightarrow> i < length xs \<and> xs ! i \<noteq> None)"
proof (induction xs k rule: free_slot.induct)
  case (2 x xs k)
  show ?case
  proof (cases "x = None \<or> \<not> k \<le> MAX_OPEN_FDS")
    case True
    with 2(2) show ?thesis by (auto split: if_splits)
  next
    case False
    with 2 have IH: "k + 1 \<le> fd" "fd \<le> MAX_OPEN_FDS" "fd - (k + 1) < length xs \<longrightarrow> xs ! (fd - (k + 1)) = None"
      "\<And>i. i + (k + 1) < fd \<Longrightarrow> i < length xs \<and> xs ! i \<noteq> None" by auto
    have "i < length (x # xs) \<and> (x # xs) ! i \<noteq> None" if "i + k < fd" for i
      using IH(4) [of "i - 1"] that False by (cases i) auto
    moreover obtain d where "fd = k + 1 + d"
      using IH(1) le_Suc_ex by blast
    then have "fd - k < length (x # xs) \<longrightarrow> (x # xs) ! (fd - k) = None"
      using IH(3) by (auto simp: Suc_diff_le)
    ultimately show ?thesis using IH(1,2) by auto
  qed
qed (auto split: if_splits)

lemma free_slot_Inl:
  "free_slot xs k = Inl e \<Longrightarrow> e = ErrnoError 33 \<and> (\<forall>i. i + k \<le> MAX_OPEN_FDS \<longrightarrow> i < length xs \<and> xs ! i \<noteq> None)"
proof (induction xs k rule: free_slot.induct)
  case (2 x xs k)
  show ?case
  proof (cases "k \<le> MAX_OPEN_FDS")
    case True
    with 2 have IH: "e = ErrnoError 33" "\<And>i. i + (k + 1) \<le> MAX_OPEN_FDS \<Longrightarrow> i < length xs \<and> xs ! i \<noteq> None" "x \<noteq> None"
      by (auto split: if_splits)
    have "i < length (x # xs) \<and> (x # xs) ! i \<noteq> None" if "i + k \<le> MAX_OPEN_FDS" for i
      using IH(2) [of "i - 1"] IH(3) that by (cases i) auto
    with IH(1) show ?thesis by blast
  next
    case False
    with 2(2) show ?thesis by auto
  qed
qed (auto split: if_splits)

lemma nextfd_free: "nextfd s = Inr fd \<Longrightarrow> getStream fd s = None"
  using free_slot_Inr [of "streams s" 0 fd] by (auto simp: nextfd_def getStream_def)

lemma getStream_set_slot:
  "streams s' = set_slot fd x (streams s) \<Longrightarrow> getStream k s' = (if k = fd then x else getStream k s)"
  by (auto simp: getStream_def set_slot_def nth_append nth_list_update)

section \<open>What does not change a lookup\<close>

text \<open>Two states with the same names, types, permissions and mounts; the contents may differ.\<close>

definition same_names :: "fs \<Rightarrow> fs \<Rightarrow> bool" where
  "same_names s s' \<longleftrightarrow> root s' = root s \<and> nameTable s' = nameTable s \<and> nextInode s' = nextInode s
     \<and> mount_table s' = mount_table s \<and> currentPath s' = currentPath s
     \<and> ignorePermissions s' = ignorePermissions s \<and> stack s' = stack s \<and> clock s' = clock s
     \<and> (\<forall>n. parent (nodes s' n) = parent (nodes s n) \<and> node_name (nodes s' n) = node_name (nodes s n)
          \<and> name_next (nodes s' n) = name_next (nodes s n) \<and> mode (nodes s' n) = mode (nodes s n)
          \<and> node_ops (nodes s' n) = node_ops (nodes s n) \<and> mounted (nodes s' n) = mounted (nodes s n)
          \<and> mount_ref (nodes s' n) = mount_ref (nodes s n) \<and> link (nodes s' n) = link (nodes s n)
          \<and> rdev (nodes s' n) = rdev (nodes s n))"

lemma same_namesD:
  assumes "same_names s s'"
  shows "root s' = root s" "nameTable s' = nameTable s" "nextInode s' = nextInode s" "mount_table s' = mount_table s"
    "currentPath s' = currentPath s" "ignorePermissions s' = ignorePermissions s" "stack s' = stack s" "clock s' = clock s"
    "parent (nodes s' n) = parent (nodes s n)" "node_name (nodes s' n) = node_name (nodes s n)"
    "name_next (nodes s' n) = name_next (nodes s n)" "mode (nodes s' n) = mode (nodes s n)"
    "node_ops (nodes s' n) = node_ops (nodes s n)" "mounted (nodes s' n) = mounted (nodes s n)"
    "mount_ref (nodes s' n) = mount_ref (nodes s n)" "link (nodes s' n) = link (nodes s n)"
    "rdev (nodes s' n) = rdev (nodes s n)"
  using assms by (simp_all add: same_names_def)

lemma same_names_trans: "same_names s s' \<Longrightarrow> same_names s' s'' \<Longrightarrow> same_names s s''"
  by (simp add: same_names_def)

lemma same_names_refl [simp]: "same_names s s"
  by (simp add: same_names_def)

lemma find_chain_same:
  "same_names s s' \<Longrightarrow> find_chain fuel pid name p s' = find_chain fuel pid name p s"
  by (induction fuel pid name p s rule: find_chain.induct) (simp_all add: same_namesD)

lemma nodePermissions_same: "same_names s s' \<Longrightarrow> nodePermissions n perms s' = nodePermissions n perms s"
  by (simp add: nodePermissions_def same_namesD cong: if_cong option.case_cong)

lemma lookupNode_same: "same_names s s' \<Longrightarrow> lookupNode d name s' = lookupNode d name s"
  by (simp add: lookupNode_def mayLookup_def nodePermissions_same find_cached_def find_chain_same FS_lookup_def
      same_namesD cong: if_cong option.case_cong)

lemma getPath_loop_same: "same_names s s' \<Longrightarrow> getPath_loop fuel n path s' = getPath_loop fuel n path s"
  by (induction fuel arbitrary: n path) (simp_all add: same_namesD isRoot_def cong: if_cong option.case_cong)

lemma getPath_same: "same_names s s' \<Longrightarrow> getPath n s' = getPath n s"
  by (simp add: getPath_def getPath_loop_same same_namesD del: getPath_loop.simps)

lemma readlink_at_same: "same_names s s' \<Longrightarrow> readlink_at s' found = readlink_at s found"
  by (simp add: readlink_at_def getPath_same same_namesD cong: if_cong option.case_cong)

lemma follow_links_same: "same_names s s' \<Longrightarrow> follow_links rl ln s' k path n = follow_links rl ln s k path n"
  by (induction k arbitrary: path n) (simp_all add: same_namesD Let_def cong: if_cong)

lemma walk_parts_same: "same_names s s' \<Longrightarrow> walk_parts rl ln s' opts ps path n = walk_parts rl ln s opts ps path n"
proof (induction ps arbitrary: path n)
  case (Cons p ps)
  then have "walk_parts rl ln s' opts ps = walk_parts rl ln s opts ps" by blast
  with Cons.prems show ?case
    by (simp add: same_namesD Let_def lookupNode_same follow_links_same cong: if_cong option.case_cong)
qed simp

lemma lookupPath_same: "same_names s s' \<Longrightarrow> lookupPath frames s' path opts = lookupPath frames s path opts"
proof (induction frames arbitrary: path opts)
  case (Suc frames)
  have "readlink_at s' = readlink_at s" using readlink_at_same [OF Suc.prems] by blast
  with Suc show ?case by (simp add: same_namesD walk_parts_same Let_def)
qed simp

lemma FS_lookupPath_same: "same_names s s' \<Longrightarrow> FS_lookupPath path opts s' = FS_lookupPath path opts s"
  by (simp add: FS_lookupPath_def lookupPath_same same_namesD)

lemmas same_lookups = nodePermissions_same lookupNode_same getPath_same FS_lookupPath_same same_namesD

text \<open>Assignments that leave the names alone.\<close>

lemma same_names_upd_node:
  assumes "same_names s s'" and "same_meta (nodes s' n) d"
  shows "same_names s (upd_node n (\<lambda>_. d) s')"
  using assms by (auto simp: same_names_def same_meta_def)

lemma same_names_frame:
  "same_names s s' \<Longrightarrow> same_names s (s'\<lparr>streams := a, stream_table := b, nextStream := c\<rparr>)"
  "same_names s s' \<Longrightarrow> same_names s (s'\<lparr>streams := a\<rparr>)"
  "same_names s s' \<Longrightarrow> same_names s (s'\<lparr>shared_table := e\<rparr>)"
  "same_names s s' \<Longrightarrow> same_names s (upd_stream x f s')"
  "same_names s s' \<Longrightarrow> same_names s (upd_shared x g s')"
  "same_names s s' \<Longrightarrow> same_names s (closeStream fd s')"
  by (auto simp: same_names_def upd_stream_def upd_shared_def closeStream_def Let_def)

end
