(* ===== verification/Memory.thy ===== *)
theory Memory
  imports FsStreams Wire
begin

unbundle bit_operations_syntax

text \<open>
  The linear memory the compiled code and the JavaScript runtime share: \<open>HEAP8\<close> and the other typed
  views of \<open>wasmMemory.buffer\<close> are one list of bytes. A view of elements of \<open>k\<close> bytes is indexed with
  \<open>ptr >> log k\<close>, so an address is rounded down to a multiple of \<open>k\<close>; a store outside the memory is
  ignored, as typed arrays do. A load outside the memory is \<open>undefined\<close> in the code and reads the
  missing bytes as 0 here. Addresses are natural numbers: the memory is at most 2 GB, so a pointer is
  never negative.
\<close>

section \<open>The views\<close>

definition typed_store :: "nat \<Rightarrow> nat \<Rightarrow> u8 list \<Rightarrow> heap \<Rightarrow> heap" where
  "typed_store k ptr bs mem =
     (let a = k * (ptr div k) in if a + k \<le> length mem then take a mem @ bs @ drop (a + k) mem else mem)"

definition typed_load :: "nat \<Rightarrow> nat \<Rightarrow> heap \<Rightarrow> u8 list" where
  "typed_load k ptr mem = take k (drop (k * (ptr div k)) mem)"

definition HEAP8_set :: "nat \<Rightarrow> u8 \<Rightarrow> heap \<Rightarrow> heap" where "HEAP8_set ptr b mem = mem[ptr := b]"

definition HEAP8_get :: "nat \<Rightarrow> heap \<Rightarrow> u8" where
  "HEAP8_get ptr mem = (if ptr < length mem then mem ! ptr else 0)"

definition HEAP16_set :: "nat \<Rightarrow> u16 \<Rightarrow> heap \<Rightarrow> heap" where
  "HEAP16_set ptr v = typed_store 2 ptr (le_bytes 2 v)"

definition HEAP32_set :: "nat \<Rightarrow> i32 \<Rightarrow> heap \<Rightarrow> heap" where
  "HEAP32_set ptr v = typed_store 4 ptr (le_bytes 4 v)"

definition HEAP64_set :: "nat \<Rightarrow> i64 \<Rightarrow> heap \<Rightarrow> heap" where
  "HEAP64_set ptr v = typed_store 8 ptr (le_bytes 8 v)"

definition HEAP16_get :: "nat \<Rightarrow> heap \<Rightarrow> u16" where "HEAP16_get ptr mem = le_word (typed_load 2 ptr mem)"
definition HEAP32_get :: "nat \<Rightarrow> heap \<Rightarrow> i32" where "HEAP32_get ptr mem = le_word (typed_load 4 ptr mem)"
definition HEAP64_get :: "nat \<Rightarrow> heap \<Rightarrow> i64" where "HEAP64_get ptr mem = le_word (typed_load 8 ptr mem)"

text \<open>
  \<open>getValue\<close> and \<open>setValue\<close>: a value is given by 64 bits, an integer in two's complement and a float
  or double by its bit pattern. A type that is not known aborts.
\<close>

definition value_type :: "string \<Rightarrow> string" where
  "value_type ty = (if ty \<noteq> [] \<and> last ty = CHR ''*'' then ''*'' else ty)"

definition abort_error :: "string \<Rightarrow> fs_exn" where
  "abort_error what = Error (''Aborted('' @ what @ ''). Build with -sASSERTIONS for more info.'')"

definition getValue :: "nat \<Rightarrow> string \<Rightarrow> heap \<Rightarrow> i64 result" where
  "getValue ptr ty0 mem =
     (let ty = value_type ty0 in
      if ty = ''i1'' \<or> ty = ''i8'' then Inr (scast (HEAP8_get ptr mem))
      else if ty = ''i16'' then Inr (scast (HEAP16_get ptr mem))
      else if ty = ''i32'' then Inr (scast (HEAP32_get ptr mem))
      else if ty = ''i64'' then Inr (HEAP64_get ptr mem)
      else if ty = ''float'' then Inr (ucast (HEAP32_get ptr mem))
      else if ty = ''double'' then Inr (HEAP64_get ptr mem)
      else if ty = ''*'' then Inr (ucast (HEAP32_get ptr mem))
      else Inl (abort_error (''invalid type for getValue: '' @ ty)))"

definition setValue :: "nat \<Rightarrow> i64 \<Rightarrow> string \<Rightarrow> heap \<Rightarrow> heap result" where
  "setValue ptr v ty0 mem =
     (let ty = value_type ty0 in
      if ty = ''i1'' \<or> ty = ''i8'' then Inr (HEAP8_set ptr (ucast v) mem)
      else if ty = ''i16'' then Inr (HEAP16_set ptr (ucast v) mem)
      else if ty = ''i32'' \<or> ty = ''float'' \<or> ty = ''*'' then Inr (HEAP32_set ptr (ucast v) mem)
      else if ty = ''i64'' \<or> ty = ''double'' then Inr (HEAP64_set ptr v mem)
      else Inl (abort_error (''invalid type for setValue: '' @ ty)))"

section \<open>Blocks of memory\<close>

definition zeroMemory :: "nat \<Rightarrow> nat \<Rightarrow> heap \<Rightarrow> nat \<times> heap" where
  "zeroMemory address sz mem =
     (address, map (\<lambda>i. if address \<le> i \<and> i < address + sz then 0 else mem ! i) [0..<length mem])"

definition alignMemory :: "nat \<Rightarrow> nat \<Rightarrow> nat" where
  "alignMemory sz alignment = (sz + (alignment - 1)) div alignment * alignment"

text \<open>\<open>_emscripten_builtin_memalign\<close> is compiled code: it gives an address, 0 for none, and the memory.\<close>

type_synonym allocator = "nat \<Rightarrow> nat \<Rightarrow> heap \<Rightarrow> nat \<times> heap"

definition mmapAlloc :: "allocator \<Rightarrow> nat \<Rightarrow> heap \<Rightarrow> nat \<times> heap" where
  "mmapAlloc memalign size0 mem =
     (let sz = alignMemory size0 65536;
          (ptr, mem1) = memalign 65536 sz mem
      in if ptr = 0 then (0, mem1) else zeroMemory ptr sz mem1)"

definition stringToUTF8 :: "js_units \<Rightarrow> nat \<Rightarrow> nat \<Rightarrow> heap \<Rightarrow> heap \<times> nat" where
  "stringToUTF8 str outPtr maxBytesToWrite mem = stringToUTF8Array str mem outPtr maxBytesToWrite"

definition writeArrayToMemory :: "u8 list \<Rightarrow> nat \<Rightarrow> heap \<Rightarrow> heap result" where
  "writeArrayToMemory array buffer m = array_set buffer array m"

section \<open>Loads and stores\<close>

lemma length_typed_store [simp]: "length bs = k \<Longrightarrow> length (typed_store k ptr bs mem) = length mem"
  by (simp add: typed_store_def Let_def)

lemma length_HEAP_set [simp]:
  "length (HEAP8_set ptr b mem) = length mem" "length (HEAP16_set ptr v mem) = length mem"
  "length (HEAP32_set ptr w mem) = length mem" "length (HEAP64_set ptr x mem) = length mem"
  by (simp_all add: HEAP8_set_def HEAP16_set_def HEAP32_set_def HEAP64_set_def)

lemma typed_store_nth:
  assumes "length bs = k" and "i < length mem"
  shows "typed_store k ptr bs mem ! i =
    (if k * (ptr div k) + k \<le> length mem \<and> k * (ptr div k) \<le> i \<and> i < k * (ptr div k) + k
     then bs ! (i - k * (ptr div k)) else mem ! i)"
  using assms by (auto simp: typed_store_def Let_def nth_append)

lemma typed_load_store:
  "length bs = k \<Longrightarrow> k * (ptr div k) + k \<le> length mem \<Longrightarrow> typed_load k ptr (typed_store k ptr bs mem) = bs"
  by (simp add: typed_load_def typed_store_def Let_def)

lemma typed_load_other:
  assumes "length bs = k" and "a * (p div a) + a \<le> k * (ptr div k) \<or> k * (ptr div k) + k \<le> a * (p div a)"
  shows "typed_load a p (typed_store k ptr bs mem) = typed_load a p mem"
proof -
  let ?m = "typed_store k ptr bs mem"
  have "(take a (drop (a * (p div a)) ?m)) ! i = (take a (drop (a * (p div a)) mem)) ! i"
    if "i < min a (length mem - a * (p div a))" for i
    using that assms by (auto simp: typed_store_nth)
  then show ?thesis unfolding typed_load_def using assms(1) by (intro nth_equalityI) auto
qed

lemma HEAP_get_set:
  "ptr < length mem \<Longrightarrow> HEAP8_get ptr (HEAP8_set ptr b mem) = b"
  "2 * (ptr div 2) + 2 \<le> length mem \<Longrightarrow> HEAP16_get ptr (HEAP16_set ptr v mem) = v"
  "4 * (ptr div 4) + 4 \<le> length mem \<Longrightarrow> HEAP32_get ptr (HEAP32_set ptr w mem) = w"
  "8 * (ptr div 8) + 8 \<le> length mem \<Longrightarrow> HEAP64_get ptr (HEAP64_set ptr x mem) = x"
  by (simp_all add: HEAP8_get_def HEAP8_set_def HEAP16_get_def HEAP16_set_def HEAP32_get_def HEAP32_set_def
      HEAP64_get_def HEAP64_set_def typed_load_store le_word_le_bytes)

text \<open>How many bytes a value of a type takes, and what is left of its bits.\<close>

definition value_bytes :: "string \<Rightarrow> nat" where
  "value_bytes ty0 =
     (let ty = value_type ty0 in
      if ty = ''i1'' \<or> ty = ''i8'' then 1 else if ty = ''i16'' then 2
      else if ty = ''i32'' \<or> ty = ''float'' \<or> ty = ''*'' then 4
      else if ty = ''i64'' \<or> ty = ''double'' then 8 else 0)"

definition value_of_type :: "string \<Rightarrow> i64 \<Rightarrow> i64" where
  "value_of_type ty0 v =
     (let ty = value_type ty0 in
      if ty = ''i1'' \<or> ty = ''i8'' then signed_take_bit 7 v else if ty = ''i16'' then signed_take_bit 15 v
      else if ty = ''i32'' then signed_take_bit 31 v
      else if ty = ''float'' \<or> ty = ''*'' then take_bit 32 v else v)"

lemma scast_ucast_bits:
  "scast (ucast (v :: i64) :: u8) = signed_take_bit 7 v" "scast (ucast v :: u16) = signed_take_bit 15 v"
  "scast (ucast v :: i32) = signed_take_bit 31 v" "ucast (ucast v :: i32) = take_bit 32 v"
  by (rule bit_word_eqI; auto simp: bit_simps min_def)+

lemma getValue_setValue:
  assumes "0 < value_bytes ty" and "value_bytes ty * (ptr div value_bytes ty) + value_bytes ty \<le> length mem"
  shows "\<exists>mem'. setValue ptr v ty mem = Inr mem' \<and> length mem' = length mem
    \<and> getValue ptr ty mem' = Inr (value_of_type ty v)"
  using assms
  by (auto simp: value_bytes_def setValue_def getValue_def value_of_type_def HEAP_get_set scast_ucast_bits Let_def
      split: if_splits)

lemma HEAP_other:
  "4 * (p div 4) + 4 \<le> 4 * (q div 4) \<or> 4 * (q div 4) + 4 \<le> 4 * (p div 4) \<Longrightarrow> HEAP32_get p (HEAP32_set q v m) = HEAP32_get p m"
  "4 * (p div 4) + 4 \<le> 8 * (q div 8) \<or> 8 * (q div 8) + 8 \<le> 4 * (p div 4) \<Longrightarrow> HEAP32_get p (HEAP64_set q w m) = HEAP32_get p m"
  "8 * (p div 8) + 8 \<le> 4 * (q div 4) \<or> 4 * (q div 4) + 4 \<le> 8 * (p div 8) \<Longrightarrow> HEAP64_get p (HEAP32_set q v m) = HEAP64_get p m"
  "8 * (p div 8) + 8 \<le> 8 * (q div 8) \<or> 8 * (q div 8) + 8 \<le> 8 * (p div 8) \<Longrightarrow> HEAP64_get p (HEAP64_set q w m) = HEAP64_get p m"
  by (simp_all add: HEAP32_get_def HEAP64_get_def HEAP32_set_def HEAP64_set_def typed_load_other)

text \<open>Memory outside a block is as it was.\<close>

definition untouched :: "nat \<Rightarrow> nat \<Rightarrow> heap \<Rightarrow> heap \<Rightarrow> bool" where
  "untouched a b m m' \<longleftrightarrow> length m' = length m \<and> (\<forall>i < length m. i < a \<or> b \<le> i \<longrightarrow> m' ! i = m ! i)"

lemma untouched_trans: "untouched a b m m' \<Longrightarrow> untouched a b m' m'' \<Longrightarrow> untouched a b m m''"
  by (simp add: untouched_def)

lemma untouched_refl [simp]: "untouched a b m m" by (simp add: untouched_def)

lemma untouched_set:
  "a \<le> 4 * (p div 4) \<Longrightarrow> 4 * (p div 4) + 4 \<le> b \<Longrightarrow> untouched a b m (HEAP32_set p v m)"
  "a \<le> 8 * (p div 8) \<Longrightarrow> 8 * (p div 8) + 8 \<le> b \<Longrightarrow> untouched a b m (HEAP64_set p w m)"
  "a \<le> p \<Longrightarrow> p < b \<Longrightarrow> untouched a b m (HEAP8_set p x m)"
  by (auto simp: untouched_def HEAP32_set_def HEAP64_set_def HEAP8_set_def typed_store_nth nth_list_update)

end
