(* ===== verification/Syscalls.thy ===== *)
theory Syscalls
  imports Memory
begin

unbundle bit_operations_syntax

text \<open>
  The system calls of the compiled code (\<open>SYSCALLS\<close>, \<open>___syscall_*\<close>, \<open>_fd_*\<close>, \<open>__mmap_js\<close>): they
  take addresses into the linear memory, work on the file system, and turn an \<open>ErrnoError\<close> into an error
  number, negative for the \<open>___syscall\<close> functions and positive for the WASI ones. Any other exception
  goes through.

  Paths are read from memory as UTF-8; the file system model has 8-bit characters, so the model covers
  paths whose UTF-16 units are below 256. The compiled allocator is a parameter.
\<close>

record machine =
  mem :: heap
  files :: fs
  utf8_decoder :: "(u8 list \<Rightarrow> js_units) option"

type_synonym 'a call = "(machine, fs_exn, 'a) comp"

definition on_files :: "'a io \<Rightarrow> 'a call" where
  "on_files m st = (case m (files st) of (r, f) \<Rightarrow> (r, st\<lparr>files := f\<rparr>))"

definition on_mem :: "(heap \<Rightarrow> heap) \<Rightarrow> unit call" where
  "on_mem f = upd (\<lambda>st. st\<lparr>mem := f (mem st)\<rparr>)"

definition reading :: "(fs \<Rightarrow> 'a result) \<Rightarrow> 'a call" where
  "reading f = ask (\<lambda>st. f (files st))"

text \<open>The handlers at the end of every system call.\<close>

definition syscall :: "int call \<Rightarrow> int call" where
  "syscall m st = (case m st of (Inl (ErrnoError e), st1) \<Rightarrow> (Inr (- int e), st1) | r \<Rightarrow> r)"

definition wasi :: "int call \<Rightarrow> int call" where
  "wasi m st = (case m st of (Inl (ErrnoError e), st1) \<Rightarrow> (Inr (int e), st1) | r \<Rightarrow> r)"

section \<open>Arguments\<close>

definition of_units :: "js_units \<Rightarrow> string" where "of_units = map (\<lambda>u. char_of (unat u))"
definition to_units :: "string \<Rightarrow> js_units" where "to_units = map (\<lambda>c. of_nat (of_char c))"

definition getStr :: "nat \<Rightarrow> machine \<Rightarrow> string" where
  "getStr ptr st = of_units (UTF8ToString (utf8_decoder st) (mem st) ptr None)"

definition getStreamFromFD :: "int \<Rightarrow> fs \<Rightarrow> nat result" where
  "getStreamFromFD fd s = (if fd < 0 then Inl (ErrnoError 8) else getStreamChecked (nat fd) s)"

text \<open>\<open>SYSCALLS.get\<close> for the first variable argument.\<close>

definition get_arg :: "nat \<Rightarrow> machine \<Rightarrow> i32" where "get_arg varargs st = HEAP32_get varargs (mem st)"

definition calculateAt :: "int \<Rightarrow> string \<Rightarrow> bool \<Rightarrow> fs \<Rightarrow> string result" where
  "calculateAt dirfd path allowEmpty s =
     (if isAbs path then Inr path
      else rbind (if dirfd = -100 then Inr (currentPath s)
                  else rbind (getStreamFromFD dirfd s) (\<lambda>x. Inr (stream_path (stream_table s x)))) (\<lambda>dir.
        if length path = 0 then (if \<not> allowEmpty then Inl (ErrnoError 44) else Inr dir)
        else Inr (join2 dir path)))"

definition at_path :: "int \<Rightarrow> nat \<Rightarrow> bool \<Rightarrow> string call" where
  "at_path dirfd path allowEmpty = ask (\<lambda>st. calculateAt dirfd (getStr path st) allowEmpty (files st))"

definition MAX_INT53 :: int where "MAX_INT53 = 9007199254740992"

text \<open>\<open>bigintToI53Checked\<close>: \<open>None\<close> is \<open>NaN\<close>.\<close>

definition bigintToI53Checked :: "i64 \<Rightarrow> int option" where
  "bigintToI53Checked n = (if sint n < - MAX_INT53 \<or> sint n > MAX_INT53 then None else Some (sint n))"

section \<open>Status of files\<close>

definition stores :: "(heap \<Rightarrow> heap) list \<Rightarrow> heap \<Rightarrow> heap" where
  "stores ws m = fold (\<lambda>w. w) ws m"

definition write_stat :: "attr \<Rightarrow> nat \<Rightarrow> heap \<Rightarrow> heap" where
  "write_stat st buf = stores
     [HEAP32_set buf (of_nat (attr_dev st)), HEAP32_set (buf + 4) (attr_mode st),
      HEAP32_set (buf + 8) (of_nat (attr_nlink st)), HEAP32_set (buf + 12) (of_nat (attr_uid st)),
      HEAP32_set (buf + 16) (of_nat (attr_gid st)), HEAP32_set (buf + 20) (attr_rdev st),
      HEAP64_set (buf + 24) (of_nat (attr_size st)), HEAP32_set (buf + 32) 4096,
      HEAP32_set (buf + 36) (of_nat (attr_blocks st)),
      HEAP64_set (buf + 40) (of_nat (attr_atime st div 1000)),
      HEAP32_set (buf + 48) (of_nat (attr_atime st mod 1000 * 1000)),
      HEAP64_set (buf + 56) (of_nat (attr_mtime st div 1000)),
      HEAP32_set (buf + 64) (of_nat (attr_mtime st mod 1000 * 1000)),
      HEAP64_set (buf + 72) (of_nat (attr_ctime st div 1000)),
      HEAP32_set (buf + 80) (of_nat (attr_ctime st mod 1000 * 1000)),
      HEAP64_set (buf + 88) (of_nat (attr_ino st))]"

definition doStat :: "(string \<Rightarrow> fs \<Rightarrow> attr result) \<Rightarrow> string \<Rightarrow> nat \<Rightarrow> int call" where
  "doStat func path buf = bnd (reading (func path)) (\<lambda>st. thn (on_mem (write_stat st buf)) (ret 0))"

definition syscall_fstat64 :: "int \<Rightarrow> nat \<Rightarrow> int call" where
  "syscall_fstat64 fd buf = syscall
     (bnd (reading (getStreamFromFD fd)) (\<lambda>x.
      bnd (ask (\<lambda>st. Inr (stream_path (stream_table (files st) x)))) (\<lambda>path.
      doStat (\<lambda>p. FS_stat p False) path buf)))"

definition syscall_stat64 :: "nat \<Rightarrow> nat \<Rightarrow> int call" where
  "syscall_stat64 path buf = syscall (\<lambda>st. doStat (\<lambda>p. FS_stat p False) (getStr path st) buf st)"

definition syscall_lstat64 :: "nat \<Rightarrow> nat \<Rightarrow> int call" where
  "syscall_lstat64 path buf = syscall (\<lambda>st. doStat FS_lstat (getStr path st) buf st)"

definition syscall_newfstatat :: "int \<Rightarrow> nat \<Rightarrow> nat \<Rightarrow> i32 \<Rightarrow> int call" where
  "syscall_newfstatat dirfd path buf fl = syscall
     (bnd (at_path dirfd path (fl AND 4096 \<noteq> 0)) (\<lambda>p.
      doStat (if fl AND 256 \<noteq> 0 then FS_lstat else (\<lambda>p. FS_stat p False)) p buf))"

definition syscall_statfs64 :: "nat \<Rightarrow> nat \<Rightarrow> nat \<Rightarrow> int call" where
  "syscall_statfs64 path sz buf st =
     (Inr 0, st\<lparr>mem := stores
       [HEAP32_set (buf + 4) 4096, HEAP32_set (buf + 40) 4096, HEAP32_set (buf + 8) 1000000,
        HEAP32_set (buf + 12) 500000, HEAP32_set (buf + 16) 500000,
        HEAP32_set (buf + 20) (of_nat (nextInode (files st))), HEAP32_set (buf + 24) 1000000,
        HEAP32_set (buf + 28) 42, HEAP32_set (buf + 44) 2, HEAP32_set (buf + 36) 255] (mem st)\<rparr>)"

definition syscall_fstatfs64 :: "int \<Rightarrow> nat \<Rightarrow> nat \<Rightarrow> int call" where
  "syscall_fstatfs64 fd sz buf = syscall
     (bnd (reading (getStreamFromFD fd)) (\<lambda>_. syscall_statfs64 0 sz buf))"

definition syscall_faccessat :: "int \<Rightarrow> nat \<Rightarrow> i32 \<Rightarrow> i32 \<Rightarrow> int call" where
  "syscall_faccessat dirfd path amode fl = syscall
     (bnd (at_path dirfd path False) (\<lambda>p.
      if amode AND NOT 7 \<noteq> 0 then ret (- 28)
      else bnd (reading (FS_lookupPath p (following True))) (\<lambda>(_, node).
        case node of
          None \<Rightarrow> ret (- 44)
        | Some n \<Rightarrow>
            let perms = (if amode AND 4 \<noteq> 0 then ''r'' else []) @ (if amode AND 2 \<noteq> 0 then ''w'' else [])
                          @ (if amode AND 1 \<noteq> 0 then ''x'' else [])
            in if perms = [] then ret 0
               else bnd (reading (nodePermissions n (Some perms))) (\<lambda>e. ret (if e \<noteq> 0 then - 2 else 0)))))"

section \<open>Descriptors\<close>

definition syscall_fadvise64 :: "int \<Rightarrow> i64 \<Rightarrow> i64 \<Rightarrow> int \<Rightarrow> int call" where
  "syscall_fadvise64 fd offset len advice = ret 0"

text \<open>The loop of \<open>F_DUPFD\<close> over the slots from \<open>arg\<close> on.\<close>

fun free_from :: "nat option list \<Rightarrow> nat \<Rightarrow> nat" where
  "free_from [] arg = arg"
| "free_from (x # xs) arg = (if x = None then arg else free_from xs (arg + 1))"

definition syscall_fcntl64 :: "int \<Rightarrow> int \<Rightarrow> nat \<Rightarrow> int call" where
  "syscall_fcntl64 fd cmd varargs = syscall
     (bnd (reading (getStreamFromFD fd)) (\<lambda>x st.
      let arg = get_arg varargs st; s = files st in
      if cmd = 0 then
        if sint arg < 0 then (Inr (- 28), st)
        else let a = nat (sint arg); new = free_from (drop a (streams s)) a in
          bnd (on_files (dupStream x (Some new))) (\<lambda>y. ret (int new)) st
      else if cmd = 1 \<or> cmd = 2 then (Inr 0, st)
      else if cmd = 3 then (Inr (sint (stream_flags x s)), st)
      else if cmd = 4 then (Inr 0, st\<lparr>files := upd_shared x (\<lambda>h. h\<lparr>flags := flags h OR arg\<rparr>) s\<rparr>)
      else if cmd = 12 then (Inr 0, st\<lparr>mem := HEAP16_set (unat arg) 2 (mem st)\<rparr>)
      else if cmd = 13 \<or> cmd = 14 then (Inr 0, st)
      else (Inr (- 28), st)))"

definition syscall_ftruncate64 :: "int \<Rightarrow> i64 \<Rightarrow> int call" where
  "syscall_ftruncate64 fd len = syscall
     (case bigintToI53Checked len of
        None \<Rightarrow> ret 61
      | Some n \<Rightarrow>
          bnd (reading (getStreamFromFD fd)) (\<lambda>_.
          bnd (on_files (FS_ftruncate (nat fd) n)) (\<lambda>_. ret 0)))"

definition syscall_getcwd :: "nat \<Rightarrow> nat \<Rightarrow> int call" where
  "syscall_getcwd buf sz st =
     (if sz = 0 then (Inr (- 28), st)
      else let cwd = to_units (currentPath (files st)); cwdLengthInBytes = lengthBytesUTF8 cwd + 1 in
        if sz < cwdLengthInBytes then (Inr (- 68), st)
        else (Inr (int cwdLengthInBytes), st\<lparr>mem := fst (stringToUTF8 cwd buf sz (mem st))\<rparr>))"

text \<open>The mode of \<open>openat\<close> is a variable argument; without any it is 0.\<close>

definition syscall_openat :: "int \<Rightarrow> nat \<Rightarrow> i32 \<Rightarrow> nat \<Rightarrow> int call" where
  "syscall_openat dirfd path fl varargs = syscall
     (bnd (at_path dirfd path False) (\<lambda>p st.
      let m = (if varargs \<noteq> 0 then get_arg varargs st else 0) in
      bnd (on_files (FS_open p fl (Some m))) (\<lambda>x st1.
      (Inr (case stream_fd (stream_table (files st1) x) of Some fd \<Rightarrow> int fd | None \<Rightarrow> 0), st1)) st))"

definition syscall_unlinkat :: "int \<Rightarrow> nat \<Rightarrow> int \<Rightarrow> int call" where
  "syscall_unlinkat dirfd path fl = syscall
     (bnd (at_path dirfd path False) (\<lambda>p.
      if fl = 0 then bnd (on_files (FS_unlink p)) (\<lambda>_. ret 0)
      else if fl = 512 then bnd (on_files (FS_rmdir p)) (\<lambda>_. ret 0)
      else throw (abort_error ''Invalid flags passed to unlinkat'')))"

text \<open>The byte that the terminating 0 overwrites is put back.\<close>

definition syscall_readlinkat :: "int \<Rightarrow> nat \<Rightarrow> nat \<Rightarrow> int \<Rightarrow> int call" where
  "syscall_readlinkat dirfd path buf bufsize = syscall
     (bnd (at_path dirfd path False) (\<lambda>p.
      if bufsize \<le> 0 then ret (- 28)
      else bnd (reading (FS_readlink p)) (\<lambda>target.
        let str = to_units target; len = min (nat bufsize) (lengthBytesUTF8 str) in
        (\<lambda>st. let endChar = HEAP8_get (buf + len) (mem st);
                  m = fst (stringToUTF8 str buf (nat bufsize + 1) (mem st))
              in (Inr (int len), st\<lparr>mem := HEAP8_set (buf + len) endChar m\<rparr>)))))"

section \<open>Directories\<close>

definition dirent_type :: "i32 \<Rightarrow> u8" where
  "dirent_type m = (if isChrdev m then 2 else if isDir m then 4 else if isLink m then 10 else 8)"

definition dirent_of :: "nat \<Rightarrow> string \<Rightarrow> fs \<Rightarrow> (nid \<times> u8) result" where
  "dirent_of x name s =
     (let st = stream_table s x in
      if name = ''.'' then Inr (stream_node st, 4)
      else if name = ''..'' then
        rbind (FS_lookupPath (stream_path st) of_parent s) (\<lambda>(_, node). rbind (deref node) (\<lambda>n. Inr (n, 4)))
      else rbind (lookupNode (stream_node st) name s) (\<lambda>child. Inr (child, dirent_type (mode (nodes s child)))))"

definition write_dirent :: "nat \<Rightarrow> nid \<Rightarrow> u8 \<Rightarrow> string \<Rightarrow> nat \<Rightarrow> heap \<Rightarrow> heap" where
  "write_dirent at ino ty name idx = stores
     [HEAP64_set at (of_nat ino), HEAP64_set (at + 8) (of_nat ((idx + 1) * 280)), HEAP16_set (at + 16) 280,
      HEAP8_set (at + 18) ty, \<lambda>m. fst (stringToUTF8 (to_units name) (at + 19) 256 m)]"

text \<open>The loop, over the names from \<open>idx\<close> on; the result is the final \<open>idx\<close> and \<open>pos\<close>.\<close>

fun write_dirents :: "nat \<Rightarrow> nat \<Rightarrow> int \<Rightarrow> string list \<Rightarrow> nat \<Rightarrow> nat \<Rightarrow> (nat \<times> nat) call" where
  "write_dirents x dirp count [] idx pos = ret (idx, pos)"
| "write_dirents x dirp count (name # names) idx pos =
     (if int (pos + 280) \<le> count
      then bnd (reading (dirent_of x name)) (\<lambda>(ino, ty).
           thn (on_mem (write_dirent (dirp + pos) ino ty name idx))
            (write_dirents x dirp count names (idx + 1) (pos + 280)))
      else ret (idx, pos))"

definition read_names :: "nat \<Rightarrow> string list call" where
  "read_names x st =
     (let s = files st in
      case getdents (stream_table s x) of
        Some names \<Rightarrow> (Inr names, st)
      | None \<Rightarrow>
          (case FS_readdir (stream_path (stream_table s x)) s of
             Inl e \<Rightarrow> (Inl e, st)
           | Inr names \<Rightarrow> (Inr names, st\<lparr>files := upd_stream x (\<lambda>d. d\<lparr>getdents := Some names\<rparr>) s\<rparr>)))"

definition syscall_getdents64 :: "int \<Rightarrow> nat \<Rightarrow> int \<Rightarrow> int call" where
  "syscall_getdents64 fd dirp count = syscall
     (bnd (reading (getStreamFromFD fd)) (\<lambda>x.
      bnd (read_names x) (\<lambda>names.
      bnd (on_files (FS_llseek x 0 1)) (\<lambda>off.
      let first = nat off div 280 in
      bnd (write_dirents x dirp count (drop first names) first 0) (\<lambda>(idx, pos).
      bnd (on_files (FS_llseek x (int (idx * 280)) 0)) (\<lambda>_. ret (int pos)))))))"

section \<open>Terminals\<close>

definition c_cc :: "u8 list" where
  "c_cc = [0x03, 0x1c, 0x7f, 0x15, 0x04, 0x00, 0x01, 0x00, 0x11, 0x13, 0x1a, 0x00, 0x12, 0x0f, 0x17, 0x16,
           0, 0, 0, 0, 0, 0, 0, 0, 0, 0, 0, 0, 0, 0, 0, 0]"

definition write_termios :: "nat \<Rightarrow> heap \<Rightarrow> heap" where
  "write_termios argp = stores
     ([HEAP32_set argp 25856, HEAP32_set (argp + 4) 5, HEAP32_set (argp + 8) 191, HEAP32_set (argp + 12) 35387]
      @ map (\<lambda>i. HEAP8_set (argp + i + 17) (c_cc ! i)) [0..<32])"

text \<open>
  Only \<open>default_tty_ops\<close> has \<open>ioctl_tcgets\<close>, \<open>ioctl_tcsets\<close> and \<open>ioctl_tiocgwinsz\<close>; \<open>ioctl_tcsets\<close> ignores
  what it reads and returns 0.
\<close>

definition syscall_ioctl :: "int \<Rightarrow> int \<Rightarrow> nat \<Rightarrow> int call" where
  "syscall_ioctl fd op varargs = syscall
     (bnd (reading (getStreamFromFD fd)) (\<lambda>x st.
      let s = files st; argp = unat (get_arg varargs st);
          kind = (case stream_tty (stream_table s x) of None \<Rightarrow> None | Some t \<Rightarrow> map_option tty_kind (ttys s t));
          tty_only = (\<lambda>r. if kind = None then (Inr (- 59), st) else r)
      in
      if op = 21509 \<or> op = 21510 \<or> op = 21511 \<or> op = 21512 \<or> op = 21506 \<or> op = 21507 \<or> op = 21508
         \<or> op = 21524 \<or> op = 21515 then tty_only (Inr 0, st)
      else if op = 21505 then
        tty_only (Inr 0, if kind = Some DefaultTty then st\<lparr>mem := write_termios argp (mem st)\<rparr> else st)
      else if op = 21519 then tty_only (Inr 0, st\<lparr>mem := HEAP32_set argp 0 (mem st)\<rparr>)
      else if op = 21520 then tty_only (Inr (- 28), st)
      else if op = 21531 then bnd (on_files (FS_ioctl x (of_int op) (of_nat argp))) (\<lambda>_. ret 0) st
      else if op = 21523 then
        tty_only (Inr 0, if kind = Some DefaultTty
                         then st\<lparr>mem := stores [HEAP16_set argp 24, HEAP16_set (argp + 2) 80] (mem st)\<rparr> else st)
      else (Inr (- 28), st)))"

section \<open>Reading and writing through memory\<close>

definition wasi_fd_close :: "int \<Rightarrow> int call" where
  "wasi_fd_close fd = wasi
     (bnd (reading (getStreamFromFD fd)) (\<lambda>x. bnd (on_files (FS_close x)) (\<lambda>_. ret 0)))"

text \<open>\<open>FS.read\<close> with the memory as its buffer.\<close>

definition read_memory :: "nat \<Rightarrow> nat \<Rightarrow> nat \<Rightarrow> int option \<Rightarrow> nat call" where
  "read_memory x ptr len pos st =
     (case FS_read x (mem st) ptr (int len) pos (files st) of
        (Inl e, s) \<Rightarrow> (Inl e, st\<lparr>files := s\<rparr>)
      | (Inr (n, m), s) \<Rightarrow> (Inr n, st\<lparr>files := s, mem := m\<rparr>))"

fun doReadv :: "nat \<Rightarrow> nat \<Rightarrow> nat \<Rightarrow> int option \<Rightarrow> nat \<Rightarrow> nat call" where
  "doReadv x iov 0 offset done_bytes st = (Inr done_bytes, st)"
| "doReadv x iov (Suc iovcnt) offset done_bytes st =
     (let ptr = unat (HEAP32_get iov (mem st)); len = unat (HEAP32_get (iov + 4) (mem st)) in
      bnd (read_memory x ptr len offset) (\<lambda>curr.
        if curr < len then ret (done_bytes + curr)
        else doReadv x (iov + 8) iovcnt (map_option (\<lambda>p. p + int curr) offset) (done_bytes + curr)) st)"

definition wasi_fd_read :: "int \<Rightarrow> nat \<Rightarrow> nat \<Rightarrow> nat \<Rightarrow> int call" where
  "wasi_fd_read fd iov iovcnt pnum = wasi
     (bnd (reading (getStreamFromFD fd)) (\<lambda>x.
      bnd (doReadv x iov iovcnt None 0) (\<lambda>num.
      thn (on_mem (HEAP32_set pnum (of_nat num))) (ret 0))))"

definition wasi_fd_pread :: "int \<Rightarrow> nat \<Rightarrow> nat \<Rightarrow> i64 \<Rightarrow> nat \<Rightarrow> int call" where
  "wasi_fd_pread fd iov iovcnt offset pnum = wasi
     (case bigintToI53Checked offset of
        None \<Rightarrow> ret 61
      | Some p \<Rightarrow>
          bnd (reading (getStreamFromFD fd)) (\<lambda>x.
          bnd (doReadv x iov iovcnt (Some p) 0) (\<lambda>num.
          thn (on_mem (HEAP32_set pnum (of_nat num))) (ret 0))))"

definition wasi_fd_seek :: "int \<Rightarrow> i64 \<Rightarrow> int \<Rightarrow> nat \<Rightarrow> int call" where
  "wasi_fd_seek fd offset whence newOffset = wasi
     (case bigintToI53Checked offset of
        None \<Rightarrow> ret 61
      | Some p \<Rightarrow>
          bnd (reading (getStreamFromFD fd)) (\<lambda>x.
          bnd (on_files (FS_llseek x p whence)) (\<lambda>_.
          thn (\<lambda>st. on_mem (HEAP64_set newOffset (of_int (stream_position x (files st)))) st)
          (thn (upd (\<lambda>st. if p = 0 \<and> whence = 0
                           then st\<lparr>files := upd_stream x (\<lambda>d. d\<lparr>getdents := None\<rparr>) (files st)\<rparr> else st))
           (ret 0)))))"

fun doWritev :: "nat \<Rightarrow> nat \<Rightarrow> nat \<Rightarrow> int option \<Rightarrow> nat \<Rightarrow> nat call" where
  "doWritev x iov 0 offset done_bytes st = (Inr done_bytes, st)"
| "doWritev x iov (Suc iovcnt) offset done_bytes st =
     (let ptr = unat (HEAP32_get iov (mem st)); len = unat (HEAP32_get (iov + 4) (mem st)) in
      bnd (on_files (FS_write x (mem st) ptr (int len) offset False True)) (\<lambda>curr.
        doWritev x (iov + 8) iovcnt (map_option (\<lambda>p. p + int curr) offset) (done_bytes + curr)) st)"

definition wasi_fd_write :: "int \<Rightarrow> nat \<Rightarrow> nat \<Rightarrow> nat \<Rightarrow> int call" where
  "wasi_fd_write fd iov iovcnt pnum = wasi
     (bnd (reading (getStreamFromFD fd)) (\<lambda>x.
      bnd (doWritev x iov iovcnt None 0) (\<lambda>num.
      thn (on_mem (HEAP32_set pnum (of_nat num))) (ret 0))))"

section \<open>Mapped files\<close>

text \<open>\<open>subarray\<close> with the treatment of negative bounds.\<close>

definition js_subarray :: "int \<Rightarrow> int \<Rightarrow> u8 list \<Rightarrow> u8 list" where
  "js_subarray first past bs =
     (let rel = (\<lambda>i. if i < 0 then nat (max (int (length bs) + i) 0) else min (nat i) (length bs))
      in drop (rel first) (take (rel past) bs))"

definition MEMFS_mmap :: "allocator \<Rightarrow> nat \<Rightarrow> nat \<Rightarrow> int \<Rightarrow> (nat \<times> bool) call" where
  "MEMFS_mmap memalign x len pos st =
     (let d = nodes (files st) (stream_node (stream_table (files st) x)) in
      if \<not> isFile (mode d) then (Inl (ErrnoError 43), st)
      else case contents d of
        Bytes bs \<Rightarrow>
          let chunk = (if pos > 0 \<or> pos + int len < int (length bs) then js_subarray pos (pos + int len) bs else bs);
              (ptr, m) = mmapAlloc memalign len (mem st);
              st1 = st\<lparr>mem := m\<rparr>
          in if ptr = 0 then (Inl (ErrnoError 48), st1)
             else (case array_set ptr chunk m of
                     Inl e \<Rightarrow> (Inl e, st1)
                   | Inr m1 \<Rightarrow> (Inr (ptr, True), st1\<lparr>mem := m1\<rparr>))
      | _ \<Rightarrow> (Inl TypeError, st))"

definition FS_mmap :: "allocator \<Rightarrow> nat \<Rightarrow> nat \<Rightarrow> int \<Rightarrow> i32 \<Rightarrow> i32 \<Rightarrow> (nat \<times> bool) call" where
  "FS_mmap memalign x len pos prot fl st =
     (let acc = stream_flags x (files st) AND 2097155 in
      if prot AND 2 \<noteq> 0 \<and> fl AND 2 = 0 \<and> acc \<noteq> 2 then (Inl (ErrnoError 2), st)
      else if acc = 1 then (Inl (ErrnoError 2), st)
      else if stream_ops (stream_table (files st) x) \<noteq> FileStream then (Inl (ErrnoError 43), st)
      else MEMFS_mmap memalign x len pos st)"

definition mmap_js :: "allocator \<Rightarrow> nat \<Rightarrow> i32 \<Rightarrow> i32 \<Rightarrow> int \<Rightarrow> i64 \<Rightarrow> nat \<Rightarrow> nat \<Rightarrow> int call" where
  "mmap_js memalign len prot fl fd offset allocated addr = syscall
     (case bigintToI53Checked offset of
        None \<Rightarrow> ret 61
      | Some p \<Rightarrow>
          bnd (reading (getStreamFromFD fd)) (\<lambda>x.
          bnd (FS_mmap memalign x len p prot fl) (\<lambda>(ptr, own).
          thn (on_mem (HEAP32_set allocated (if own then 1 else 0)))
          (thn (on_mem (HEAP32_set addr (of_nat ptr))) (ret 0)))))"

definition doMsync :: "nat \<Rightarrow> nat \<Rightarrow> nat \<Rightarrow> i32 \<Rightarrow> nat \<Rightarrow> unit call" where
  "doMsync addr x len fl offset st =
     (if \<not> isFile (mode (nodes (files st) (stream_node (stream_table (files st) x)))) then (Inl (ErrnoError 43), st)
      else if fl AND 2 \<noteq> 0 then (Inr (), st)
      else bnd (on_files (FS_msync x (subarray addr (addr + len) (mem st)) offset len)) (\<lambda>_. ret ()) st)"

text \<open>The offset of \<open>__munmap_js\<close> is the one of the mapping, which was checked then.\<close>

definition munmap_js :: "nat \<Rightarrow> nat \<Rightarrow> i32 \<Rightarrow> i32 \<Rightarrow> int \<Rightarrow> nat \<Rightarrow> int call" where
  "munmap_js addr len prot fl fd offset = syscall
     (bnd (reading (getStreamFromFD fd)) (\<lambda>x.
      if prot AND 2 \<noteq> 0 then bnd (doMsync addr x len fl offset) (\<lambda>_. ret 0) else ret 0))"

end
