(* ===== verification/FsProps.thy ===== *)
theory FsProps
  imports FsAttr
begin

text \<open>
  The properties of the tree operations of \<open>FS\<close>, with runs of the model on a small file system: the
  state after mounting \<open>MEMFS\<close> at the root and creating a few nodes. The runs are evaluated by rewriting
  with the definitions (\<open>fs_eval\<close>) and hold for every depth of the call stack.
\<close>

section \<open>Example states\<close>

definition fs_a :: "nat \<Rightarrow> fs" where "fs_a frames = snd (FS_create ''/a'' None (mounted_fs frames))"
definition fs_ab :: "nat \<Rightarrow> fs" where "fs_ab frames = snd (FS_create ''/b'' None (fs_a frames))"
definition fs_d :: "nat \<Rightarrow> fs" where "fs_d frames = snd (FS_mkdir ''/d'' None (mounted_fs frames))"

lemmas fs_eval = FS_mount_def mount_at_def Let_def MEMFS_createNode_def FS_createNode_def new_node_def
   isBlkdev_def isFIFO_def isFile_def isLink_def isChrdev_def hashAddNode_def node_hash_def hashName_def typed_node_def isDir_def upd_node_def
   FS_create_def FS_mknod_def FS_mkdir_def FS_lookupPath_def resolve_def isAbs_def parts_of_def normalizeArray_def of_parent_def no_opts_def
   following_def basename_def normalize_def join2_def dirname_def splitPath_def mayCreate_def lookupNode_def mayLookup_def nodePermissions_def
   find_cached_def FS_lookup_def set_entry_def delete_entry_def attempt_def FS_unlink_def MEMFS_unlink_def mayDelete_def isMountpoint_def
   destroyNode_def hashRemoveNode_def FS_rename_def rename_checked_def rename_move_def MEMFS_rename_def MEMFS_rewire_def relative_def trim_def
   starts_with_dot_def FS_rmdir_def MEMFS_rmdir_def has_entries_def isRoot_def getPath_def FS_readdir_def MEMFS_readdir_def js_keys_def
   is_array_index_def is_digit_def trans_def deref_def bnd_def
lemma follow_links_numeral:
  "\<not> isLink (mode (nodes s n)) \<Longrightarrow> follow_links rl ln s (numeral v) path (Some n) = Inr (path, Some n)"
  by (simp add: numeral_eq_Suc)

lemma find_chain_numeral:
  "find_chain (numeral v) pid name None s = Inr None"
  "find_chain (numeral v) pid name (Some n) s =
     (if parent (nodes s n) = pid \<and> node_name (nodes s n) = name then Inr (Some n)
      else find_chain (pred_numeral v) pid name (name_next (nodes s n)) s)"
  by (simp_all add: numeral_eq_Suc)
lemmas example_states = mounted_fs_def initial_fs_def fs_a_def fs_ab_def fs_d_def

lemma mounted_fs_wf: "fs_wf (mounted_fs frames)"
proof -
  let ?B = "\<lambda>h. if h = 48 then [Suc 0] else []"
  have "table_rep (mounted_fs frames) ?B"
    by (auto simp: table_rep_def next_of_def mounted_fs_def initial_fs_def fs_eval)
  moreover have u: "unique_keys (mounted_fs frames) ?B" by (simp add: unique_keys_def)
  ultimately have t: "table_ok (mounted_fs frames)"
    "cached (mounted_fs frames) (d, name) = Some n \<Longrightarrow> n = 1 \<and> (d, name) = (1, [slash])" for d name n
    using cached_Some [of "mounted_fs frames" ?B "(d, name)" n]
    by (auto simp: table_ok_def node_key_def split: if_splits)
      (simp_all add: mounted_fs_def initial_fs_def fs_eval)
  have e: "entry (mounted_fs frames) d name = None" for d name
    by (simp add: entry_def mounted_fs_def initial_fs_def fs_eval no_node_def)
  have "cached (mounted_fs frames) (d, name) = None" if "plain name" for d name
    using t(2) [of d name] that by (cases "cached (mounted_fs frames) (d, name)") (auto simp: plain_def)
  then have "coherent (mounted_fs frames)" using t(1) e by (simp add: coherent_def)
  moreover have "refs_ok (mounted_fs frames)"
  proof (rule refs_okI)
    show "entry (mounted_fs frames) d name = Some n \<Longrightarrow> d < nextInode (mounted_fs frames) \<Longrightarrow>
        n < nextInode (mounted_fs frames)" for d name n
      by (simp add: e)
  qed (simp_all add: mounted_fs_def initial_fs_def fs_eval no_node_def split: if_splits)
  moreover have "dirs_ok (mounted_fs frames)"
    by (auto simp: dirs_ok_def mounted_fs_def initial_fs_def fs_eval no_node_def)
  moreover have "tree_ok (mounted_fs frames)"
    by (auto simp: tree_ok_def parent_of_def mounted_fs_def initial_fs_def fs_eval no_node_def less_Suc_eq
      intro!: rooted.top)
  ultimately show ?thesis by (simp add: fs_wf_def)
qed

lemma runs:
  "fst (FS_create ''/a'' None (mounted_fs frames)) = Inr 2"
  "fst (FS_create ''/b'' None (fs_a frames)) = Inr 3"
  "fst (FS_mkdir ''/d'' None (mounted_fs frames)) = Inr 2"
  "fst (FS_unlink ''/a'' (fs_a frames)) = Inr ()"
  "fst (FS_rmdir ''/d'' (fs_d frames)) = Inr ()"
  "fst (FS_rename ''/a'' ''/c'' (fs_a frames)) = Inr ()"
  by (simp add: example_states fs_eval find_chain_numeral follow_links_numeral)+

lemma mknod_wf: "fs_wf s \<Longrightarrow> FS_mknod path m dev s = (Inr n, s') \<Longrightarrow> basename path \<noteq> ''__proto__'' \<Longrightarrow> fs_wf s'"
  by (metis FS_mknod_Inr FS_lookupPath_bound mayCreate_0(1) createNode_wf)

lemma example_names: "basename ''/a'' = ''a''" "basename ''/b'' = ''b''" "basename ''/c'' = ''c''" "basename ''/d'' = ''d''"
  by (simp_all add: fs_eval)

lemma example_wf: "fs_wf (fs_a frames)" "fs_wf (fs_ab frames)" "fs_wf (fs_d frames)"
proof -
  show a: "fs_wf (fs_a frames)"
    by (rule mknod_wf [OF mounted_fs_wf, where path = "''/a''"])
      (use runs(1) [of frames] in \<open>simp_all add: example_names fs_a_def FS_create_def prod_eq_iff\<close>)
  show "fs_wf (fs_ab frames)"
    by (rule mknod_wf [OF a, where path = "''/b''"])
      (use runs(2) [of frames] in \<open>simp_all add: example_names fs_ab_def FS_create_def prod_eq_iff\<close>)
  show "fs_wf (fs_d frames)"
    by (rule mknod_wf [OF mounted_fs_wf, where path = "''/d''"])
      (use runs(3) [of frames] in \<open>simp_all add: example_names fs_d_def FS_mkdir_def prod_eq_iff\<close>)
qed

section \<open>Properties\<close>

text \<open>
  C17: The hash table of chained nodes is a map from parent and name to a node. Looking up never fails and
  gives the map's entry; removing a node succeeds and deletes exactly its entry, or nothing if it is not
  cached; adding a node under a free key adds exactly its entry; all of them keep the table well formed.
\<close>

theorem name_table_is_a_map:
  assumes "table_ok s"
  shows "find_cached d name s = Inr (cached s (d, name))
    \<and> (\<exists>s'. hashRemoveNode n s = Inr s' \<and> table_ok s'
         \<and> (\<forall>k. cached s' k = (if k = node_key s n \<and> cached s k = Some n then None else cached s k)))
    \<and> (node_exists s m \<and> cached s (node_key s m) = None \<longrightarrow>
         table_ok (hashAddNode m s) \<and> cached (hashAddNode m s) = (cached s)(node_key s m \<mapsto> m))"
proof (intro conjI)
  show "find_cached d name s = Inr (cached s (d, name))" by (rule find_cached_total [OF assms])
  show "\<exists>s'. hashRemoveNode n s = Inr s' \<and> table_ok s'
       \<and> (\<forall>k. cached s' k = (if k = node_key s n \<and> cached s k = Some n then None else cached s k))"
    using removed_fields(1) [OF assms, of n] name_table.remove_ok [OF assms, of n]
      name_table.remove_cached [OF assms, of n] name_table.remove_absent [OF assms, of n]
    by (cases "cached s (node_key s n) = Some n") auto
  show "node_exists s m \<and> cached s (node_key s m) = None \<longrightarrow>
      table_ok (hashAddNode m s) \<and> cached (hashAddNode m s) = (cached s)(node_key s m \<mapsto> m)"
    using name_table.add_ok [OF assms, of m] name_table.add_cached [OF assms, of m] by blast
qed

lemma name_table_is_a_map_witness: "find_cached 1 ''b'' (mounted_fs 7) = Inr (cached (mounted_fs 7) (1, ''b''))"
proof -
  have "table_ok (mounted_fs 7)" using mounted_fs_wf [of 7] by (simp add: fs_wf_def coherent_def)
  from name_table_is_a_map [OF this] show ?thesis by blast
qed

text \<open>
  C16: Along a way of directories that are searchable and hold no link and no mount point, \<open>lookupPath\<close> ends
  and gives the node that the directories hold under the components of the resolved path, together with
  that absolute path, or \<open>ENOENT\<close> where a component is missing. The name table plays no part in the result.
\<close>

theorem lookup_follows_directories:
  assumes "coherent s" and "isAbs (currentPath s)" and "path \<noteq> []" and "root s = Some r" and "stack s = Suc frames"
    and "plain_way s r (rev (cd (cd [] (currentPath s)) path))"
  shows "FS_lookupPath path no_opts s =
    (case descend s r (rev (cd (cd [] (currentPath s)) path)) of
       Some n \<Rightarrow> Inr (path_of (cd (cd [] (currentPath s)) path), Some n)
     | None \<Rightarrow> Inl (ErrnoError 44))"
proof -
  have r: "resolve (currentPath s) [path] = path_of (cd (cd [] (currentPath s)) path)"
    using assms(2,3) by (simp add: resolve_cds)
  have "recurse_count no_opts \<le> 8" "\<not> opt_parent no_opts" by (simp_all add: no_opts_def)
  from lookupPath_plain [OF assms(1-4,6) this] show ?thesis
    unfolding FS_lookupPath_def assms(5) r .
qed

lemma lookup_follows_directories_witness:
  "FS_lookupPath ''./x/../a'' no_opts (fs_a 7) = Inr (''/a'', Some 2)"
proof -
  have way: "cd (cd [] ''/'') ''./x/../a'' = [''a'']" "path_of [''a''] = ''/a''"
    by (simp_all add: cd_def isAbs_def parts_of_def walk_def path_of_def)
  have "root (fs_a frames) = Some 1 \<and> stack (fs_a frames) = Suc frames \<and> currentPath (fs_a frames) = ''/''
      \<and> entry (fs_a frames) 1 ''a'' = Some 2 \<and> nextInode (fs_a frames) = 3 \<and> mayLookup 1 (fs_a frames) = Inr 0
      \<and> mounted (nodes (fs_a frames) 2) = None \<and> \<not> isLink (mode (nodes (fs_a frames) 2))" for frames
    by (simp add: example_states fs_eval find_chain_numeral follow_links_numeral entry_def no_node_def)
  note * = this [of 7]
  then have "plain_way (fs_a 7) 1 [''a'']" by (simp add: searchable_def plain_def)
  moreover have "coherent (fs_a 7)" using example_wf(1) [of 7] by (simp add: fs_wf_def)
  ultimately show ?thesis
    using lookup_follows_directories [of "fs_a 7" "''./x/../a''" 1 7] * way by (simp add: isAbs_def)
qed

text \<open>
  C8: A successful \<open>mknod\<close> (and so \<open>create\<close>, \<open>mkdir\<close>, \<open>mkdev\<close>) makes the next node and caches it under the
  last component, in the directory its parent path leads to, where that name was free. It adds exactly
  one entry, that one; every other entry of every directory is unchanged, and the file system stays well
  formed. The exception is the name \<open>__proto__\<close>: the node becomes the prototype of the directory's
  \<open>contents\<close>, no directory gets an entry, and the name table no longer agrees with the directories.
\<close>

theorem mknod_adds_one_entry:
  assumes "fs_wf s" and "FS_mknod path m dev s = (Inr n, s')"
  shows "n = nextInode s \<and> nextInode s' = n + 1
    \<and> (\<exists>p d. FS_lookupPath path of_parent s = Inr (p, Some d) \<and> cached s (d, basename path) = None
         \<and> cached s' = (cached s)((d, basename path) \<mapsto> n)
         \<and> (if basename path = ''__proto__''
            then proto (nodes s' d) = Some n \<and> \<not> fs_wf s'
              \<and> (\<forall>k \<le> n. \<forall>name. entry s' k name = (if k = n then None else entry s k name))
            else fs_wf s'
              \<and> (\<forall>k \<le> n. \<forall>name. entry s' k name =
                   (if k = d \<and> name = basename path then Some n else if k = n then None else entry s k name))))"
proof -
  obtain p d where r: "FS_lookupPath path of_parent s = Inr (p, Some d)" "mayCreate d (basename path) s = Inr 0"
      "node_ops (nodes s d) = DirOps" "MEMFS_createNode (Some d) (basename path) m dev s = (Inr n, s')"
    using FS_mknod_Inr [OF assms(2)] by blast
  note d = FS_lookupPath_bound [OF assms(1) r(1)]
  note free = mayCreate_0(1) [OF assms(1) d r(3,2)]
  note e = createNode_effect [OF assms(1) d r(3) free r(4)]
  note ent = createNode_entry [OF assms(1) d r(3) free r(4)]
  show ?thesis
  proof (cases "basename path = ''__proto__''")
    case True
    have proto: "proto (nodes s' d) = Some n"
      using e(6) fs_wfD(4) [OF assms(1)] d r(3) set_entry_contents(2) [OF _ True] by (auto simp: dirs_ok_def)
    moreover have "\<not> fs_wf s'"
    proof
      assume "fs_wf s'"
      then have "proto (nodes s' d) = None" using fs_wfD(4) d e(1,2) by (simp add: dirs_ok_def)
      with proto show False by simp
    qed
    ultimately show ?thesis using ent True e(1,2,4) free r(1) by auto
  next
    case False
    then show ?thesis using createNode_wf [OF assms(1) d r(3) free r(4) False] ent e(1,2,4) free r(1) by auto
  qed
qed

lemma mknod_adds_one_entry_witness: "\<exists>n s'. FS_mknod ''/a'' 33206 0 (mounted_fs 7) = (Inr n, s') \<and> fs_wf s' \<and> n = 2"
proof -
  have "fst (FS_mknod ''/a'' 33206 0 (mounted_fs frames)) = Inr 2" for frames
    by (simp add: example_states fs_eval find_chain_numeral follow_links_numeral)
  from this [of 7] obtain s' where run: "FS_mknod ''/a'' 33206 0 (mounted_fs 7) = (Inr 2, s')"
    by (metis prod.collapse)
  from mknod_adds_one_entry [OF mounted_fs_wf run] run show ?thesis by (auto simp: example_names)
qed

text \<open>
  C10: A successful \<open>unlink\<close> removes exactly one entry, the one it looked up, and nothing else in any
  directory; afterwards the name is found neither in the directory nor in the name table.
\<close>

theorem unlink_removes_one_entry:
  assumes "fs_wf s" and "FS_unlink path s = (Inr (), s')"
  shows "fs_wf s' \<and> (\<exists>p d n. FS_lookupPath path of_parent s = Inr (p, Some d)
      \<and> lookupNode d (basename path) s = Inr n \<and> \<not> isDir (mode (nodes s n))
      \<and> cached s' = (cached s)((d, basename path) := None)
      \<and> (\<forall>k name. entry s' k name = (if k = d \<and> name = basename path then None else entry s k name)))"
proof -
  obtain p d n where r: "FS_lookupPath path of_parent s = Inr (p, Some d)" "lookupNode d (basename path) s = Inr n"
      "mayDelete d (basename path) False s = Inr 0" "node_ops (nodes s d) = DirOps"
      "hashRemoveNode n (upd_node d (\<lambda>x. (delete_entry (basename path) x)\<lparr>timestamp := clock s\<rparr>) s) = Inr s'"
    using FS_unlink_Inr [OF assms(2)] by blast
  note d = FS_lookupPath_bound [OF assms(1) r(1)]
  note c = lookupNode_bound(2) [OF fs_wfD(1) [OF assms(1)] r(2)]
  note e = drop_entry_effect [OF assms(1) d r(4) c, of "clock s"]
  have "\<not> isDir (mode (nodes s n))" using r(2,3) by (auto simp: mayDelete_def rbind_eq_Inr split: if_splits)
  with e r show ?thesis by auto
qed

lemma unlink_removes_one_entry_witness: "\<exists>s'. FS_unlink ''/a'' (fs_a 7) = (Inr (), s') \<and> fs_wf s'"
proof -
  obtain s' where run: "FS_unlink ''/a'' (fs_a 7) = (Inr (), s')" using runs(4) [of 7] by (metis prod.collapse)
  from unlink_removes_one_entry [OF example_wf(1) run] run show ?thesis by blast
qed

text \<open>
  A successful \<open>rmdir\<close> removes exactly one entry, that of an empty directory which is not the current
  directory, and nothing else in any directory.
\<close>

theorem rmdir_removes_empty_directory:
  assumes "fs_wf s" and "FS_rmdir path s = (Inr (), s')"
  shows "fs_wf s' \<and> (\<exists>p d n. FS_lookupPath path of_parent s = Inr (p, Some d)
      \<and> lookupNode d (basename path) s = Inr n \<and> isDir (mode (nodes s n)) \<and> \<not> isRoot n s
      \<and> getPath n s \<noteq> Inr (currentPath s) \<and> (\<forall>name. entry s n name = None)
      \<and> (\<forall>k name. entry s' k name = (if k = d \<and> name = basename path then None else entry s k name)))"
proof -
  obtain p d n where r: "FS_lookupPath path of_parent s = Inr (p, Some d)" "lookupNode d (basename path) s = Inr n"
      "mayDelete d (basename path) True s = Inr 0" "node_ops (nodes s d) = DirOps" "\<not> has_entries (nodes s n)"
      "hashRemoveNode n (upd_node d (\<lambda>x. (delete_entry (basename path) x)\<lparr>timestamp := clock s\<rparr>) s) = Inr s'"
    using FS_rmdir_Inr [OF assms(2)] by blast
  note d = FS_lookupPath_bound [OF assms(1) r(1)]
  note c = lookupNode_bound(2) [OF fs_wfD(1) [OF assms(1)] r(2)]
  note e = drop_entry_effect [OF assms(1) d r(4) c, of "clock s"]
  have "isDir (mode (nodes s n))" "\<not> isRoot n s" "getPath n s \<noteq> Inr (currentPath s)"
    using r(2,3) by (auto simp: mayDelete_def rbind_eq_Inr split: if_splits)
  moreover have "entry s n name = None" for name
    using r(5) by (auto simp: entry_def has_entries_def split: node_contents.splits)
  ultimately show ?thesis using e r by auto
qed

lemma rmdir_removes_empty_directory_witness: "\<exists>s'. FS_rmdir ''/d'' (fs_d 7) = (Inr (), s') \<and> fs_wf s'"
proof -
  obtain s' where run: "FS_rmdir ''/d'' (fs_d 7) = (Inr (), s')" using runs(5) [of 7] by (metis prod.collapse)
  from rmdir_removes_empty_directory [OF example_wf(3) run] run show ?thesis by blast
qed

text \<open>
  C9: A successful \<open>rename\<close> into a directory where the new name is free, and is not \<open>__proto__\<close>, moves
  exactly one entry: the node is found under the new name and no longer under the old one, and every other
  entry is unchanged. The name table always stays coherent with the directories, and the node's parent is
  now the new directory. The file system stays well formed, so that every chain of parents ends in a root,
  if the new directory is not the moved node or below it. \<open>rename\<close> does not make sure of that: see
  \<open>rename_into_own_hidden_directory\<close>.
\<close>

theorem rename_moves_one_entry:
  assumes "fs_wf s" and "FS_rename old_path new_path s = (Inr (), s')"
    and "FS_lookupPath new_path of_parent s = Inr (p', Some nd)" and "node_ops (nodes s nd) = DirOps"
    and "cached s (nd, basename new_path) = None" and "basename new_path \<noteq> ''__proto__''"
  shows "\<exists>p od n. FS_lookupPath old_path of_parent s = Inr (p, Some od)
      \<and> lookupNode od (basename old_path) s = Inr n
      \<and> coherent s' \<and> cached s' = (cached s)((od, basename old_path) := None, (nd, basename new_path) \<mapsto> n)
      \<and> (\<forall>k < nextInode s. \<forall>name. entry s' k name =
           (if k = nd \<and> name = basename new_path then Some n
            else if k = od \<and> name = basename old_path then None else entry s k name))
      \<and> parent_of s' = (parent_of s)(n := nd)
      \<and> (\<not> inside (parent_of s) n nd \<longrightarrow> fs_wf s')"
proof -
  obtain p od old target where r: "FS_lookupPath old_path of_parent s = Inr (p, Some od)"
      "lookupNode od (basename old_path) s = Inr old" "attempt (lookupNode nd (basename new_path) s) = Inr target"
      "target = Some old \<and> s' = s
       \<or> rename_checked od (basename old_path) old nd (basename new_path) target s = (Inr (), s')"
    using FS_rename_Inr [OF assms(2)] assms(3) by (metis Pair_inject option.inject sum.inject(2))
  note W = fs_wfD [OF assms(1)]
  have "target = None"
  proof (cases "lookupNode nd (basename new_path) s")
    case (Inl e)
    with r(3) show ?thesis by (cases "e = Diverges") auto
  next
    case (Inr q)
    with lookupNode_bound(2) [OF W(1)] assms(5) show ?thesis by simp
  qed
  with r(4) have checked: "rename_checked od (basename old_path) old nd (basename new_path) None s = (Inr (), s')" by auto
  obtain s1 s2 where s2: "hashRemoveNode old s = Inr s1" "MEMFS_rename old nd (basename new_path) s1 = (Inr (), s2)"
      "s' = hashAddNode old s2"
    using rename_checked_Inr(4) [OF checked] by blast
  have s1: "s1 = removed old s" using s2(1) removed_fields(1) [OF W(1), of old] by simp
  note od = FS_lookupPath_bound [OF assms(1) r(1)] and nd = FS_lookupPath_bound [OF assms(1,3)]
  note c = lookupNode_bound(2) [OF W(1) r(2)]
  note e = rename_effect [OF assms(1) od rename_checked_Inr(3) [OF checked] nd assms(4) c assms(5,6)
      MEMFS_rename_Inr [OF s2(2) [unfolded s1]]]
  show ?thesis unfolding s2(3) using e(2-6) r(1,2) by blast
qed

lemma rename_moves_one_entry_witness: "\<exists>s'. FS_rename ''/a'' ''/c'' (fs_a 7) = (Inr (), s') \<and> fs_wf s'"
proof -
  have "FS_lookupPath ''/c'' of_parent (fs_a frames) = Inr (''/'', Some 1)
      \<and> node_ops (nodes (fs_a frames) 1) = DirOps \<and> cached (fs_a frames) (1, basename ''/c'') = None
      \<and> FS_lookupPath ''/a'' of_parent (fs_a frames) = Inr (''/'', Some 1)
      \<and> lookupNode 1 (basename ''/a'') (fs_a frames) = Inr 2 \<and> parent_of (fs_a frames) 1 = 1" for frames
    by (simp add: example_states fs_eval find_chain_numeral follow_links_numeral cached_def parent_of_def)
  note * = this [of 7]
  then have "\<not> inside (parent_of (fs_a 7)) 2 1" using not_inside_root [of "parent_of (fs_a 7)" 2 1] by auto
  moreover obtain s' where run: "FS_rename ''/a'' ''/c'' (fs_a 7) = (Inr (), s')"
    using runs(6) [of 7] by (metis prod.collapse)
  moreover have "''c'' \<noteq> ''__proto__''" by simp
  ultimately show ?thesis
    using rename_moves_one_entry [OF example_wf(1) run, of "''/''" 1] * by (auto simp: example_names)
qed

text \<open>
  \<open>rename\<close> onto an existing name leaves the replaced node in the name table: after \<open>a\<close> is renamed to an
  existing \<open>b\<close> and \<open>b\<close> is unlinked, the directory is empty and yet looking \<open>b\<close> up finds the replaced file.
\<close>

theorem rename_over_existing_leaves_stale_node:
  "\<exists>s3 s4. FS_rename ''/a'' ''/b'' (fs_ab 7) = (Inr (), s3) \<and> FS_unlink ''/b'' s3 = (Inr (), s4)
     \<and> FS_readdir ''/'' s4 = Inr [''.'', ''..''] \<and> FS_lookupPath ''/b'' no_opts s4 = Inr (''/b'', Some 3)"
proof -
  have "(case FS_rename ''/a'' ''/b'' (fs_ab frames) of (r3, s3) \<Rightarrow> case FS_unlink ''/b'' s3 of (r4, s4) \<Rightarrow>
      r3 = Inr () \<and> r4 = Inr () \<and> FS_readdir ''/'' s4 = Inr [''.'', ''..'']
      \<and> FS_lookupPath ''/b'' no_opts s4 = Inr (''/b'', Some 3))" for frames
    by (simp add: example_states fs_eval find_chain_numeral follow_links_numeral)
  from this [of 7] show ?thesis by (auto split: prod.splits)
qed

text \<open>
  The test that keeps \<open>rename\<close> from moving a directory into itself looks at the first character of
  the relative path, so a hidden directory inside passes: \<open>/d\<close> is moved into \<open>/d/.h\<close>, disappears from
  the root, and \<open>getPath\<close> of it no longer ends: the chain of its parents is a circle.
\<close>

theorem rename_into_own_hidden_directory:
  "\<exists>s2 s3. FS_mkdir ''/d/.h'' None (fs_d 7) = (Inr 3, s2) \<and> FS_rename ''/d'' ''/d/.h/x'' s2 = (Inr (), s3)
     \<and> FS_readdir ''/'' s3 = Inr [''.'', ''..''] \<and> getPath 2 s3 = Inl Diverges \<and> \<not> rooted (parent_of s3) 2"
proof -
  have "(case FS_mkdir ''/d/.h'' None (fs_d frames) of (r2, s2) \<Rightarrow> case FS_rename ''/d'' ''/d/.h/x'' s2 of (r3, s3) \<Rightarrow>
      r2 = Inr 3 \<and> r3 = Inr () \<and> FS_readdir ''/'' s3 = Inr [''.'', ''..''] \<and> getPath 2 s3 = Inl Diverges
      \<and> parent_of s3 2 = 3 \<and> parent_of s3 3 = 2)" for frames
    by (simp add: example_states fs_eval find_chain_numeral follow_links_numeral parent_of_def)
  note run = this [of 7]
  moreover have "False" if "p 2 = 3" "p 3 = 2" and r: "rooted p 2" for p
    by (rule rooted_circle [OF r, of "{2, 3}"]) (use that(1,2) in auto)
  ultimately show ?thesis by (auto split: prod.splits)
qed

text \<open>
  \<open>rename\<close> does not check that the parent of the new path is a directory. With an executable file
  there it fails with a \<open>TypeError\<close> after the old entry has been deleted: the file is gone from its
  directory.
\<close>

theorem rename_below_executable_file_loses_entry:
  "\<exists>s2 s3. FS_chmod ''/a'' 511 False (fs_ab 7) = (Inr (), s2)
     \<and> FS_rename ''/b'' ''/a/x'' (s2\<lparr>ignorePermissions := False\<rparr>) = (Inl TypeError, s3)
     \<and> FS_readdir ''/'' s3 = Inr [''.'', ''..'', ''a''] \<and> FS_lookupPath ''/b'' no_opts s3 = Inl (ErrnoError 44)"
proof -
  have "(case FS_chmod ''/a'' 511 False (fs_ab frames) of (r2, s2) \<Rightarrow>
      case FS_rename ''/b'' ''/a/x'' (s2\<lparr>ignorePermissions := False\<rparr>) of (r3, s3) \<Rightarrow>
      r2 = Inr () \<and> r3 = Inl TypeError \<and> FS_readdir ''/'' s3 = Inr [''.'', ''..'', ''a'']
      \<and> FS_lookupPath ''/b'' no_opts s3 = Inl (ErrnoError 44))" for frames
    by (simp add: example_states fs_eval find_chain_numeral follow_links_numeral FS_chmod_def chmod_node_def MEMFS_setattr_def)
  from this [of 7] show ?thesis by (auto split: prod.splits)
qed

text \<open>
  A file named \<open>__proto__\<close> can be made, opened by its name and unlinked, but its directory never lists it,
  and keeps it as the prototype of its \<open>contents\<close>: after the file is unlinked the directory lists
  nothing, and \<open>rmdir\<close> still fails with \<open>ENOTEMPTY\<close>.
\<close>

theorem proto_file_blocks_rmdir:
  "\<exists>s2 s3 s4. FS_create ''/d/__proto__'' None (fs_d 7) = (Inr 3, s2) \<and> FS_readdir ''/d'' s2 = Inr [''.'', ''..'']
     \<and> FS_lookupPath ''/d/__proto__'' no_opts s2 = Inr (''/d/__proto__'', Some 3)
     \<and> FS_unlink ''/d/__proto__'' s2 = (Inr (), s3) \<and> FS_readdir ''/d'' s3 = Inr [''.'', ''..'']
     \<and> FS_rmdir ''/d'' s3 = (Inl (ErrnoError 55), s4)"
proof -
  have "(case FS_create ''/d/__proto__'' None (fs_d frames) of (r2, s2) \<Rightarrow>
      case FS_unlink ''/d/__proto__'' s2 of (r3, s3) \<Rightarrow> case FS_rmdir ''/d'' s3 of (r4, s4) \<Rightarrow>
      r2 = Inr 3 \<and> FS_readdir ''/d'' s2 = Inr [''.'', ''..'']
      \<and> FS_lookupPath ''/d/__proto__'' no_opts s2 = Inr (''/d/__proto__'', Some 3)
      \<and> r3 = Inr () \<and> FS_readdir ''/d'' s3 = Inr [''.'', ''..''] \<and> r4 = Inl (ErrnoError 55))" for frames
    by (simp add: example_states fs_eval find_chain_numeral follow_links_numeral)
  from this [of 7] show ?thesis by (auto split: prod.splits)
qed

end
