(* ===== verification/FsStreamProps.thy ===== *)
theory FsStreamProps
  imports FsStreams FsProps
begin

unbundle bit_operations_syntax

text \<open>
  What the calls on open files do to the bytes of the file, at any position and with or without
  \<open>O_APPEND\<close>, and what the descriptor table promises. The calls are related to the file contract of
  \<open>FileStorage\<close> by \<open>open_file\<close>: an open stream on a well-formed regular file.
\<close>

section \<open>An open file\<close>

definition open_file :: "fs \<Rightarrow> nat \<Rightarrow> nid \<Rightarrow> i32 \<Rightarrow> nat \<Rightarrow> bool" where
  "open_file s x n fl pos \<longleftrightarrow>
     stream_fd (stream_table s x) \<noteq> None \<and> stream_node (stream_table s x) = n
     \<and> stream_ops (stream_table s x) = FileStream \<and> seekable (stream_table s x)
     \<and> stream_flags x s = fl \<and> stream_position x s = int pos
     \<and> isFile (mode (nodes s n)) \<and> file_ok (nodes s n)"

definition appending :: "i32 \<Rightarrow> bool" where "appending fl \<longleftrightarrow> fl AND 1024 \<noteq> 0"

lemma isFile_not: "isFile m \<Longrightarrow> \<not> isDir m" "isFile m \<Longrightarrow> \<not> isLink m" "isFile m \<Longrightarrow> \<not> isChrdev m"
  by (simp_all add: isFile_def isDir_def isLink_def isChrdev_def)

lemma upd_shared_simps [simp]:
  "nodes (upd_shared x g s) = nodes s" "stream_table (upd_shared x g s) = stream_table s"
  "streams (upd_shared x g s) = streams s" "clock (upd_shared x g s) = clock s"
  "nextStream (upd_shared x g s) = nextStream s"
  "shared_table (upd_shared x g s) =
     (shared_table s)(shared (stream_table s x) := g (shared_table s (shared (stream_table s x))))"
  by (simp_all add: upd_shared_def Let_def)

lemma set_position_simps [simp]:
  "nodes (set_position x p s) = nodes s" "stream_table (set_position x p s) = stream_table s"
  "streams (set_position x p s) = streams s" "clock (set_position x p s) = clock s"
  "stream_flags y (set_position x p s) = stream_flags y s"
  "stream_position x (set_position x p s) = p"
  by (simp_all add: set_position_def stream_flags_def stream_position_def)

lemma open_file_position: "open_file s x n fl pos \<Longrightarrow> open_file (set_position x (int p) s) x n fl p"
  by (simp add: open_file_def)

lemma same_names_position: "same_names s s' \<Longrightarrow> same_names s (set_position x p s')"
  by (simp add: set_position_def same_names_frame)

lemma open_file_node:
  assumes "open_file s x n fl pos" and "same_meta (nodes s n) d" and "file_ok d"
  shows "open_file (upd_node n (\<lambda>_. d) s) x n fl pos"
  using assms by (simp add: open_file_def stream_flags_def stream_position_def same_meta_def)

lemma rw_ok: "open_file s x n fl pos \<Longrightarrow> fl AND 2097155 \<noteq> bad \<Longrightarrow> rw_error x (int len) None bad s = 0"
  by (auto simp: rw_error_def open_file_def isClosed_def isFile_not has_rw_def Let_def)

lemma rw_ok_at: "open_file s x n fl pos \<Longrightarrow> fl AND 2097155 \<noteq> bad \<Longrightarrow> rw_error x (int len) (Some (int p)) bad s = 0"
  by (auto simp: rw_error_def open_file_def isClosed_def isFile_not has_rw_def Let_def)

lemma seek_end:
  assumes "open_file s x n fl pos"
  shows "FS_llseek x 0 2 s =
    (Inr (int (length (file_bytes (nodes s n)))), set_position x (int (length (file_bytes (nodes s n)))) s)"
  using assms file_okD(1) [of "nodes s n"]
  by (simp add: FS_llseek_def isClosed_def has_llseek_def stream_llseek_def llseek_file_def open_file_def Let_def)

lemma write_open:
  assumes f: "open_file s x n fl pos" and acc: "fl AND 2097155 \<noteq> 0"
    and len: "0 < len" "offset + len \<le> length buffer"
  defines "start \<equiv> (if appending fl then length (file_bytes (nodes s n)) else pos)"
  shows "\<exists>d. FS_write x buffer offset (int len) None False typed s =
      (Inr len, set_position x (int (start + len)) (upd_node n (\<lambda>_. d)
         (if appending fl then set_position x (int start) s else s)))
    \<and> file_ok d \<and> same_meta (nodes s n) d
    \<and> file_bytes d = put start (take len (drop offset buffer)) (file_bytes (nodes s n))"
proof -
  define s1 where "s1 = (if appending fl then set_position x (int start) s else s)"
  have f1: "open_file s1 x n fl start" "nodes s1 = nodes s" "stream_table s1 = stream_table s"
    using f open_file_position [OF f] by (auto simp: s1_def start_def)
  have seek: "(if seekable (stream_table s x) \<and> stream_flags x s AND 1024 \<noteq> 0 then FS_llseek x 0 2 s else (Inr 0, s))
      = (Inr (if appending fl then int start else 0), s1)"
    using f seek_end [OF f] by (auto simp: open_file_def appending_def s1_def start_def)
  obtain d where d: "write_file (nodes s n) buffer offset len start False typed (clock s1) = Inr (len, d)"
      "file_ok d" "same_meta (nodes s n) d" "file_bytes d = put start (take len (drop offset buffer)) (file_bytes (nodes s n))"
    using write_file_ok [of "nodes s n" len offset buffer start False typed "clock s1"] f len by (auto simp: open_file_def)
  have "stream_position x s1 = int start" "stream_ops (stream_table s1 x) = FileStream" "stream_node (stream_table s1 x) = n"
    using f1 by (simp_all add: open_file_def)
  moreover have "stream_position x (upd_node n (\<lambda>_. d) s1) = int start"
    using calculation by (simp add: stream_position_def)
  ultimately show ?thesis
    using rw_ok [OF f acc, of len] seek d f1(2)
    by (intro exI [of _ d]) (simp add: FS_write_def stream_write_def s1_def [symmetric] Let_def)
qed

lemma read_open:
  assumes f: "open_file s x n fl pos" and acc: "fl AND 2097155 \<noteq> 1" and len: "offset + len \<le> length buffer"
  shows "FS_read x buffer offset (int len) None s =
    (let chunk = take len (drop pos (file_bytes (nodes s n)))
     in (Inr (length chunk, take offset buffer @ chunk @ drop (offset + length chunk) buffer),
         set_position x (int (pos + length chunk)) s))"
    "FS_read x buffer offset (int len) (Some (int p)) s =
    (let chunk = take len (drop p (file_bytes (nodes s n)))
     in (Inr (length chunk, take offset buffer @ chunk @ drop (offset + length chunk) buffer), s))"
proof -
  have ok: "file_ok (nodes s n)" "stream_ops (stream_table s x) = FileStream" "stream_node (stream_table s x) = n"
    "stream_position x s = int pos" "seekable (stream_table s x)"
    using f by (simp_all add: open_file_def)
  show "FS_read x buffer offset (int len) None s =
    (let chunk = take len (drop pos (file_bytes (nodes s n)))
     in (Inr (length chunk, take offset buffer @ chunk @ drop (offset + length chunk) buffer),
         set_position x (int (pos + length chunk)) s))"
    using rw_ok [OF f acc, of len] ok read_file_ok [OF ok(1) len, of pos]
    by (simp add: FS_read_def stream_read_def Let_def)
  show "FS_read x buffer offset (int len) (Some (int p)) s =
    (let chunk = take len (drop p (file_bytes (nodes s n)))
     in (Inr (length chunk, take offset buffer @ chunk @ drop (offset + length chunk) buffer), s))"
    using rw_ok_at [OF f acc, of len p] ok read_file_ok [OF ok(1) len, of p]
    by (simp add: FS_read_def stream_read_def Let_def)
qed

section \<open>Opening and closing a regular file\<close>

text \<open>A path that leads to a regular file the caller may open with these flags.\<close>

definition may_open_file :: "fs \<Rightarrow> string \<Rightarrow> i32 \<Rightarrow> nid \<Rightarrow> bool" where
  "may_open_file s path fl n \<longleftrightarrow>
     path \<noteq> [] \<and> (\<exists>p. FS_lookupPath (normalize path) (following (fl AND 131072 = 0)) s = Inr (p, Some n))
     \<and> \<not> (fl AND 64 \<noteq> 0 \<and> fl AND 128 \<noteq> 0) \<and> fl AND 65536 = 0
     \<and> isFile (mode (nodes s n)) \<and> node_ops (nodes s n) = FileOps \<and> file_ok (nodes s n)
     \<and> nodePermissions n (flagsToPermissionString fl) s = Inr 0
     \<and> (fl AND 512 \<noteq> 0 \<longrightarrow> nodePermissions n (Some ''w'') s = Inr 0)
     \<and> (\<exists>q. getPath n s = Inr q)"

lemma truncate_file:
  assumes "isFile (mode (nodes s n))" "node_ops (nodes s n) = FileOps" "file_ok (nodes s n)"
    and "nodePermissions n (Some ''w'') s = Inr 0"
  shows "\<exists>d. truncate_node n (int len) s = (Inr (), upd_node n (\<lambda>_. d) s) \<and> file_ok d \<and> same_meta (nodes s n) d
    \<and> file_bytes d = take len (padded len (file_bytes (nodes s n)))"
proof -
  let ?d = "nodes s n\<lparr>timestamp := clock s\<rparr>"
  have ok: "file_ok ?d" "file_bytes ?d = file_bytes (nodes s n)"
    using assms(3) by (simp_all add: file_ok_def file_bytes_def byte_array_def)
  obtain d where d: "resizeFileStorage len ?d = Inr d" "file_ok d" "same_meta ?d d"
      "file_bytes d = take len (padded len (file_bytes ?d))"
    using resize_file_ok [OF ok(1)] by blast
  have "same_meta (nodes s n) d" using d(3) by (simp add: same_meta_def)
  moreover have "upd_node n (\<lambda>_. d) (upd_node n (\<lambda>d. d\<lparr>timestamp := clock s\<rparr>) s) = upd_node n (\<lambda>_. d) s" for d
    by (simp add: upd_node_def)
  moreover have "upd_node n (\<lambda>d. d) s = s" by (simp add: upd_node_def)
  ultimately show ?thesis using assms d ok(2) isFile_not
    by (intro exI [of _ d]) (simp add: truncate_node_def truncate_checked_def MEMFS_setattr_def)
qed

lemma open_node_regular:
  assumes d: "isFile (mode (nodes s n))" "node_ops (nodes s n) = FileOps" "file_ok (nodes s n)"
    and fl: "fl AND 65536 = 0" and q: "getPath n s = Inr q"
    and perm: "nodePermissions n (flagsToPermissionString fl) s = Inr 0"
      "fl AND 512 \<noteq> 0 \<Longrightarrow> nodePermissions n (Some ''w'') s = Inr 0"
    and fd: "nextfd s = Inr fd"
  shows "\<exists>s'. open_node n fl False s = (Inr (nextStream s), s') \<and> same_names s s'
    \<and> open_file s' (nextStream s) n (fl AND NOT (128 OR 512 OR 131072)) 0
    \<and> streams s' = set_slot fd (Some (nextStream s)) (streams s) \<and> stream_fd (stream_table s' (nextStream s)) = Some fd
    \<and> file_bytes (nodes s' n) = (if fl AND 512 \<noteq> 0 then [] else file_bytes (nodes s n))
    \<and> (\<forall>k. k \<noteq> n \<longrightarrow> nodes s' k = nodes s k)
    \<and> (\<forall>y. y \<noteq> nextStream s \<longrightarrow> stream_table s' y = stream_table s y)"
proof -
  let ?x = "nextStream s" and ?fl = "fl AND NOT (128 OR 512 OR 131072)"
  obtain s1 where s1: "(if fl AND 512 \<noteq> 0 then truncate_node n 0 s else (Inr (), s)) = (Inr (), s1)"
      "same_names s s1" "file_ok (nodes s1 n)" "\<And>k. k \<noteq> n \<Longrightarrow> nodes s1 k = nodes s k"
      "file_bytes (nodes s1 n) = (if fl AND 512 \<noteq> 0 then [] else file_bytes (nodes s n))"
      "streams s1 = streams s" "stream_table s1 = stream_table s" "nextStream s1 = nextStream s"
  proof (cases "fl AND 512 = 0")
    case True
    with that [of s] d show ?thesis by simp
  next
    case False
    from truncate_file [OF d perm(2) [OF False], of 0] obtain d' where
      "truncate_node n 0 s = (Inr (), upd_node n (\<lambda>_. d') s)" "file_ok d'" "same_meta (nodes s n) d'" "file_bytes d' = []"
      by auto
    with that [of "upd_node n (\<lambda>_. d') s"] False same_names_upd_node [of s s n d'] show ?thesis by simp
  qed
  note s1_same = same_namesD [OF s1(2)]
  have fd1: "nextfd s1 = Inr fd" using fd s1(6) by (simp add: nextfd_def)
  let ?st = "\<lparr>stream_node = n, stream_path = q, stream_fd = Some fd, seekable = True, stream_ops = FileStream,
                stream_tty = None, getdents = None, shared = ?x\<rparr>"
  let ?s' = "s1\<lparr>shared_table := (shared_table s1)(?x := \<lparr>flags = ?fl, position = 0\<rparr>), nextStream := ?x + 1,
               stream_table := (stream_table s1)(?x := ?st), streams := set_slot fd (Some ?x) (streams s1)\<rparr>"
  have mo: "mayOpen (Some n) fl s = Inr 0" using perm(1) isFile_not [OF d(1)] by (simp add: mayOpen_def)
  have "open_node n fl False s = (Inr ?x, ?s')"
    using isFile_not [OF d(1)] fl mo s1(1,8) q getPath_same [OF s1(2), of n] fd1 d(2) s1_same
    by (simp add: open_node_def createStream_def nextfd_def stream_open_def node_stream_ops_def Let_def)
  moreover have "same_names s ?s'" using s1(2) by (simp add: same_names_def)
  moreover have "open_file ?s' ?x n ?fl 0"
    using s1(3) s1_same d(1) by (simp add: open_file_def stream_flags_def stream_position_def)
  ultimately show ?thesis using s1 by (intro exI [of _ ?s']) simp
qed

lemma open_regular:
  assumes o: "may_open_file s path fl n" and fd: "nextfd s = Inr fd"
  shows "\<exists>s'. FS_open path fl m s = (Inr (nextStream s), s') \<and> same_names s s'
    \<and> open_file s' (nextStream s) n (fl AND NOT (128 OR 512 OR 131072)) 0
    \<and> streams s' = set_slot fd (Some (nextStream s)) (streams s) \<and> stream_fd (stream_table s' (nextStream s)) = Some fd
    \<and> file_bytes (nodes s' n) = (if fl AND 512 \<noteq> 0 then [] else file_bytes (nodes s n))
    \<and> (\<forall>k. k \<noteq> n \<longrightarrow> nodes s' k = nodes s k)
    \<and> (\<forall>y. y \<noteq> nextStream s \<longrightarrow> stream_table s' y = stream_table s y)"
proof -
  from o obtain p q where lk: "FS_lookupPath (normalize path) (following (fl AND 131072 = 0)) s = Inr (p, Some n)"
      and q: "getPath n s = Inr q" and path: "path \<noteq> []"
      and fl: "\<not> (fl AND 64 \<noteq> 0 \<and> fl AND 128 \<noteq> 0)" "fl AND 65536 = 0"
      and d: "isFile (mode (nodes s n))" "node_ops (nodes s n) = FileOps" "file_ok (nodes s n)"
      and perm: "nodePermissions n (flagsToPermissionString fl) s = Inr 0"
        "fl AND 512 \<noteq> 0 \<Longrightarrow> nodePermissions n (Some ''w'') s = Inr 0"
    by (auto simp: may_open_file_def)
  have "FS_open path fl m s = open_node n fl False s"
    using path lk fl(1) by (auto simp: FS_open_def Let_def)
  then show ?thesis using open_node_regular [OF d fl(2) q perm fd] by simp
qed

lemma close_open:
  assumes "open_file s x n fl pos" and "stream_fd (stream_table s x) = Some fd"
  shows "\<exists>s'. FS_close x s = (Inr (), s') \<and> same_names s s' \<and> nodes s' = nodes s
    \<and> streams s' = set_slot fd None (streams s) \<and> stream_fd (stream_table s' x) = None"
  using assms
  by (auto simp: FS_close_def open_file_def upd_stream_def closeStream_def same_names_def Let_def)

lemma same_position: "position h = p \<Longrightarrow> h\<lparr>position := p\<rparr> = (h :: shared_state)"
  by (cases h) simp

lemma write_all:
  assumes f: "open_file s x n fl 0" and "file_bytes (nodes s n) = []" and "\<not> appending fl" and acc: "fl AND 2097155 \<noteq> 0"
  shows "\<exists>s'. FS_write x bytes 0 (int (length bytes)) None False typed s = (Inr (length bytes), s')
    \<and> open_file s' x n fl (length bytes) \<and> file_bytes (nodes s' n) = bytes \<and> same_names s s'
    \<and> streams s' = streams s \<and> stream_table s' = stream_table s"
proof (cases "bytes = []")
  case True
  have "rw_error x 0 None 0 s = 0" using rw_ok [OF f acc, of 0] by simp
  moreover have "set_position x 0 s = s"
    using f by (simp add: set_position_def upd_shared_def open_file_def stream_position_def same_position Let_def)
  moreover have "upd_node n (\<lambda>_. nodes s n) s = s" by (simp add: upd_node_def)
  ultimately have "FS_write x [] 0 0 None False typed s = (Inr 0, s)"
    using f assms(3)
    by (simp add: FS_write_def stream_write_def write_file_nothing appending_def open_file_def Let_def)
  with True f assms(2) show ?thesis by auto
next
  case False
  let ?s = "\<lambda>d. set_position x (int (length bytes)) (upd_node n (\<lambda>_. d) s)"
  obtain d where d: "FS_write x bytes 0 (int (length bytes)) None False typed s = (Inr (length bytes), ?s d)"
      "file_ok d" "same_meta (nodes s n) d" "file_bytes d = bytes"
    using write_open [OF f acc, of "length bytes" 0 bytes typed] False assms(2,3) by (auto simp: put_all)
  have "open_file (?s d) x n fl (length bytes)"
    by (rule open_file_position [OF open_file_node [OF f d(3,2)]])
  moreover have "same_names s (?s d)"
    by (rule same_names_position [OF same_names_upd_node [OF same_names_refl d(3)]])
  ultimately show ?thesis using d by auto
qed

lemma slots_again: "nextfd s = Inr fd \<Longrightarrow> streams s' = set_slot fd None (set_slot fd (Some x) (streams s)) \<Longrightarrow> nextfd s' = Inr fd"
proof -
  have "free_slot xs k = Inr fd \<Longrightarrow> free_slot ((xs @ replicate (Suc (fd - k) - length xs) None)[fd - k := None]) k = Inr fd" for xs k
  proof (induction xs k rule: free_slot.induct)
    case (1 k)
    then have "fd = k" "k \<le> MAX_OPEN_FDS" by (auto split: if_splits)
    then show ?case by simp
  next
    case (2 x xs k)
    then show ?case
    proof (cases "x = None")
      case True
      with 2(2) show ?thesis by (auto split: if_splits)
    next
      case False
      with 2(2) have k: "k \<le> MAX_OPEN_FDS" "free_slot xs (k + 1) = Inr fd" by (auto split: if_splits)
      then obtain d where "fd = k + 1 + d" using free_slot_Inr le_Suc_ex by blast
      with False k 2(1) show ?thesis by (simp add: Suc_diff_le)
    qed
  qed
  from this [of "streams s" 0] show "nextfd s = Inr fd \<Longrightarrow>
      streams s' = set_slot fd None (set_slot fd (Some x) (streams s)) \<Longrightarrow> nextfd s' = Inr fd"
    by (simp add: nextfd_def set_slot_def)
qed

section \<open>The descriptor table\<close>

lemma truncate_streams:
  "truncate_node n len s = (r, s') \<Longrightarrow> streams s' = streams s \<and> stream_table s' = stream_table s"
  by (auto simp: truncate_node_def truncate_checked_def MEMFS_setattr_def bnd_def trans_def rbind_def
      split: if_splits sum.splits option.splits)

lemma createNode_streams:
  "MEMFS_createNode dir name m dev s = (r, s') \<Longrightarrow> streams s' = streams s \<and> stream_table s' = stream_table s"
  by (auto simp: MEMFS_createNode_def FS_createNode_def new_node_def hashAddNode_def Let_def
      split: if_splits option.splits prod.splits)

lemma mknod_streams:
  "FS_mknod path m dev s = (r, s') \<Longrightarrow> streams s' = streams s \<and> stream_table s' = stream_table s"
  by (auto simp: FS_mknod_def bnd_def Let_def dest: createNode_streams split: if_splits sum.splits prod.splits)

lemma createStream_slot:
  assumes "createStream st None s = (Inr x, s')"
  shows "\<exists>fd. nextfd s = Inr fd \<and> streams s' = set_slot fd (Some x) (streams s)
    \<and> stream_fd (stream_table s' x) = Some fd"
  using assms by (auto simp: createStream_def Let_def split: sum.splits)

lemma stream_open_slot:
  "stream_open x s = (r, s') \<Longrightarrow> streams s' = streams s \<and> stream_fd (stream_table s' y) = stream_fd (stream_table s y)"
  by (auto simp: stream_open_def upd_stream_def Let_def split: if_splits option.splits device.splits)

lemma open_node_slot:
  assumes "open_node n fl created s = (Inr x, s')"
  shows "\<exists>fd. nextfd s = Inr fd \<and> streams s' = set_slot fd (Some x) (streams s)
    \<and> stream_fd (stream_table s' x) = Some fd"
proof -
  let ?fl = "if isChrdev (mode (nodes s n)) then fl AND NOT 512 else fl"
  obtain s1 where s1: "(if ?fl AND 512 \<noteq> 0 \<and> \<not> created then truncate_node n 0 s else (Inr (), s)) = (Inr (), s1)"
    using assms by (simp add: open_node_def Let_def split: if_splits sum.splits prod.splits)
  then have same: "streams s1 = streams s"
    using truncate_streams [of n 0 s "Inr ()" s1] by (auto split: if_splits)
  with assms s1 show ?thesis
    by (auto simp: open_node_def nextfd_def Let_def split: if_splits sum.splits prod.splits
        dest!: createStream_slot stream_open_slot [where y = x])
qed

lemma open_slot:
  assumes "FS_open path fl m s = (Inr x, s')"
  shows "\<exists>fd. nextfd s = Inr fd \<and> streams s' = set_slot fd (Some x) (streams s)
    \<and> stream_fd (stream_table s' x) = Some fd"
proof -
  have existing: ?thesis if "open_node n fl' created s1 = (Inr x, s')" "streams s1 = streams s" for n fl' created s1
    using open_node_slot [OF that(1)] that(2) by (simp add: nextfd_def)
  have made: ?thesis if "open_node n fl' created s1 = (Inr x, s')" "FS_mknod p m' dev s = (Inr n, s1)"
    for n fl' created s1 p m' dev
    using existing [OF that(1)] mknod_streams [OF that(2)] by blast
  from assms show ?thesis
    by (auto simp: FS_open_def Let_def bnd_def split: if_splits sum.splits prod.splits option.splits
        intro: existing made)
qed

section \<open>Properties\<close>

text \<open>
  A successful \<open>open\<close> takes the lowest free descriptor, below the limit of 4096, for a new stream, and
  leaves every other descriptor as it was; with no free descriptor it does not succeed.
\<close>

theorem open_takes_lowest_descriptor:
  assumes "FS_open path fl m s = (Inr x, s')"
  shows "\<exists>fd. stream_fd (stream_table s' x) = Some fd \<and> fd \<le> MAX_OPEN_FDS
    \<and> getStream fd s = None \<and> (\<forall>k < fd. getStream k s \<noteq> None)
    \<and> (\<forall>k. getStream k s' = (if k = fd then Some x else getStream k s))"
proof -
  obtain fd where fd: "nextfd s = Inr fd" "streams s' = set_slot fd (Some x) (streams s)"
      "stream_fd (stream_table s' x) = Some fd"
    using open_slot [OF assms] by blast
  have "\<forall>k < fd. getStream k s \<noteq> None" "fd \<le> MAX_OPEN_FDS"
    using free_slot_Inr [OF fd(1) [unfolded nextfd_def]] by (auto simp: getStream_def)
  with fd nextfd_free [OF fd(1)] getStream_set_slot [OF fd(2)] show ?thesis by auto
qed

lemma mayOpen_example: "FS_lookupPath ''/a'' (following True) (fs_a 7) = Inr (''/a'', Some 2)"
  "getPath 2 (fs_a 7) = Inr ''/a''" "nextfd (fs_a 7) = Inr 0" "normalize ''/a'' = ''/a''"
  "may_open_file (fs_a 7) ''/a'' 577 2" "may_open_file (fs_a 7) ''/a'' 0 2" "file_bytes (nodes (fs_a 7) 2) = []"
proof -
  have "FS_lookupPath ''/a'' (following True) (fs_a frames) = Inr (''/a'', Some 2)" for frames
    by (simp add: example_states fs_eval find_chain_numeral follow_links_numeral)
  then show l: "FS_lookupPath ''/a'' (following True) (fs_a 7) = Inr (''/a'', Some 2)" .
  have "getPath 2 (fs_a frames) = Inr ''/a''" for frames
    by (simp add: example_states fs_eval find_chain_numeral follow_links_numeral)
  then show g: "getPath 2 (fs_a 7) = Inr ''/a''" .
  have "streams (fs_a frames) = [] \<and> mode (nodes (fs_a frames) 2) = 33206 \<and> node_ops (nodes (fs_a frames) 2) = FileOps
      \<and> contents (nodes (fs_a frames) 2) = Null \<and> usedBytes (nodes (fs_a frames) 2) = 0
      \<and> ignorePermissions (fs_a frames)" for frames
    by (simp add: example_states fs_eval find_chain_numeral follow_links_numeral)
  from this [of 7] have n: "streams (fs_a 7) = []" "mode (nodes (fs_a 7) 2) = 33206"
    "node_ops (nodes (fs_a 7) 2) = FileOps" "contents (nodes (fs_a 7) 2) = Null" "usedBytes (nodes (fs_a 7) 2) = 0"
    "ignorePermissions (fs_a 7)"
    by simp_all
  then have d: "isFile (mode (nodes (fs_a 7) 2))" "file_ok (nodes (fs_a 7) 2)"
    "nodePermissions 2 p (fs_a 7) = Inr 0" for p
    by (simp_all add: isFile_def file_ok_def byte_array_def nodePermissions_def)
  show "file_bytes (nodes (fs_a 7) 2) = []" using n by (simp add: file_bytes_def)
  show "nextfd (fs_a 7) = Inr 0" using n by (simp add: nextfd_def MAX_OPEN_FDS_def)
  show norm: "normalize ''/a'' = ''/a''"
    by (simp add: normalize_def normalizeArray_def parts_of_def isAbs_def Let_def)
  show "may_open_file (fs_a 7) ''/a'' 577 2" "may_open_file (fs_a 7) ''/a'' 0 2"
    using l g d n(3) norm by (simp_all add: may_open_file_def)
qed

lemma open_takes_lowest_descriptor_witness:
  "\<exists>s' x. FS_open ''/a'' 577 None (fs_a 7) = (Inr x, s') \<and> getStream 0 s' = Some x"
proof -
  obtain s' where s': "FS_open ''/a'' 577 None (fs_a 7) = (Inr (nextStream (fs_a 7)), s')"
      "stream_fd (stream_table s' (nextStream (fs_a 7))) = Some 0"
    using open_regular [OF mayOpen_example(5,3)] by blast
  with open_takes_lowest_descriptor [OF s'(1)] show ?thesis by auto
qed

text \<open>
  \<open>FS.write\<close> on an open regular file puts the bytes of the buffer at the position of the stream, or at
  the end of the file when the stream appends, fills a gap with zeros, moves the position behind what it
  wrote, and changes no other node and no name.
\<close>

theorem write_puts_bytes:
  assumes "open_file s x n fl pos" and "fl AND 2097155 \<noteq> 0" and "0 < len" and "offset + len \<le> length buffer"
  shows "\<exists>s'. FS_write x buffer offset (int len) None False typed s = (Inr len, s')
    \<and> (let start = (if appending fl then length (file_bytes (nodes s n)) else pos)
       in open_file s' x n fl (start + len)
          \<and> file_bytes (nodes s' n) = put start (take len (drop offset buffer)) (file_bytes (nodes s n)))
    \<and> (\<forall>k. k \<noteq> n \<longrightarrow> nodes s' k = nodes s k) \<and> same_names s s'"
proof -
  define start where "start = (if appending fl then length (file_bytes (nodes s n)) else pos)"
  define s1 where "s1 = (if appending fl then set_position x (int start) s else s)"
  obtain d where d: "FS_write x buffer offset (int len) None False typed s =
        (Inr len, set_position x (int (start + len)) (upd_node n (\<lambda>_. d) s1))"
      "file_ok d" "same_meta (nodes s n) d" "file_bytes d = put start (take len (drop offset buffer)) (file_bytes (nodes s n))"
    using write_open [OF assms] unfolding start_def s1_def by blast
  have s1: "open_file s1 x n fl start" "nodes s1 = nodes s" "same_names s s1"
    using assms(1) open_file_position [OF assms(1)] by (auto simp: s1_def start_def same_names_position)
  have "open_file (set_position x (int (start + len)) (upd_node n (\<lambda>_. d) s1)) x n fl (start + len)"
    using open_file_position [OF open_file_node [OF s1(1), of d]] d(2,3) s1(2) by (simp del: of_nat_add)
  moreover have "same_names s (set_position x (int (start + len)) (upd_node n (\<lambda>_. d) s1))"
    using same_names_position [OF same_names_upd_node [OF s1(3)]] d(3) s1(2) by simp
  ultimately show ?thesis
    using d s1(2) unfolding start_def [symmetric] Let_def by (intro exI conjI) simp_all
qed

lemma opened_example:
  "\<exists>s'. FS_open ''/a'' 1025 None (fs_a 7) = (Inr (nextStream (fs_a 7)), s') \<and> open_file s' (nextStream (fs_a 7)) 2 1025 0
     \<and> file_bytes (nodes s' 2) = []"
proof -
  have "may_open_file (fs_a 7) ''/a'' 1025 2"
    using mayOpen_example by (auto simp: may_open_file_def nodePermissions_def flagsToPermissionString_def split: if_splits)
  from open_regular [OF this mayOpen_example(3), of None] mayOpen_example(7) show ?thesis by auto
qed

lemma write_puts_bytes_witness:
  "\<exists>s x s'. FS_write x [7, 8, 9] 1 2 None False True s = (Inr 2, s') \<and> file_bytes (nodes s' 2) = [8, 9]"
proof -
  obtain s where s: "open_file s (nextStream (fs_a 7)) 2 1025 0" "file_bytes (nodes s 2) = []"
    using opened_example by blast
  from write_puts_bytes [OF s(1), of 2 1 "[7, 8, 9]" True] s(2) show ?thesis
    by (auto simp: Let_def appending_def put_def padded_def)
qed

text \<open>
  \<open>FS.read\<close> on an open regular file copies into the caller's buffer, at the offset it names, the bytes
  of the file from the position of the stream on, as many as are asked for and there are; without an
  explicit position it moves the position behind them, with one it changes nothing.
\<close>

theorem read_gets_bytes:
  assumes "open_file s x n fl pos" and "fl AND 2097155 \<noteq> 1" and "offset + len \<le> length buffer"
  shows "FS_read x buffer offset (int len) at s =
    (let start = (case at of None \<Rightarrow> pos | Some p \<Rightarrow> nat p);
         chunk = take len (drop start (file_bytes (nodes s n)))
     in if at \<noteq> None \<and> the at < 0 then (Inl (ErrnoError 28), s)
        else (Inr (length chunk, take offset buffer @ chunk @ drop (offset + length chunk) buffer),
              if at = None then set_position x (int (pos + length chunk)) s else s))"
proof (cases at)
  case None
  with read_open(1) [OF assms] show ?thesis by (simp add: Let_def)
next
  case (Some p)
  show ?thesis
  proof (cases "p < 0")
    case True
    with Some show ?thesis by (simp add: FS_read_def rw_error_def Let_def)
  next
    case False
    with Some read_open(2) [OF assms, of "nat p"] show ?thesis by (simp add: Let_def)
  qed
qed

lemma read_gets_bytes_witness: "\<exists>s x. FS_read x [0, 0] 0 2 (Some 0) s = (Inr (0, [0, 0]), s)"
proof -
  have "may_open_file (fs_a 7) ''/a'' 0 2" by (rule mayOpen_example(6))
  from open_regular [OF this mayOpen_example(3), of None] mayOpen_example(7)
  obtain s where s: "open_file s (nextStream (fs_a 7)) 2 0 0" "file_bytes (nodes s 2) = []" by auto
  from read_gets_bytes [OF s(1), of 0 2 "[0, 0]" "Some 0"] s(2) show ?thesis by (auto simp: Let_def)
qed

text \<open>
  C7: What \<open>FS.writeFile\<close> writes to an existing regular file, \<open>FS.readFile\<close> reads back: exactly these bytes,
  whatever the file held before. Both calls succeed, no name changes, and no descriptor stays open.
\<close>

theorem write_then_read_file:
  assumes "may_open_file s path 577 n" and "nodePermissions n (Some ''r'') s = Inr 0"
    and "FS_lookupPath path (following True) s = Inr (p, Some n)" and "nextfd s = Inr fd"
  shows "\<exists>s1 s2. FS_writeFile path bytes None m False s = (Inr (), s1) \<and> file_bytes (nodes s1 n) = bytes
    \<and> FS_readFile path 0 s1 = (Inr bytes, s2) \<and> same_names s s2 \<and> nextfd s2 = Inr fd"
proof -
  let ?x = "nextStream s"
  obtain a where a: "FS_open path 577 m s = (Inr ?x, a)" "same_names s a" "open_file a ?x n 65 0"
      "streams a = set_slot fd (Some ?x) (streams s)" "stream_fd (stream_table a ?x) = Some fd"
      "file_bytes (nodes a n) = []"
    using open_regular [OF assms(1,4), of m] by auto
  obtain b where b: "FS_write ?x bytes 0 (int (length bytes)) None False True a = (Inr (length bytes), b)"
      "open_file b ?x n 65 (length bytes)" "file_bytes (nodes b n) = bytes" "same_names a b"
      "streams b = streams a" "stream_table b = stream_table a"
    using write_all [OF a(3,6), of bytes True] by (auto simp: appending_def)
  obtain s1 where s1: "FS_close ?x b = (Inr (), s1)" "same_names b s1" "nodes s1 = nodes b"
      "streams s1 = set_slot fd None (streams b)"
    using close_open [OF b(2), of fd] a(5) b(6) by auto
  have w: "FS_writeFile path bytes None m False s = (Inr (), s1)"
    using a(1) b(1) s1(1) by (simp add: FS_writeFile_def write_flags_def bnd_def)
  have same: "same_names s s1" using a(2) b(4) s1(2) same_names_trans by blast
  have fd1: "nextfd s1 = Inr fd"
    by (rule slots_again [OF assms(4), of _ ?x]) (use a(4) b(5) s1(4) in simp)
  have ok: "file_ok (nodes s1 n)" "file_bytes (nodes s1 n) = bytes" using b(2,3) s1(3) by (simp_all add: open_file_def)
  have r: "may_open_file s1 path 0 n"
    using assms(1,2) ok(1) same_lookups [OF same]
    by (auto simp: may_open_file_def flagsToPermissionString_def)
  let ?y = "nextStream s1"
  obtain c where c: "FS_open path 0 None s1 = (Inr ?y, c)" "same_names s1 c" "open_file c ?y n 0 0"
      "streams c = set_slot fd (Some ?y) (streams s1)" "stream_fd (stream_table c ?y) = Some fd"
      "file_bytes (nodes c n) = bytes"
    using open_regular [OF r fd1, of None] ok(2) by auto
  have lk: "FS_lookupPath path (following True) c = Inr (p, Some n)"
    using assms(3) FS_lookupPath_same [OF same_names_trans [OF same c(2)]] by simp
  have n: "node_ops (nodes c n) = FileOps" "isFile (mode (nodes c n))" "usedBytes (nodes c n) = length bytes"
    using c(3,6) r same_namesD [OF c(2)] file_okD(1) [of "nodes c n"] by (simp_all add: open_file_def may_open_file_def)
  have "FS_stat path False c = Inr (MEMFS_getattr n c)" "attr_size (MEMFS_getattr n c) = length bytes"
    using lk n isFile_not [OF n(2)] by (simp_all add: FS_stat_def MEMFS_getattr_def Let_def)
  moreover have "FS_read ?y (replicate (length bytes) 0) 0 (int (length bytes)) (Some 0) c = (Inr (length bytes, bytes), c)"
    using read_open(2) [OF c(3), of 0 "length bytes" "replicate (length bytes) 0" 0] c(6) by simp
  moreover obtain s2 where s2: "FS_close ?y c = (Inr (), s2)" "same_names c s2" "streams s2 = set_slot fd None (streams c)"
    using close_open [OF c(3), of fd] c(5) by auto
  ultimately have "FS_readFile path 0 s1 = (Inr bytes, s2)"
    using c(1) by (simp add: FS_readFile_def bnd_def)
  moreover have "nextfd s2 = Inr fd"
    by (rule slots_again [OF fd1, of _ ?y]) (use c(4) s2(3) in simp)
  ultimately show ?thesis using w ok(2) same_names_trans [OF same_names_trans [OF same c(2)] s2(2)] by blast
qed

lemma write_then_read_file_witness:
  "\<exists>s1 s2. FS_writeFile ''/a'' [104, 105] None None False (fs_a 7) = (Inr (), s1)
    \<and> FS_readFile ''/a'' 0 s1 = (Inr [104, 105], s2)"
proof -
  have "nodePermissions 2 (Some ''r'') (fs_a 7) = Inr 0"
    using mayOpen_example(6) by (simp add: may_open_file_def flagsToPermissionString_def)
  from write_then_read_file [OF mayOpen_example(5) this mayOpen_example(1,3)] show ?thesis by blast
qed

end
