(* ===== verification/SyscallProps.thy ===== *)
theory SyscallProps
  imports Syscalls FsStreamProps
begin

unbundle bit_operations_syntax

text \<open>
  What the system calls do to files and to memory: gathered writes, duplicated descriptors, the status
  structure, mapped files, and the truncation of \<open>readlinkat\<close>.
\<close>

section \<open>Gathered writes\<close>

text \<open>The effect of a write of \<open>chunk\<close>; an empty one does not pad the file.\<close>

definition written :: "nat \<Rightarrow> u8 list \<Rightarrow> u8 list \<Rightarrow> u8 list" where
  "written pos chunk bs = (if chunk = [] then bs else put pos chunk bs)"

lemma put_put: "b \<noteq> [] \<Longrightarrow> put (pos + length a) b (put pos a bs) = put pos (a @ b) bs"
  by (rule nth_equalityI) (auto simp: put_nth length_put nth_append split: if_splits)

lemma put_padded: "b \<noteq> [] \<Longrightarrow> put pos b (put pos [] bs) = put pos b bs"
  using put_put [of b pos "[]"] by simp

lemma written_written: "written (pos + length a) b (written pos a bs) = written pos (a @ b) bs"
  by (auto simp: written_def put_put)

lemma write_none:
  assumes f: "open_file s x n fl pos" and na: "\<not> appending fl" and acc: "fl AND 2097155 \<noteq> 0"
  shows "FS_write x buffer offset 0 None False typed s = (Inr 0, s)"
proof -
  have "rw_error x 0 None 0 s = 0" using rw_ok [OF f acc, of 0] by simp
  moreover have "set_position x (int pos) s = s"
    using f by (simp add: set_position_def upd_shared_def open_file_def stream_position_def same_position Let_def)
  moreover have "upd_node n (\<lambda>_. nodes s n) s = s" by (simp add: upd_node_def)
  ultimately show ?thesis
    using f na by (simp add: FS_write_def stream_write_def write_file_nothing appending_def open_file_def Let_def)
qed

lemma write_some:
  assumes f: "open_file s x n fl pos" and na: "\<not> appending fl" and acc: "fl AND 2097155 \<noteq> 0"
    and len: "offset + len \<le> length buffer"
  shows "\<exists>s'. FS_write x buffer offset (int len) None False typed s = (Inr len, s')
    \<and> open_file s' x n fl (pos + len) \<and> same_names s s' \<and> (\<forall>k. k \<noteq> n \<longrightarrow> nodes s' k = nodes s k)
    \<and> file_bytes (nodes s' n) = written pos (take len (drop offset buffer)) (file_bytes (nodes s n))"
proof (cases "len = 0")
  case True
  with write_none [OF f na acc] f show ?thesis by (auto simp: written_def)
next
  case False
  let ?s = "\<lambda>d. set_position x (int (pos + len)) (upd_node n (\<lambda>_. d) s)"
  obtain d where d: "FS_write x buffer offset (int len) None False typed s = (Inr len, ?s d)"
      "file_ok d" "same_meta (nodes s n) d" "file_bytes d = put pos (take len (drop offset buffer)) (file_bytes (nodes s n))"
    using write_open [OF f acc _ len, of typed] False na by auto
  have "open_file (?s d) x n fl (pos + len)" by (rule open_file_position [OF open_file_node [OF f d(3,2)]])
  moreover have "same_names s (?s d)"
    by (rule same_names_position [OF same_names_upd_node [OF same_names_refl d(3)]])
  ultimately show ?thesis using d False len by (auto simp: written_def)
qed

text \<open>The bytes that a vector of \<open>cnt\<close> buffers at \<open>iov\<close> names.\<close>

definition iov_chunk :: "heap \<Rightarrow> nat \<Rightarrow> u8 list" where
  "iov_chunk m iov = take (unat (HEAP32_get (iov + 4) m)) (drop (unat (HEAP32_get iov m)) m)"

definition iov_ok :: "heap \<Rightarrow> nat \<Rightarrow> bool" where
  "iov_ok m iov \<longleftrightarrow> unat (HEAP32_get iov m) + unat (HEAP32_get (iov + 4) m) \<le> length m"

fun gathered :: "heap \<Rightarrow> nat \<Rightarrow> nat \<Rightarrow> u8 list" where
  "gathered m iov 0 = []"
| "gathered m iov (Suc cnt) = iov_chunk m iov @ gathered m (iov + 8) cnt"

lemma doWritev_gathers:
  assumes "open_file (files st) x n fl pos" and "\<not> appending fl" and "fl AND 2097155 \<noteq> 0"
    and "\<forall>i < cnt. iov_ok (mem st) (iov + 8 * i)"
  shows "\<exists>s'. doWritev x iov cnt None k st = (Inr (k + length (gathered (mem st) iov cnt)), st\<lparr>files := s'\<rparr>)
    \<and> open_file s' x n fl (pos + length (gathered (mem st) iov cnt)) \<and> same_names (files st) s'
    \<and> (\<forall>j. j \<noteq> n \<longrightarrow> nodes s' j = nodes (files st) j)
    \<and> file_bytes (nodes s' n) = written pos (gathered (mem st) iov cnt) (file_bytes (nodes (files st) n))"
  using assms
proof (induction cnt arbitrary: iov pos k st)
  case 0
  then show ?case by (intro exI [of _ "files st"]) (simp add: written_def)
next
  case (Suc cnt)
  let ?len = "unat (HEAP32_get (iov + 4) (mem st))" and ?ptr = "unat (HEAP32_get iov (mem st))"
  have ok: "?ptr + ?len \<le> length (mem st)" "\<forall>i < cnt. iov_ok (mem st) (iov + 8 + 8 * i)"
    using Suc.prems(4) [rule_format, of 0] Suc.prems(4) [rule_format, of "Suc _"]
    by (auto simp: iov_ok_def ac_simps)
  obtain s1 where s1: "FS_write x (mem st) ?ptr (int ?len) None False True (files st) = (Inr ?len, s1)"
      "open_file s1 x n fl (pos + ?len)" "same_names (files st) s1" "\<forall>k. k \<noteq> n \<longrightarrow> nodes s1 k = nodes (files st) k"
      "file_bytes (nodes s1 n) = written pos (iov_chunk (mem st) iov) (file_bytes (nodes (files st) n))"
    using write_some [OF Suc.prems(1-3) ok(1), of True] by (auto simp: iov_chunk_def)
  have len: "length (iov_chunk (mem st) iov) = ?len" using ok(1) by (simp add: iov_chunk_def)
  let ?g = "gathered (mem st) (iov + 8) cnt"
  obtain s2 where s2: "doWritev x (iov + 8) cnt None (k + ?len) (st\<lparr>files := s1\<rparr>) = (Inr (k + ?len + length ?g), st\<lparr>files := s2\<rparr>)"
      "open_file s2 x n fl (pos + ?len + length ?g)" "same_names s1 s2" "\<forall>j. j \<noteq> n \<longrightarrow> nodes s2 j = nodes s1 j"
      "file_bytes (nodes s2 n) = written (pos + ?len) ?g (file_bytes (nodes s1 n))"
    using Suc.IH [of "st\<lparr>files := s1\<rparr>" "pos + ?len" "iov + 8" "k + ?len"] s1(2) Suc.prems(2,3) ok(2) by auto
  have "doWritev x iov (Suc cnt) None k st = (Inr (k + ?len + length ?g), st\<lparr>files := s2\<rparr>)"
    using s1(1) s2(1) by (simp add: on_files_def bnd_def Let_def)
  moreover have "file_bytes (nodes s2 n) = written pos (iov_chunk (mem st) iov @ ?g) (file_bytes (nodes (files st) n))"
    using s2(5) s1(5) written_written [of pos "iov_chunk (mem st) iov" ?g] len by simp
  moreover have "same_names (files st) s2" by (rule same_names_trans [OF s1(3) s2(3)])
  ultimately show ?case using s2(2,4) s1(4) len by (intro exI [of _ s2]) (simp add: add.assoc)
qed

text \<open>
  C22: \<open>fd_write\<close> on an open regular file writes the concatenation of its buffers at the position of the
  stream, moves the position behind it, stores the number of bytes, changes nothing else in memory and no
  other node, and returns 0.
\<close>

theorem fd_write_gathers:
  assumes "getStreamFromFD fd (files st) = Inr x" and "open_file (files st) x n fl pos"
    and "\<not> appending fl" and "fl AND 2097155 \<noteq> 0" and "\<forall>i < cnt. iov_ok (mem st) (iov + 8 * i)"
  shows "\<exists>st'. wasi_fd_write fd iov cnt pnum st = (Inr 0, st')
    \<and> mem st' = HEAP32_set pnum (of_nat (length (gathered (mem st) iov cnt))) (mem st)
    \<and> open_file (files st') x n fl (pos + length (gathered (mem st) iov cnt))
    \<and> file_bytes (nodes (files st') n) = written pos (gathered (mem st) iov cnt) (file_bytes (nodes (files st) n))
    \<and> (\<forall>k. k \<noteq> n \<longrightarrow> nodes (files st') k = nodes (files st) k)"
proof -
  obtain s' where s': "doWritev x iov cnt None 0 st = (Inr (length (gathered (mem st) iov cnt)), st\<lparr>files := s'\<rparr>)"
      "open_file s' x n fl (pos + length (gathered (mem st) iov cnt))"
      "\<forall>k. k \<noteq> n \<longrightarrow> nodes s' k = nodes (files st) k"
      "file_bytes (nodes s' n) = written pos (gathered (mem st) iov cnt) (file_bytes (nodes (files st) n))"
    using doWritev_gathers [OF assms(2-5), of 0] by auto
  then show ?thesis
    using assms(1) by (simp add: wasi_fd_write_def wasi_def reading_def on_mem_def bnd_def)
qed

definition sample_memory :: heap where
  "sample_memory = [16, 0, 0, 0, 2, 0, 0, 0, 18, 0, 0, 0, 1, 0, 0, 0, 7, 8, 9, 0]"

lemma sample_loads:
  "HEAP32_get 0 sample_memory = 16" "HEAP32_get 4 sample_memory = 2"
  "HEAP32_get 8 sample_memory = 18" "HEAP32_get 12 sample_memory = 1"
  by (simp_all add: sample_memory_def HEAP32_get_def typed_load_def)

lemma sample_iov:
  "gathered sample_memory 0 2 = [7, 8, 9]" "i < 2 \<Longrightarrow> iov_ok sample_memory (8 * i)"
proof -
  have "iov_chunk sample_memory 0 = [7, 8]" "iov_chunk sample_memory 8 = [9]"
    by (simp_all add: iov_chunk_def sample_loads) (simp_all add: sample_memory_def)
  then have "gathered sample_memory 0 (Suc (Suc 0)) = [7, 8, 9]" by simp
  then show "gathered sample_memory 0 2 = [7, 8, 9]" by (simp only: numeral_2_eq_2)
  have "iov_ok sample_memory 0" "iov_ok sample_memory 8"
    by (simp_all add: iov_ok_def sample_loads) (simp_all add: sample_memory_def)
  moreover assume "i < 2"
  then have "i = 0 \<or> i = 1" by linarith
  ultimately show "iov_ok sample_memory (8 * i)" by auto
qed

lemma written_example:
  "\<exists>s. open_file s (nextStream (fs_a 7)) 2 65 0 \<and> getStreamFromFD 0 s = Inr (nextStream (fs_a 7)) \<and> file_bytes (nodes s 2) = []"
proof -
  obtain s where s: "open_file s (nextStream (fs_a 7)) 2 65 0" "file_bytes (nodes s 2) = []"
      "streams s = set_slot 0 (Some (nextStream (fs_a 7))) (streams (fs_a 7))"
    using open_regular [OF mayOpen_example(5,3), of None] by auto
  have "getStream 0 s = Some (nextStream (fs_a 7))" by (simp add: getStream_set_slot [OF s(3)])
  with s(1,2) show ?thesis by (auto simp: getStreamFromFD_def getStreamChecked_def)
qed

lemma fd_write_gathers_witness:
  "\<exists>st st'. wasi_fd_write 0 0 2 0 st = (Inr 0, st') \<and> file_bytes (nodes (files st') 2) = [7, 8, 9]"
proof -
  obtain s where s: "open_file s (nextStream (fs_a 7)) 2 65 0" "getStreamFromFD 0 s = Inr (nextStream (fs_a 7))"
      "file_bytes (nodes s 2) = []"
    using written_example by blast
  let ?st = "\<lparr>mem = sample_memory, files = s, utf8_decoder = None\<rparr>"
  have "\<exists>st'. wasi_fd_write 0 0 2 0 ?st = (Inr 0, st')
      \<and> file_bytes (nodes (files st') 2) = written 0 (gathered sample_memory 0 2) (file_bytes (nodes s 2))"
    using fd_write_gathers [of 0 ?st _ 2 65 0 2 0 0] s sample_iov(2) by (auto simp: appending_def)
  then show ?thesis by (auto simp: s(3) sample_iov(1) written_def put_def padded_def)
qed

section \<open>Duplicated descriptors\<close>

lemma free_from_spec:
  "k \<le> free_from xs k \<and> (free_from xs k - k < length xs \<longrightarrow> xs ! (free_from xs k - k) = None)
     \<and> (\<forall>i. i + k < free_from xs k \<longrightarrow> i < length xs \<and> xs ! i \<noteq> None)"
proof (induction xs k rule: free_from.induct)
  case (2 x xs k)
  show ?case
  proof (cases "x = None")
    case False
    with 2 have IH: "k + 1 \<le> free_from xs (k + 1)" "free_from xs (k + 1) - (k + 1) < length xs \<longrightarrow> xs ! (free_from xs (k + 1) - (k + 1)) = None"
      "\<And>i. i + (k + 1) < free_from xs (k + 1) \<Longrightarrow> i < length xs \<and> xs ! i \<noteq> None" by auto
    obtain d where d: "free_from xs (k + 1) = k + 1 + d" using IH(1) le_Suc_ex by blast
    have "i < length (x # xs) \<and> (x # xs) ! i \<noteq> None" if "i + k < free_from xs (k + 1)" for i
      using IH(3) [of "i - 1"] that False by (cases i) auto
    with False IH(2) d show ?thesis by (auto simp: Suc_diff_le)
  qed simp
qed simp

lemma free_from_drop:
  fixes k :: nat and xs :: "nat option list"
  defines "r \<equiv> free_from (drop k xs) k"
  shows "k \<le> r" "r < length xs \<Longrightarrow> xs ! r = None" "k \<le> i \<Longrightarrow> i < r \<Longrightarrow> i < length xs \<and> xs ! i \<noteq> None"
proof -
  note f = free_from_spec [of k "drop k xs", folded r_def]
  show k: "k \<le> r" using f by blast
  show "r < length xs \<Longrightarrow> xs ! r = None" using f k by auto
  show "k \<le> i \<Longrightarrow> i < r \<Longrightarrow> i < length xs \<and> xs ! i \<noteq> None"
    using f by (auto dest!: spec [of _ "i - k"])
qed

text \<open>
  \<open>fcntl(F_DUPFD)\<close> gives the lowest free descriptor that is not below its argument, and the new
  stream shares flags and position with the old one: a seek on one of them moves the other.
\<close>

theorem dup_shares_position:
  assumes "syscall_fcntl64 fd 0 varargs st = (Inr r, st')" and "getStreamFromFD fd (files st) = Inr x"
    and "0 \<le> sint (get_arg varargs st)" and "x \<noteq> nextStream (files st)"
  shows "sint (get_arg varargs st) \<le> r \<and> getStream (nat r) (files st) = None
    \<and> (\<forall>k. sint (get_arg varargs st) \<le> int k \<and> int k < r \<longrightarrow> getStream k (files st) \<noteq> None)
    \<and> (\<exists>y. getStream (nat r) (files st') = Some y \<and> stream_flags y (files st') = stream_flags x (files st)
         \<and> stream_position y (files st') = stream_position x (files st)
         \<and> (\<forall>p. stream_position y (set_position x p (files st')) = p))"
proof -
  let ?a = "nat (sint (get_arg varargs st))" and ?s = "files st"
  let ?new = "free_from (drop ?a (streams ?s)) ?a"
  let ?y = "nextStream ?s"
  have "r = int ?new \<and> files st' = ?s\<lparr>nextStream := ?y + 1,
      stream_table := (stream_table ?s)(?y := (stream_table ?s x)\<lparr>stream_fd := Some ?new\<rparr>),
      streams := set_slot ?new (Some ?y) (streams ?s)\<rparr>"
    using assms(1-3)
    by (auto simp: syscall_fcntl64_def syscall_def reading_def on_files_def dupStream_def createStream_def bnd_def Let_def)
  then have r: "r = int ?new" and s': "streams (files st') = set_slot ?new (Some ?y) (streams ?s)"
    "stream_table (files st') = (stream_table ?s)(?y := (stream_table ?s x)\<lparr>stream_fd := Some ?new\<rparr>)"
    "shared_table (files st') = shared_table ?s"
    by auto
  note f = free_from_drop [where k = ?a and xs = "streams ?s"]
  have "getStream ?new ?s = None" using f(2) by (simp add: getStream_def)
  moreover have "getStream k ?s \<noteq> None" if "?a \<le> k" "k < ?new" for k
    using f(3) that by (simp add: getStream_def)
  moreover have "getStream ?new (files st') = Some ?y" using getStream_set_slot [OF s'(1)] by simp
  moreover have "stream_position ?y (set_position x p (files st')) = p" for p
    using assms(4) by (simp add: s' stream_position_def set_position_def)
  ultimately show ?thesis
    using f(1) r assms(3) by (auto simp: s' stream_flags_def stream_position_def nat_le_iff le_nat_iff)
qed

lemma dup_shares_position_witness:
  "\<exists>st st'. syscall_fcntl64 0 0 0 st = (Inr 1, st') \<and> getStream 1 (files st') \<noteq> None"
proof -
  let ?st = "\<lparr>mem = [0, 0, 0, 0], files = (initial_fs 7)\<lparr>streams := [Some 5]\<rparr>, utf8_decoder = None\<rparr>"
  have arg: "get_arg 0 ?st = 0" by (simp add: get_arg_def HEAP32_get_def typed_load_def)
  have x: "getStreamFromFD 0 (files ?st) = Inr 5" by (simp add: getStreamFromFD_def getStreamChecked_def getStream_def)
  have n: "(5 :: nat) \<noteq> nextStream (files ?st)" by (simp add: initial_fs_def)
  obtain st' where run: "syscall_fcntl64 0 0 0 ?st = (Inr 1, st')"
    using arg x by (simp add: syscall_fcntl64_def syscall_def reading_def on_files_def dupStream_def createStream_def bnd_def Let_def)
  have "0 \<le> sint (get_arg 0 ?st)" by (simp add: arg)
  from dup_shares_position [OF run x this n] run show ?thesis by auto
qed

section \<open>The status structure\<close>

lemma stores_simps [simp]: "stores [] m = m" "stores (w # ws) m = stores ws (w m)"
  by (simp_all add: stores_def)

lemma write_stat_reads:
  assumes "8 * q + 96 \<le> length m"
  shows "HEAP32_get (8 * q + 4) (write_stat a (8 * q) m) = attr_mode a"
    "HEAP64_get (8 * q + 24) (write_stat a (8 * q) m) = of_nat (attr_size a)"
    "HEAP64_get (8 * q + 56) (write_stat a (8 * q) m) = of_nat (attr_mtime a div 1000)"
    "HEAP64_get (8 * q + 88) (write_stat a (8 * q) m) = of_nat (attr_ino a)"
  using assms by (simp_all add: write_stat_def HEAP_other HEAP_get_set)

lemma untouched_stores:
  "list_all (\<lambda>w. \<forall>m. untouched a b m (w m)) ws \<Longrightarrow> untouched a b m (stores ws m)"
  by (induction ws arbitrary: m) (auto intro: untouched_trans)

lemma write_stat_untouched: "untouched (8 * q) (8 * q + 96) m (write_stat a (8 * q) m)"
  unfolding write_stat_def
  by (rule untouched_stores) (simp add: untouched_set)

text \<open>
  Where the file exists, \<open>stat64\<close> returns 0 and fills the 96 bytes of an aligned structure: type and
  permissions, size, modification time and inode can be read back from it, and no other byte of memory and
  nothing in the file system changes. Where it does not, the negative error number is all that happens.
\<close>

theorem stat64_fills_structure:
  assumes "buf mod 8 = 0" and "buf + 96 \<le> length (mem st)"
  shows "case FS_stat (getStr path st) False (files st) of
      Inr a \<Rightarrow> \<exists>m. syscall_stat64 path buf st = (Inr 0, st\<lparr>mem := m\<rparr>) \<and> untouched buf (buf + 96) (mem st) m
        \<and> HEAP32_get (buf + 4) m = attr_mode a \<and> HEAP64_get (buf + 24) m = of_nat (attr_size a)
        \<and> HEAP64_get (buf + 56) m = of_nat (attr_mtime a div 1000) \<and> HEAP64_get (buf + 88) m = of_nat (attr_ino a)
    | Inl (ErrnoError e) \<Rightarrow> syscall_stat64 path buf st = (Inr (- int e), st)
    | Inl e \<Rightarrow> syscall_stat64 path buf st = (Inl e, st)"
proof -
  define q where "q = buf div 8"
  then have q: "buf = 8 * q" using assms(1) by presburger
  show ?thesis
  proof (cases "FS_stat (getStr path st) False (files st)")
    case (Inl e)
    then show ?thesis by (cases e) (simp_all add: syscall_stat64_def syscall_def doStat_def reading_def bnd_def)
  next
    case (Inr a)
    then have "syscall_stat64 path buf st = (Inr 0, st\<lparr>mem := write_stat a buf (mem st)\<rparr>)"
      by (simp add: syscall_stat64_def syscall_def doStat_def reading_def on_mem_def bnd_def)
    moreover have "8 * q + 96 \<le> length (mem st)" using assms(2) q by simp
    note write_stat_reads [OF this, of a]
    ultimately show ?thesis using Inr write_stat_untouched [of q "mem st" a] by (auto simp: q)
  qed
qed

definition path_memory :: heap where "path_memory = replicate 96 0 @ [47, 97, 0, 0]"

lemma stat64_fills_structure_witness:
  "\<exists>m. syscall_stat64 96 0 \<lparr>mem = path_memory, files = fs_a 7, utf8_decoder = None\<rparr>
        = (Inr 0, \<lparr>mem = m, files = fs_a 7, utf8_decoder = None\<rparr>) \<and> HEAP32_get 4 m = 33206 \<and> HEAP64_get 88 m = 2"
proof -
  let ?st = "\<lparr>mem = path_memory, files = fs_a 7, utf8_decoder = None\<rparr>"
  have path: "getStr 96 ?st = ''/a''"
    by (simp add: getStr_def of_units_def UTF8ToString_def UTF8ArrayToString_def path_memory_def scan_end.simps
        byte_at_def nth_append decode_loop.simps decode_step_def fromCharCode_def char_of_def bit_0 Let_def)
  have "FS_lookupPath ''/a'' (following True) (fs_a 7) = Inr (''/a'', Some 2)" by (rule mayOpen_example(1))
  moreover have "node_ops (nodes (fs_a 7) 2) = FileOps" using mayOpen_example(5) by (simp add: may_open_file_def)
  ultimately have stat: "FS_stat ''/a'' False (fs_a 7) = Inr (MEMFS_getattr 2 (fs_a 7))" by (simp add: FS_stat_def)
  have "mode (nodes (fs_a frames) 2) = 33206" for frames
    by (simp add: example_states fs_eval find_chain_numeral follow_links_numeral)
  then have "attr_mode (MEMFS_getattr 2 (fs_a 7)) = 33206" "attr_ino (MEMFS_getattr 2 (fs_a 7)) = 2"
    by (simp_all add: MEMFS_getattr_def Let_def)
  moreover have "length (mem ?st) = 100" by (simp add: path_memory_def)
  ultimately show ?thesis
    using stat64_fills_structure [of 0 ?st 96] path stat by auto
qed

section \<open>Links\<close>

lemma readlinkat_run:
  assumes "calculateAt dirfd (getStr path st) False (files st) = Inr p" and "FS_readlink p (files st) = Inr target"
    and "0 < bufsize" and "buf + nat bufsize + 1 \<le> length (mem st)"
  defines "n \<equiv> min (nat bufsize) (lengthBytesUTF8 (to_units target))"
  shows "syscall_readlinkat dirfd path buf bufsize st =
    (Inr (int n), st\<lparr>mem := (take buf (mem st) @ utf8_prefix (to_units target) (nat bufsize) @ [0]
        @ drop (buf + length (utf8_prefix (to_units target) (nat bufsize)) + 1) (mem st)) [buf + n := mem st ! (buf + n)]\<rparr>)"
proof -
  have "n \<le> nat bufsize" by (simp add: n_def)
  then have "buf + n < length (mem st)" using assms(4) by linarith
  with assms(1-3) stringToUTF8Array_heap [of "nat bufsize + 1" buf "mem st" "to_units target"] assms(4) show ?thesis
    by (simp add: syscall_readlinkat_def syscall_def at_path_def reading_def bnd_def stringToUTF8_def HEAP8_get_def
        HEAP8_set_def n_def [symmetric] Let_def)
qed

text \<open>
  When the target of the link fits, \<open>readlinkat\<close> stores exactly its encoding, without a terminator: it
  returns the number of bytes, and every other byte of memory is as it was, also the one behind them.
\<close>

theorem readlinkat_stores_target:
  assumes "calculateAt dirfd (getStr path st) False (files st) = Inr p" and "FS_readlink p (files st) = Inr target"
    and "0 < bufsize" and "buf + nat bufsize + 1 \<le> length (mem st)"
    and "lengthBytesUTF8 (to_units target) \<le> nat bufsize"
  shows "syscall_readlinkat dirfd path buf bufsize st =
    (let enc = utf8_encode (to_units target)
     in (Inr (int (length enc)), st\<lparr>mem := take buf (mem st) @ enc @ drop (buf + length enc) (mem st)\<rparr>))"
proof -
  let ?enc = "utf8_encode (to_units target)"
  have enc: "lengthBytesUTF8 (to_units target) = length ?enc" by (simp add: length_utf8_encode)
  then have pre: "utf8_prefix (to_units target) (nat bufsize) = ?enc"
    using assms(5) by (intro utf8_prefix_all) (simp add: length_utf8_encode)
  have "buf + length ?enc < length (mem st)" using assms(4,5) enc by linarith
  then have "(take buf (mem st) @ ?enc @ [0] @ drop (buf + length ?enc + 1) (mem st)) [buf + length ?enc := mem st ! (buf + length ?enc)]
      = take buf (mem st) @ ?enc @ drop (buf + length ?enc) (mem st)"
    by (simp add: list_update_append Cons_nth_drop_Suc)
  moreover have "min (nat bufsize) (lengthBytesUTF8 (to_units target)) = length ?enc"
    using assms(5) enc by linarith
  ultimately show ?thesis
    by (simp only: readlinkat_run [OF assms(1-4)] pre Let_def)
qed

definition accented :: string where "accented = ''a'' @ [char_of (0xE9 :: nat)]"

definition fs_link :: "nat \<Rightarrow> fs" where "fs_link frames = snd (FS_symlink accented ''/l'' (mounted_fs frames))"

lemma link_example: "FS_readlink ''/l'' (fs_link 7) = Inr (slash # accented)"
proof -
  have "FS_readlink ''/l'' (fs_link frames) = Inr (slash # accented)" for frames
    by (simp add: fs_link_def accented_def example_states fs_eval find_chain_numeral follow_links_numeral FS_symlink_def
        MEMFS_symlink_def FS_readlink_def readlink_at_def char_of_def bit_0)
  then show ?thesis .
qed

definition link_machine :: machine where
  "link_machine = \<lparr>mem = [0, 47, 108, 0, 7, 7, 7, 7, 7, 7], files = fs_link 7, utf8_decoder = None\<rparr>"

lemma link_path: "calculateAt 0 (getStr 1 link_machine) False (files link_machine) = Inr ''/l''"
  by (simp add: calculateAt_def getStr_def of_units_def UTF8ToString_def UTF8ArrayToString_def link_machine_def scan_end.simps
      byte_at_def decode_loop.simps decode_step_def fromCharCode_def char_of_def bit_0 isAbs_def Let_def)

lemma link_encoding: "utf8_encode (to_units (slash # accented)) = [47, 97, 0xC3, 0xA9]"
  "lengthBytesUTF8 (to_units (slash # accented)) = 4"
  "utf8_prefix (to_units (slash # accented)) 3 = [47, 97]"
  by (simp_all add: to_units_def accented_def utf8_bytes_def code_point_def after_code_point_def is_surrogate_def Let_def)

lemma readlinkat_stores_target_witness:
  "\<exists>st. syscall_readlinkat 0 1 4 4 link_machine = (Inr 4, st) \<and> mem st = [0, 47, 108, 0, 47, 97, 0xC3, 0xA9, 7, 7]"
proof -
  have "FS_readlink ''/l'' (files link_machine) = Inr (slash # accented)"
    using link_example by (simp add: link_machine_def)
  from readlinkat_stores_target [OF link_path this, of 4 4] show ?thesis
    by (auto simp: link_machine_def link_encoding Let_def)
qed

text \<open>
  When the buffer ends inside a character, \<open>readlinkat\<close> counts the whole buffer as written, but the
  encoder stops before the character: the count covers a 0 byte that is not part of the target.
\<close>

theorem readlinkat_counts_unwritten_byte:
  "\<exists>st. syscall_readlinkat 0 1 4 3 link_machine = (Inr 3, st) \<and> take 3 (drop 4 (mem st)) = [47, 97, 0]
     \<and> FS_readlink ''/l'' (files link_machine) = Inr (slash # accented)
     \<and> take 3 (utf8_encode (to_units (slash # accented))) = [47, 97, 0xC3]"
proof -
  have l: "FS_readlink ''/l'' (files link_machine) = Inr (slash # accented)"
    using link_example by (simp add: link_machine_def)
  from readlinkat_run [OF link_path this, of 3 4] l show ?thesis
    by (auto simp: link_machine_def link_encoding)
qed

end
