(* ===== verification/Dates.thy ===== *)
theory Dates
  imports Memory
begin

text \<open>
  Dates: the part of the JavaScript \<open>Date\<close> object the runtime uses, as the language defines it, and on
  top of it the calendar functions of \<open>dotnet.native.686cmdkyav.js\<close>: leap years, the day of the year,
  \<open>__localtime_js\<close>, \<open>__tzset_js\<close> and the day arithmetic \<open>addDays\<close> of \<open>strftime\<close>.

  A date holds a time value, the milliseconds since 1970 in UTC, or \<open>NaN\<close>, which is \<^term>\<open>None\<close>. The
  time zone of the system is a parameter: the offset at a time value and the offset used for a local
  time, in minutes west of UTC, whole minutes as the engines give them.
\<close>

section \<open>Days, years and months\<close>

definition isLeapYear :: "int \<Rightarrow> bool" where
  "isLeapYear year \<longleftrightarrow> year mod 4 = 0 \<and> (year mod 100 \<noteq> 0 \<or> year mod 400 = 0)"

definition MONTH_DAYS_LEAP :: "int list" where
  "MONTH_DAYS_LEAP = [31, 29, 31, 30, 31, 30, 31, 31, 30, 31, 30, 31]"

definition MONTH_DAYS_REGULAR :: "int list" where
  "MONTH_DAYS_REGULAR = [31, 28, 31, 30, 31, 30, 31, 31, 30, 31, 30, 31]"

definition MONTH_DAYS_LEAP_CUMULATIVE :: "int list" where
  "MONTH_DAYS_LEAP_CUMULATIVE = [0, 31, 60, 91, 121, 152, 182, 213, 244, 274, 305, 335]"

definition MONTH_DAYS_REGULAR_CUMULATIVE :: "int list" where
  "MONTH_DAYS_REGULAR_CUMULATIVE = [0, 31, 59, 90, 120, 151, 181, 212, 243, 273, 304, 334]"

text \<open>The day number of the first day of a year, and the year of a day number.\<close>

definition DayFromYear :: "int \<Rightarrow> int" where
  "DayFromYear y = 365 * (y - 1970) + (y - 1969) div 4 - (y - 1901) div 100 + (y - 1601) div 400"

definition YearFromDay :: "int \<Rightarrow> int" where
  "YearFromDay d =
     (let y = 1970 + 400 * d div 146097 in
      if d < DayFromYear y then y - 1 else if DayFromYear (y + 1) \<le> d then y + 1 else y)"

definition month_lengths :: "int \<Rightarrow> int list" where
  "month_lengths y = (if isLeapYear y then MONTH_DAYS_LEAP else MONTH_DAYS_REGULAR)"

fun month_date :: "int list \<Rightarrow> int \<Rightarrow> nat \<times> int" where
  "month_date [] k = (0, k + 1)"
| "month_date (l # ls) k = (if k < l then (0, k + 1) else (let (m, d) = month_date ls (k - l) in (Suc m, d)))"

definition civil :: "int \<Rightarrow> int \<times> nat \<times> int" where
  "civil d = (let y = YearFromDay d; (m, dt) = month_date (month_lengths y) (d - DayFromYear y) in (y, m, dt))"

definition MakeDay :: "int \<Rightarrow> int \<Rightarrow> int \<Rightarrow> int" where
  "MakeDay year month dt =
     (let ym = year + month div 12 in
      DayFromYear ym + sum_list (take (nat (month mod 12)) (month_lengths ym)) + dt - 1)"

section \<open>Date objects\<close>

type_synonym date = "int option"

record zone =
  zone_offset :: "int \<Rightarrow> int"
  local_offset :: "int \<Rightarrow> int"

definition msPerDay :: int where "msPerDay = 86400000"

definition TimeClip :: "int \<Rightarrow> date" where
  "TimeClip t = (if \<bar>t\<bar> \<le> 8640000000000000 then Some t else None)"

definition LocalTime :: "zone \<Rightarrow> int \<Rightarrow> int" where "LocalTime z t = t - zone_offset z t * 60000"
definition UTC :: "zone \<Rightarrow> int \<Rightarrow> int" where "UTC z t = t + local_offset z t * 60000"

definition local_day :: "zone \<Rightarrow> int \<Rightarrow> int" where "local_day z t = LocalTime z t div msPerDay"

definition getFullYear :: "zone \<Rightarrow> date \<Rightarrow> int option" where
  "getFullYear z = map_option (\<lambda>t. fst (civil (local_day z t)))"

definition getMonth :: "zone \<Rightarrow> date \<Rightarrow> nat option" where
  "getMonth z = map_option (\<lambda>t. fst (snd (civil (local_day z t))))"

definition getDate :: "zone \<Rightarrow> date \<Rightarrow> int option" where
  "getDate z = map_option (\<lambda>t. snd (snd (civil (local_day z t))))"

definition week_day :: "int \<Rightarrow> int" where "week_day d = (d + 4) mod 7"

definition getDay :: "zone \<Rightarrow> date \<Rightarrow> int option" where
  "getDay z = map_option (\<lambda>t. week_day (local_day z t))"

definition getHours :: "zone \<Rightarrow> date \<Rightarrow> int option" where
  "getHours z = map_option (\<lambda>t. LocalTime z t div 3600000 mod 24)"

definition getMinutes :: "zone \<Rightarrow> date \<Rightarrow> int option" where
  "getMinutes z = map_option (\<lambda>t. LocalTime z t div 60000 mod 60)"

definition getSeconds :: "zone \<Rightarrow> date \<Rightarrow> int option" where
  "getSeconds z = map_option (\<lambda>t. LocalTime z t div 1000 mod 60)"

definition getTimezoneOffset :: "zone \<Rightarrow> date \<Rightarrow> int option" where
  "getTimezoneOffset z = map_option (zone_offset z)"

definition date_at :: "zone \<Rightarrow> int \<Rightarrow> int \<Rightarrow> date" where
  "date_at z d time = TimeClip (UTC z (d * msPerDay + time))"

text \<open>\<open>new Date(y, m, d)\<close> takes a year of two digits for one of the twentieth century.\<close>

definition new_Date :: "zone \<Rightarrow> int \<Rightarrow> int \<Rightarrow> int \<Rightarrow> date" where
  "new_Date z y m d = date_at z (MakeDay (if 0 \<le> y \<and> y \<le> 99 then 1900 + y else y) m d) 0"

definition on_local :: "zone \<Rightarrow> (int \<times> nat \<times> int \<Rightarrow> int) \<Rightarrow> date \<Rightarrow> date" where
  "on_local z f date =
     Option.bind date (\<lambda>t. date_at z (f (civil (local_day z t))) (LocalTime z t mod msPerDay))"

definition setDate :: "zone \<Rightarrow> int \<Rightarrow> date \<Rightarrow> date" where
  "setDate z d = on_local z (\<lambda>(y, m, _). MakeDay y (int m) d)"

definition setMonth :: "zone \<Rightarrow> int \<Rightarrow> date \<Rightarrow> date" where
  "setMonth z m = on_local z (\<lambda>(y, _, d). MakeDay y m d)"

definition setFullYear :: "zone \<Rightarrow> int \<Rightarrow> date \<Rightarrow> date" where
  "setFullYear z y = on_local z (\<lambda>(_, m, d). MakeDay y (int m) d)"

section \<open>The functions of the runtime\<close>

text \<open>\<open>None\<close> is \<open>NaN\<close>; a store of \<open>NaN\<close> into a typed array stores 0.\<close>

definition ydayFromDate :: "zone \<Rightarrow> date \<Rightarrow> int option" where
  "ydayFromDate z date =
     Option.bind (getFullYear z date) (\<lambda>y. Option.bind (getMonth z date) (\<lambda>m. Option.bind (getDate z date) (\<lambda>d.
       let monthDaysCumulative = (if isLeapYear y then MONTH_DAYS_LEAP_CUMULATIVE else MONTH_DAYS_REGULAR_CUMULATIVE)
       in Some (monthDaysCumulative ! m + d - 1))))"

definition number_word :: "int option \<Rightarrow> i32" where
  "number_word n = (case n of None \<Rightarrow> 0 | Some k \<Rightarrow> of_int k)"

definition put_number :: "nat \<Rightarrow> int option \<Rightarrow> heap \<Rightarrow> heap" where
  "put_number ptr n = HEAP32_set ptr (number_word n)"

definition standard_offsets :: "zone \<Rightarrow> int option \<Rightarrow> int option \<times> int option" where
  "standard_offsets z year =
     (let first = (\<lambda>m. Option.bind year (\<lambda>y. new_Date z y m 1))
      in (getTimezoneOffset z (first 0), getTimezoneOffset z (first 6)))"

definition dst_flag :: "zone \<Rightarrow> date \<Rightarrow> int" where
  "dst_flag z date =
     (let (winter, summer) = standard_offsets z (getFullYear z date) in
      case (winter, summer, getTimezoneOffset z date) of
        (Some w, Some s, Some off) \<Rightarrow> if s \<noteq> w \<and> off = min w s then 1 else 0
      | _ \<Rightarrow> 0)"

definition localtime_js :: "zone \<Rightarrow> int option \<Rightarrow> nat \<Rightarrow> heap \<Rightarrow> heap" where
  "localtime_js z time tmPtr m =
     (let date = Option.bind time (\<lambda>t. TimeClip (t * 1000)) in
      fold (\<lambda>(at, n). put_number (tmPtr + at) n)
       [(0, getSeconds z date), (4, getMinutes z date), (8, getHours z date), (12, getDate z date),
        (16, map_option int (getMonth z date)), (20, map_option (\<lambda>y. y - 1900) (getFullYear z date)),
        (24, getDay z date), (28, ydayFromDate z date),
        (36, map_option (\<lambda>off. - (off * 60)) (getTimezoneOffset z date)), (32, Some (dst_flag z date))] m)"

text \<open>
  \<open>__tzset_js\<close> in the year \<open>currentYear\<close>; the names that the engine prints in \<open>toTimeString\<close> are parameters,
  \<open>None\<close> when the pattern does not match.
\<close>

definition extractZone :: "js_units option \<Rightarrow> js_units" where
  "extractZone match = (case match of Some name \<Rightarrow> name | None \<Rightarrow> [71, 77, 84])"

definition tzset_js ::
  "zone \<Rightarrow> int \<Rightarrow> js_units option \<Rightarrow> js_units option \<Rightarrow> nat \<Rightarrow> nat \<Rightarrow> nat \<Rightarrow> nat \<Rightarrow> heap \<Rightarrow> heap" where
  "tzset_js z currentYear winter_match summer_match timezone daylight std_name dst_name m =
     (case standard_offsets z (Some currentYear) of
        (Some winterOffset, Some summerOffset) \<Rightarrow>
          let stdTimezoneOffset = max winterOffset summerOffset;
              m1 = HEAP32_set timezone (of_int (stdTimezoneOffset * 60)) m;
              m2 = HEAP32_set daylight (if winterOffset \<noteq> summerOffset then 1 else 0) m1;
              winterName = extractZone winter_match;
              summerName = extractZone summer_match
          in if summerOffset < winterOffset
             then fst (stringToUTF8 summerName dst_name 7 (fst (stringToUTF8 winterName std_name 7 m2)))
             else fst (stringToUTF8 summerName std_name 7 (fst (stringToUTF8 winterName dst_name 7 m2)))
      | _ \<Rightarrow> m)"

definition arraySum :: "int list \<Rightarrow> int \<Rightarrow> int option" where
  "arraySum arr index =
     (let n = nat (index + 1) in if n \<le> length arr then Some (sum_list (take n arr)) else None)"

text \<open>The loop of \<open>addDays\<close>; every round but the last uses up at least one day.\<close>

definition days_left :: "zone \<Rightarrow> int \<Rightarrow> int" where
  "days_left z t =
     (let (y, m, d) = civil (local_day z t) in (if isLeapYear y then MONTH_DAYS_LEAP else MONTH_DAYS_REGULAR) ! m - d)"

definition next_month :: "zone \<Rightarrow> date \<Rightarrow> date" where
  "next_month z date =
     (let currentMonth = getMonth z date; d1 = setDate z 1 date in
      case currentMonth of
        None \<Rightarrow> None
      | Some m \<Rightarrow>
          if m < 11 then setMonth z (int m + 1) d1
          else let d2 = setMonth z 0 d1 in
            Option.bind (getFullYear z d2) (\<lambda>y. setFullYear z (y + 1) d2))"


section \<open>The calendar\<close>

lemma div_between: "0 < (n :: int) \<Longrightarrow> n * (a div n) \<le> a" "0 < (n :: int) \<Longrightarrow> a < n * (a div n) + n"
  using pos_mod_bound [of n a] pos_mod_sign [of n a] mult_div_mod_eq [of n a] by linarith+

lemma div_next: "0 < (n :: int) \<Longrightarrow> (a + 1) div n = a div n + (if n dvd a + 1 then 1 else 0)"
proof -
  assume n: "0 < n"
  have a: "a + 1 = n * (a div n) + (a mod n + 1)" by simp
  have b: "0 \<le> a mod n" "a mod n < n" using n by simp_all
  show ?thesis
  proof (cases "a mod n + 1 = n")
    case True
    then have "a + 1 = n * (a div n + 1)" using a by (simp add: algebra_simps)
    then show ?thesis using n by simp
  next
    case False
    with b have r: "0 \<le> a mod n + 1" "a mod n + 1 < n" by linarith+
    have "(a + 1) div n = a div n" using int_div_pos_eq [OF a r] .
    moreover have "(a + 1) mod n = a mod n + 1" using int_mod_pos_eq [OF a r] .
    ultimately show ?thesis using b by (simp add: dvd_eq_mod_eq_0)
  qed
qed

lemma isLeapYear_dvd: "isLeapYear y \<longleftrightarrow> 4 dvd y \<and> (\<not> 100 dvd y \<or> 400 dvd y)"
  by (simp add: isLeapYear_def dvd_eq_mod_eq_0)

lemma DayFromYear_next: "DayFromYear (y + 1) = DayFromYear y + (if isLeapYear y then 366 else 365)"
proof -
  have regroup: "365 * (y + 1 - 1970) + (a + p) - (b + q) + (c + r) = 365 * (y - 1970) + a - b + c + 365 + p - q + r"
    for a b c p q r :: int by simp
  have "y + 1 - 1969 = (y - 1969) + 1" "y + 1 - 1901 = (y - 1901) + 1" "y + 1 - 1601 = (y - 1601) + 1" by simp_all
  then have "DayFromYear (y + 1) = 365 * (y + 1 - 1970) + ((y - 1969) div 4 + (if 4 dvd y - 1969 + 1 then 1 else 0))
     - ((y - 1901) div 100 + (if 100 dvd y - 1901 + 1 then 1 else 0))
     + ((y - 1601) div 400 + (if 400 dvd y - 1601 + 1 then 1 else 0))"
    by (simp only: DayFromYear_def div_next)
  moreover have "4 dvd y - 1969 + 1 \<longleftrightarrow> 4 dvd y" "100 dvd y - 1901 + 1 \<longleftrightarrow> 100 dvd y" "400 dvd y - 1601 + 1 \<longleftrightarrow> 400 dvd y"
    using dvd_diff_left_iff [of 4 1968 y] dvd_diff_left_iff [of 100 1900 y] dvd_diff_left_iff [of 400 1600 y] by simp_all
  ultimately have step: "DayFromYear (y + 1) = DayFromYear y + 365 + (if 4 dvd y then 1 else 0)
      - (if 100 dvd y then 1 else 0) + (if 400 dvd y then 1 else 0)"
    by (simp only: DayFromYear_def regroup)
  have "400 dvd y \<Longrightarrow> 100 dvd y" "100 dvd y \<Longrightarrow> 4 dvd y"
    by (erule dvd_trans [rotated]; simp)+
  then consider "400 dvd y" "100 dvd y" "4 dvd y" | "\<not> 400 dvd y" "100 dvd y" "4 dvd y"
    | "\<not> 400 dvd y" "\<not> 100 dvd y" "4 dvd y" | "\<not> 400 dvd y" "\<not> 100 dvd y" "\<not> 4 dvd y" by blast
  then show ?thesis by cases (simp_all add: step isLeapYear_dvd)
qed

lemma DayFromYear_bounds:
  "146097 * (y - 1970) - 506 \<le> 400 * DayFromYear y" "400 * DayFromYear y \<le> 146097 * (y - 1970) + 589"
  unfolding DayFromYear_def
  using div_between [of 4 "y - 1969"] div_between [of 100 "y - 1901"] div_between [of 400 "y - 1601"] by simp_all

lemma DayFromYear_strict: "y < y' \<Longrightarrow> DayFromYear y + 365 \<le> DayFromYear y'"
proof (induction y' rule: int_gr_induct)
  case base
  then show ?case by (simp add: DayFromYear_next)
next
  case (step i)
  then show ?case by (simp add: DayFromYear_next split: if_splits)
qed

lemma YearFromDay_bounds: "DayFromYear (YearFromDay d) \<le> d" "d < DayFromYear (YearFromDay d + 1)"
proof -
  define g where "g = 1970 + 400 * d div 146097"
  have g: "146097 * (g - 1970) \<le> 400 * d" "400 * d < 146097 * (g - 1970) + 146097"
    unfolding g_def using div_between [of 146097 "400 * d"] by simp_all
  have "DayFromYear (g - 1) \<le> d" using DayFromYear_bounds(2) [of "g - 1"] g by (simp add: algebra_simps)
  moreover have "d < DayFromYear (g + 2)" using DayFromYear_bounds(1) [of "g + 2"] g by (simp add: algebra_simps)
  ultimately show "DayFromYear (YearFromDay d) \<le> d" "d < DayFromYear (YearFromDay d + 1)"
    by (auto simp: YearFromDay_def g_def [symmetric] Let_def add.assoc)
qed

lemma DayFromYear_mono: "y \<le> y' \<Longrightarrow> DayFromYear y \<le> DayFromYear y'"
  using DayFromYear_strict [of y y'] by (cases "y = y'") auto

lemma YearFromDay_unique: "DayFromYear y \<le> d \<Longrightarrow> d < DayFromYear (y + 1) \<Longrightarrow> YearFromDay d = y"
  using YearFromDay_bounds [of d] DayFromYear_mono [of "y + 1" "YearFromDay d"] DayFromYear_mono [of "YearFromDay d + 1" y]
  by (cases "YearFromDay d" y rule: linorder_cases) auto

lemma month_date_bounds:
  assumes "0 \<le> k" and "k < sum_list ls" and "month_date ls k = (m, d)"
  shows "m < length ls \<and> sum_list (take m ls) + d - 1 = k \<and> 1 \<le> d \<and> d \<le> ls ! m"
  using assms
proof (induction ls k arbitrary: m rule: month_date.induct)
  case (2 l ls k)
  show ?case
  proof (cases "k < l")
    case False
    then obtain m' where "month_date ls (k - l) = (m', d)" "m = Suc m'"
      using 2(4) by (auto split: prod.splits)
    with 2 False show ?thesis by force
  qed (use 2 in auto)
qed simp

lemma month_date_unique:
  assumes "\<forall>l \<in> set ls. 0 < l" and "m < length ls" and "1 \<le> d" and "d \<le> ls ! m"
  shows "month_date ls (sum_list (take m ls) + d - 1) = (m, d)"
  using assms
proof (induction ls arbitrary: m)
  case (Cons l ls)
  show ?case
  proof (cases m)
    case (Suc m')
    have "0 \<le> sum_list (take m' ls)" using Cons.prems(1) by (intro sum_list_nonneg) (auto dest!: in_set_takeD intro: less_imp_le)
    with Cons Suc show ?thesis by (auto simp: algebra_simps)
  qed (use Cons in auto)
qed simp

lemma month_lengths_simps [simp]: "length (month_lengths y) = 12" "\<forall>l \<in> set (month_lengths y). 0 < l"
  "sum_list (month_lengths y) = (if isLeapYear y then 366 else 365)"
  by (simp_all add: month_lengths_def MONTH_DAYS_LEAP_def MONTH_DAYS_REGULAR_def)

definition valid_date :: "int \<times> nat \<times> int \<Rightarrow> bool" where
  "valid_date c = (case c of (y, m, d) \<Rightarrow> m < 12 \<and> 1 \<le> d \<and> d \<le> month_lengths y ! m)"

definition day_of :: "int \<times> nat \<times> int \<Rightarrow> int" where
  "day_of c = (case c of (y, m, d) \<Rightarrow> DayFromYear y + sum_list (take m (month_lengths y)) + d - 1)"

lemma civil_valid: "valid_date (civil d)" and day_of_civil: "day_of (civil d) = d"
  and civil_year: "fst (civil d) = YearFromDay d"
proof -
  let ?y = "YearFromDay d"
  obtain m dt where md: "month_date (month_lengths ?y) (d - DayFromYear ?y) = (m, dt)" by fastforce
  have "0 \<le> d - DayFromYear ?y" "d - DayFromYear ?y < sum_list (month_lengths ?y)"
    using YearFromDay_bounds [of d] by (auto simp: DayFromYear_next)
  from month_date_bounds [OF this md] md
  show "valid_date (civil d)" "day_of (civil d) = d" "fst (civil d) = ?y"
    by (auto simp: valid_date_def day_of_def civil_def Let_def)
qed

lemma month_within_year:
  assumes "valid_date (y, m, d)"
  shows "0 \<le> sum_list (take m (month_lengths y)) + d - 1" "sum_list (take m (month_lengths y)) + d - 1 < (if isLeapYear y then 366 else 365)"
proof -
  let ?ls = "month_lengths y"
  have nn: "0 \<le> sum_list (take m ?ls)" "0 \<le> sum_list (drop (Suc m) ?ls)"
    using month_lengths_simps(2) [of y]
    by (auto intro!: sum_list_nonneg dest!: in_set_takeD in_set_dropD intro: less_imp_le)
  have "sum_list ?ls = sum_list (take m ?ls) + (?ls ! m + sum_list (drop (Suc m) ?ls))"
    using assms by (metis (no_types, lifting) append_take_drop_id Cons_nth_drop_Suc valid_date_def case_prod_conv month_lengths_simps(1) sum_list.Cons sum_list.append)
  with assms nn show "0 \<le> sum_list (take m ?ls) + d - 1" "sum_list (take m ?ls) + d - 1 < (if isLeapYear y then 366 else 365)"
    by (auto simp: valid_date_def)
qed

lemma civil_day_of: "valid_date c \<Longrightarrow> civil (day_of c) = c"
proof -
  assume v: "valid_date c"
  obtain y m d where c: "c = (y, m, d)" by (cases c) auto
  note b = month_within_year [OF v [unfolded c]]
  have "YearFromDay (day_of c) = y"
    by (rule YearFromDay_unique) (use b in \<open>auto simp: c day_of_def DayFromYear_next\<close>)
  moreover have "day_of c - DayFromYear y = sum_list (take m (month_lengths y)) + d - 1" by (simp add: c day_of_def)
  ultimately show ?thesis
    using month_date_unique [of "month_lengths y" m d] v by (simp add: civil_def c valid_date_def Let_def)
qed

lemma MakeDay_valid: "m < 12 \<Longrightarrow> MakeDay y (int m) d = day_of (y, m, d)"
  by (simp add: MakeDay_def day_of_def Let_def)


lemma civil_less: "civil d = (y, m, dt) \<Longrightarrow> m < 12 \<and> 1 \<le> dt \<and> dt \<le> month_lengths y ! m"
  using civil_valid [of d] by (simp add: valid_date_def)

lemma days_left_nonneg: "0 \<le> days_left z t"
  using civil_less [of "local_day z t"] by (auto simp: days_left_def month_lengths_def split: prod.splits)

text \<open>\<open>addDays\<close> copies the date and changes the copy.\<close>

function addDays :: "zone \<Rightarrow> date \<Rightarrow> int \<Rightarrow> date" where
  "addDays z newDate days =
     (if days \<le> 0 then newDate
      else case newDate of
        None \<Rightarrow> None
      | Some t \<Rightarrow>
          if days > days_left z t then addDays z (next_month z newDate) (days - (days_left z t + 1))
          else setDate z (snd (snd (civil (local_day z t))) + days) newDate)"
  by pat_completeness auto
termination
  by (relation "measure (\<lambda>(z, newDate, days). nat days)") (auto intro: less_le_trans [OF _ days_left_nonneg])

declare addDays.simps [simp del]

lemma addDays_step: "0 < days \<Longrightarrow> addDays z (Some t) days =
  (if days > days_left z t then addDays z (next_month z (Some t)) (days - (days_left z t + 1))
   else setDate z (snd (snd (civil (local_day z t))) + days) (Some t))"
  by (subst addDays.simps) simp

section \<open>Regular time zones\<close>

text \<open>
  A zone in which every day has a midnight, as all but a handful of zones always had: reading the local
  time of the start of a day gives the start of that day, and no offset is longer than a day.
\<close>

definition regular_zone :: "zone \<Rightarrow> bool" where
  "regular_zone z \<longleftrightarrow> (\<forall>d. \<bar>d\<bar> \<le> 99999998 \<longrightarrow>
     LocalTime z (UTC z (d * msPerDay)) = d * msPerDay \<and> \<bar>local_offset z (d * msPerDay)\<bar> \<le> 1440)"

lemma fixed_zone_regular: "\<bar>k\<bar> \<le> 1440 \<Longrightarrow> regular_zone \<lparr>zone_offset = (\<lambda>_. k), local_offset = (\<lambda>_. k)\<rparr>"
  by (simp add: regular_zone_def LocalTime_def UTC_def)

lemma midnight:
  assumes "regular_zone z" and "\<bar>d\<bar> \<le> 99999998"
  obtains t where "date_at z d 0 = Some t" and "local_day z t = d" and "LocalTime z t mod msPerDay = 0"
proof -
  let ?t = "UTC z (d * msPerDay)"
  have l: "LocalTime z ?t = d * msPerDay" and o: "\<bar>local_offset z (d * msPerDay)\<bar> \<le> 1440"
    using assms by (simp_all add: regular_zone_def)
  have "\<bar>?t\<bar> \<le> 8640000000000000"
    using o assms(2) by (simp add: UTC_def msPerDay_def abs_le_iff)
  then have "date_at z d 0 = Some ?t" by (simp add: date_at_def TimeClip_def)
  with l that show ?thesis by (simp add: local_day_def msPerDay_def)
qed

lemma set_at_midnight:
  assumes "regular_zone z" and "\<bar>d\<bar> \<le> 99999998" and "civil d = (y, m, dt)"
  shows "setDate z k (date_at z d 0) = date_at z (MakeDay y (int m) k) 0"
    "setMonth z k (date_at z d 0) = date_at z (MakeDay y k dt) 0"
    "setFullYear z k (date_at z d 0) = date_at z (MakeDay k (int m) dt) 0"
proof -
  obtain t where "date_at z d 0 = Some t" "local_day z t = d" "LocalTime z t mod msPerDay = 0"
    using midnight [OF assms(1,2)] .
  then show "setDate z k (date_at z d 0) = date_at z (MakeDay y (int m) k) 0"
    "setMonth z k (date_at z d 0) = date_at z (MakeDay y k dt) 0"
    "setFullYear z k (date_at z d 0) = date_at z (MakeDay k (int m) dt) 0"
    using assms(3) by (simp_all add: setDate_def setMonth_def setFullYear_def on_local_def)
qed

lemma get_at_midnight:
  assumes "regular_zone z" and "\<bar>d\<bar> \<le> 99999998" and "civil d = (y, m, dt)"
  shows "getFullYear z (date_at z d 0) = Some y" "getMonth z (date_at z d 0) = Some m"
    "getDate z (date_at z d 0) = Some dt" "getDay z (date_at z d 0) = Some (week_day d)"
  using midnight [OF assms(1,2)] assms(3)
  by (metis getFullYear_def getMonth_def getDate_def getDay_def option.map(2) fst_conv snd_conv)+

text \<open>The first of the month, of the year, of the next month and of the next year.\<close>

lemma first_of_month: "civil d = (y, m, dt) \<Longrightarrow> day_of (y, m, 1) = d - (dt - 1) \<and> civil (d - (dt - 1)) = (y, m, 1)"
proof -
  assume c: "civil d = (y, m, dt)"
  have "day_of (y, m, 1) = d - (dt - 1)" using day_of_civil [of d] c by (simp add: day_of_def)
  moreover have "valid_date (y, m, 1)" using civil_less [OF c] month_lengths_simps(2) [of y] by (simp add: valid_date_def)
  then have "civil (day_of (y, m, 1)) = (y, m, 1)" by (rule civil_day_of)
  ultimately show ?thesis by simp
qed

lemma day_of_next_month: "m < 11 \<Longrightarrow> day_of (y, Suc m, 1) = day_of (y, m, 1) + month_lengths y ! m"
  by (simp add: day_of_def take_Suc_conv_app_nth)

lemma day_of_next_year: "day_of (y + 1, 0, 1) = day_of (y, 11, 1) + month_lengths y ! 11"
  by (simp add: day_of_def DayFromYear_next month_lengths_def MONTH_DAYS_LEAP_def MONTH_DAYS_REGULAR_def)

lemma day_of_year: "day_of (y, 0, 1) = DayFromYear y" by (simp add: day_of_def)

lemma next_month_midnight:
  assumes z: "regular_zone z" and d: "- 99990000 \<le> d" "d \<le> 99990000" and c: "civil d = (y, m, dt)"
  shows "next_month z (date_at z d 0) = date_at z (d + (month_lengths y ! m - dt) + 1) 0"
proof -
  have b: "\<bar>d\<bar> \<le> 99999998" using d by linarith
  note first = first_of_month [OF c]
  have "dt \<le> 31" "m < 12" "1 \<le> dt"
    using civil_less [OF c] by (auto simp: month_lengths_def MONTH_DAYS_LEAP_def MONTH_DAYS_REGULAR_def less_Suc_eq numeral_eq_Suc
        split: if_splits)
  then have b1: "\<bar>d - (dt - 1)\<bar> \<le> 99999998" using d by linarith
  have d1: "setDate z 1 (date_at z d 0) = date_at z (d - (dt - 1)) 0"
    using set_at_midnight(1) [OF z b c, of 1] first MakeDay_valid [OF \<open>m < 12\<close>] by simp
  show ?thesis
  proof (cases "m < 11")
    case True
    then have "MakeDay y (int m + 1) 1 = d + (month_lengths y ! m - dt) + 1"
      using MakeDay_valid [of "Suc m" y 1] day_of_next_month [OF True, of y] first by (simp add: add.commute)
    then show ?thesis
      using True d1 set_at_midnight(2) [OF z b1 conjunct2 [OF first], of "int m + 1"] get_at_midnight(2) [OF z b c]
      by (simp add: next_month_def)
  next
    case False
    then have m: "m = 11" using \<open>m < 12\<close> by simp
    have y0: "setMonth z 0 (date_at z (d - (dt - 1)) 0) = date_at z (DayFromYear y) 0"
      using set_at_midnight(2) [OF z b1 conjunct2 [OF first], of 0] MakeDay_valid [of 0 y 1] by (simp add: day_of_year)
    have "DayFromYear y \<le> d" "d \<le> DayFromYear y + 366"
      using YearFromDay_bounds [of d] civil_year [of d] c by (auto simp: DayFromYear_next split: if_splits)
    then have b2: "\<bar>DayFromYear y\<bar> \<le> 99999998" using d by linarith
    have "valid_date (y, 0, 1)"
      by (simp add: valid_date_def month_lengths_def MONTH_DAYS_LEAP_def MONTH_DAYS_REGULAR_def)
    then have cy: "civil (DayFromYear y) = (y, 0, 1)" using civil_day_of [of "(y, 0, 1)"] by (simp add: day_of_year)
    have "MakeDay (y + 1) 0 1 = d + (month_lengths y ! m - dt) + 1"
      using MakeDay_valid [of 0 "y + 1" 1] day_of_next_year [of y] first m by simp
    then show ?thesis
      using m d1 y0 set_at_midnight(3) [OF z b2 cy, of "y + 1"] get_at_midnight(1) [OF z b2 cy] get_at_midnight(2) [OF z b c]
      by (simp add: next_month_def)
  qed
qed

lemma addDays_midnight:
  assumes "regular_zone z" and "- 99990000 \<le> d" and "0 \<le> n" and "d + n \<le> 99990000"
  shows "addDays z (date_at z d 0) n = date_at z (d + n) 0"
  using assms
proof (induction "nat n" arbitrary: d n rule: less_induct)
  case less
  show ?case
  proof (cases "n = 0")
    case False
    then have n: "0 < n" using less.prems by simp
    obtain y m dt where c: "civil d = (y, m, dt)" by (metis prod_cases3)
    have b: "\<bar>d\<bar> \<le> 99999998" using less.prems by linarith
    obtain t where t: "date_at z d 0 = Some t" "local_day z t = d"
      using midnight [OF less.prems(1) b] by blast
    define left where "left = month_lengths y ! m - dt"
    have l: "days_left z t = left" "0 \<le> left"
      using c t civil_less [OF c] by (simp_all add: days_left_def left_def month_lengths_def)
    show ?thesis
    proof (cases "n > left")
      case True
      have "next_month z (date_at z d 0) = date_at z (d + left + 1) 0"
        using next_month_midnight [OF less.prems(1,2) _ c] less.prems n by (simp add: left_def)
      then have "addDays z (date_at z d 0) n = addDays z (date_at z (d + left + 1) 0) (n - (left + 1))"
        using True n t(1) l(1) by (simp add: addDays_step)
      also have "\<dots> = date_at z (d + left + 1 + (n - (left + 1))) 0"
        using True l(2) less.prems n by (intro less.hyps) auto
      finally show ?thesis by simp
    next
      case False
      then have "addDays z (date_at z d 0) n = setDate z (dt + n) (date_at z d 0)"
        using n t c l(1) by (simp add: addDays_step)
      also have "\<dots> = date_at z (MakeDay y (int m) (dt + n)) 0" by (rule set_at_midnight(1) [OF less.prems(1) b c])
      also have "MakeDay y (int m) (dt + n) = d + n"
        using MakeDay_valid [of m y "dt + n"] civil_less [OF c] day_of_civil [of d] c by (simp add: day_of_def)
      finally show ?thesis .
    qed
  qed (simp add: addDays.simps)
qed

section \<open>Properties\<close>

text \<open>
  C23: In a zone whose days all have a midnight, \<open>addDays\<close>, which walks from month to month, gives the
  midnight whose day number is larger by the number of days: the year, month and day of the month it
  reports are those of the Gregorian calendar for that day number.
\<close>

theorem addDays_is_day_arithmetic:
  assumes "regular_zone z" and "- 99990000 \<le> d" and "0 \<le> n" and "d + n \<le> 99990000"
  shows "let r = addDays z (date_at z d 0) n in
    r = date_at z (d + n) 0 \<and> getDay z r = Some (week_day (d + n)) \<and>
    (\<exists>y m k. getFullYear z r = Some y \<and> getMonth z r = Some m \<and> getDate z r = Some k
       \<and> valid_date (y, m, k) \<and> day_of (y, m, k) = d + n)"
proof -
  obtain y m k where c: "civil (d + n) = (y, m, k)" by (metis prod_cases3)
  have "\<bar>d + n\<bar> \<le> 99999998" using assms by linarith
  from get_at_midnight [OF assms(1) this c] show ?thesis
    using addDays_midnight [OF assms] c civil_valid [of "d + n"] day_of_civil [of "d + n"]
    by (simp add: Let_def)
qed

definition utc_zone :: zone where "utc_zone = \<lparr>zone_offset = (\<lambda>_. 0), local_offset = (\<lambda>_. 0)\<rparr>"

lemma utc_zone_regular: "regular_zone utc_zone" using fixed_zone_regular [of 0] by (simp add: utc_zone_def)

lemma addDays_is_day_arithmetic_witness:
  "getFullYear utc_zone (addDays utc_zone (date_at utc_zone 19722 0) 365) = Some 2024
   \<and> getMonth utc_zone (addDays utc_zone (date_at utc_zone 19722 0) 365) = Some 11
   \<and> getDate utc_zone (addDays utc_zone (date_at utc_zone 19722 0) 365) = Some 30"
proof -
  have "civil 20087 = (2024, 11, 30)" by code_simp
  then have c: "civil (19722 + 365) = (2024, 11, 30)" by simp
  have "addDays utc_zone (date_at utc_zone 19722 0) 365 = date_at utc_zone (19722 + 365) 0"
    using addDays_is_day_arithmetic [OF utc_zone_regular, of 19722 365] by (simp add: Let_def)
  then show ?thesis using get_at_midnight [OF utc_zone_regular _ c] by simp
qed

lemma cumulative:
  assumes "m < 12"
  shows "MONTH_DAYS_LEAP_CUMULATIVE ! m = sum_list (take m MONTH_DAYS_LEAP)"
    "MONTH_DAYS_REGULAR_CUMULATIVE ! m = sum_list (take m MONTH_DAYS_REGULAR)"
proof -
  have "m = 0 \<or> m = 1 \<or> m = 2 \<or> m = 3 \<or> m = 4 \<or> m = 5 \<or> m = 6 \<or> m = 7 \<or> m = 8 \<or> m = 9 \<or> m = 10 \<or> m = 11"
    using assms by presburger
  then show "MONTH_DAYS_LEAP_CUMULATIVE ! m = sum_list (take m MONTH_DAYS_LEAP)"
    "MONTH_DAYS_REGULAR_CUMULATIVE ! m = sum_list (take m MONTH_DAYS_REGULAR)"
    by (auto simp: MONTH_DAYS_LEAP_CUMULATIVE_def MONTH_DAYS_REGULAR_CUMULATIVE_def MONTH_DAYS_LEAP_def
        MONTH_DAYS_REGULAR_def)
qed

lemma yday_counts_from_first:
  assumes "civil (local_day z t) = (y, m, d)"
  shows "ydayFromDate z (Some t) = Some (local_day z t - DayFromYear y)"
proof -
  have "month_lengths y = (if isLeapYear y then MONTH_DAYS_LEAP else MONTH_DAYS_REGULAR)" by (rule month_lengths_def)
  then show ?thesis
    using assms civil_less [OF assms] day_of_civil [of "local_day z t"] cumulative [of m]
    by (auto simp: ydayFromDate_def getFullYear_def getMonth_def getDate_def day_of_def)
qed

lemma seconds_split:
  fixes l :: int
  shows "3600 * (l div 3600000 mod 24) + 60 * (l div 60000 mod 60) + l div 1000 mod 60 = l mod 86400000 div 1000"
proof -
  have "l mod 86400000 div 1000 = l div 1000 mod 86400"
    using zmod_zmult2_eq [of 86400 l 1000] by (simp add: mult.commute)
  moreover have "l div 60000 = l div 1000 div 60" "l div 3600000 = l div 1000 div 60 div 60"
    by (simp_all add: zdiv_zmult2_eq [symmetric])
  moreover have "3600 * (k div 60 div 60 mod 24) + 60 * (k div 60 mod 60) + k mod 60 = k mod 86400" for k :: int
    using zmod_zmult2_eq [of 1440 "k" 60] zmod_zmult2_eq [of 24 "k div 60" 60] by (simp add: algebra_simps)
  ultimately show ?thesis by simp
qed

text \<open>
  \<open>__localtime_js\<close> of a time that a date can hold fills the aligned structure with a broken-down time
  that denotes the local time: the year, month and day of the month are a calendar date whose day number
  is the local day, the day of the year is its distance from the first of January, hours, minutes and
  seconds are those of the local day, and no byte outside the structure changes.
\<close>

theorem localtime_denotes_local_time:
  assumes "\<bar>s\<bar> \<le> 8640000000000" and "tm mod 4 = 0" and "tm + 40 \<le> length m"
  shows "let m' = localtime_js z (Some s) tm m; D = local_day z (s * 1000) in
    untouched tm (tm + 40) m m' \<and>
    (\<exists>y mo d h mi sec. valid_date (y, mo, d) \<and> day_of (y, mo, d) = D \<and> 0 \<le> h \<and> h < 24 \<and> 0 \<le> mi \<and> mi < 60
      \<and> 0 \<le> sec \<and> sec < 60 \<and> 3600 * h + 60 * mi + sec = LocalTime z (s * 1000) mod msPerDay div 1000
      \<and> HEAP32_get tm m' = of_int sec \<and> HEAP32_get (tm + 4) m' = of_int mi \<and> HEAP32_get (tm + 8) m' = of_int h
      \<and> HEAP32_get (tm + 12) m' = of_int d \<and> HEAP32_get (tm + 16) m' = of_nat mo
      \<and> HEAP32_get (tm + 20) m' = of_int (y - 1900) \<and> HEAP32_get (tm + 24) m' = of_int (week_day D)
      \<and> HEAP32_get (tm + 28) m' = of_int (D - DayFromYear y)
      \<and> HEAP32_get (tm + 36) m' = of_int (- (zone_offset z (s * 1000) * 60)))"
proof -
  define q where "q = tm div 4"
  have q: "tm = 4 * q" using assms(2) unfolding q_def by presburger
  let ?t = "s * 1000"
  have clip: "TimeClip ?t = Some ?t" using assms(1) by (simp add: TimeClip_def)
  obtain y mo d where c: "civil (local_day z ?t) = (y, mo, d)" by (metis prod_cases3)
  note yday = yday_counts_from_first [OF c]
  have fields: "getFullYear z (Some ?t) = Some y" "getMonth z (Some ?t) = Some mo" "getDate z (Some ?t) = Some d"
    using c by (simp_all add: getFullYear_def getMonth_def getDate_def)
  define h mi sec where "h = LocalTime z ?t div 3600000 mod 24" and "mi = LocalTime z ?t div 60000 mod 60"
    and "sec = LocalTime z ?t div 1000 mod 60"
  then have time: "0 \<le> h" "h < 24" "0 \<le> mi" "mi < 60" "0 \<le> sec" "sec < 60"
      "3600 * h + 60 * mi + sec = LocalTime z ?t mod msPerDay div 1000"
    and hms: "getHours z (Some ?t) = Some h" "getMinutes z (Some ?t) = Some mi" "getSeconds z (Some ?t) = Some sec"
    using seconds_split [of "LocalTime z ?t"]
    by (simp_all only: pos_mod_sign pos_mod_bound zero_less_numeral msPerDay_def getHours_def getMinutes_def getSeconds_def option.map)
  let ?m' = "localtime_js z (Some s) tm m"
  have len: "4 * q + 40 \<le> length m" using assms(3) q by simp
  have run: "?m' = HEAP32_set (tm + 32) (number_word (Some (dst_flag z (Some ?t)))) (HEAP32_set (tm + 36) (number_word (Some (- (zone_offset z ?t * 60))))
     (HEAP32_set (tm + 28) (number_word (Some (local_day z ?t - DayFromYear y))) (HEAP32_set (tm + 24) (number_word (Some (week_day (local_day z ?t))))
     (HEAP32_set (tm + 20) (number_word (Some (y - 1900))) (HEAP32_set (tm + 16) (number_word (Some (int mo)))
     (HEAP32_set (tm + 12) (number_word (Some d)) (HEAP32_set (tm + 8) (number_word (Some h))
     (HEAP32_set (tm + 4) (number_word (Some mi)) (HEAP32_set tm (number_word (Some sec)) m)))))))))"
    by (simp add: localtime_js_def clip put_number_def fields yday hms getDay_def getTimezoneOffset_def)
  have "untouched tm (tm + 40) m ?m'"
    unfolding run unfolding q by (intro untouched_trans [OF _ untouched_set(1)] untouched_refl) (use len in auto)
  moreover have "HEAP32_get tm ?m' = of_int sec" "HEAP32_get (tm + 4) ?m' = of_int mi"
     "HEAP32_get (tm + 8) ?m' = of_int h" "HEAP32_get (tm + 12) ?m' = of_int d"
     "HEAP32_get (tm + 16) ?m' = of_nat mo" "HEAP32_get (tm + 20) ?m' = of_int (y - 1900)" "HEAP32_get (tm + 24) ?m' = of_int (week_day (local_day z ?t))"
     "HEAP32_get (tm + 28) ?m' = of_int (local_day z ?t - DayFromYear y)" "HEAP32_get (tm + 36) ?m' = of_int (- (zone_offset z ?t * 60))"
    unfolding run unfolding q using len by (simp_all add: HEAP_other HEAP_get_set number_word_def)
  moreover have "valid_date (y, mo, d)" "day_of (y, mo, d) = local_day z ?t"
    using civil_valid [of "local_day z ?t"] day_of_civil [of "local_day z ?t"] c by simp_all
  ultimately show ?thesis
    unfolding Let_def using time by blast
qed

lemma localtime_denotes_local_time_witness:
  "untouched 0 40 (replicate 40 0) (localtime_js utc_zone (Some 1709210096) 0 (replicate 40 0))"
  using localtime_denotes_local_time [of 1709210096 0 "replicate 40 0" utc_zone] by (simp add: Let_def)

end
