(* ===== verification/Strftime.thy ===== *)
theory Strftime
  imports Dates Syscalls
begin

text \<open>
  \<open>_strftime\<close> of \<open>dotnet.native.686cmdkyav.js\<close>: the broken-down time is read from memory, the directives
  of the format are replaced one rule after the other, each everywhere in the text, and the result is
  written back as UTF-8. Texts are lists of UTF-16 code units.
\<close>

section \<open>Text\<close>

text \<open>\<open>GetSubstitution\<close> of the language: what \<open>replace\<close> makes of a dollar sign in the replacement.\<close>

fun get_substitution :: "js_units \<Rightarrow> js_units \<Rightarrow> js_units \<Rightarrow> js_units \<Rightarrow> js_units" where
  "get_substitution matched front rear [] = []"
| "get_substitution matched front rear [c] = [c]"
| "get_substitution matched front rear (c # d # rest) =
     (if c = 36 \<and> d = 36 then 36 # get_substitution matched front rear rest
      else if c = 36 \<and> d = 38 then matched @ get_substitution matched front rear rest
      else if c = 36 \<and> d = 96 then front @ get_substitution matched front rear rest
      else if c = 36 \<and> d = 39 then rear @ get_substitution matched front rear rest
      else c # get_substitution matched front rear (d # rest))"

text \<open>\<open>str.replace(new RegExp(pat, 'g'), repl)\<close> for a pattern of ordinary characters.\<close>

function replace_from :: "js_units \<Rightarrow> js_units \<Rightarrow> js_units \<Rightarrow> js_units \<Rightarrow> js_units" where
  "replace_from front pat repl [] = []"
| "replace_from front pat repl (c # str) =
     (if pat \<noteq> [] \<and> take (length pat) (c # str) = pat
      then let rest = drop (length pat) (c # str)
           in get_substitution pat front rest repl @ replace_from (front @ pat) pat repl rest
      else c # replace_from (front @ [c]) pat repl str)"
  by pat_completeness auto
termination
  by (relation "measure (\<lambda>(_, _, _, str). length str)") (auto simp: neq_Nil_conv)

definition replace_all :: "js_units \<Rightarrow> js_units \<Rightarrow> js_units \<Rightarrow> js_units" where
  "replace_all pat repl str = replace_from [] pat repl str"

fun includes_text :: "js_units \<Rightarrow> js_units \<Rightarrow> bool" where
  "includes_text pat [] \<longleftrightarrow> pat = []"
| "includes_text pat (c # str) \<longleftrightarrow> take (length pat) (c # str) = pat \<or> includes_text pat str"

fun nat_text :: "nat \<Rightarrow> js_units" where
  "nat_text n = (if n < 10 then [of_nat (48 + n)] else nat_text (n div 10) @ [of_nat (48 + n mod 10)])"

declare nat_text.simps [simp del]

definition int_text :: "int \<Rightarrow> js_units" where
  "int_text k = (if k < 0 then 45 # nat_text (nat (- k)) else nat_text (nat k))"

definition leadingSomething :: "int \<Rightarrow> nat \<Rightarrow> u16 \<Rightarrow> js_units" where
  "leadingSomething v digits ch = (let str = int_text v in replicate (digits - length str) ch @ str)"

definition leadingNulls :: "int \<Rightarrow> nat \<Rightarrow> js_units" where
  "leadingNulls v digits = leadingSomething v digits 48"

text \<open>\<open>%\<close> of the language takes the sign of the dividend.\<close>

definition js_rem :: "int \<Rightarrow> int \<Rightarrow> int" where
  "js_rem a b = (if a < 0 then - (- a mod b) else a mod b)"

section \<open>The broken-down time\<close>

record tm =
  tm_sec :: int
  tm_min :: int
  tm_hour :: int
  tm_mday :: int
  tm_mon :: int
  tm_year :: int
  tm_wday :: int
  tm_yday :: int
  tm_isdst :: int
  tm_gmtoff :: int
  tm_zone :: js_units

definition read_tm :: "(u8 list \<Rightarrow> js_units) option \<Rightarrow> nat \<Rightarrow> heap \<Rightarrow> tm" where
  "read_tm decoder tm m =
     (let at = (\<lambda>k. sint (HEAP32_get (tm + k) m)); zp = HEAP32_get (tm + 40) m in
      \<lparr>tm_sec = at 0, tm_min = at 4, tm_hour = at 8, tm_mday = at 12, tm_mon = at 16, tm_year = at 20,
       tm_wday = at 24, tm_yday = at 28, tm_isdst = at 32, tm_gmtoff = at 36,
       tm_zone = (if zp \<noteq> 0 then UTF8ToString decoder m (unat zp) None else [])\<rparr>)"

section \<open>Weeks\<close>

definition compareByDay :: "zone \<Rightarrow> date \<Rightarrow> date \<Rightarrow> int" where
  "compareByDay z date1 date2 =
     (let sg = (\<lambda>f. case (f date1, f date2) of (Some a, Some b) \<Rightarrow> sgn (a - b) | _ \<Rightarrow> 0) in
      if sg (getFullYear z) \<noteq> 0 then sg (getFullYear z)
      else if sg (map_option int \<circ> getMonth z) \<noteq> 0 then sg (map_option int \<circ> getMonth z)
      else sg (getDate z))"

text \<open>\<open>None\<close> is \<open>undefined\<close>, for an invalid date.\<close>

definition getFirstWeekStartDate :: "zone \<Rightarrow> date \<Rightarrow> date option" where
  "getFirstWeekStartDate z janFourth =
     Option.bind (getFullYear z janFourth) (\<lambda>y. Option.bind (getDay z janFourth) (\<lambda>w.
       Some (if w = 0 then new_Date z (y - 1) 11 29
             else if w = 1 then janFourth
             else if w = 2 then new_Date z y 0 3
             else if w = 3 then new_Date z y 0 2
             else if w = 4 then new_Date z y 0 1
             else if w = 5 then new_Date z (y - 1) 11 31
             else new_Date z (y - 1) 11 30)))"

definition compare_with :: "zone \<Rightarrow> date option \<Rightarrow> date \<Rightarrow> int result" where
  "compare_with z date1 date2 = (case date1 of None \<Rightarrow> Inl TypeError | Some d \<Rightarrow> Inr (compareByDay z d date2))"

definition getWeekBasedYear :: "zone \<Rightarrow> tm \<Rightarrow> int result" where
  "getWeekBasedYear z t =
     (let thisDate = addDays z (new_Date z (tm_year t + 1900) 0 1) (tm_yday t) in
      case getFullYear z thisDate of
        None \<Rightarrow> Inl TypeError
      | Some y \<Rightarrow>
          let firstWeekStartThisYear = getFirstWeekStartDate z (new_Date z y 0 4);
              firstWeekStartNextYear = getFirstWeekStartDate z (new_Date z (y + 1) 0 4)
          in rbind (compare_with z firstWeekStartThisYear thisDate) (\<lambda>c.
             if c \<le> 0
             then rbind (compare_with z firstWeekStartNextYear thisDate) (\<lambda>c'. Inr (if c' \<le> 0 then y + 1 else y))
             else Inr (y - 1)))"

definition weekNumber :: "tm \<Rightarrow> int" where
  "weekNumber t =
     (let val = (tm_yday t + 7 - js_rem (tm_wday t + 6) 7) div 7;
          val1 = (if js_rem (tm_wday t + 371 - tm_yday t - 2) 7 \<le> 2 then val + 1 else val)
      in if val1 = 0
         then let dec31 = js_rem (tm_wday t + 7 - tm_yday t - 1) 7
              in if dec31 = 4 \<or> dec31 = 5 \<and> isLeapYear (js_rem (tm_year t) 400 - 1) then 53 else 52
         else if val1 = 53
         then let jan1 = js_rem (tm_wday t + 371 - tm_yday t) 7
              in if jan1 \<noteq> 4 \<and> (jan1 \<noteq> 3 \<or> \<not> isLeapYear (tm_year t)) then 1 else 53
         else val1)"

section \<open>The rules\<close>

definition EXPANSION_RULES_1 :: "(string \<times> string) list" where
  "EXPANSION_RULES_1 =
     [(''%c'', ''%a %b %d %H:%M:%S %Y''), (''%D'', ''%m/%d/%y''), (''%F'', ''%Y-%m-%d''), (''%h'', ''%b''),
      (''%r'', ''%I:%M:%S %p''), (''%R'', ''%H:%M''), (''%T'', ''%H:%M:%S''), (''%x'', ''%m/%d/%y''),
      (''%X'', ''%H:%M:%S''), (''%Ec'', ''%c''), (''%EC'', ''%C''), (''%Ex'', ''%m/%d/%y''),
      (''%EX'', ''%H:%M:%S''), (''%Ey'', ''%y''), (''%EY'', ''%Y''), (''%Od'', ''%d''), (''%Oe'', ''%e''),
      (''%OH'', ''%H''), (''%OI'', ''%I''), (''%Om'', ''%m''), (''%OM'', ''%M''), (''%OS'', ''%S''),
      (''%Ou'', ''%u''), (''%OU'', ''%U''), (''%OV'', ''%V''), (''%Ow'', ''%w''), (''%OW'', ''%W''),
      (''%Oy'', ''%y'')]"

definition WEEKDAYS :: "string list" where
  "WEEKDAYS = [''Sunday'', ''Monday'', ''Tuesday'', ''Wednesday'', ''Thursday'', ''Friday'', ''Saturday'']"

definition MONTHS :: "string list" where
  "MONTHS = [''January'', ''February'', ''March'', ''April'', ''May'', ''June'', ''July'', ''August'',
             ''September'', ''October'', ''November'', ''December'']"

definition element :: "string list \<Rightarrow> int \<Rightarrow> js_units option" where
  "element xs k = (if 0 \<le> k \<and> k < int (length xs) then Some (to_units (xs ! nat k)) else None)"

definition short_name :: "string list \<Rightarrow> int \<Rightarrow> js_units result" where
  "short_name xs k = (case element xs k of None \<Rightarrow> Inl TypeError | Some str \<Rightarrow> Inr (take 3 str))"

definition long_name :: "string list \<Rightarrow> int \<Rightarrow> js_units result" where
  "long_name xs k = Inr (case element xs k of None \<Rightarrow> to_units ''undefined'' | Some str \<Rightarrow> str)"

text \<open>
  \<open>%z\<close>: hours and minutes from the offset in seconds. For a multiple of a quarter of an hour the
  division has an exact result; for any other offset the text of the double is a parameter.
\<close>

definition offset_digits :: "(int \<Rightarrow> js_units) \<Rightarrow> int \<Rightarrow> js_units" where
  "offset_digits inexact gmtoff =
     (if gmtoff mod 900 = 0
      then let off = \<bar>gmtoff\<bar> div 60 in int_text (off * 100 div 60 + off mod 60)
      else inexact gmtoff)"

definition expand_z :: "(int \<Rightarrow> js_units) \<Rightarrow> int \<Rightarrow> js_units" where
  "expand_z inexact gmtoff =
     (let str = replicate 4 48 @ offset_digits inexact gmtoff
      in (if gmtoff \<ge> 0 then 43 else 45) # drop (length str - 4) str)"

definition dayOfYear :: "tm \<Rightarrow> js_units" where
  "dayOfYear t =
     (case arraySum (if isLeapYear (tm_year t + 1900) then MONTH_DAYS_LEAP else MONTH_DAYS_REGULAR) (tm_mon t - 1) of
        None \<Rightarrow> to_units ''NaN'' | Some n \<Rightarrow> leadingNulls (tm_mday t + n) 3)"

definition EXPANSION_RULES_2 :: "zone \<Rightarrow> (int \<Rightarrow> js_units) \<Rightarrow> tm \<Rightarrow> (string \<times> js_units result) list" where
  "EXPANSION_RULES_2 z inexact t =
     [(''%a'', short_name WEEKDAYS (tm_wday t)), (''%A'', long_name WEEKDAYS (tm_wday t)),
      (''%b'', short_name MONTHS (tm_mon t)), (''%B'', long_name MONTHS (tm_mon t)),
      (''%C'', Inr (let year = tm_year t + 1900 in leadingNulls (sgn year * (\<bar>year\<bar> div 100)) 2)),
      (''%d'', Inr (leadingNulls (tm_mday t) 2)), (''%e'', Inr (leadingSomething (tm_mday t) 2 32)),
      (''%g'', rbind (getWeekBasedYear z t) (\<lambda>y. Inr (drop 2 (int_text y)))),
      (''%G'', rbind (getWeekBasedYear z t) (\<lambda>y. Inr (int_text y))),
      (''%H'', Inr (leadingNulls (tm_hour t) 2)),
      (''%I'', Inr (leadingNulls (if tm_hour t = 0 then 12 else if tm_hour t > 12 then tm_hour t - 12 else tm_hour t) 2)),
      (''%j'', Inr (dayOfYear t)),
      (''%m'', Inr (leadingNulls (tm_mon t + 1) 2)), (''%M'', Inr (leadingNulls (tm_min t) 2)),
      (''%n'', Inr [10]), (''%p'', Inr (to_units (if tm_hour t \<ge> 0 \<and> tm_hour t < 12 then ''AM'' else ''PM''))),
      (''%S'', Inr (leadingNulls (tm_sec t) 2)), (''%t'', Inr [9]),
      (''%u'', Inr (int_text (if tm_wday t = 0 then 7 else tm_wday t))),
      (''%U'', Inr (leadingNulls ((tm_yday t + 7 - tm_wday t) div 7) 2)),
      (''%V'', Inr (leadingNulls (weekNumber t) 2)), (''%w'', Inr (int_text (tm_wday t))),
      (''%W'', Inr (leadingNulls ((tm_yday t + 7 - js_rem (tm_wday t + 6) 7) div 7) 2)),
      (''%y'', Inr (drop 2 (int_text (tm_year t + 1900)))), (''%Y'', Inr (int_text (tm_year t + 1900))),
      (''%z'', Inr (expand_z inexact (tm_gmtoff t))), (''%Z'', Inr (tm_zone t)), (''%%'', Inr [37])]"

definition expand_first :: "js_units \<Rightarrow> js_units" where
  "expand_first pattern = fold (\<lambda>(rule, repl). replace_all (to_units rule) (to_units repl)) EXPANSION_RULES_1 pattern"

text \<open>The function of a rule is called only if the rule occurs in the text.\<close>

fun expand_second :: "(string \<times> js_units result) list \<Rightarrow> js_units \<Rightarrow> js_units result" where
  "expand_second [] pattern = Inr pattern"
| "expand_second ((rule, v) # rules) pattern =
     (if includes_text (to_units rule) pattern
      then rbind v (\<lambda>repl. expand_second rules (replace_all (to_units rule) repl pattern))
      else expand_second rules pattern)"

definition format_time :: "zone \<Rightarrow> (int \<Rightarrow> js_units) \<Rightarrow> tm \<Rightarrow> js_units \<Rightarrow> js_units result" where
  "format_time z inexact t pattern =
     rbind (expand_second (EXPANSION_RULES_2 z inexact t) (replace_all [37, 37] [0, 0] (expand_first pattern)))
       (\<lambda>str. Inr (replace_all [0, 0] [37] str))"

definition strftime ::
  "zone \<Rightarrow> (int \<Rightarrow> js_units) \<Rightarrow> nat \<Rightarrow> int \<Rightarrow> nat \<Rightarrow> nat \<Rightarrow> nat call" where
  "strftime z inexact s maxsize format tm st =
     (case format_time z inexact (read_tm (utf8_decoder st) tm (mem st)) (UTF8ToString (utf8_decoder st) (mem st) format None) of
        Inl e \<Rightarrow> (Inl e, st)
      | Inr str \<Rightarrow>
          let bytes = intArrayFromString str False 0 in
          if int (length bytes) > maxsize then (Inr 0, st)
          else (case writeArrayToMemory bytes s (mem st) of
                  Inl e \<Rightarrow> (Inl e, st)
                | Inr m \<Rightarrow> (Inr (length bytes - 1), st\<lparr>mem := m\<rparr>)))"

end
