(* ===== verification/StrftimeProps.thy ===== *)
theory StrftimeProps
  imports Strftime
begin

text \<open>
  What \<open>strftime\<close> computes: the ISO 8601 week and its year, the equivalence of the replacement of rule
  after rule with formatting in one pass, and the directives whose result is not what C promises.
\<close>

section \<open>Weeks of ISO 8601\<close>

text \<open>The Thursday of the week of a day; its year and its week of seven days in it.\<close>

definition iso_thursday :: "int \<Rightarrow> int" where "iso_thursday d = d - (d + 3) mod 7 + 3"
definition iso_year :: "int \<Rightarrow> int" where "iso_year d = YearFromDay (iso_thursday d)"

definition iso_week :: "int \<Rightarrow> int" where
  "iso_week d = (iso_thursday d - DayFromYear (iso_year d)) div 7 + 1"

lemma js_rem_nonneg [simp]: "0 \<le> a \<Longrightarrow> js_rem a b = a mod b" by (simp add: js_rem_def)

lemma isLeapYear_cong: "x mod 400 = y mod 400 \<Longrightarrow> isLeapYear x = isLeapYear y"
proof -
  assume e: "x mod 400 = y mod 400"
  have "x mod 4 = y mod 4" "x mod 100 = y mod 100"
    using e mod_mod_cancel [of 4 400 x] mod_mod_cancel [of 4 400 y] mod_mod_cancel [of 100 400 x] mod_mod_cancel [of 100 400 y]
    by simp_all
  with e show ?thesis by (simp add: isLeapYear_def)
qed

lemma js_rem_400: "js_rem a 400 mod 400 = a mod 400"
  by (auto simp: js_rem_def mod_minus_eq)

lemma DayFromYear_period: "DayFromYear y = 146097 * (y div 400) + DayFromYear (y mod 400)"
proof -
  define a r where "a = y div 400" and "r = y mod 400"
  have y: "y = 400 * a + r" by (simp add: a_def r_def)
  have "(400 * a + r - 1969) div 4 = 100 * a + (r - 1969) div 4"
    using div_mult_self2 [of 4 "r - 1969" "100 * a"] by (simp add: algebra_simps)
  moreover have "(400 * a + r - 1901) div 100 = 4 * a + (r - 1901) div 100"
    using div_mult_self2 [of 100 "r - 1901" "4 * a"] by (simp add: algebra_simps)
  moreover have "(400 * a + r - 1601) div 400 = a + (r - 1601) div 400"
    using div_mult_self2 [of 400 "r - 1601" a] by (simp add: algebra_simps)
  ultimately have "DayFromYear (400 * a + r) = 146097 * a + DayFromYear r"
    by (simp add: DayFromYear_def)
  then show ?thesis unfolding y [symmetric] a_def [symmetric] r_def [symmetric] .
qed

lemma weekday_period: "(DayFromYear y + 3) mod 7 = (DayFromYear (y mod 400) + 3) mod 7"
proof -
  have "(DayFromYear (y mod 400) + 3 + 7 * (20871 * (y div 400))) mod 7 = (DayFromYear (y mod 400) + 3) mod 7"
    by (rule mod_mult_self2)
  then show ?thesis using DayFromYear_period [of y] by (simp add: algebra_simps)
qed

lemma century_cases:
  fixes y :: int
  assumes "y mod 100 = 0"
  obtains "y mod 400 = 0" | "y mod 400 = 100" | "y mod 400 = 200" | "y mod 400 = 300"
proof -
  have "y mod 400 mod 100 = 0" using assms mod_mod_cancel [of 100 400 y] by simp
  then obtain k where k: "y mod 400 = 100 * k" by (auto simp: mod_eq_0_iff_dvd elim: dvdE)
  moreover have "0 \<le> y mod 400" "y mod 400 < 400" by simp_all
  ultimately have "0 \<le> 100 * k" "100 * k < 400" by simp_all
  then have "k = 0 \<or> k = 1 \<or> k = 2 \<or> k = 3" by auto
  then show ?thesis using that k by auto
qed

lemma century_weekday:
  assumes "y mod 100 = 0"
  shows "(DayFromYear y + 3) mod 7 = 2 \<Longrightarrow> y mod 400 = 200"
    "(DayFromYear (y + 1) + 3) mod 7 = 5 \<Longrightarrow> y mod 400 = 100"
proof -
  have next_year: "(y + 1) mod 400 = (y mod 400 + 1) mod 400" by (simp add: mod_add_left_eq)
  show "(DayFromYear y + 3) mod 7 = 2 \<Longrightarrow> y mod 400 = 200"
    using assms weekday_period [of y] by (elim century_cases) (simp_all add: DayFromYear_def)
  show "(DayFromYear (y + 1) + 3) mod 7 = 5 \<Longrightarrow> y mod 400 = 100"
    using assms weekday_period [of "y + 1"] next_year by (elim century_cases) (simp_all add: DayFromYear_def)
qed

text \<open>The year counted from 1900 has the wrong centuries, but not on the days where it matters.\<close>

lemma leap_from_1900:
  "(DayFromYear y + 3) mod 7 = 2 \<Longrightarrow> isLeapYear (y - 1900) = isLeapYear y"
  "(DayFromYear y + 3) mod 7 = 5 \<Longrightarrow> isLeapYear (js_rem (y - 1900) 400 - 1) = isLeapYear (y - 1)"
proof -
  have other: "isLeapYear (x - 1900) = isLeapYear x" if "x mod 100 \<noteq> 0 \<or> x mod 400 = 100 \<or> x mod 400 = 200" for x
  proof (cases "x mod 100 = 0")
    case False
    have e: "(x - 1900) mod 100 = x mod 100" "(x - 1900) mod 4 = x mod 4"
      using mod_mult_self2 [of x 100 "- 19"] mod_mult_self2 [of x 4 "- 475"] by simp_all
    show ?thesis unfolding isLeapYear_def e using False by blast
  next
    case True
    with that consider "x mod 400 = 100" | "x mod 400 = 200" by auto
    moreover have plain: "\<not> isLeapYear 100" "\<not> isLeapYear 200" "\<not> isLeapYear 300" by (simp_all add: isLeapYear_def)
    moreover have sub: "(x - 1900) mod 400 = (x mod 400 - 1900) mod 400" by (simp add: mod_diff_left_eq)
    ultimately show ?thesis
    proof cases
      case 1
      then have "isLeapYear x = isLeapYear 100" "isLeapYear (x - 1900) = isLeapYear 200"
        using sub by (intro isLeapYear_cong; simp)+
      then show ?thesis using plain by simp
    next
      case 2
      then have "isLeapYear x = isLeapYear 200" "isLeapYear (x - 1900) = isLeapYear 300"
        using sub by (intro isLeapYear_cong; simp)+
      then show ?thesis using plain by simp
    qed
  qed
  show "isLeapYear (y - 1900) = isLeapYear y" if "(DayFromYear y + 3) mod 7 = 2"
    using that century_weekday(1) [of y] other [of y] by auto
  show "isLeapYear (js_rem (y - 1900) 400 - 1) = isLeapYear (y - 1)" if "(DayFromYear y + 3) mod 7 = 5"
  proof -
    have "(js_rem (y - 1900) 400 - 1) mod 400 = (y - 1 - 1900) mod 400"
      using js_rem_400 [of "y - 1900"] by (metis (no_types, opaque_lifting) mod_diff_left_eq diff_diff_eq add.commute)
    then have "isLeapYear (js_rem (y - 1900) 400 - 1) = isLeapYear (y - 1 - 1900)" by (rule isLeapYear_cong)
    then show ?thesis using that century_weekday(2) [of "y - 1"] other [of "y - 1"] by auto
  qed
qed


text \<open>The week day of the first of January, Monday being 0, and whole weeks.\<close>

lemma week_split:
  fixes a yday :: int
  defines "j \<equiv> (a + 3) mod 7" and "m \<equiv> (a + yday + 3) mod 7"
  obtains q where "yday - m = 7 * q - j" and "0 \<le> j" and "j < 7" and "0 \<le> m" and "m < 7"
proof -
  define r1 r2 where "r1 = (a + 3) div 7" and "r2 = (a + yday + 3) div 7"
  have "a + 3 = 7 * r1 + j" "a + yday + 3 = 7 * r2 + m"
    by (simp_all add: j_def m_def r1_def r2_def)
  then have "yday - m = 7 * (r2 - r1) - j" by algebra
  moreover have "0 \<le> j" "j < 7" "0 \<le> m" "m < 7" by (simp_all add: j_def m_def)
  ultimately show ?thesis by (rule that)
qed

lemma mod_7_eq: "a = 7 * q + r \<Longrightarrow> 0 \<le> r \<Longrightarrow> r < 7 \<Longrightarrow> a mod 7 = (r :: int)"
  by (rule int_mod_pos_eq)

lemma div_7_eq: "a = 7 * q + r \<Longrightarrow> 0 \<le> r \<Longrightarrow> r < 7 \<Longrightarrow> a div 7 = (q :: int)"
  by (rule int_div_pos_eq)

text \<open>What the code computes from the week day and the day of the year before it looks at the last weeks.\<close>

lemma first_estimate:
  assumes "yday - m = 7 * q - j" and "0 \<le> j" "j < 7" and "0 \<le> m" "m < 7" and "0 \<le> yday" "yday < 367"
    and wday: "wday = (m + 1) mod 7"
  shows "(let val = (yday + 7 - js_rem (wday + 6) 7) div 7 in
      if js_rem (wday + 371 - yday - 2) 7 \<le> 2 then val + 1 else val) = (yday - m + 3) div 7 + 1"
proof -
  have w: "0 \<le> wday" "wday < 7" using wday by simp_all
  have w6: "js_rem (wday + 6) 7 = m"
    using assms(4,5) w wday by (cases "m = 6") (simp_all add: mod_7_eq [of "m + 7" 1 m])
  define e :: int where "e = (if m = 6 then - 1 else 0)"
  have e: "wday = m + 1 + 7 * e" using assms(4,5) wday by (cases "m = 6") (simp_all add: e_def)
  have t: "js_rem (wday + 371 - yday - 2) 7 = (j + 6) mod 7"
  proof -
    have "js_rem (wday + 371 - yday - 2) 7 = (wday + 371 - yday - 2) mod 7" using w assms(6,7) by simp
    moreover have "wday + 371 - yday - 2 = (j + 6) + 7 * (e - q + 52)" using assms(1) e by simp
    ultimately show ?thesis by (simp only: mod_mult_self2)
  qed
  have "(j + 6) mod 7 = (if j = 0 then 6 else j - 1)"
    using assms(2,3) by (auto intro: mod_7_eq [of _ 1])
  then have le2: "(j + 6) mod 7 \<le> 2 \<longleftrightarrow> 1 \<le> j \<and> j \<le> 3" using assms(2,3) by auto
  have d: "(yday + 7 - m) div 7 = (if j = 0 then q + 1 else q)"
    using assms(1-3) div_7_eq [of "yday + 7 - m" "q + 1" 0] div_7_eq [of "yday + 7 - m" q "7 - j"] by auto
  have k: "(yday - m + 3) div 7 = (if j \<le> 3 then q else q - 1)"
    using assms(1-3) div_7_eq [of "yday - m + 3" q "3 - j"] div_7_eq [of "yday - m + 3" "q - 1" "10 - j"] by auto
  show ?thesis using assms(2,3) unfolding Let_def w6 t le2 d k by auto
qed


text \<open>
  \<open>%V\<close> is the week of ISO 8601: for a day of the year and the week day that belongs to it, the number
  the code computes is the number of the week within the year that holds its Thursday, although the code
  asks whether \<open>tm_year\<close>, counted from 1900, is a leap year.
\<close>

theorem weekNumber_is_iso_week:
  assumes "0 \<le> tm_yday t" and "tm_yday t < (if isLeapYear (tm_year t + 1900) then 366 else 365)"
    and "tm_wday t = week_day (DayFromYear (tm_year t + 1900) + tm_yday t)"
  shows "weekNumber t = iso_week (DayFromYear (tm_year t + 1900) + tm_yday t)"
proof -
  define y a d where "y = tm_year t + 1900" and "a = DayFromYear y" and "d = a + tm_yday t"
  define len where "len = (if isLeapYear y then 366 else 365 :: int)"
  define len0 where "len0 = (if isLeapYear (y - 1) then 366 else 365 :: int)"
  define m where "m = (d + 3) mod 7"
  obtain q where q: "tm_yday t - m = 7 * q - (a + 3) mod 7" and b: "0 \<le> (a + 3) mod 7" "(a + 3) mod 7 < 7" "0 \<le> m" "m < 7"
    using week_split [of "tm_yday t" a] unfolding m_def d_def .
  define j where "j = (a + 3) mod 7"
  note q = q [folded j_def] and b = b [folded j_def]
  have yd: "0 \<le> tm_yday t" "tm_yday t < len" "len < 367" using assms(1,2) by (simp_all add: y_def len_def)
  have wday: "tm_wday t = (m + 1) mod 7"
    using assms(3) mod_add_left_eq [of "d + 3" 7 1] by (simp add: week_day_def m_def d_def a_def y_def add.assoc)
  define k where "k = tm_yday t - m + 3"
  have th: "iso_thursday d = a + k" by (simp add: iso_thursday_def d_def m_def k_def)
  have following: "DayFromYear (y + 1) = a + len" and prev: "DayFromYear (y - 1) = a - len0"
    using DayFromYear_next [of y] DayFromYear_next [of "y - 1"] by (simp_all add: a_def len_def len0_def)
  have lens: "365 \<le> len0" "365 \<le> len" "len \<le> 366" "len0 \<le> 366" by (simp_all add: len_def len0_def)
  have iso: "iso_week d = (if k < 0 then (k + len0) div 7 else if k < len then k div 7 else (k - len) div 7) + 1"
  proof -
    have "iso_year d = (if k < 0 then y - 1 else if k < len then y else y + 1)"
    proof -
      have "k \<le> len + 2" "- 3 \<le> k" using yd b by (simp_all add: k_def)
      moreover have "DayFromYear (y + 1 + 1) \<ge> a + len + 365"
        using DayFromYear_next [of "y + 1"] following by (simp split: if_splits)
      ultimately show ?thesis unfolding iso_year_def th
        using following prev lens by (auto intro!: YearFromDay_unique simp: a_def [symmetric])
    qed
    then show ?thesis using following prev by (auto simp: iso_week_def th a_def [symmetric])
  qed
  have est: "(let val = (tm_yday t + 7 - js_rem (tm_wday t + 6) 7) div 7 in
      if js_rem (tm_wday t + 371 - tm_yday t - 2) 7 \<le> 2 then val + 1 else val) = k div 7 + 1"
    using first_estimate [OF q b yd(1) _ wday] yd by (simp add: k_def)
  have code: "weekNumber t = (let val = k div 7 + 1 in
      if val = 0
      then if js_rem (tm_wday t + 7 - tm_yday t - 1) 7 = 4
             \<or> js_rem (tm_wday t + 7 - tm_yday t - 1) 7 = 5 \<and> isLeapYear (js_rem (tm_year t) 400 - 1) then 53 else 52
      else if val = 53
      then if js_rem (tm_wday t + 371 - tm_yday t) 7 \<noteq> 4
             \<and> (js_rem (tm_wday t + 371 - tm_yday t) 7 \<noteq> 3 \<or> \<not> isLeapYear (tm_year t)) then 1 else 53
      else val)"
    unfolding weekNumber_def Let_def est [unfolded Let_def] ..
  define e :: int where "e = (if m = 6 then - 1 else 0)"
  have e: "tm_wday t = m + 1 + 7 * e" using b wday by (cases "m = 6") (simp_all add: e_def)
  have year: "tm_year t = y - 1900" by (simp add: y_def)
  have "weekNumber t = iso_week d"
  proof (cases "k < 0")
    case True
    have "- 3 \<le> k" using yd b by (simp add: k_def)
    then have k7: "k div 7 = - 1" using True by (intro div_7_eq [of _ _ "k + 7"]) auto
    have kj: "k = 3 - j" "4 \<le> j" using q b True \<open>- 3 \<le> k\<close> unfolding k_def by presburger+
    have "tm_yday t \<le> 2" using True b unfolding k_def by linarith
    then have "js_rem (tm_wday t + 7 - tm_yday t - 1) 7 = (tm_wday t + 7 - tm_yday t - 1) mod 7" using wday by simp
    also have "\<dots> = j" using q e b by (intro mod_7_eq [of _ "1 + e - q"]) (simp_all add: algebra_simps)
    finally have dec31: "js_rem (tm_wday t + 7 - tm_yday t - 1) 7 = j" .
    have leap: "isLeapYear (js_rem (tm_year t) 400 - 1) = isLeapYear (y - 1)" if "j = 5"
      using leap_from_1900(2) [of y] that unfolding year j_def a_def by simp
    have "j = 4 \<or> j = 5 \<or> j = 6" using kj(2) b by presburger
    then show ?thesis
      unfolding code iso dec31 k7 Let_def using True leap kj(1) by (auto simp: len0_def)
  next
    case False
    have k366: "k \<le> 368" using yd b by (simp add: k_def len_def split: if_splits)
    show ?thesis
    proof (cases "k < 364")
      case True
      then have "0 \<le> k div 7" "k div 7 < 52" using False by simp_all
      then show ?thesis unfolding code iso Let_def using True False lens by auto
    next
      case late: False
      then have k7: "k div 7 = 52" using k366 by (intro div_7_eq [of _ _ "k - 364"]) auto
      have "js_rem (tm_wday t + 371 - tm_yday t) 7 = (tm_wday t + 371 - tm_yday t) mod 7" using wday yd by simp
      moreover have days: "tm_wday t + 371 - tm_yday t = j + 1 + 7 * (e - q + 53)" using q e by algebra
      ultimately have jan1: "js_rem (tm_wday t + 371 - tm_yday t) 7 = (j + 1) mod 7"
        unfolding days by (simp only: mod_mult_self2)
      have leap: "isLeapYear (tm_year t) = isLeapYear y" if "j = 2"
        using leap_from_1900(1) [of y] that unfolding year j_def a_def by simp
      have kj: "k = 7 * q - j + 3" using q by (simp add: k_def)
      then have "j = 0 \<and> k = 367 \<or> j = 1 \<and> k = 366 \<or> j = 2 \<and> k = 365 \<or> j = 3 \<and> k = 364 \<or> j = 6 \<and> k = 368"
        using late k366 b by presburger
      moreover have "(k - len) div 7 = 0" if "len \<le> k" using that k366 lens by (intro div_7_eq [of _ _ "k - len"]) auto
      ultimately show ?thesis
        unfolding code iso jan1 k7 Let_def using leap False lens by (auto simp: len_def)
    qed
  qed
  then show ?thesis by (simp add: d_def a_def y_def)
qed

definition leap_day_tm :: tm where
  "leap_day_tm = \<lparr>tm_sec = 5, tm_min = 4, tm_hour = 13, tm_mday = 29, tm_mon = 1, tm_year = 124, tm_wday = 4,
     tm_yday = 59, tm_isdst = 0, tm_gmtoff = 19800, tm_zone = []\<rparr>"

lemma leap_day_number: "DayFromYear (124 + 1900) + 59 = 19782" "isLeapYear 2024"
  by (simp_all add: DayFromYear_def isLeapYear_def)

lemma weekNumber_is_iso_week_witness: "weekNumber leap_day_tm = iso_week 19782"
  using weekNumber_is_iso_week [of leap_day_tm] leap_day_number by (simp add: leap_day_tm_def week_day_def)


section \<open>The week-based year\<close>

lemma month_prefix_mono: "m \<le> m' \<Longrightarrow> sum_list (take m (month_lengths y)) \<le> sum_list (take m' (month_lengths y))"
proof (induction m' rule: dec_induct)
  case (step k)
  have "0 \<le> month_lengths y ! k" if "k < 12"
    by (rule less_imp_le, rule bspec [OF month_lengths_simps(2) [of y]]) (simp add: that)
  then show ?case using step.IH
    by (cases "k < 12") (simp_all add: take_Suc_conv_app_nth)
qed simp

lemma day_of_less:
  assumes "valid_date (y, m, d)" and "valid_date (y', m', d')"
    and "y < y' \<or> y = y' \<and> m < m' \<or> y = y' \<and> m = m' \<and> d < d'"
  shows "day_of (y, m, d) < day_of (y', m', d')"
  using assms(3)
proof (elim disjE conjE)
  assume "y < y'"
  then have "DayFromYear (y + 1) \<le> DayFromYear y'" by (intro DayFromYear_mono) simp
  then show ?thesis using month_within_year [OF assms(1)] month_within_year [OF assms(2)]
    by (simp add: day_of_def DayFromYear_next)
next
  assume e: "y = y'" and m: "m < m'"
  have "sum_list (take (Suc m) (month_lengths y)) \<le> sum_list (take m' (month_lengths y))"
    using m by (intro month_prefix_mono) simp
  then show ?thesis using assms(1,2) e by (simp add: valid_date_def day_of_def take_Suc_conv_app_nth)
qed (simp add: day_of_def)

lemma compareByDay_midnight:
  assumes z: "regular_zone z" and a: "\<bar>a\<bar> \<le> 99999998" and b: "\<bar>b\<bar> \<le> 99999998"
  shows "compareByDay z (date_at z a 0) (date_at z b 0) = sgn (a - b)"
proof -
  obtain y m d where ca: "civil a = (y, m, d)" by (metis prod_cases3)
  obtain y' m' d' where cb: "civil b = (y', m', d')" by (metis prod_cases3)
  note va = civil_valid [of a, unfolded ca] day_of_civil [of a, unfolded ca]
    and vb = civil_valid [of b, unfolded cb] day_of_civil [of b, unfolded cb]
  note less = day_of_less [OF va(1) vb(1), unfolded va(2) vb(2)] day_of_less [OF vb(1) va(1), unfolded va(2) vb(2)]
  have eq: "y = y' \<Longrightarrow> m = m' \<Longrightarrow> d = d' \<Longrightarrow> a = b" using va(2) vb(2) by simp
  have run: "compareByDay z (date_at z a 0) (date_at z b 0) =
      (if sgn (y - y') \<noteq> 0 then sgn (y - y') else if sgn (int m - int m') \<noteq> 0 then sgn (int m - int m') else sgn (d - d'))"
    unfolding compareByDay_def Let_def using get_at_midnight [OF z a ca] get_at_midnight [OF z b cb] by simp
  consider "y < y'" | "y' < y" | "y = y'" "m < m'" | "y = y'" "m' < m" | "y = y'" "m = m'" "d < d'"
    | "y = y'" "m = m'" "d' < d" | "y = y'" "m = m'" "d = d'" by linarith
  then show ?thesis unfolding run using less eq by cases (simp_all add: sgn_if)
qed

lemma new_Date_midnight:
  assumes "100 \<le> y" and "m < 12"
  shows "new_Date z y (int m) d = date_at z (day_of (y, m, d)) 0"
  using assms MakeDay_valid [of m y d] by (simp add: new_Date_def)

lemma month_starts: "sum_list (take 11 (month_lengths y)) = (if isLeapYear y then 335 else 334)"
  by (simp add: month_lengths_def MONTH_DAYS_LEAP_def MONTH_DAYS_REGULAR_def)

text \<open>The Monday of the week with the fourth of January.\<close>

definition first_monday :: "int \<Rightarrow> int" where
  "first_monday y = DayFromYear y + 3 - (DayFromYear y + 6) mod 7"

lemma getFirstWeekStartDate_midnight:
  assumes z: "regular_zone z" and y: "101 \<le> y" "y \<le> 270000"
  shows "getFirstWeekStartDate z (new_Date z y 0 4) = Some (date_at z (first_monday y) 0)"
proof -
  define a where "a = DayFromYear y"
  have start: "new_Date z y 0 4 = date_at z (a + 3) 0"
    using new_Date_midnight [of y 0 z 4] y by (simp add: day_of_def a_def add.commute)
  have "valid_date (y, 0, 4)" by (simp add: valid_date_def month_lengths_def MONTH_DAYS_LEAP_def MONTH_DAYS_REGULAR_def)
  then have c: "civil (a + 3) = (y, 0, 4)" using civil_day_of [of "(y, 0, 4)"] by (simp add: day_of_def a_def add.commute)
  have "\<bar>a + 3\<bar> \<le> 99999998" using DayFromYear_bounds [of y] y by (simp add: a_def)
  note g = get_at_midnight [OF z this c]
  have prev: "a = DayFromYear (y - 1) + (if isLeapYear (y - 1) then 366 else 365)"
    using DayFromYear_next [of "y - 1"] by (simp add: a_def)
  have dec: "new_Date z (y - 1) 11 k = date_at z (a + k - 32) 0" for k
    using new_Date_midnight [of "y - 1" 11 z k] y prev by (simp add: day_of_def month_starts)
  have jan: "new_Date z y 0 k = date_at z (a + k - 1) 0" for k
    using new_Date_midnight [of y 0 z k] y by (simp add: day_of_def a_def)
  define w where "w = (a + 7) mod 7"
  have w: "week_day (a + 3) = w" by (simp add: week_day_def w_def add.assoc)
  have "0 \<le> w" "w < 7" by (simp_all add: w_def)
  then consider "w = 0" | "w = 1" | "w = 2" | "w = 3" | "w = 4" | "w = 5" | "w = 6" by linarith
  moreover have m: "(a + 6) mod 7 = (if w = 0 then 6 else w - 1)"
    using mod_diff_left_eq [of "a + 7" 7 1] \<open>0 \<le> w\<close> \<open>w < 7\<close> unfolding w_def [symmetric] by (auto intro: mod_7_eq simp: add.commute)
  moreover have "getFirstWeekStartDate z (date_at z (a + 3) 0) =
      Some (if w = 0 then new_Date z (y - 1) 11 29 else if w = 1 then date_at z (a + 3) 0 else if w = 2 then new_Date z y 0 3
        else if w = 3 then new_Date z y 0 2 else if w = 4 then new_Date z y 0 1 else if w = 5 then new_Date z (y - 1) 11 31
        else new_Date z (y - 1) 11 30)"
    by (simp only: getFirstWeekStartDate_def g Option.bind.bind_lunit w)
  ultimately show ?thesis
    unfolding start first_monday_def a_def [symmetric] m by cases (simp_all add: dec jan)
qed

lemma first_monday_le: "first_monday y \<le> d \<longleftrightarrow> DayFromYear y \<le> iso_thursday d"
proof -
  define a where "a = DayFromYear y"
  define u v r p where "u = (a + 6) div 7" and "v = (d + 3) div 7" and "r = (a + 6) mod 7" and "p = (d + 3) mod 7"
  have "a + 6 = 7 * u + r" "d + 3 = 7 * v + p" by (simp_all add: u_def v_def r_def p_def)
  moreover have "0 \<le> r" "r < 7" "0 \<le> p" "p < 7" by (simp_all add: r_def p_def)
  ultimately have "a + 3 - r \<le> d \<longleftrightarrow> u \<le> v" "a \<le> d - p + 3 \<longleftrightarrow> u \<le> v" by linarith+
  then show ?thesis by (simp add: first_monday_def iso_thursday_def a_def r_def p_def)
qed


text \<open>
  C24: \<open>%G\<close> and \<open>%g\<close>: the year the code finds by walking to the day and comparing it with the first weeks of
  two years is the year of the Thursday of the week, for every day of the years 102 to 269990 and any day
  of the year.
\<close>

theorem getWeekBasedYear_is_iso_year:
  assumes "regular_zone z" and "0 \<le> tm_yday t" and "102 \<le> tm_year t + 1900"
    and "YearFromDay (DayFromYear (tm_year t + 1900) + tm_yday t) \<le> 269990"
  shows "getWeekBasedYear z t = Inr (iso_year (DayFromYear (tm_year t + 1900) + tm_yday t))"
proof -
  define y0 d where "y0 = tm_year t + 1900" and "d = DayFromYear y0 + tm_yday t"
  define y where "y = YearFromDay d"
  have d: "DayFromYear y \<le> d" "d < DayFromYear (y + 1)" using YearFromDay_bounds [of d] by (simp_all add: y_def)
  have "\<not> y < y0"
    using assms(2) d(2) DayFromYear_mono [of "y + 1" y0] by (auto simp: d_def)
  then have y: "102 \<le> y0" "y0 \<le> y" "y \<le> 269990" using assms(3,4) by (simp_all add: y0_def y_def d_def)
  have b0: "- 99990000 \<le> DayFromYear y0" using DayFromYear_bounds(1) [of y0] y by simp
  have b1: "d \<le> 99990000" using d(2) DayFromYear_bounds(2) [of "y + 1"] y by simp
  have bd: "\<bar>d\<bar> \<le> 99999998" using b0 b1 assms(2) by (simp add: d_def)
  have this_date: "addDays z (new_Date z (tm_year t + 1900) 0 1) (tm_yday t) = date_at z d 0"
    using addDays_midnight [OF assms(1) b0 assms(2)] b1 new_Date_midnight [of y0 0 z 1] y
    by (simp add: d_def y0_def day_of_year)
  obtain m k where c: "civil d = (y, m, k)" using civil_year [of d] by (metis prod_cases3 fst_conv y_def)
  have fm: "\<bar>first_monday x\<bar> \<le> 99999998" if "102 \<le> x" "x \<le> 269991" for x
  proof -
    have "0 \<le> (DayFromYear x + 6) mod 7" "(DayFromYear x + 6) mod 7 < 7" by simp_all
    moreover have "- 99000000 \<le> DayFromYear x" "DayFromYear x \<le> 99000000" using DayFromYear_bounds [of x] that by simp_all
    ultimately show ?thesis unfolding first_monday_def by linarith
  qed
  have cmp: "compareByDay z (date_at z (first_monday x) 0) (date_at z d 0) \<le> 0 \<longleftrightarrow> DayFromYear x \<le> iso_thursday d"
    if "102 \<le> x" "x \<le> 269991" for x
    using compareByDay_midnight [OF assms(1) fm [OF that] bd] first_monday_le [of x d] by (auto simp: sgn_if)
  have iso: "iso_year d = (if DayFromYear y \<le> iso_thursday d then if DayFromYear (y + 1) \<le> iso_thursday d then y + 1 else y else y - 1)"
  proof -
    have "d - 3 \<le> iso_thursday d" "iso_thursday d \<le> d + 3"
      using pos_mod_sign [of 7 "d + 3"] pos_mod_bound [of 7 "d + 3"] unfolding iso_thursday_def by linarith+
    moreover have "DayFromYear (y + 1) + 365 \<le> DayFromYear (y + 1 + 1)" "DayFromYear (y - 1) + 365 \<le> DayFromYear y"
      by (intro DayFromYear_strict; simp)+
    ultimately show ?thesis unfolding iso_year_def using d by (auto intro!: YearFromDay_unique)
  qed
  have "getWeekBasedYear z t = Inr (iso_year d)"
    unfolding getWeekBasedYear_def this_date Let_def get_at_midnight(1) [OF assms(1) bd c] iso
    using y cmp [of y] cmp [of "y + 1"] getFirstWeekStartDate_midnight [OF assms(1), of y]
      getFirstWeekStartDate_midnight [OF assms(1), of "y + 1"]
    by (simp add: compare_with_def)
  then show ?thesis by (simp add: d_def y0_def)
qed

lemma getWeekBasedYear_is_iso_year_witness: "getWeekBasedYear utc_zone leap_day_tm = Inr 2024"
proof -
  have "YearFromDay 19782 = 2024" "iso_year 19782 = 2024" by code_simp+
  then show ?thesis
    using getWeekBasedYear_is_iso_year [OF utc_zone_regular, of leap_day_tm] leap_day_number
    by (simp add: leap_day_tm_def)
qed

end
