(* ===== verification/StrftimeText.thy ===== *)
theory StrftimeText
  imports StrftimeProps
begin

text \<open>
  The text side of \<open>strftime\<close>: the code replaces rule after rule in the whole text, so that what one rule
  inserts could be seen by the next. On formats made of characters and plain directives this is the same
  as reading the format once from left to right.
\<close>

section \<open>Tokens\<close>

datatype token = Lit u16 | Dir u16

fun token_text :: "token \<Rightarrow> js_units" where
  "token_text (Lit u) = [u]"
| "token_text (Dir c) = [37, c]"

definition flat :: "token list \<Rightarrow> js_units" where "flat ts = concat (map token_text ts)"

fun tokenize :: "js_units \<Rightarrow> token list" where
  "tokenize [] = []"
| "tokenize [u] = [Lit u]"
| "tokenize (u # c # rest) = (if u = 37 then Dir c # tokenize rest else Lit u # tokenize (c # rest))"

fun plain_token :: "token \<Rightarrow> bool" where
  "plain_token (Lit u) \<longleftrightarrow> u \<noteq> 37 \<and> u \<noteq> 0"
| "plain_token (Dir c) \<longleftrightarrow> c \<noteq> 37 \<and> c \<noteq> 0"

definition plain_text :: "js_units \<Rightarrow> bool" where
  "plain_text str \<longleftrightarrow> 37 \<notin> set str \<and> 36 \<notin> set str \<and> 0 \<notin> set str"

definition subst_token :: "u16 \<Rightarrow> token list \<Rightarrow> token \<Rightarrow> token list" where
  "subst_token c r t = (if t = Dir c then r else [t])"

definition subst_tokens :: "u16 \<Rightarrow> token list \<Rightarrow> token list \<Rightarrow> token list" where
  "subst_tokens c r ts = concat (map (subst_token c r) ts)"

lemma flat_simps [simp]: "flat [] = []" "flat (t # ts) = token_text t @ flat ts" "flat (ts @ us) = flat ts @ flat us"
  by (simp_all add: flat_def)

lemma flat_Lits [simp]: "flat (map Lit v) = v" by (induction v) simp_all

lemma subst_tokens_simps [simp]:
  "subst_tokens c r [] = []" "subst_tokens c r (t # ts) = subst_token c r t @ subst_tokens c r ts"
  by (simp_all add: subst_tokens_def)

lemma get_substitution_plain: "36 \<notin> set r \<Longrightarrow> get_substitution matched front rear r = r"
  by (induction matched front rear r rule: get_substitution.induct) auto

section \<open>One rule\<close>

lemma replace_rule:
  assumes "list_all plain_token ts" and "36 \<notin> set r" and "c \<noteq> 37"
  shows "replace_from front [37, c] r (flat ts) = concat (map (\<lambda>t. if t = Dir c then r else token_text t) ts)"
  using assms(1)
proof (induction ts arbitrary: front)
  case (Cons t ts)
  then show ?case using assms(2,3) by (cases t) (auto simp: get_substitution_plain Let_def)
qed simp

lemma replace_all_rule:
  assumes "list_all plain_token ts" and "36 \<notin> set (flat r)" and "c \<noteq> 37"
  shows "replace_all [37, c] (flat r) (flat ts) = flat (subst_tokens c r ts)"
proof -
  have "concat (map (\<lambda>t. if t = Dir c then flat r else token_text t) ts) = flat (subst_tokens c r ts)"
    by (induction ts) (simp_all add: subst_token_def)
  then show ?thesis using replace_rule [OF assms] by (simp add: replace_all_def)
qed

lemma replace_long_rule:
  assumes "list_all plain_token ts" and "Dir e \<notin> set ts" and "e \<noteq> 37"
  shows "replace_from front [37, e, x] r (flat ts) = flat ts"
  using assms(1,2)
proof (induction ts arbitrary: front)
  case (Cons t ts)
  then show ?case using assms(3) by (cases t; cases "flat ts") auto
qed simp

lemma replace_percent:
  assumes "list_all plain_token ts"
  shows "replace_from front [37, 37] r (flat ts) = flat ts" "replace_from front [0, 0] r (flat ts) = flat ts"
proof -
  show "replace_from front [37, 37] r (flat ts) = flat ts"
    using assms
  proof (induction ts arbitrary: front)
    case (Cons t ts)
    then show ?case by (cases t; cases "flat ts") auto
  qed simp
  show "replace_from front [0, 0] r (flat ts) = flat ts"
    using assms
  proof (induction ts arbitrary: front)
    case (Cons t ts)
    then show ?case by (cases t; cases "flat ts") auto
  qed simp
qed

lemma includes_text_rule:
  assumes "list_all plain_token ts" and "c \<noteq> 37"
  shows "includes_text [37, c] (flat ts) \<longleftrightarrow> Dir c \<in> set ts"
  using assms(1)
proof (induction ts)
  case (Cons t ts)
  then show ?case using assms(2) by (cases t) auto
qed simp

lemma includes_percent: "list_all plain_token ts \<Longrightarrow> \<not> includes_text [37, 37] (flat ts)"
proof (induction ts)
  case (Cons t ts)
  then show ?case by (cases t; cases "flat ts") auto
qed simp

section \<open>Rule after rule\<close>

definition lookup_token :: "(u16 \<times> token list) list \<Rightarrow> token \<Rightarrow> token list" where
  "lookup_token rules t =
     (case t of Lit u \<Rightarrow> [t] | Dir c \<Rightarrow> (case map_of rules c of Some r \<Rightarrow> r | None \<Rightarrow> [t]))"

lemma lookup_other: "\<forall>d \<in> fst ` set rules. Dir d \<notin> set r \<Longrightarrow> concat (map (lookup_token rules) r) = r"
proof (induction r)
  case (Cons t r)
  then have "lookup_token rules t = [t]"
    by (auto simp: lookup_token_def split: token.splits option.splits dest: map_of_SomeD)
      (metis fst_conv image_eqI map_of_SomeD)
  with Cons show ?case by simp
qed simp

lemma lookup_inserts: "x \<in> set (lookup_token rules t) \<Longrightarrow> x = t \<or> (\<exists>p \<in> set rules. x \<in> set (snd p))"
  by (auto simp: lookup_token_def split: token.splits option.splits dest!: map_of_SomeD) (metis snd_conv)

text \<open>When no rule inserts the directive of a rule, one rule after the other is one table.\<close>

lemma rules_in_sequence:
  assumes "\<forall>(c, r) \<in> set rules. \<forall>d \<in> fst ` set rules. Dir d \<notin> set r"
  shows "fold (\<lambda>(c, r). subst_tokens c r) rules ts = concat (map (lookup_token rules) ts)"
  using assms
proof (induction rules arbitrary: ts)
  case Nil
  have "concat (map (lookup_token []) ts) = ts" by (rule lookup_other) simp
  then show ?case by simp
next
  case (Cons p rules)
  obtain c r where p: "p = (c, r)" by (cases p)
  have r: "concat (map (lookup_token rules) r) = r" using Cons.prems p by (intro lookup_other) auto
  have "concat (map (lookup_token rules) (subst_tokens c r ts)) = concat (map (lookup_token (p # rules)) ts)"
  proof (induction ts)
    case (Cons t ts)
    have "concat (map (lookup_token rules) (subst_token c r t)) = lookup_token (p # rules) t"
    proof (cases "t = Dir c")
      case True
      then have "lookup_token (p # rules) t = r" by (simp add: lookup_token_def p)
      with True r show ?thesis by (simp add: subst_token_def)
    next
      case False
      then show ?thesis by (auto simp: subst_token_def lookup_token_def p split: token.splits)
    qed
    with Cons show ?case by simp
  qed simp
  moreover have "\<forall>(c, r) \<in> set rules. \<forall>d \<in> fst ` set rules. Dir d \<notin> set r" using Cons.prems by fastforce
  ultimately show ?case using Cons.IH [of "subst_tokens c r ts"] by (simp add: p)
qed

section \<open>The first rules\<close>

definition composite_rules :: "(u16 \<times> token list) list" where
  "composite_rules = map (\<lambda>(rule, repl). (last (to_units rule), tokenize (to_units repl))) (take 9 EXPANSION_RULES_1)"

definition two_char_rule :: "string \<times> string \<Rightarrow> bool" where
  "two_char_rule p \<longleftrightarrow>
     (let rule = to_units (fst p); repl = to_units (snd p) in
      rule = [37, last rule] \<and> last rule \<noteq> 37 \<and> flat (tokenize repl) = repl \<and> 36 \<notin> set repl
        \<and> list_all plain_token (tokenize repl))"

lemma subst_plain:
  "list_all plain_token ts \<Longrightarrow> list_all plain_token r \<Longrightarrow> list_all plain_token (subst_tokens c r ts)"
  by (induction ts) (auto simp: subst_token_def)

lemma two_char_rules:
  assumes "list_all two_char_rule rs" and "list_all plain_token ts"
  defines "rules \<equiv> map (\<lambda>(rule, repl). (last (to_units rule), tokenize (to_units repl))) rs"
  shows "fold (\<lambda>(rule, repl). replace_all (to_units rule) (to_units repl)) rs (flat ts)
      = flat (fold (\<lambda>(c, r). subst_tokens c r) rules ts)
    \<and> list_all plain_token (fold (\<lambda>(c, r). subst_tokens c r) rules ts)"
  using assms(1,2) unfolding rules_def
proof (induction rs arbitrary: ts)
  case (Cons p rs)
  obtain rule repl where p: "p = (rule, repl)" by (cases p)
  define c r where "c = last (to_units rule)" and "r = tokenize (to_units repl)"
  have ok: "to_units rule = [37, c]" "c \<noteq> 37" "to_units repl = flat r" "36 \<notin> set (flat r)" "list_all plain_token r"
    using Cons.prems(1) by (auto simp: two_char_rule_def p c_def r_def Let_def)
  have "replace_all (to_units rule) (to_units repl) (flat ts) = flat (subst_tokens c r ts)"
    using replace_all_rule [OF Cons.prems(2) ok(4,2)] ok(1,3) by simp
  moreover have "list_all plain_token (subst_tokens c r ts)" by (rule subst_plain [OF Cons.prems(2) ok(5)])
  ultimately show ?case using Cons.IH [of "subst_tokens c r ts"] Cons.prems(1) by (simp add: p c_def r_def)
qed simp

lemma three_char_rules:
  assumes "list_all (\<lambda>(rule, _). \<exists>e x. to_units rule = [37, e, x] \<and> (e = 69 \<or> e = 79)) rs"
    and "list_all plain_token ts" and "Dir 69 \<notin> set ts" and "Dir 79 \<notin> set ts"
  shows "fold (\<lambda>(rule, repl). replace_all (to_units rule) (to_units repl)) rs (flat ts) = flat ts"
  using assms(1)
proof (induction rs)
  case (Cons p rs)
  then obtain rule repl e x where p: "p = (rule, repl)" "to_units rule = [37, e, x]" "e = 69 \<or> e = 79"
    by (cases p) auto
  then have "replace_all (to_units rule) (to_units repl) (flat ts) = flat ts"
    using replace_long_rule [OF assms(2), of e] assms(3,4) by (auto simp: replace_all_def)
  then show ?case using Cons by (simp add: p(1))
qed simp

lemma rules_1_shapes:
  "list_all two_char_rule (take 9 EXPANSION_RULES_1)"
  "list_all (\<lambda>(rule, _). \<exists>e x. to_units rule = [37, e, x] \<and> (e = 69 \<or> e = 79)) (drop 9 EXPANSION_RULES_1)"
  by (simp_all add: EXPANSION_RULES_1_def two_char_rule_def to_units_def)

lemma composite_closed:
  "\<forall>(c, r) \<in> set composite_rules. \<forall>d \<in> fst ` set composite_rules. Dir d \<notin> set r"
  "\<forall>(c, r) \<in> set composite_rules. Dir 69 \<notin> set r \<and> Dir 79 \<notin> set r"
  by (simp_all add: composite_rules_def EXPANSION_RULES_1_def to_units_def)

lemma expand_first_tokens:
  assumes "list_all plain_token ts" and "Dir 69 \<notin> set ts" and "Dir 79 \<notin> set ts"
  defines "us \<equiv> concat (map (lookup_token composite_rules) ts)"
  shows "expand_first (flat ts) = flat us \<and> list_all plain_token us"
proof -
  let ?f = "\<lambda>(rule, repl). replace_all (to_units rule) (to_units repl)"
  have "fold ?f (take 9 EXPANSION_RULES_1) (flat ts) = flat us \<and> list_all plain_token us"
    using two_char_rules [OF rules_1_shapes(1) assms(1)] rules_in_sequence [OF composite_closed(1), of ts]
    unfolding us_def composite_rules_def [symmetric] by simp
  moreover have "Dir 69 \<notin> set us" "Dir 79 \<notin> set us"
    using assms(2,3) composite_closed(2)
    by (auto simp: us_def dest!: lookup_inserts)
  ultimately show ?thesis
    using three_char_rules [OF rules_1_shapes(2), of us] fold_append [of ?f "take 9 EXPANSION_RULES_1" "drop 9 EXPANSION_RULES_1"]
    by (simp add: expand_first_def)
qed

section \<open>The second rules\<close>

definition directive_rules :: "(string \<times> js_units result) list \<Rightarrow> (u16 \<times> js_units result) list" where
  "directive_rules rules = map (\<lambda>(rule, v). (last (to_units rule), v)) rules"

definition rule_tokens :: "(u16 \<times> js_units result) list \<Rightarrow> (u16 \<times> token list) list" where
  "rule_tokens rules = map (\<lambda>(c, v). (c, map Lit (case v of Inr str \<Rightarrow> str | Inl _ \<Rightarrow> []))) rules"

lemma subst_absent: "Dir c \<notin> set ts \<Longrightarrow> subst_tokens c r ts = ts"
  by (induction ts) (auto simp: subst_token_def)

lemma set_subst_Lits: "Dir d \<in> set (subst_tokens c (map Lit v) ts) \<Longrightarrow> Dir d \<in> set ts \<and> d \<noteq> c"
  by (induction ts) (auto simp: subst_token_def split: if_splits)

lemma plain_Lits: "plain_text v \<Longrightarrow> list_all plain_token (map Lit v)"
  by (auto simp: plain_text_def list_all_iff)

lemma expand_second_tokens:
  assumes "list_all (\<lambda>(rule, _). to_units rule = [37, last (to_units rule)] \<and> last (to_units rule) \<noteq> 37) rules"
    and "list_all plain_token ts"
    and "list_all (\<lambda>(c, v). Dir c \<in> set ts \<longrightarrow> (\<exists>str. v = Inr str \<and> plain_text str)) (directive_rules rules)"
  defines "us \<equiv> fold (\<lambda>(c, r). subst_tokens c r) (rule_tokens (directive_rules rules)) ts"
  shows "expand_second rules (flat ts) = Inr (flat us) \<and> list_all plain_token us"
  using assms(1-3) unfolding us_def
proof (induction rules arbitrary: ts)
  case (Cons p rules)
  obtain rule v where p: "p = (rule, v)" by (cases p)
  define c where "c = last (to_units rule)"
  have rule: "to_units rule = [37, c]" "c \<noteq> 37" using Cons.prems(1) by (simp_all add: p c_def)
  show ?case
  proof (cases "Dir c \<in> set ts")
    case True
    then obtain str where v: "v = Inr str" "plain_text str"
      using Cons.prems(3) by (auto simp: directive_rules_def p c_def)
    let ?ts = "subst_tokens c (map Lit str) ts"
    have "replace_all [37, c] str (flat ts) = flat ?ts"
      using replace_all_rule [OF Cons.prems(2), of "map Lit str" c] v(2) rule(2) by (simp add: plain_text_def)
    then have run: "expand_second (p # rules) (flat ts) = expand_second rules (flat ?ts)"
      using includes_text_rule [OF Cons.prems(2) rule(2)] True by (simp add: p rule(1) v(1))
    have "list_all plain_token ?ts" by (rule subst_plain [OF Cons.prems(2) plain_Lits [OF v(2)]])
    moreover have "list_all (\<lambda>(c, v). Dir c \<in> set ?ts \<longrightarrow> (\<exists>str. v = Inr str \<and> plain_text str)) (directive_rules rules)"
      using Cons.prems(3) by (auto simp: directive_rules_def list_all_iff dest!: set_subst_Lits)
    ultimately show ?thesis
      using Cons.IH [of ?ts] Cons.prems(1) by (simp add: run) (simp add: p v(1) c_def directive_rules_def rule_tokens_def)
  next
    case False
    have "list_all (\<lambda>(c, v). Dir c \<in> set ts \<longrightarrow> (\<exists>str. v = Inr str \<and> plain_text str)) (directive_rules rules)"
      using Cons.prems(3) by (simp add: directive_rules_def p)
    then show ?thesis
      using Cons.IH [of ts] Cons.prems(1,2) False includes_text_rule [OF Cons.prems(2) rule(2)]
      by (simp add: p rule(1)) (simp add: c_def [symmetric] directive_rules_def rule_tokens_def subst_absent)
  qed
qed (simp add: directive_rules_def rule_tokens_def)


section \<open>One pass\<close>

text \<open>What a directive stands for; one without a rule stays in the text.\<close>

definition directive ::
  "zone \<Rightarrow> (int \<Rightarrow> js_units) \<Rightarrow> tm \<Rightarrow> u16 \<Rightarrow> js_units result" where
  "directive z inexact t c =
     (case map_of (directive_rules (EXPANSION_RULES_2 z inexact t)) c of Some v \<Rightarrow> v | None \<Rightarrow> Inr [37, c])"

definition token_value :: "zone \<Rightarrow> (int \<Rightarrow> js_units) \<Rightarrow> tm \<Rightarrow> token \<Rightarrow> js_units" where
  "token_value z inexact t tok =
     (case tok of Lit u \<Rightarrow> [u] | Dir c \<Rightarrow> (case directive z inexact t c of Inr str \<Rightarrow> str | Inl _ \<Rightarrow> []))"

definition one_pass :: "zone \<Rightarrow> (int \<Rightarrow> js_units) \<Rightarrow> tm \<Rightarrow> token list \<Rightarrow> js_units" where
  "one_pass z inexact t ts =
     concat (map (token_value z inexact t) (concat (map (lookup_token composite_rules) ts)))"

lemma second_rule_shapes:
  "list_all (\<lambda>(rule, _). to_units rule = [37, last (to_units rule)] \<and> last (to_units rule) \<noteq> 37)
     (butlast (EXPANSION_RULES_2 z inexact t))"
  by (simp add: EXPANSION_RULES_2_def to_units_def)

lemma second_rules_split:
  "EXPANSION_RULES_2 z inexact t = butlast (EXPANSION_RULES_2 z inexact t) @ [(''%%'', Inr [37])]"
  "distinct (map fst (directive_rules (EXPANSION_RULES_2 z inexact t)))"
  by (simp_all add: EXPANSION_RULES_2_def directive_rules_def to_units_def)

lemma expand_second_append:
  "expand_second (rs @ rs') str = rbind (expand_second rs str) (expand_second rs')"
proof (induction rs arbitrary: str)
  case (Cons p rs)
  obtain rule v where "p = (rule, v)" by (cases p)
  with Cons show ?case by (cases v) auto
qed simp

lemma rule_tokens_closed:
  "\<forall>(c, r) \<in> set (rule_tokens rules). \<forall>d \<in> fst ` set (rule_tokens rules). Dir d \<notin> set r"
  by (auto simp: rule_tokens_def)

lemma map_of_rule_tokens:
  "map_of (rule_tokens rules) c = map_option (\<lambda>v. map Lit (case v of Inr str \<Rightarrow> str | Inl _ \<Rightarrow> [])) (map_of rules c)"
  by (induction rules) (auto simp: rule_tokens_def)

lemma map_of_butlast:
  assumes "c \<noteq> 37"
  shows "map_of (directive_rules (butlast (EXPANSION_RULES_2 z inexact t))) c
    = map_of (directive_rules (EXPANSION_RULES_2 z inexact t)) c"
proof -
  have "directive_rules (EXPANSION_RULES_2 z inexact t)
      = directive_rules (butlast (EXPANSION_RULES_2 z inexact t)) @ [(37, Inr [37])]"
    by (subst second_rules_split(1)) (simp add: directive_rules_def to_units_def)
  with assms show ?thesis by (simp add: map_add_def split: option.splits)
qed

text \<open>
  C25: On a format of characters and directives of one letter, replacing rule after rule in the whole text is
  the same as reading the format once from left to right and putting the value of each directive in its place; a
  directive without a rule stays as it is. The values must be there, and must hold no percent sign, no dollar sign
  and no 0. Formats with \<open>%%\<close>, or with a modifier, \<open>%E\<close> or \<open>%O\<close>, are left out: for some of them the two are not the
  same, as \<open>nested_directives_left_over\<close> shows.
\<close>

theorem format_is_one_pass:
  assumes "list_all plain_token ts" and "Dir 69 \<notin> set ts" and "Dir 79 \<notin> set ts"
    and "\<forall>tok \<in> set (concat (map (lookup_token composite_rules) ts)).
      case tok of Lit u \<Rightarrow> True
      | Dir c \<Rightarrow> (case map_of (directive_rules (EXPANSION_RULES_2 z inexact t)) c of
                   None \<Rightarrow> True | Some v \<Rightarrow> \<exists>str. v = Inr str \<and> plain_text str)"
  shows "format_time z inexact t (flat ts) = Inr (one_pass z inexact t ts)"
proof -
  define us where "us = concat (map (lookup_token composite_rules) ts)"
  define rules where "rules = butlast (EXPANSION_RULES_2 z inexact t)"
  have first: "expand_first (flat ts) = flat us" "list_all plain_token us"
    using expand_first_tokens [OF assms(1-3)] by (simp_all add: us_def)
  have known: "map_of (directive_rules rules) c = Some v \<Longrightarrow> \<exists>str. v = Inr str \<and> plain_text str" if "Dir c \<in> set us" for c v
  proof -
    have "c \<noteq> 37" using that first(2) by (auto simp: list_all_iff)
    moreover assume "map_of (directive_rules rules) c = Some v"
    ultimately show ?thesis
      using assms(4) [folded us_def] that map_of_butlast [of c z inexact t] by (auto simp: rules_def split: token.splits)
  qed
  have keys: "distinct (map fst (directive_rules rules))"
    using second_rules_split(2) [of z inexact t]
    by (subst (asm) second_rules_split(1)) (simp add: directive_rules_def rules_def)
  have "\<exists>str. v = Inr str \<and> plain_text str" if "(c, v) \<in> set (directive_rules rules)" "Dir c \<in> set us" for c v
    using known [OF that(2)] map_of_is_SomeI [OF keys that(1)] by auto
  then have "list_all (\<lambda>(c, v). Dir c \<in> set us \<longrightarrow> (\<exists>str. v = Inr str \<and> plain_text str)) (directive_rules rules)"
    by (auto simp: list_all_iff)
  from expand_second_tokens [OF second_rule_shapes [of z inexact t, folded rules_def] first(2) this]
  have second: "expand_second rules (flat us) = Inr (flat (concat (map (lookup_token (rule_tokens (directive_rules rules))) us)))"
      "list_all plain_token (concat (map (lookup_token (rule_tokens (directive_rules rules))) us))"
    by (simp_all add: rules_in_sequence [OF rule_tokens_closed])
  have texts: "flat (lookup_token (rule_tokens (directive_rules rules)) tok) = token_value z inexact t tok" if tok: "tok \<in> set us" for tok
  proof (cases tok)
    case (Dir c)
    have "c \<noteq> 37" using tok first(2) by (auto simp: Dir list_all_iff)
    with known [of c] tok map_of_butlast [of c z inexact t] show ?thesis
      by (cases "map_of (directive_rules rules) c")
        (auto simp: Dir lookup_token_def token_value_def directive_def map_of_rule_tokens rules_def)
  qed (simp add: lookup_token_def token_value_def)
  have out: "flat (concat (map (lookup_token (rule_tokens (directive_rules rules))) us)) = one_pass z inexact t ts"
  proof -
    have "flat (concat (map f xs)) = concat (map (\<lambda>x. flat (f x)) xs)" for f :: "token \<Rightarrow> token list" and xs
      by (induction xs) simp_all
    moreover have "map (\<lambda>x. flat (lookup_token (rule_tokens (directive_rules rules)) x)) us = map (token_value z inexact t) us"
      using texts by simp
    ultimately show ?thesis by (simp only: one_pass_def us_def [symmetric])
  qed
  have "expand_second (EXPANSION_RULES_2 z inexact t) (flat us) = Inr (one_pass z inexact t ts)"
    by (subst second_rules_split(1), subst rules_def [symmetric])
      (simp add: expand_second_append second includes_percent [OF second(2), unfolded out] out to_units_def)
  then show ?thesis
    using replace_percent(1) [OF first(2), of "[]"] replace_percent(2) [OF second(2), of "[]"] first(1)
    by (simp add: format_time_def replace_all_def out)
qed


text \<open>The directives of an example, \<open>%F\<close> on the leap day of 2024.\<close>

lemma leap_day_date: "lookup_token composite_rules (Dir 70) = [Dir 89, Lit 45, Dir 109, Lit 45, Dir 100]"
  by (simp add: lookup_token_def composite_rules_def EXPANSION_RULES_1_def to_units_def)

lemma leap_day_texts:
  "map_of (directive_rules (EXPANSION_RULES_2 z inexact leap_day_tm)) 89 = Some (Inr [50, 48, 50, 52])"
  "map_of (directive_rules (EXPANSION_RULES_2 z inexact leap_day_tm)) 109 = Some (Inr [48, 50])"
  "map_of (directive_rules (EXPANSION_RULES_2 z inexact leap_day_tm)) 100 = Some (Inr [50, 57])"
  by (simp_all add: EXPANSION_RULES_2_def directive_rules_def to_units_def leap_day_tm_def leadingNulls_def
      leadingSomething_def int_text_def nat_text.simps)

lemma format_is_one_pass_witness:
  "format_time utc_zone (\<lambda>_. []) leap_day_tm [37, 70] = Inr (to_units ''2024-02-29'')"
proof -
  have "format_time utc_zone (\<lambda>_. []) leap_day_tm (flat [Dir 70]) = Inr (one_pass utc_zone (\<lambda>_. []) leap_day_tm [Dir 70])"
    by (rule format_is_one_pass) (simp_all add: leap_day_date leap_day_texts plain_text_def)
  then show ?thesis
    by (simp add: one_pass_def leap_day_date token_value_def directive_def leap_day_texts to_units_def)
qed

section \<open>Directives that go wrong\<close>

text \<open>
  In a zone five and a half hours ahead of UTC, \<open>%z\<close> gives \<open>+0580\<close> where \<open>+0530\<close> is meant: the hours
  keep their fraction when they are multiplied by 100.
\<close>

theorem offset_of_half_hour_zone:
  "tm_gmtoff leap_day_tm = 5 * 3600 + 30 * 60
   \<and> format_time z inexact leap_day_tm (to_units ''%z'') = Inr (to_units ''+0580'')"
  by (simp add: format_time_def expand_first_def EXPANSION_RULES_1_def EXPANSION_RULES_2_def replace_all_def to_units_def
      leap_day_tm_def expand_z_def offset_digits_def int_text_def nat_text.simps Let_def)

text \<open>
  \<open>%Ec\<close> leaves \<open>%c\<close> in the text, because the rule for \<open>%c\<close> has been applied before, and \<open>%%D\<close>, which should
  give \<open>%D\<close>, is taken apart by the rule for \<open>%D\<close> before the percent sign is set aside.
\<close>

theorem nested_directives_left_over:
  "format_time z inexact leap_day_tm (to_units ''%Ec'') = Inr (to_units ''%c'')
   \<and> format_time z inexact leap_day_tm (to_units ''%%D'') = Inr (to_units ''%m/29/24'')"
  by (simp add: format_time_def expand_first_def EXPANSION_RULES_1_def EXPANSION_RULES_2_def replace_all_def to_units_def
      leap_day_tm_def leadingNulls_def leadingSomething_def int_text_def nat_text.simps Let_def)

end
