(* ===== verification/HeapGrowth.thy ===== *)
theory HeapGrowth
  imports Memory
begin

text \<open>
  Growing the linear memory: \<open>growMemory\<close> and \<open>_emscripten_resize_heap\<close>. The compiled allocator asks for a
  larger memory; the runtime tries to reserve some room ahead and asks for less when the engine refuses.

  The sizes tried are IEEE doubles. \<open>1 + 0.2 / cutDown\<close> is one of three constants, given here by their exact
  numerators over \<open>2 ^ 52\<close>; the product with the old size is rounded to 53 bits, ties to even. All other steps
  are exact: a memory has at least one page, so no value needs more than 53 bits. Sizes are therefore
  natural numbers in units of \<open>2 ^ (- 52)\<close>. Whether the engine grants a number of pages is a parameter.
\<close>

definition getHeapMax :: nat where "getHeapMax = 2147483648"

definition page :: nat where "page = 65536"

section \<open>Doubles\<close>

definition unit52 :: nat where "unit52 = 2 ^ 52"

fun bit_len :: "nat \<Rightarrow> nat" where
  "bit_len n = (if n = 0 then 0 else Suc (bit_len (n div 2)))"

declare bit_len.simps [simp del]

definition round53 :: "nat \<Rightarrow> nat" where
  "round53 n =
     (let k = bit_len n - 53; q = n div 2 ^ k; r = n mod 2 ^ k
      in (if 2 * r > 2 ^ k \<or> 2 * r = 2 ^ k \<and> odd q then q + 1 else q) * 2 ^ k)"

text \<open>\<open>1 + 0.2 / cutDown\<close> for 1, 2 and 4.\<close>

definition growth_factors :: "nat list" where
  "growth_factors = [5404319552844595, 4953959590107546, 4728779608739021]"

definition alignUp :: "nat \<Rightarrow> nat \<Rightarrow> nat" where
  "alignUp x multiple = x + (multiple - x mod multiple) mod multiple"

section \<open>Growing\<close>

text \<open>
  \<open>growMemory\<close>: the engine reads the number of pages as an integer, so the fraction is cut off and a number
  of \<open>- 1\<close> or less is refused; what it grants is filled with zeros. The result is whether it succeeded.
\<close>

definition growMemory :: "(nat \<Rightarrow> nat \<Rightarrow> bool) \<Rightarrow> nat \<Rightarrow> heap \<Rightarrow> bool \<times> heap" where
  "growMemory grants sz m =
     (let n = int sz - int (length m) + 65535; pages = nat n div page in
      if n \<le> - 65536 \<or> \<not> grants pages (length m) then (False, m)
      else (True, m @ replicate (pages * page) 0))"

text \<open>One attempt: the size asked for with a growth factor.\<close>

definition attempt_size :: "nat \<Rightarrow> nat \<Rightarrow> nat \<Rightarrow> nat" where
  "attempt_size oldSize requestedSize factor =
     (let overGrown = min (round53 (oldSize * factor)) ((requestedSize + 100663296) * unit52)
      in min getHeapMax (alignUp (max (requestedSize * unit52) overGrown) (page * unit52) div unit52))"

fun try_sizes :: "(nat \<Rightarrow> nat \<Rightarrow> bool) \<Rightarrow> nat \<Rightarrow> nat \<Rightarrow> nat list \<Rightarrow> heap \<Rightarrow> bool \<times> heap" where
  "try_sizes grants oldSize requestedSize [] m = (False, m)"
| "try_sizes grants oldSize requestedSize (factor # factors) m =
     (case growMemory grants (attempt_size oldSize requestedSize factor) m of
        (True, m1) \<Rightarrow> (True, m1)
      | (False, m1) \<Rightarrow> try_sizes grants oldSize requestedSize factors m1)"

definition emscripten_resize_heap :: "(nat \<Rightarrow> nat \<Rightarrow> bool) \<Rightarrow> i32 \<Rightarrow> heap \<Rightarrow> bool \<times> heap" where
  "emscripten_resize_heap grants requested m =
     (let oldSize = length m; requestedSize = unat requested in
      if requestedSize > getHeapMax then (False, m)
      else try_sizes grants oldSize requestedSize growth_factors m)"

section \<open>Sizes\<close>

lemma alignUp_props:
  assumes "0 < u"
  shows "u dvd alignUp x u" "x \<le> alignUp x u" "alignUp x u < x + u"
proof -
  have "x mod u = 0 \<or> x mod u < u" using assms by simp
  have e: "alignUp x u = (if x mod u = 0 then x else x + (u - x mod u))"
    using assms by (simp add: alignUp_def)
  have "x = u * (x div u) + x mod u" by simp
  then have "x + (u - x mod u) = u * (x div u) + u" using assms mod_less_divisor [of u x] by linarith
  then show "u dvd alignUp x u" using e by (auto simp: dvd_eq_mod_eq_0 [symmetric])
  show "x \<le> alignUp x u" by (simp add: alignUp_def)
  show "alignUp x u < x + u" using assms by (simp add: e)
qed

lemma getHeapMax_page: "page dvd getHeapMax" by (simp add: getHeapMax_def page_def)

lemma attempt_size_bounds:
  assumes "req \<le> getHeapMax"
  shows "req \<le> attempt_size old req f" "attempt_size old req f \<le> getHeapMax" "page dvd attempt_size old req f"
    "attempt_size old req f \<le> req + 100663296 + page"
proof -
  define over where "over = min (round53 (old * f)) ((req + 100663296) * unit52)"
  define al where "al = alignUp (max (req * unit52) over) (page * unit52)"
  have u: "0 < unit52" "0 < page" by (simp_all add: unit52_def page_def)
  note p = alignUp_props [of "page * unit52" "max (req * unit52) over", folded al_def]
  obtain k where k: "al = page * unit52 * k" using p(1) u by (auto elim: dvdE)
  have d: "al div unit52 = page * k" using u by (simp add: k)
  have s: "attempt_size old req f = min getHeapMax (page * k)"
    by (simp add: attempt_size_def over_def [symmetric] al_def [symmetric] d Let_def)
  have "req * unit52 \<le> page * k * unit52" using p(2) u by (simp add: k mult.assoc mult.commute [of k])
  then have "req \<le> page * k" using u by simp
  then show "req \<le> attempt_size old req f" "attempt_size old req f \<le> getHeapMax" using assms by (simp_all add: s)
  show "page dvd attempt_size old req f" using getHeapMax_page by (simp add: s min_def)
  have "page * k * unit52 < (req + 100663296) * unit52 + page * unit52"
    using p(3) u by (simp add: k over_def mult.assoc mult.commute [of k] max_def min_def algebra_simps split: if_splits)
  then have "page * k * unit52 < (req + 100663296 + page) * unit52" by (simp add: add_mult_distrib)
  then have "page * k < req + 100663296 + page" using u by simp
  then show "attempt_size old req f \<le> req + 100663296 + page" by (simp add: s min_le_iff_disj)
qed

lemma growMemory_to:
  assumes "page dvd length m" and "page dvd sz" and "growMemory grants sz m = (True, m')"
  shows "\<exists>z. m' = m @ replicate z 0 \<and> length m' = max (length m) sz"
proof -
  obtain a b where ab: "length m = page * a" "sz = page * b" using assms(1,2) unfolding dvd_def by blast
  define n where "n = int sz - int (length m) + 65535"
  have m': "m' = m @ replicate (nat n div page * page) 0" "- 65536 < n"
    using assms(3) by (auto simp: growMemory_def n_def [symmetric] Let_def split: if_splits)
  have "nat n div page = b - a"
  proof (cases "a \<le> b")
    case True
    then have "nat n = page * (b - a) + 65535" using ab by (simp add: n_def nat_diff_distrib' of_nat_diff page_def algebra_simps)
    then show ?thesis by (simp add: page_def)
  next
    case False
    then have "b + 1 \<le> a" by simp
    then have "page * b + page \<le> page * a" by (metis add_mult_distrib2 mult_le_mono2 mult.right_neutral)
    then have "n \<le> - 1" using ab by (simp add: n_def page_def)
    then show ?thesis using False by simp
  qed
  then have "m' = m @ replicate ((b - a) * page) 0" using m'(1) by simp
  moreover have "page * a + (b - a) * page = max (page * a) (page * b)"
    by (cases "a \<le> b") (simp_all add: max_def algebra_simps diff_mult_distrib2)
  ultimately show ?thesis using ab by auto
qed

lemma try_sizes_result:
  "case try_sizes grants old req factors m of
     (True, m') \<Rightarrow> \<exists>f \<in> set factors. growMemory grants (attempt_size old req f) m = (True, m')
   | (False, m') \<Rightarrow> m' = m \<and> (\<forall>f \<in> set factors. fst (growMemory grants (attempt_size old req f) m) = False)"
proof (induction factors)
  case (Cons f factors)
  show ?case
  proof (cases "growMemory grants (attempt_size old req f) m")
    case (Pair ok m1)
    then have "\<not> ok \<Longrightarrow> m1 = m" by (auto simp: growMemory_def Let_def split: if_splits)
    with Pair Cons show ?thesis by (cases ok) (auto split: prod.splits bool.splits)
  qed
qed simp

text \<open>
  C33: When the memory grows, it keeps its contents, is followed by zeros, is at least as large as asked for
  and as before, consists of whole pages, stays within 2 GB, and at most 96 MB and one page are reserved ahead.
  When it does not grow, it is unchanged, and either more than 2 GB were asked for or the engine refused
  every one of the three sizes.
\<close>

theorem resize_heap_grows_enough:
  assumes "page dvd length m" and "length m \<le> getHeapMax"
  shows "case emscripten_resize_heap grants req m of
      (True, m') \<Rightarrow> \<exists>z. m' = m @ replicate z 0 \<and> unat req \<le> length m' \<and> length m' \<le> getHeapMax \<and> page dvd length m'
        \<and> length m' \<le> max (length m) (unat req + 100663296 + page)
    | (False, m') \<Rightarrow> m' = m \<and> (unat req > getHeapMax
        \<or> (\<forall>f \<in> set growth_factors. \<not> fst (growMemory grants (attempt_size (length m) (unat req) f) m)))"
proof (cases "unat req > getHeapMax")
  case True
  then show ?thesis by (simp add: emscripten_resize_heap_def)
next
  case False
  let ?r = "try_sizes grants (length m) (unat req) growth_factors m"
  have run: "emscripten_resize_heap grants req m = ?r" using False by (simp add: emscripten_resize_heap_def)
  obtain ok m' where r: "?r = (ok, m')" by (cases ?r)
  note t = try_sizes_result [where grants = grants and old = "length m" and req = "unat req" and factors = growth_factors and m = m, unfolded r]
  show ?thesis
  proof (cases ok)
    case True
    then obtain f where f: "growMemory grants (attempt_size (length m) (unat req) f) m = (True, m')" using t by auto
    have req: "unat req \<le> getHeapMax" using False by simp
    note b = attempt_size_bounds [OF req, of "length m" f]
    from growMemory_to [OF assms(1) b(3) f] obtain z where
      z: "m' = m @ replicate z 0" "length m' = max (length m) (attempt_size (length m) (unat req) f)" by blast
    have "page dvd length m'" using assms(1) b(3) by (simp add: z(2) max_def)
    with z b assms(2) True show ?thesis by (auto simp: run r)
  next
    case False
    then show ?thesis using t by (simp add: run r)
  qed
qed

lemma resize_heap_grows_enough_witness:
  "\<exists>m'. emscripten_resize_heap (\<lambda>_ _. True) 100000 (replicate 65536 0) = (True, m') \<and> 100000 \<le> length m'"
proof -
  let ?r = "emscripten_resize_heap (\<lambda>_ _. True) 100000 (replicate 65536 0)"
  have h: "page dvd length (replicate 65536 (0 :: u8))" "length (replicate 65536 (0 :: u8)) \<le> getHeapMax"
    by (simp_all add: page_def getHeapMax_def)
  obtain m' where "?r = (True, m')"
  proof -
    have "fst (growMemory (\<lambda>_ _. True) sz m)" if "length m \<le> sz" for sz m using that by (simp add: growMemory_def Let_def)
    moreover have "65536 \<le> attempt_size 65536 100000 f" for f
      using attempt_size_bounds(1) [of 100000 65536 f] by (simp add: getHeapMax_def)
    ultimately have "fst ?r"
      by (auto simp: emscripten_resize_heap_def getHeapMax_def growth_factors_def split: prod.splits bool.splits)
        (metis fst_conv length_replicate)+
    with that show ?thesis by (cases ?r) auto
  qed
  with resize_heap_grows_enough [OF h, where grants = "\<lambda>_ _. True" and req = 100000] show ?thesis by auto
qed

end
