(* ===== verification/Environ.thy ===== *)
theory Environ
  imports Syscalls "HOL-Library.AList"
begin

text \<open>
  The environment of the compiled program: \<open>getEnvStrings\<close>, \<open>_environ_sizes_get\<close> and \<open>_environ_get\<close>. The C
  library first asks for the number and the total size of the strings, allocates, and then lets the runtime
  fill an array of pointers and a block of characters.

  \<open>ENV\<close> is a list of names and values in the order of insertion, which \<open>for (x in ENV)\<close> follows for names
  that are not numbers; a value of \<^term>\<open>None\<close> is \<open>undefined\<close>. The language of the browser and the name of
  the program are parameters.
\<close>

section \<open>The strings\<close>

type_synonym env = "(js_units \<times> js_units) list"

fun replace_first :: "u16 \<Rightarrow> u16 \<Rightarrow> js_units \<Rightarrow> js_units" where
  "replace_first a b [] = []"
| "replace_first a b (u # str) = (if u = a then b # str else u # replace_first a b str)"

definition getExecutableName :: "js_units option \<Rightarrow> js_units" where
  "getExecutableName thisProgram =
     (case thisProgram of Some p \<Rightarrow> if p = [] then to_units ''./this.program'' else p
      | None \<Rightarrow> to_units ''./this.program'')"

definition default_env :: "js_units option \<Rightarrow> js_units option \<Rightarrow> env" where
  "default_env language thisProgram =
     (let lang = replace_first 45 95 (case language of Some l \<Rightarrow> if l = [] then to_units ''C'' else l | None \<Rightarrow> to_units ''C'')
                   @ to_units ''.UTF-8'' in
      [(to_units ''USER'', to_units ''web_user''), (to_units ''LOGNAME'', to_units ''web_user''),
       (to_units ''PATH'', to_units ''/''), (to_units ''PWD'', to_units ''/''), (to_units ''HOME'', to_units ''/home/web_user''),
       (to_units ''LANG'', lang), (to_units ''_'', getExecutableName thisProgram)])"

definition apply_user :: "(js_units \<times> js_units option) list \<Rightarrow> env \<Rightarrow> env" where
  "apply_user ENV env =
     fold (\<lambda>(x, v) e. case v of None \<Rightarrow> AList.delete x e | Some w \<Rightarrow> AList.update x w e) ENV env"

text \<open>The strings are computed once and kept.\<close>

definition getEnvStrings ::
  "js_units option \<Rightarrow> js_units option \<Rightarrow> (js_units \<times> js_units option) list \<Rightarrow> js_units list option
     \<Rightarrow> js_units list \<times> js_units list option" where
  "getEnvStrings language thisProgram ENV cache =
     (case cache of
        Some strings \<Rightarrow> (strings, cache)
      | None \<Rightarrow>
          let strings = map (\<lambda>(x, v). x @ [61] @ v) (apply_user ENV (default_env language thisProgram))
          in (strings, Some strings))"

section \<open>Passing them to the program\<close>

fun stringToAscii :: "js_units \<Rightarrow> nat \<Rightarrow> heap \<Rightarrow> heap" where
  "stringToAscii [] buffer m = HEAP8_set buffer 0 m"
| "stringToAscii (u # str) buffer m = stringToAscii str (buffer + 1) (HEAP8_set buffer (ucast u) m)"

fun put_strings :: "nat \<Rightarrow> nat \<Rightarrow> js_units list \<Rightarrow> nat \<Rightarrow> nat \<Rightarrow> heap \<Rightarrow> heap" where
  "put_strings environ environ_buf [] i bufSize m = m"
| "put_strings environ environ_buf (str # strings) i bufSize m =
     (let ptr = environ_buf + bufSize
      in put_strings environ environ_buf strings (i + 1) (bufSize + length str + 1)
           (stringToAscii str ptr (HEAP32_set (environ + i * 4) (of_nat ptr) m)))"

definition environ_get :: "js_units list \<Rightarrow> nat \<Rightarrow> nat \<Rightarrow> heap \<Rightarrow> nat \<times> heap" where
  "environ_get strings environ environ_buf m = (0, put_strings environ environ_buf strings 0 0 m)"

definition environ_size :: "js_units list \<Rightarrow> nat" where
  "environ_size strings = fold (\<lambda>str bufSize. bufSize + (length str + 1)) strings 0"

definition environ_sizes_get :: "js_units list \<Rightarrow> nat \<Rightarrow> nat \<Rightarrow> heap \<Rightarrow> nat \<times> heap" where
  "environ_sizes_get strings penviron_count penviron_buf_size m =
     (0, HEAP32_set penviron_buf_size (of_nat (environ_size strings))
          (HEAP32_set penviron_count (of_nat (length strings)) m))"

section \<open>What is written\<close>

definition ascii :: "js_units \<Rightarrow> u8 list" where "ascii str = map ucast str @ [0]"

lemma length_ascii [simp]: "length (ascii str) = length str + 1" by (simp add: ascii_def)

lemma length_stringToAscii [simp]: "length (stringToAscii str buffer m) = length m"
  by (induction str arbitrary: buffer m) simp_all

lemma stringToAscii_nth:
  "buffer + length str < length m \<Longrightarrow> k < length m \<Longrightarrow>
   stringToAscii str buffer m ! k = (if buffer \<le> k \<and> k \<le> buffer + length str then ascii str ! (k - buffer) else m ! k)"
proof (induction str arbitrary: buffer m)
  case Nil
  then show ?case by (auto simp: HEAP8_set_def ascii_def nth_list_update)
next
  case (Cons u str)
  then have "stringToAscii (u # str) buffer m ! k =
      (if buffer + 1 \<le> k \<and> k \<le> buffer + 1 + length str then ascii str ! (k - (buffer + 1)) else HEAP8_set buffer (ucast u) m ! k)"
    by simp
  with Cons.prems show ?case by (auto simp: HEAP8_set_def ascii_def nth_list_update nth_Cons')
qed

lemma fold_size: "fold (\<lambda>str bufSize. bufSize + (length str + 1)) strings k = k + sum_list (map (\<lambda>str. length str + 1) strings)"
  by (induction strings arbitrary: k) simp_all

lemma environ_size_sum: "environ_size strings = sum_list (map (\<lambda>str. length str + 1) strings)"
  using fold_size [of strings 0] by (simp only: environ_size_def add_0)

lemma environ_size_simps [simp]:
  "environ_size [] = 0" "environ_size (str # strings) = length str + 1 + environ_size strings"
  by (simp_all add: environ_size_sum)

lemma length_concat_ascii: "length (concat (map ascii strings)) = environ_size strings"
  by (induction strings) simp_all

lemma HEAP32_get_cong:
  assumes "length m' = length m" and "\<And>k. 4 * (p div 4) \<le> k \<Longrightarrow> k < 4 * (p div 4) + 4 \<Longrightarrow> k < length m \<Longrightarrow> m' ! k = m ! k"
  shows "HEAP32_get p m' = HEAP32_get p m"
proof -
  have "typed_load 4 p m' = typed_load 4 p m"
    unfolding typed_load_def using assms by (intro nth_equalityI) auto
  then show ?thesis by (simp add: HEAP32_get_def)
qed

text \<open>The remaining strings, with the pointers from entry \<open>i\<close> on and the characters from address \<open>p\<close> on.\<close>

definition placed :: "nat \<Rightarrow> nat \<Rightarrow> js_units list \<Rightarrow> heap \<Rightarrow> heap \<Rightarrow> bool" where
  "placed a p strings m m' \<longleftrightarrow>
     length m' = length m
     \<and> (\<forall>k < length m. \<not> (a \<le> k \<and> k < a + 4 * length strings) \<and> \<not> (p \<le> k \<and> k < p + environ_size strings) \<longrightarrow> m' ! k = m ! k)
     \<and> (\<forall>j < length strings. HEAP32_get (a + 4 * j) m' = of_nat (p + environ_size (take j strings)))
     \<and> (\<forall>k < environ_size strings. m' ! (p + k) = concat (map ascii strings) ! k)"

lemma put_strings_placed:
  assumes "(environ + 4 * i) mod 4 = 0" and "environ + 4 * i + 4 * length strings \<le> length m"
    and "environ_buf + bufSize + environ_size strings \<le> length m"
    and "environ + 4 * i + 4 * length strings \<le> environ_buf + bufSize
       \<or> environ_buf + bufSize + environ_size strings \<le> environ + 4 * i"
  shows "placed (environ + 4 * i) (environ_buf + bufSize) strings m (put_strings environ environ_buf strings i bufSize m)"
  using assms
proof (induction strings arbitrary: i bufSize m)
  case (Cons str strings)
  define a p where "a = environ + 4 * i" and "p = environ_buf + bufSize"
  define m1 where "m1 = HEAP32_set a (of_nat p) m"
  define m2 where "m2 = stringToAscii str p m1"
  define m' where "m' = put_strings environ environ_buf (str # strings) i bufSize m"
  obtain q where q: "a = 4 * q" using Cons.prems(1) unfolding a_def mod_eq_0_iff_dvd dvd_def by blast
  have room: "a + 4 + 4 * length strings \<le> length m" "p + (length str + 1) + environ_size strings \<le> length m"
      "a + 4 + 4 * length strings \<le> p \<or> p + (length str + 1) + environ_size strings \<le> a"
    using Cons.prems(2-4) by (auto simp: a_def p_def)
  have run: "m' = put_strings environ environ_buf strings (i + 1) (bufSize + length str + 1) m2"
    by (simp add: m'_def m2_def m1_def a_def p_def Let_def mult.commute)
  have len: "length m1 = length m" "length m2 = length m" by (simp_all add: m1_def m2_def)
  have next_a: "environ + 4 * (i + 1) = a + 4" and next_p: "environ_buf + (bufSize + length str + 1) = p + (length str + 1)"
    by (simp_all add: a_def p_def)
  have "placed (environ + 4 * (i + 1)) (environ_buf + (bufSize + length str + 1)) strings m2 m'"
    unfolding run by (rule Cons.IH) (use Cons.prems(1) room len in \<open>auto simp: next_a next_p a_def p_def\<close>)
  then have "placed (a + 4) (p + (length str + 1)) strings m2 m'" by (simp only: next_a next_p)
  then have IH: "length m' = length m"
      "\<And>k. k < length m \<Longrightarrow> \<not> (a + 4 \<le> k \<and> k < a + 4 + 4 * length strings) \<Longrightarrow>
         \<not> (p + (length str + 1) \<le> k \<and> k < p + (length str + 1) + environ_size strings) \<Longrightarrow> m' ! k = m2 ! k"
      "\<And>j. j < length strings \<Longrightarrow> HEAP32_get (a + 4 + 4 * j) m' = of_nat (p + (length str + 1) + environ_size (take j strings))"
      "\<And>k. k < environ_size strings \<Longrightarrow> m' ! (p + (length str + 1) + k) = concat (map ascii strings) ! k"
    unfolding placed_def len by blast+
  have m2: "m2 ! k = (if p \<le> k \<and> k \<le> p + length str then ascii str ! (k - p) else m1 ! k)" if "k < length m" for k
    using stringToAscii_nth [of p str m1 k] room that by (simp add: m2_def len)
  have m1: "m1 ! k = m ! k" if "k < length m" "\<not> (a \<le> k \<and> k < a + 4)" for k
    using that by (auto simp: m1_def HEAP32_set_def typed_store_nth q)
  have first: "HEAP32_get a m' = of_nat p"
  proof -
    have "HEAP32_get a m' = HEAP32_get a m1"
    proof (rule HEAP32_get_cong)
      fix k assume k: "4 * (a div 4) \<le> k" "k < 4 * (a div 4) + 4" "k < length m1"
      then have r: "a \<le> k" "k < a + 4" by (simp_all add: q)
      have "m' ! k = m2 ! k" using IH(2) [of k] r k room len by auto
      also have "m2 ! k = m1 ! k" using m2 [of k] r k room len by auto
      finally show "m' ! k = m1 ! k" .
    qed (simp add: IH(1) len)
    also have "\<dots> = of_nat p" using room by (simp add: m1_def HEAP_get_set q)
    finally show ?thesis .
  qed
  have pointers: "HEAP32_get (a + 4 * j) m' = of_nat (p + environ_size (take j (str # strings)))"
    if "j < length (str # strings)" for j
  proof (cases j)
    case (Suc k)
    then show ?thesis using IH(3) [of k] that by (simp add: add.assoc)
  qed (use first in simp)
  have chars: "m' ! (p + k) = concat (map ascii (str # strings)) ! k" if k: "k < environ_size (str # strings)" for k
  proof (cases "k < length str + 1")
    case True
    then have "m' ! (p + k) = m2 ! (p + k)" using IH(2) [of "p + k"] room by auto
    then show ?thesis using True m2 [of "p + k"] room by (simp add: nth_append)
  next
    case False
    then show ?thesis using IH(4) [of "k - (length str + 1)"] k by (simp add: nth_append)
  qed
  have rest: "m' ! k = m ! k" if "k < length m" "\<not> (a \<le> k \<and> k < a + 4 * length (str # strings))"
      "\<not> (p \<le> k \<and> k < p + environ_size (str # strings))" for k
    using IH(2) [OF that(1)] m2 [OF that(1)] m1 [OF that(1)] that(2,3) by auto
  show ?case unfolding m'_def [symmetric] a_def [symmetric] p_def [symmetric] placed_def
    using IH(1) pointers chars rest by blast
qed (simp add: placed_def)

text \<open>
  Given as much memory as \<open>_environ_sizes_get\<close> reports, an aligned array of pointers and a block of
  characters that do not overlap, \<open>_environ_get\<close> fills exactly these: the block with the strings, each
  followed by a 0, the array with their addresses in order; every other byte of memory is as before.
\<close>

theorem environ_get_fills_reported_size:
  assumes "environ_sizes_get strings pc ps m0 = (0, m1)" and "pc mod 4 = 0" and "ps mod 4 = 0" and "pc \<noteq> ps"
    and "pc + 4 \<le> length m0" and "ps + 4 \<le> length m0"
    and "length strings < 2 ^ 32" and "environ_size strings < 2 ^ 32"
    and "n = unat (HEAP32_get pc m1)" and "sz = unat (HEAP32_get ps m1)"
    and "environ mod 4 = 0" and "environ + 4 * n \<le> length m" and "buf + sz \<le> length m"
    and "environ + 4 * n \<le> buf \<or> buf + sz \<le> environ"
  shows "\<exists>m'. environ_get strings environ buf m = (0, m') \<and> length m' = length m
    \<and> n = length strings \<and> take sz (drop buf m') = concat (map ascii strings)
    \<and> (\<forall>j < n. HEAP32_get (environ + 4 * j) m' = of_nat (buf + environ_size (take j strings)))
    \<and> (\<forall>k < length m. \<not> (environ \<le> k \<and> k < environ + 4 * n) \<and> \<not> (buf \<le> k \<and> k < buf + sz) \<longrightarrow> m' ! k = m ! k)"
proof -
  obtain q r where qr: "pc = 4 * q" "ps = 4 * r" using assms(2,3) unfolding mod_eq_0_iff_dvd dvd_def by blast
  then have "q < r \<or> r < q" using assms(4) by auto
  then have "HEAP32_get ps m1 = of_nat (environ_size strings) \<and> HEAP32_get pc m1 = of_nat (length strings)"
    using assms(1,5,6) qr by (elim disjE) (auto simp: environ_sizes_get_def HEAP_other HEAP_get_set)
  then have n: "n = length strings" "sz = environ_size strings"
    using assms(7-10) by (simp_all add: unat_of_nat)
  have "placed environ buf strings m (put_strings environ buf strings 0 0 m)"
    using put_strings_placed [of environ 0 strings m buf 0] assms(11-14) n by simp
  then have p: "length (put_strings environ buf strings 0 0 m) = length m"
      "\<And>k. k < length m \<Longrightarrow> \<not> (environ \<le> k \<and> k < environ + 4 * n) \<and> \<not> (buf \<le> k \<and> k < buf + sz) \<Longrightarrow> put_strings environ buf strings 0 0 m ! k = m ! k"
      "\<And>j. j < n \<Longrightarrow> HEAP32_get (environ + 4 * j) (put_strings environ buf strings 0 0 m) = of_nat (buf + environ_size (take j strings))"
      "\<And>k. k < sz \<Longrightarrow> put_strings environ buf strings 0 0 m ! (buf + k) = concat (map ascii strings) ! k"
    by (simp_all add: placed_def n)
  have "take sz (drop buf (put_strings environ buf strings 0 0 m)) = concat (map ascii strings)"
    using p(1,4) assms(13) by (intro nth_equalityI) (simp_all add: length_concat_ascii n)
  with p n show ?thesis by (auto simp: environ_get_def)
qed

lemma environ_get_fills_reported_size_witness:
  "\<exists>m'. environ_get [[65, 61, 66]] 0 4 (replicate 8 7) = (0, m') \<and> take 4 (drop 4 m') = [65, 61, 66, 0]"
proof -
  let ?strings = "[[65, 61, 66]] :: js_units list"
  obtain m1 where m1: "environ_sizes_get ?strings 0 4 (replicate 8 0) = (0, m1)" by (simp add: environ_sizes_get_def)
  then have "unat (HEAP32_get 0 m1) = 1" "unat (HEAP32_get 4 m1) = 4"
    by (auto simp: environ_sizes_get_def HEAP_other HEAP_get_set)
  with environ_get_fills_reported_size [OF m1, of 1 4 0 "replicate 8 7" 4] show ?thesis
    by (auto simp: ascii_def)
qed

end
