(* ===== verification/Base64.thy ===== *)
theory Base64
  imports Syscalls
begin

unbundle bit_operations_syntax

text \<open>
  Data URIs: the polyfill of \<open>atob\<close> for engines without it, \<open>intArrayFromBase64\<close> outside Node and
  \<open>tryParseAsDataURI\<close>. The code computes with 32-bit integers; \<open>charAt\<close> past the end gives the empty text,
  which \<open>indexOf\<close> finds at 0.
\<close>

definition keyStr :: js_units where
  "keyStr = to_units ''ABCDEFGHIJKLMNOPQRSTUVWXYZabcdefghijklmnopqrstuvwxyz0123456789+/=''"

fun index_of :: "'a list \<Rightarrow> 'a \<Rightarrow> nat" where
  "index_of [] x = 0"
| "index_of (y # ys) x = (if x = y then 0 else Suc (index_of ys x))"

definition key_index :: "js_units \<Rightarrow> nat \<Rightarrow> i32" where
  "key_index input i =
     (if i < length input
      then if input ! i \<in> set keyStr then of_nat (index_of keyStr (input ! i)) else - 1
      else 0)"

definition fromCharCode32 :: "i32 \<Rightarrow> u16" where "fromCharCode32 c = ucast c"

text \<open>One round of the loop, on the four characters at the front.\<close>

definition decode_round :: "js_units \<Rightarrow> js_units" where
  "decode_round input =
     (let enc1 = key_index input 0; enc2 = key_index input 1; enc3 = key_index input 2; enc4 = key_index input 3;
          chr1 = push_bit 2 enc1 OR signed_drop_bit 4 enc2;
          chr2 = push_bit 4 (enc2 AND 15) OR signed_drop_bit 2 enc3;
          chr3 = push_bit 6 (enc3 AND 3) OR enc4
      in [fromCharCode32 chr1] @ (if enc3 \<noteq> 64 then [fromCharCode32 chr2] else [])
           @ (if enc4 \<noteq> 64 then [fromCharCode32 chr3] else []))"

function atob_loop :: "js_units \<Rightarrow> js_units" where
  "atob_loop input =
     (let rest = drop 4 input
      in decode_round input @ (if rest = [] then [] else atob_loop rest))"
  by pat_completeness auto
termination
  by (relation "measure length") auto

declare atob_loop.simps [simp del]

definition atob :: "js_units \<Rightarrow> js_units" where
  "atob input = atob_loop (filter (\<lambda>c. c \<in> set keyStr) input)"

definition intArrayFromBase64 :: "js_units \<Rightarrow> u8 list" where
  "intArrayFromBase64 s = map ucast (atob s)"

definition dataURIPrefix :: js_units where
  "dataURIPrefix = to_units ''data:application/octet-stream;base64,''"

definition isDataURI :: "js_units \<Rightarrow> bool" where
  "isDataURI filename \<longleftrightarrow> take (length dataURIPrefix) filename = dataURIPrefix"

definition tryParseAsDataURI :: "js_units \<Rightarrow> u8 list option" where
  "tryParseAsDataURI filename =
     (if \<not> isDataURI filename then None
      else Some (intArrayFromBase64 (drop (length dataURIPrefix) filename)))"

section \<open>The encoding of RFC 4648\<close>

definition key_char :: "u8 \<Rightarrow> u16" where "key_char w = keyStr ! unat w"

fun encode64 :: "u8 list \<Rightarrow> js_units" where
  "encode64 [] = []"
| "encode64 [a] = [key_char (drop_bit 2 a), key_char (push_bit 4 (take_bit 2 a)), 61, 61]"
| "encode64 [a, b] =
     [key_char (drop_bit 2 a), key_char (push_bit 4 (take_bit 2 a) OR drop_bit 4 b), key_char (push_bit 2 (take_bit 4 b)), 61]"
| "encode64 (a # b # c # bs) =
     [key_char (drop_bit 2 a), key_char (push_bit 4 (take_bit 2 a) OR drop_bit 4 b),
      key_char (push_bit 2 (take_bit 4 b) OR drop_bit 6 c), key_char (take_bit 6 c)] @ encode64 bs"

lemma keyStr_facts: "distinct keyStr" "length keyStr = 65" "keyStr ! 64 = 61"
  by (simp_all add: keyStr_def to_units_def)

lemma index_of_nth: "distinct xs \<Longrightarrow> k < length xs \<Longrightarrow> index_of xs (xs ! k) = k"
proof (induction xs arbitrary: k)
  case (Cons x xs)
  then show ?case by (cases k) (auto simp: nth_mem)
qed simp

lemma key_index_char:
  assumes "i < length input" and "input ! i = key_char w" and "w < 64"
  shows "key_index input i = ucast w"
proof -
  have "unat w < 64" using assms(3) by (simp add: word_less_nat_alt)
  then have "key_char w \<in> set keyStr" "index_of keyStr (key_char w) = unat w"
    using keyStr_facts index_of_nth [of keyStr "unat w"] by (simp_all add: key_char_def nth_mem)
  with assms show ?thesis by (simp add: key_index_def)
qed

lemma key_index_pad: "i < length input \<Longrightarrow> input ! i = 61 \<Longrightarrow> key_index input i = 64"
  using keyStr_facts index_of_nth [of keyStr 64] nth_mem [of 64 keyStr] by (simp add: key_index_def)

lemma sextets: "drop_bit 2 (a :: u8) < 64" "push_bit 4 (take_bit 2 a) < (64 :: u8)" "push_bit 4 (take_bit 2 a) OR drop_bit 4 b < (64 :: u8)"
  "push_bit 2 (take_bit 4 b) < (64 :: u8)" "push_bit 2 (take_bit 4 b) OR drop_bit 6 c < (64 :: u8)" "take_bit 6 c < (64 :: u8)"
proof -
  have small: "x < 64" if "\<And>n. bit x n \<Longrightarrow> n < 6" for x :: u8
  proof -
    have "take_bit 6 x = x" using that by (intro bit_eqI) (auto simp: bit_simps)
    then have "unat x = take_bit 6 (unat x)" by (metis unsigned_take_bit_eq)
    then have "unat x < 2 ^ 6" by (metis take_bit_nat_less_exp)
    then show ?thesis by (simp add: word_less_nat_alt)
  qed
  show "drop_bit 2 (a :: u8) < 64" "push_bit 4 (take_bit 2 a) < (64 :: u8)" "push_bit 4 (take_bit 2 a) OR drop_bit 4 b < (64 :: u8)"
    "push_bit 2 (take_bit 4 b) < (64 :: u8)" "push_bit 2 (take_bit 4 b) OR drop_bit 6 c < (64 :: u8)" "take_bit 6 c < (64 :: u8)"
    by (rule small; auto simp: bit_simps dest: bit_imp_le_length)+
qed

lemma ucast_back: "ucast (ucast (w :: u8) :: i32) = w"
  by (rule bit_word_eqI) (auto simp: bit_simps)

lemma ucast_64: "ucast (64 :: i32) = (64 :: u8)"
  by simp

lemma sextet_cast:
  assumes "(w :: u8) < 64"
  shows "ucast w \<noteq> (64 :: i32)"
proof
  assume "ucast w = (64 :: i32)"
  then have "w = 64" using ucast_back [of w] ucast_64 by simp
  with assms show False by simp
qed

lemma low_bits: "x AND 3 = take_bit 2 (x :: i32)" "x AND 15 = take_bit 4 (x :: i32)"
  by (simp_all add: take_bit_eq_mask mask_eq_exp_minus_1)

lemma two_less: "\<not> n < 2 \<Longrightarrow> Suc (Suc (n - 2)) = n" "\<not> n < 4 \<Longrightarrow> Suc (Suc (n - 2)) = n" "2 \<le> n \<Longrightarrow> Suc (Suc (n - 2)) = n"
  by simp_all

lemma chr1_of: "ucast (fromCharCode32 (push_bit 2 (ucast (drop_bit 2 a)) OR signed_drop_bit 4 (ucast (push_bit 4 (take_bit 2 a) OR drop_bit 4 b)))) = (a :: u8)"
  unfolding fromCharCode32_def
  by (rule bit_word_eqI) (auto simp: bit_simps two_less dest: bit_imp_le_length)

lemma chr2_of: "ucast (fromCharCode32 (push_bit 4 (ucast (push_bit 4 (take_bit 2 a) OR drop_bit 4 (b :: u8)) AND 15)
    OR signed_drop_bit 2 (ucast (push_bit 2 (take_bit 4 b) OR drop_bit 6 c)))) = b"
  unfolding fromCharCode32_def low_bits
  by (rule bit_word_eqI) (auto simp: bit_simps dest: bit_imp_le_length)

lemma chr3_of: "ucast (fromCharCode32 (push_bit 6 (ucast (push_bit 2 (take_bit 4 b) OR drop_bit 6 (c :: u8)) AND 3)
    OR ucast (take_bit 6 c))) = c"
  unfolding fromCharCode32_def low_bits
  by (rule bit_word_eqI) (auto simp: bit_simps dest: bit_imp_le_length)

lemma group_three:
  "map ucast (decode_round (key_char (drop_bit 2 a) # key_char (push_bit 4 (take_bit 2 a) OR drop_bit 4 b)
      # key_char (push_bit 2 (take_bit 4 b) OR drop_bit 6 c) # key_char (take_bit 6 c) # rest)) = [a, b, c]"
  (is "map ucast (decode_round ?input) = _")
proof -
  have keys: "key_index ?input 0 = ucast (drop_bit 2 a)" "key_index ?input 1 = ucast (push_bit 4 (take_bit 2 a) OR drop_bit 4 b)"
    "key_index ?input 2 = ucast (push_bit 2 (take_bit 4 b) OR drop_bit 6 c)" "key_index ?input 3 = ucast (take_bit 6 c)"
    by (rule key_index_char [OF _ _ sextets(1)] key_index_char [OF _ _ sextets(3)] key_index_char [OF _ _ sextets(5)]
          key_index_char [OF _ _ sextets(6)]; simp)+
  show ?thesis
    unfolding decode_round_def keys Let_def
    by (simp only: sextet_cast [OF sextets(5)] sextet_cast [OF sextets(6)] not_False_eq_True if_True list.map append.simps
          chr1_of chr2_of chr3_of)
qed

lemma group_two:
  "map ucast (decode_round [key_char (drop_bit 2 a), key_char (push_bit 4 (take_bit 2 a) OR drop_bit 4 b),
      key_char (push_bit 2 (take_bit 4 b)), 61]) = [a, b]"
  (is "map ucast (decode_round ?input) = _")
proof -
  have keys: "key_index ?input 0 = ucast (drop_bit 2 a)" "key_index ?input 1 = ucast (push_bit 4 (take_bit 2 a) OR drop_bit 4 b)"
    "key_index ?input 2 = ucast (push_bit 2 (take_bit 4 b))" "key_index ?input 3 = 64"
    by (rule key_index_char [OF _ _ sextets(1)] key_index_char [OF _ _ sextets(3)] key_index_char [OF _ _ sextets(4)]
          key_index_pad; simp)+
  show ?thesis
    using chr2_of [of a b 0] unfolding decode_round_def keys Let_def
    by (simp only: sextet_cast [OF sextets(4)] not_False_eq_True if_True list.map append.simps chr1_of drop_bit_0 drop_bit_of_0
          or.right_neutral simp_thms if_False)
qed

lemma group_one:
  "map ucast (decode_round [key_char (drop_bit 2 a), key_char (push_bit 4 (take_bit 2 a)), 61, 61]) = [a]"
  (is "map ucast (decode_round ?input) = _")
proof -
  have keys: "key_index ?input 0 = ucast (drop_bit 2 a)" "key_index ?input 1 = ucast (push_bit 4 (take_bit 2 a))"
    "key_index ?input 2 = 64" "key_index ?input 3 = 64"
    by (rule key_index_char [OF _ _ sextets(1)] key_index_char [OF _ _ sextets(2)] key_index_pad; simp)+
  show ?thesis
    using chr1_of [of a 0] unfolding decode_round_def keys Let_def
    by (simp only: list.map append.simps drop_bit_of_0 or.right_neutral simp_thms if_False)
qed

lemma key_char_in: "w < 64 \<Longrightarrow> key_char w \<in> set keyStr"
  using keyStr_facts by (simp add: key_char_def nth_mem word_less_nat_alt)

lemma pad_in: "61 \<in> set keyStr"
  using keyStr_facts nth_mem [of 64 keyStr] by simp

lemma encode64_alphabet: "set (encode64 bs) \<subseteq> set keyStr"
  by (induction bs rule: encode64.induct) (auto intro!: key_char_in pad_in sextets simp del: push_bit_and)

lemma encode64_empty: "encode64 bs = [] \<longleftrightarrow> bs = []"
  by (cases bs rule: encode64.cases) simp_all

lemma atob_loop_encode64: "bs \<noteq> [] \<Longrightarrow> map ucast (atob_loop (encode64 bs)) = bs"
proof (induction bs rule: encode64.induct)
  case 1
  then show ?case by simp
next
  case (2 a)
  show ?case by (subst atob_loop.simps) (simp add: group_one)
next
  case (3 a b)
  show ?case by (subst atob_loop.simps) (simp add: group_two)
next
  case (4 a b c bs)
  then show ?case
    by (subst atob_loop.simps) (cases "bs = []"; simp add: Let_def group_three encode64_empty)
qed

lemma atob_empty: "map ucast (atob []) = [0, 0, 0 :: u8]"
  by (simp add: atob_def atob_loop.simps decode_round_def key_index_def fromCharCode32_def)

text \<open>
  The bytes of a data URI are the bytes that were encoded, except that an empty file is read as three NUL
  bytes.
\<close>

theorem data_uri_round_trip:
  "tryParseAsDataURI (dataURIPrefix @ encode64 bs) = Some (if bs = [] then [0, 0, 0] else bs)"
proof -
  have "filter (\<lambda>c. c \<in> set keyStr) (encode64 bs) = encode64 bs"
    using encode64_alphabet [of bs] by (auto intro: filter_True)
  then have "map ucast (atob (encode64 bs)) = (if bs = [] then [0, 0, 0] else bs)"
    using atob_loop_encode64 [of bs] atob_empty by (simp add: atob_def)
  then show ?thesis by (simp add: tryParseAsDataURI_def isDataURI_def intArrayFromBase64_def)
qed

end
