(* ===== verification/Lifecycle.thy ===== *)
theory Lifecycle
  imports Prelude
begin

text \<open>
  The life of the runtime: run dependencies, the callback queues, \<open>run\<close>, \<open>exitJS\<close>, \<open>abort\<close>, the keepalive
  counter and \<open>callUserCallback\<close>.

  Callbacks are functions of the embedding page and may call any of these functions again, also while a queue
  is being drained. A function is a number; the field \<open>page_code\<close>, which nothing changes, gives the calls that each
  function makes, so a callback may register itself again, and \<open>LoopForever\<close> stands for a loop of its own that
  does not end. A function that does something else each time it is called is a number for each of its registrations. The runtime is a machine with an explicit stack of what is left of the active functions. A throw
  removes frames up to the next handler.
\<close>

section \<open>Callbacks, frames and state\<close>

type_synonym cb = nat

datatype act =
    AddRunDependency | RemoveRunDependency
  | AddOnPreRun cb | AddOnInit cb | AddOnExit cb | AddOnPostRun cb
  | KeepalivePush | KeepalivePop | SafeSetTimeout cb
  | ExitWith int | ForceExit int | AbortRun | Unwind | ThrowOther | LoopForever

datatype phase = PreRunPhase | InitPhase | ExitPhase | PostRunPhase

datatype entry =
    RanCallback phase cb | InitRuntime int | ReadyResolved | RanOnRuntimeInitialized
  | Thrown | NativeExit | FsQuit | OnExit "int option" | OnAbort | Uncaught

text \<open>What is left of the active functions. \<open>EndTry\<close> is the end of a \<open>try\<close> with \<open>handleException\<close>.\<close>

datatype frame =
    Acts "act list" | Run | CallPreRun | AfterPreRun | AfterRunCaller | DoRun | CallInit | Ready | PostRun | CallPostRun
  | CallExit | ExitRuntimeEnd | ProcExit "int option" | MaybeExit | EndTry | ReceiveInstance cb

datatype timer = TimerDoRun | TimerSafe cb

text \<open>
  \<open>exportsLoaded\<close> says whether \<open>wasmExports\<close> is the exports of the module or still the empty object of the start.
  \<open>funcsOnExit\<close> is what the compiled exit handlers do at each call of \<open>___funcs_on_exit\<close>, and nothing from then on.
\<close>

record runtime =
  page_code :: "cb \<Rightarrow> act list"
  exportsLoaded :: bool
  funcsOnExit :: "act list list"
  modPreRun :: "cb list"
  modPostRun :: "cb list"
  onRuntimeInitialized :: "act list option"
  setStatus :: bool
  atPreRun :: "cb list"
  atInit :: "cb list"
  atExit :: "cb list"
  atPostRun :: "cb list"
  runtimeInitialized :: bool
  runtimeExited :: bool
  aborted :: bool
  exitStatus :: "int option"
  calledRun :: bool
  runDependencies :: int
  armed :: bool
  noExitRuntime :: bool
  keepaliveCounter :: int
  timers :: "timer list"
  trace :: "entry list"

type_synonym machine = "frame list \<times> runtime"

definition note_it :: "entry \<Rightarrow> runtime \<Rightarrow> runtime" where
  "note_it n s = s\<lparr>trace := trace s @ [n]\<rparr>"

section \<open>Throwing\<close>

text \<open>
  \<open>handleException\<close> ends the exception of \<open>exit\<close> and the text \<open>unwind\<close>; it hands every other exception to
  \<open>quit_\<close>, which throws it again.
\<close>

fun unwind_to_try :: "frame list \<Rightarrow> frame list option" where
  "unwind_to_try [] = None"
| "unwind_to_try (EndTry # K) = Some K"
| "unwind_to_try (_ # K) = unwind_to_try K"

definition throw_exit :: "frame list \<Rightarrow> runtime \<Rightarrow> machine" where
  "throw_exit K s = (case unwind_to_try K of Some K1 \<Rightarrow> (K1, note_it Thrown s) | None \<Rightarrow> ([], note_it Uncaught (note_it Thrown s)))"

definition throw_other :: "frame list \<Rightarrow> runtime \<Rightarrow> machine" where
  "throw_other K s = ([], note_it Uncaught (note_it Thrown s))"

section \<open>Running\<close>

text \<open>\<open>preRun\<close> and \<open>postRun\<close> move the callbacks of the module object to the queue, each to its front.\<close>

definition preRun :: "frame list \<Rightarrow> runtime \<Rightarrow> machine" where
  "preRun K s = (CallPreRun # K, s\<lparr>atPreRun := rev (modPreRun s) @ atPreRun s, modPreRun := []\<rparr>)"

definition postRun :: "frame list \<Rightarrow> runtime \<Rightarrow> machine" where
  "postRun K s = (CallPostRun # K, s\<lparr>atPostRun := rev (modPostRun s) @ atPostRun s, modPostRun := []\<rparr>)"

definition initRuntime :: "frame list \<Rightarrow> runtime \<Rightarrow> machine" where
  "initRuntime K s = (CallInit # K, note_it (InitRuntime (runDependencies s)) (s\<lparr>runtimeInitialized := True\<rparr>))"

definition doRun :: "frame list \<Rightarrow> runtime \<Rightarrow> machine" where
  "doRun K s =
     (if calledRun s then (K, s)
      else let s1 = s\<lparr>calledRun := True\<rparr> in
        if aborted s1 then (K, s1) else initRuntime (Ready # K) s1)"

definition run :: "frame list \<Rightarrow> runtime \<Rightarrow> machine" where
  "run K s = (if runDependencies s > 0 then (K, s) else preRun (AfterPreRun # K) s)"

definition after_preRun :: "frame list \<Rightarrow> runtime \<Rightarrow> machine" where
  "after_preRun K s =
     (if runDependencies s > 0 then (K, s)
      else if setStatus s then (K, s\<lparr>timers := timers s @ [TimerDoRun]\<rparr>)
      else doRun K s)"

definition runCaller :: "frame list \<Rightarrow> runtime \<Rightarrow> machine" where
  "runCaller K s = (if calledRun s then (K, s) else run (AfterRunCaller # K) s)"

definition addRunDependency :: "runtime \<Rightarrow> runtime" where
  "addRunDependency s = s\<lparr>runDependencies := runDependencies s + 1\<rparr>"

definition removeRunDependency :: "frame list \<Rightarrow> runtime \<Rightarrow> machine" where
  "removeRunDependency K s =
     (let s1 = s\<lparr>runDependencies := runDependencies s - 1\<rparr> in
      if runDependencies s1 = 0 \<and> armed s1 then runCaller K (s1\<lparr>armed := False\<rparr>) else (K, s1))"

section \<open>Exiting\<close>

definition keepRuntimeAlive :: "runtime \<Rightarrow> bool" where
  "keepRuntimeAlive s \<longleftrightarrow> noExitRuntime s \<or> keepaliveCounter s > 0"

text \<open>Without the exports, \<open>___funcs_on_exit\<close> calls \<open>undefined\<close>, a \<open>TypeError\<close>.\<close>

definition native_exit :: "frame list \<Rightarrow> runtime \<Rightarrow> machine" where
  "native_exit K s =
     (if \<not> exportsLoaded s then throw_other K s
      else case funcsOnExit s of
          [] \<Rightarrow> (K, note_it NativeExit s)
        | as # rest \<Rightarrow> (Acts as # K, note_it NativeExit (s\<lparr>funcsOnExit := rest\<rparr>)))"

definition exitRuntime :: "frame list \<Rightarrow> runtime \<Rightarrow> machine" where
  "exitRuntime K s = native_exit (CallExit # ExitRuntimeEnd # K) s"

definition proc_exit :: "int option \<Rightarrow> frame list \<Rightarrow> runtime \<Rightarrow> machine" where
  "proc_exit code K s =
     (let s1 = s\<lparr>exitStatus := code\<rparr>;
          s2 = if keepRuntimeAlive s1 then s1 else (note_it (OnExit code) s1)\<lparr>aborted := True\<rparr>
      in throw_exit K s2)"

definition exitJS :: "int option \<Rightarrow> frame list \<Rightarrow> runtime \<Rightarrow> machine" where
  "exitJS status K s =
     (let s1 = s\<lparr>exitStatus := status\<rparr> in
      if keepRuntimeAlive s1 then (ProcExit status # K, s1) else exitRuntime (ProcExit status # K) s1)"

definition keepalive_clear :: "runtime \<Rightarrow> runtime" where
  "keepalive_clear s = s\<lparr>noExitRuntime := False, keepaliveCounter := 0\<rparr>"

definition force_exit :: "int option \<Rightarrow> frame list \<Rightarrow> runtime \<Rightarrow> machine" where
  "force_exit status K s = exitJS status K (keepalive_clear s)"

definition abort_run :: "frame list \<Rightarrow> runtime \<Rightarrow> machine" where
  "abort_run K s = throw_other K ((note_it OnAbort s)\<lparr>aborted := True, exitStatus := Some 1\<rparr>)"

definition maybeExit :: "frame list \<Rightarrow> runtime \<Rightarrow> machine" where
  "maybeExit K s =
     (if runtimeExited s then (K, s)
      else if \<not> keepRuntimeAlive s then exitJS (exitStatus s) (EndTry # K) s
      else (K, s))"

definition callUserCallback :: "act list \<Rightarrow> frame list \<Rightarrow> runtime \<Rightarrow> machine" where
  "callUserCallback func K s =
     (if runtimeExited s \<or> aborted s then (K, s) else (Acts func # MaybeExit # EndTry # K, s))"

definition keepalivePush :: "runtime \<Rightarrow> runtime" where
  "keepalivePush s = s\<lparr>keepaliveCounter := keepaliveCounter s + 1\<rparr>"

definition keepalivePop :: "runtime \<Rightarrow> runtime" where
  "keepalivePop s = s\<lparr>keepaliveCounter := keepaliveCounter s - 1\<rparr>"

definition safeSetTimeout :: "cb \<Rightarrow> runtime \<Rightarrow> runtime" where
  "safeSetTimeout func s = (let s1 = keepalivePush s in s1\<lparr>timers := timers s1 @ [TimerSafe func]\<rparr>)"

section \<open>The machine\<close>

definition start_cb :: "phase \<Rightarrow> cb \<Rightarrow> frame list \<Rightarrow> runtime \<Rightarrow> machine" where
  "start_cb p c K s = (Acts (page_code s c) # K, note_it (RanCallback p c) s)"

fun perform :: "act \<Rightarrow> frame list \<Rightarrow> runtime \<Rightarrow> machine" where
  "perform AddRunDependency K s = (K, addRunDependency s)"
| "perform RemoveRunDependency K s = removeRunDependency K s"
| "perform (AddOnPreRun c) K s = (K, s\<lparr>atPreRun := c # atPreRun s\<rparr>)"
| "perform (AddOnInit c) K s = (K, s\<lparr>atInit := c # atInit s\<rparr>)"
| "perform (AddOnExit c) K s = (K, s\<lparr>atExit := c # atExit s\<rparr>)"
| "perform (AddOnPostRun c) K s = (K, s\<lparr>atPostRun := c # atPostRun s\<rparr>)"
| "perform KeepalivePush K s = (K, keepalivePush s)"
| "perform KeepalivePop K s = (K, keepalivePop s)"
| "perform (SafeSetTimeout c) K s = (K, safeSetTimeout c s)"
| "perform (ExitWith status) K s = exitJS (Some status) K s"
| "perform (ForceExit status) K s = force_exit (Some status) K s"
| "perform AbortRun K s = abort_run K s"
| "perform Unwind K s = throw_exit K s"
| "perform ThrowOther K s = throw_other K s"
| "perform LoopForever K s = (Acts [LoopForever] # K, s)"

text \<open>The engine hands over the compiled module: its exports, its constructors, one dependency less.\<close>

definition receiveInstance :: "cb \<Rightarrow> frame list \<Rightarrow> runtime \<Rightarrow> machine" where
  "receiveInstance ctors K s = removeRunDependency K (s\<lparr>exportsLoaded := True, atInit := ctors # atInit s\<rparr>)"

text \<open>One step of the frame on top. The four loops are \<open>callRuntimeCallbacks\<close> on their queues.\<close>

fun step :: "frame \<Rightarrow> frame list \<Rightarrow> runtime \<Rightarrow> machine" where
  "step (Acts []) K s = (K, s)"
| "step (Acts (a # as)) K s = perform a (Acts as # K) s"
| "step Run K s = run K s"
| "step CallPreRun K s =
     (case atPreRun s of [] \<Rightarrow> (K, s)
      | c # q \<Rightarrow> start_cb PreRunPhase c (CallPreRun # K) (s\<lparr>atPreRun := q\<rparr>))"
| "step AfterPreRun K s = after_preRun K s"
| "step AfterRunCaller K s = (K, if calledRun s then s else s\<lparr>armed := True\<rparr>)"
| "step DoRun K s = doRun K s"
| "step CallInit K s =
     (case atInit s of [] \<Rightarrow> (K, s)
      | c # q \<Rightarrow> start_cb InitPhase c (CallInit # K) (s\<lparr>atInit := q\<rparr>))"
| "step Ready K s =
     (case onRuntimeInitialized s of
        None \<Rightarrow> (PostRun # K, note_it ReadyResolved s)
      | Some body \<Rightarrow> (Acts body # PostRun # K, note_it RanOnRuntimeInitialized (note_it ReadyResolved s)))"
| "step PostRun K s = postRun K s"
| "step CallPostRun K s =
     (case atPostRun s of [] \<Rightarrow> (K, s)
      | c # q \<Rightarrow> start_cb PostRunPhase c (CallPostRun # K) (s\<lparr>atPostRun := q\<rparr>))"
| "step CallExit K s =
     (case atExit s of [] \<Rightarrow> (K, s)
      | c # q \<Rightarrow> start_cb ExitPhase c (CallExit # K) (s\<lparr>atExit := q\<rparr>))"
| "step ExitRuntimeEnd K s = (K, (note_it FsQuit s)\<lparr>runtimeExited := True\<rparr>)"
| "step (ProcExit code) K s = proc_exit code K s"
| "step MaybeExit K s = maybeExit K s"
| "step EndTry K s = (K, s)"
| "step (ReceiveInstance ctors) K s = receiveInstance ctors K s"

text \<open>
  The world: while the stack is empty the page may call in with a script of its own, the engine may hand over
  the compiled module, or a timer fires.
\<close>

definition fire :: "nat \<Rightarrow> runtime \<Rightarrow> machine" where
  "fire i s =
     (let s1 = s\<lparr>timers := take i (timers s) @ drop (Suc i) (timers s)\<rparr> in
      case timers s ! i of
        TimerDoRun \<Rightarrow> ([DoRun], s1)
      | TimerSafe c \<Rightarrow> callUserCallback (page_code s c) [] (keepalivePop s1))"

definition module_loaded ::
  "(cb \<Rightarrow> act list) \<Rightarrow> act list list \<Rightarrow> cb list \<Rightarrow> cb list \<Rightarrow> act list option \<Rightarrow> bool \<Rightarrow> bool \<Rightarrow> runtime" where
  "module_loaded page native pre post init status noExit =
     \<lparr>page_code = page, exportsLoaded = False, funcsOnExit = native, modPreRun = pre, modPostRun = post, onRuntimeInitialized = init, setStatus = status,
      atPreRun = [], atInit = [], atExit = [], atPostRun = [], runtimeInitialized = False, runtimeExited = False,
      aborted = False, exitStatus = None, calledRun = False, runDependencies = 1, armed = True,
      noExitRuntime = noExit, keepaliveCounter = 0, timers = [], trace = []\<rparr>"

text \<open>
  The script of the module runs \<open>createWasm\<close>, which adds the dependency counted above, then the \<open>preInit\<close>
  functions from the last to the first, then \<open>run\<close>.
\<close>

definition start_module :: "cb list \<Rightarrow> runtime \<Rightarrow> machine" where
  "start_module preInit s = (map (\<lambda>c. Acts (page_code s c)) (rev preInit) @ [Run], s)"

inductive reaches :: "machine \<Rightarrow> bool" where
  loaded: "reaches (start_module preInit (module_loaded page native pre post init status noExit))"
| stepped: "reaches (f # K, s) \<Longrightarrow> reaches (step f K s)"
| called: "reaches ([], s) \<Longrightarrow> reaches ([Acts script], s)"
| arrived: "reaches ([], s) \<Longrightarrow> reaches ([ReceiveInstance ctors], s)"
| fired: "reaches ([], s) \<Longrightarrow> i < length (timers s) \<Longrightarrow> reaches (fire i s)"

inductive_cases reaches_busy: "reaches (f # K, s)"

end
