(* ===== verification/LifecycleProps.thy ===== *)
theory LifecycleProps
  imports Lifecycle
begin

text \<open>
  Properties of the life of the runtime: every turn of the event loop ends, the runtime is initialised once
  and not before its dependencies, the run is not forgotten unless a callback throws, and the order of the
  callbacks at exit. The invariants \<open>init_ok\<close> and \<open>run_ok\<close> are kept by every step of the machine.
\<close>

section \<open>Turns of the event loop\<close>

definition tick :: "machine \<Rightarrow> machine" where
  "tick m = (case m of ([], s) \<Rightarrow> ([], s) | (f # K, s) \<Rightarrow> step f K s)"

lemma tick_simps [simp]: "tick ([], s) = ([], s)" "tick (f # K, s) = step f K s"
  by (simp_all add: tick_def)

text \<open>A turn runs until the stack is empty; \<^term>\<open>None\<close> is a turn that does not end.\<close>

partial_function (option) settle :: "frame list \<Rightarrow> runtime \<Rightarrow> runtime option" where
  "settle K s = (case K of [] \<Rightarrow> Some s | f # K1 \<Rightarrow> (case step f K1 s of (K2, s2) \<Rightarrow> settle K2 s2))"

lemma settle_simps [simp]:
  "settle [] s = Some s"
  "settle (f # K) s = (case step f K s of (K1, s1) \<Rightarrow> settle K1 s1)"
  by (subst settle.simps, simp)+

lemma settle_tick: "settle (fst (tick m)) (snd (tick m)) = settle (fst m) (snd m)"
proof (cases m)
  case (Pair K s)
  then show ?thesis by (cases K) (simp_all add: case_prod_beta)
qed

lemma settle_ticks: "(tick ^^ n) (K, s) = (K1, s1) \<Longrightarrow> settle K s = settle K1 s1"
proof (induction n arbitrary: K1 s1)
  case (Suc n)
  obtain K2 s2 where "(tick ^^ n) (K, s) = (K2, s2)" by fastforce
  with Suc show ?case using settle_tick [of "(K2, s2)"] by simp
qed simp

lemma ticks_trans: "(tick ^^ n) m = m1 \<Longrightarrow> (tick ^^ k) m1 = m2 \<Longrightarrow> (tick ^^ (k + n)) m = m2"
  by (simp add: funpow_add)

lemma ticks_step: "(tick ^^ n) (step f K s) = m \<Longrightarrow> (tick ^^ Suc n) (f # K, s) = m"
  by (simp add: funpow_Suc_right del: funpow.simps)

lemma settle_is_reached:
  assumes "settle K s = Some r"
  shows "\<exists>n. (tick ^^ n) (K, s) = ([], r)"
proof (rule settle.raw_induct [OF _ assms])
  fix settle' K s r
  assume IH: "\<And>K s r. settle' K s = Some r \<Longrightarrow> \<exists>n. (tick ^^ n) (K, s) = ([], r)"
    and r: "(case K of [] \<Rightarrow> Some s | f # K1 \<Rightarrow> (case step f K1 s of (K2, s2) \<Rightarrow> settle' K2 s2)) = Some r"
  show "\<exists>n. (tick ^^ n) (K, s) = ([], r)"
  proof (cases K)
    case Nil
    then show ?thesis using r by (intro exI [of _ 0]) simp
  next
    case (Cons f K1)
    obtain K2 s2 where e: "step f K1 s = (K2, s2)" by fastforce
    then obtain n where "(tick ^^ n) (step f K1 s) = ([], r)" using IH [of K2 s2 r] r Cons by auto
    then show ?thesis using ticks_step Cons by blast
  qed
qed

lemma reaches_ticks: "reaches m \<Longrightarrow> reaches ((tick ^^ n) m)"
proof (induction n)
  case (Suc n)
  obtain K s where "(tick ^^ n) m = (K, s)" by fastforce
  with Suc show ?case by (cases K) (auto intro: reaches.stepped)
qed simp

lemma reaches_settle: "reaches (K, s) \<Longrightarrow> settle K s = Some r \<Longrightarrow> reaches ([], r)"
  using settle_is_reached [of K s r] reaches_ticks by metis

text \<open>A module with one callback before the run, loaded, and then the compiled module arrives.\<close>

definition small_page :: "cb \<Rightarrow> act list" where
  "small_page c = (if c = 7 then [AddOnInit 8] else if c = 2 then [KeepalivePop] else [])"

definition waiting_module :: runtime where
  "waiting_module = module_loaded small_page [] [7] [] None False False"

definition started_module :: runtime where
  "started_module = the (settle [ReceiveInstance 9] waiting_module)"

lemmas machine_defs = throw_exit_def throw_other_def preRun_def postRun_def initRuntime_def doRun_def run_def after_preRun_def
  runCaller_def addRunDependency_def removeRunDependency_def receiveInstance_def native_exit_def exitRuntime_def proc_exit_def
  exitJS_def keepalive_clear_def force_exit_def abort_run_def maybeExit_def callUserCallback_def keepalivePush_def
  keepalivePop_def safeSetTimeout_def start_cb_def note_it_def Let_def

lemmas run_simps = machine_defs module_loaded_def keepRuntimeAlive_def small_page_def

lemma waiting_module_is: "settle [Run] waiting_module = Some waiting_module"
  by (simp add: waiting_module_def run_simps)

lemma reaches_waiting_module: "reaches ([], waiting_module)"
  using reaches_settle [OF reaches.loaded [of "[]", unfolded start_module_def]] waiting_module_is
  by (simp add: waiting_module_def del: settle_simps)

lemma started_module_is: "settle [ReceiveInstance 9] waiting_module = Some started_module"
  by (simp add: started_module_def waiting_module_def run_simps)

lemma reaches_started_module: "reaches ([], started_module)"
  using reaches_settle [OF reaches.arrived [OF reaches_waiting_module] started_module_is] .

lemma started_module_trace:
  "trace started_module = [RanCallback PreRunPhase 7, InitRuntime 0, RanCallback InitPhase 8, RanCallback InitPhase 9, ReadyResolved]"
  "calledRun started_module" "exportsLoaded started_module" "\<not> keepRuntimeAlive started_module" "atExit started_module = []"
  "funcsOnExit started_module = []" "page_code started_module = small_page"
  by (simp_all add: started_module_def waiting_module_def run_simps)

section \<open>Every turn of the event loop ends\<close>

text \<open>\<open>(d, c)\<close> is in \<open>registrations page\<close> if the function \<open>c\<close> registers \<open>d\<close> on one of the four queues.\<close>

fun queued :: "act \<Rightarrow> cb set" where
  "queued (AddOnPreRun c) = {c}"
| "queued (AddOnInit c) = {c}"
| "queued (AddOnExit c) = {c}"
| "queued (AddOnPostRun c) = {c}"
| "queued _ = {}"

definition registrations :: "(cb \<Rightarrow> act list) \<Rightarrow> (cb \<times> cb) set" where
  "registrations page = {(d, c). \<exists>a \<in> set (page c). d \<in> queued a}"

fun act_weight :: "(cb \<Rightarrow> nat) \<Rightarrow> act \<Rightarrow> nat" where
  "act_weight w (AddOnPreRun c) = 2 + w c"
| "act_weight w (AddOnInit c) = 2 + w c"
| "act_weight w (AddOnExit c) = 2 + w c"
| "act_weight w (AddOnPostRun c) = 2 + w c"
| "act_weight w _ = 10"

definition acts_weight :: "(cb \<Rightarrow> nat) \<Rightarrow> act list \<Rightarrow> nat" where
  "acts_weight w as = 1 + sum_list (map (act_weight w) as)"

lemma acts_weight_simps [simp]:
  "acts_weight w [] = 1" "acts_weight w (a # as) = act_weight w a + acts_weight w as"
  by (simp_all add: acts_weight_def)

definition ranked :: "(cb \<Rightarrow> act list) \<Rightarrow> (cb \<Rightarrow> nat) \<Rightarrow> bool" where
  "ranked page w \<longleftrightarrow> (\<forall>c. w c = 1 + acts_weight w (page c))"

lemma act_weight_cong: "(\<And>d. d \<in> queued a \<Longrightarrow> v d = w d) \<Longrightarrow> act_weight v a = act_weight w a"
  by (cases a) simp_all

lemma registrations_ranked:
  assumes "wf (registrations page)"
  obtains w where "ranked page w"
proof
  define w where "w = wfrec (registrations page) (\<lambda>v c. 1 + acts_weight v (page c))"
  have "w c = 1 + acts_weight w (page c)" for c
  proof -
    have "act_weight (cut w (registrations page) c) a = act_weight w a" if "a \<in> set (page c)" for a
      by (rule act_weight_cong) (use that in \<open>auto simp: cut_def registrations_def\<close>)
    then have "acts_weight (cut w (registrations page) c) (page c) = acts_weight w (page c)"
      by (simp add: acts_weight_def cong: map_cong)
    then show ?thesis using wfrec [OF assms, of "\<lambda>v c. 1 + acts_weight v (page c)" c] by (simp add: w_def)
  qed
  then show "ranked page w" by (simp add: ranked_def)
qed

fun frame_weight :: "(cb \<Rightarrow> nat) \<Rightarrow> act list option \<Rightarrow> frame \<Rightarrow> nat" where
  "frame_weight w h (Acts as) = acts_weight w as"
| "frame_weight w h Run = 4"
| "frame_weight w h MaybeExit = 6"
| "frame_weight w h PostRun = 2"
| "frame_weight w h Ready = 4 + (case h of None \<Rightarrow> 0 | Some as \<Rightarrow> acts_weight w as)"
| "frame_weight w h (ReceiveInstance c) = 10 + w c"
| "frame_weight w h _ = 1"

definition stack_weight :: "(cb \<Rightarrow> nat) \<Rightarrow> act list option \<Rightarrow> frame list \<Rightarrow> nat" where
  "stack_weight w h K = sum_list (map (frame_weight w h) K)"

definition queue_weight :: "(cb \<Rightarrow> nat) \<Rightarrow> cb list \<Rightarrow> nat" where
  "queue_weight w q = sum_list (map w q)"

definition native_weight :: "(cb \<Rightarrow> nat) \<Rightarrow> act list list \<Rightarrow> nat" where
  "native_weight w ass = sum_list (map (acts_weight w) ass)"

lemma weight_simps [simp]:
  "stack_weight w h [] = 0" "stack_weight w h (f # K) = frame_weight w h f + stack_weight w h K"
  "queue_weight w [] = 0" "queue_weight w (c # q) = w c + queue_weight w q"
  "queue_weight w (rev q @ q') = queue_weight w q + queue_weight w q'"
  "native_weight w [] = 0" "native_weight w (as # ass) = acts_weight w as + native_weight w ass"
  by (simp_all add: stack_weight_def queue_weight_def native_weight_def sum_list_rev rev_map [symmetric])

definition pending :: "(cb \<Rightarrow> nat) \<Rightarrow> runtime \<Rightarrow> nat" where
  "pending w s = queue_weight w (modPreRun s) + queue_weight w (modPostRun s) + queue_weight w (atPreRun s)
     + queue_weight w (atInit s) + queue_weight w (atExit s) + queue_weight w (atPostRun s) + native_weight w (funcsOnExit s)"

definition weight :: "(cb \<Rightarrow> nat) \<Rightarrow> machine \<Rightarrow> nat" where
  "weight w m = stack_weight w (onRuntimeInitialized (snd m)) (fst m) + pending w (snd m)"

definition turn_order :: "(cb \<Rightarrow> nat) \<Rightarrow> (machine \<times> machine) set" where
  "turn_order w = (\<lambda>m. if calledRun (snd m) then 0 else 1 :: nat) <*mlex*> measure (weight w)"

lemma unwind_weight: "unwind_to_try K = Some K1 \<Longrightarrow> stack_weight w h K1 \<le> stack_weight w h K"
proof (induction K)
  case (Cons f K)
  then show ?case by (cases f) auto
qed simp

text \<open>No function of the page loops by itself, and neither does the code that is running or still to run.\<close>

fun frame_acts :: "frame \<Rightarrow> act list" where
  "frame_acts (Acts as) = as"
| "frame_acts _ = []"

definition loop_free :: "machine \<Rightarrow> bool" where
  "loop_free m = (case m of (K, s) \<Rightarrow>
     (\<forall>f \<in> set K. LoopForever \<notin> set (frame_acts f)) \<and> (\<forall>c. LoopForever \<notin> set (page_code s c))
     \<and> (\<forall>as \<in> set (funcsOnExit s). LoopForever \<notin> set as)
     \<and> (\<forall>as. onRuntimeInitialized s = Some as \<longrightarrow> LoopForever \<notin> set as))"

lemma unwind_suffix: "unwind_to_try K = Some K1 \<Longrightarrow> set K1 \<subseteq> set K"
proof (induction K)
  case (Cons f K)
  then show ?case by (cases f) auto
qed simp

lemma step_loop_free: "loop_free (f # K, s) \<Longrightarrow> loop_free (step f K s)"
proof (cases f)
  case (Acts as)
  assume lf: "loop_free (f # K, s)"
  show ?thesis
  proof (cases as)
    case (Cons a as')
    then show ?thesis using lf
      by (cases a) (auto simp: Acts machine_defs loop_free_def dest: subsetD [OF unwind_suffix] split: option.splits list.splits)
  qed (use lf in \<open>auto simp: Acts loop_free_def\<close>)
qed (auto simp: machine_defs loop_free_def dest: subsetD [OF unwind_suffix] split: option.splits list.splits)

lemma step_keeps_page: "page_code (snd (step f K s)) = page_code s"
proof (cases f)
  case (Acts as)
  show ?thesis
  proof (cases as)
    case (Cons a as')
    then show ?thesis by (cases a) (simp_all add: Acts machine_defs split: option.splits list.splits)
  qed (simp add: Acts)
qed (simp_all add: machine_defs split: option.splits list.splits)

lemma step_decreases:
  assumes "ranked (page_code s) w" and "loop_free (f # K, s)"
  shows "(step f K s, (f # K, s)) \<in> turn_order w"
proof -
  have rank: "w c = 1 + acts_weight w (page_code s c)" for c using assms(1) by (simp add: ranked_def)
  show ?thesis
  proof (cases f)
    case (Acts as)
    show ?thesis
    proof (cases as)
      case (Cons a as')
      then show ?thesis using assms(2)
        by (cases a) (auto simp: Acts machine_defs turn_order_def mlex_prod_def weight_def pending_def acts_weight_def loop_free_def
            dest!: unwind_weight [where w = w and h = "onRuntimeInitialized s"] split: option.splits list.splits)
    qed (simp add: Acts turn_order_def mlex_prod_def weight_def)
  qed (auto simp: machine_defs turn_order_def mlex_prod_def weight_def pending_def rank
          dest!: unwind_weight [where w = w and h = "onRuntimeInitialized s"] split: option.splits list.splits)
qed

lemma settles:
  assumes "ranked (page_code s) w" and "loop_free (K, s)"
  shows "settle K s \<noteq> None"
proof -
  have "wf (turn_order w)" by (simp add: turn_order_def wf_mlex)
  then have "ranked (page_code (snd m)) w \<Longrightarrow> loop_free m \<Longrightarrow> settle (fst m) (snd m) \<noteq> None" for m
  proof (induction m rule: wf_induct_rule)
    case (less m)
    show ?case
    proof (cases "fst m")
      case (Cons f K1)
      then have m: "m = (f # K1, snd m)" by (metis prod.collapse)
      then have "(step f K1 (snd m), m) \<in> turn_order w" using step_decreases less.prems by metis
      moreover have "loop_free (step f K1 (snd m))" using step_loop_free less.prems(2) m by metis
      ultimately have "settle (fst (step f K1 (snd m))) (snd (step f K1 (snd m))) \<noteq> None"
        using less by (simp add: step_keeps_page)
      then show ?thesis by (simp add: Cons case_prod_beta)
    qed simp
  qed
  from this [of "(K, s)"] assms show ?thesis by simp
qed

text \<open>
  C28: Callbacks may register further callbacks, call back into the runtime, exit and throw. If no function of
  the page registers itself, directly or through the functions it registers, and none loops by itself, every
  turn of the event loop ends: the stack is empty after finitely many steps.
\<close>

theorem every_turn_ends:
  assumes "wf (registrations (page_code s))" and "loop_free (K, s)"
  shows "\<exists>n r. (tick ^^ n) (K, s) = ([], r) \<and> settle K s = Some r"
proof -
  obtain w where "ranked (page_code s) w" using registrations_ranked [OF assms(1)] .
  then obtain r where "settle K s = Some r" using settles [OF _ assms(2)] by auto
  then show ?thesis using settle_is_reached by blast
qed

lemma every_turn_ends_witness:
  "\<exists>n r. (tick ^^ n) ([Run], module_loaded small_page [] [7] [] None False False) = ([], r)"
proof -
  have "registrations small_page = {(8, 7)}" by (auto simp: registrations_def small_page_def split: if_splits)
  then have "wf (registrations small_page)" by (simp add: wf_insert)
  then have "wf (registrations (page_code (module_loaded small_page [] [7] [] None False False)))"
    by (simp add: module_loaded_def)
  moreover have "loop_free ([Run], module_loaded small_page [] [7] [] None False False)"
    by (simp add: module_loaded_def loop_free_def small_page_def)
  ultimately show ?thesis using every_turn_ends by blast
qed

text \<open>
  The condition is needed: a callback before the run that registers itself again keeps \<open>callRuntimeCallbacks\<close>
  busy for ever, as does a callback that loops.
\<close>

definition again_page :: "cb \<Rightarrow> act list" where
  "again_page c = [AddOnPreRun c]"

fun draining :: "machine \<Rightarrow> bool" where
  "draining (CallPreRun # K, s) \<longleftrightarrow> atPreRun s \<noteq> [] \<and> page_code s = again_page"
| "draining (Acts [] # CallPreRun # K, s) \<longleftrightarrow> atPreRun s \<noteq> [] \<and> page_code s = again_page"
| "draining (Acts [AddOnPreRun c] # CallPreRun # K, s) \<longleftrightarrow> page_code s = again_page"
| "draining _ \<longleftrightarrow> False"

lemma draining_tick: "draining m \<Longrightarrow> draining (tick m)"
  by (cases m rule: draining.cases) (auto simp: start_cb_def again_page_def note_it_def split: list.split)

theorem self_registration_never_ends:
  "fst ((tick ^^ n) (run [] (module_loaded again_page [] [c] [] None False True\<lparr>runDependencies := 0\<rparr>))) \<noteq> []"
proof -
  have "draining ((tick ^^ n) (run [] (module_loaded again_page [] [c] [] None False True\<lparr>runDependencies := 0\<rparr>)))"
    by (induction n) (simp_all add: run_def preRun_def module_loaded_def draining_tick)
  then show ?thesis by (metis draining.simps(4) prod.collapse)
qed

section \<open>The runtime is initialised once\<close>

fun is_init :: "entry \<Rightarrow> bool" where
  "is_init (InitRuntime d) = True"
| "is_init _ = False"

fun needs_init :: "entry \<Rightarrow> bool" where
  "needs_init (RanCallback InitPhase i) = True"
| "needs_init (RanCallback PostRunPhase i) = True"
| "needs_init ReadyResolved = True"
| "needs_init RanOnRuntimeInitialized = True"
| "needs_init _ = False"

fun after_init :: "frame \<Rightarrow> bool" where
  "after_init CallInit = True"
| "after_init Ready = True"
| "after_init PostRun = True"
| "after_init CallPostRun = True"
| "after_init _ = False"

definition early :: "entry list \<Rightarrow> entry list" where
  "early es = takeWhile (\<lambda>e. \<not> is_init e) es"

definition inits :: "entry list \<Rightarrow> entry list" where
  "inits es = filter is_init es"

definition init_ok :: "machine \<Rightarrow> bool" where
  "init_ok m = (case m of (K, s) \<Rightarrow>
     filter needs_init (early (trace s)) = []
     \<and> (inits (trace s) = [] \<longrightarrow> filter after_init K = [])
     \<and> (inits (trace s) \<noteq> [] \<longrightarrow> calledRun s \<and> (\<exists>d. inits (trace s) = [InitRuntime d] \<and> (setStatus s \<or> d \<le> 0)))
     \<and> (TimerDoRun \<in> set (timers s) \<or> DoRun \<in> set K \<longrightarrow> setStatus s))"

lemma early_snoc [simp]: "early (es @ [e]) = (if inits es = [] \<and> \<not> is_init e then early es @ [e] else early es)"
  by (auto simp: early_def inits_def filter_empty_conv takeWhile_append takeWhile_eq_all_conv [THEN iffD2])

lemma inits_snoc [simp]: "inits (es @ [e]) = inits es @ (if is_init e then [e] else [])"
  by (simp add: inits_def)

lemma early_Nil [simp]: "early [] = []" "inits [] = []"
  by (simp_all add: early_def inits_def)

lemma trace_note [simp]: "trace (note_it e s) = trace s @ [e]"
  by (simp add: note_it_def)

lemma init_ok_irrelevant [simp]:
  "init_ok (K, s\<lparr>modPreRun := x0\<rparr>) = init_ok (K, s)"
  "init_ok (K, s\<lparr>modPostRun := x1\<rparr>) = init_ok (K, s)"
  "init_ok (K, s\<lparr>atPreRun := x2\<rparr>) = init_ok (K, s)"
  "init_ok (K, s\<lparr>atInit := x3\<rparr>) = init_ok (K, s)"
  "init_ok (K, s\<lparr>atExit := x4\<rparr>) = init_ok (K, s)"
  "init_ok (K, s\<lparr>atPostRun := x5\<rparr>) = init_ok (K, s)"
  "init_ok (K, s\<lparr>runtimeInitialized := x6\<rparr>) = init_ok (K, s)"
  "init_ok (K, s\<lparr>runtimeExited := x7\<rparr>) = init_ok (K, s)"
  "init_ok (K, s\<lparr>aborted := x8\<rparr>) = init_ok (K, s)"
  "init_ok (K, s\<lparr>exitStatus := x9\<rparr>) = init_ok (K, s)"
  "init_ok (K, s\<lparr>runDependencies := x10\<rparr>) = init_ok (K, s)"
  "init_ok (K, s\<lparr>armed := x11\<rparr>) = init_ok (K, s)"
  "init_ok (K, s\<lparr>noExitRuntime := x12\<rparr>) = init_ok (K, s)"
  "init_ok (K, s\<lparr>keepaliveCounter := x13\<rparr>) = init_ok (K, s)"
  "init_ok (K, s\<lparr>exportsLoaded := x14\<rparr>) = init_ok (K, s)"
  "init_ok (K, s\<lparr>funcsOnExit := x15\<rparr>) = init_ok (K, s)"
  by (simp_all add: init_ok_def)

lemma init_ok_push [simp]:
  "\<not> after_init f \<Longrightarrow> f \<noteq> DoRun \<Longrightarrow> init_ok (f # K, s) = init_ok (K, s)"
  "inits (trace s) \<noteq> [] \<Longrightarrow> f \<noteq> DoRun \<Longrightarrow> init_ok (f # K, s) = init_ok (K, s)"
  by (auto simp: init_ok_def)

lemma init_ok_pop: "init_ok (f # K, s) \<Longrightarrow> init_ok (K, s)" "init_ok (f # K, s) \<Longrightarrow> after_init f \<Longrightarrow> inits (trace s) \<noteq> []"
  "init_ok (f # K, s) \<Longrightarrow> f = DoRun \<Longrightarrow> setStatus s"
  by (auto simp: init_ok_def split: if_splits)

lemma init_ok_entry [simp]:
  "\<not> is_init e \<Longrightarrow> needs_init e \<longrightarrow> inits (trace s) \<noteq> [] \<Longrightarrow> init_ok (K, note_it e s) = init_ok (K, s)"
  by (auto simp: init_ok_def note_it_def)

lemma init_ok_timer [simp]:
  "init_ok (K, s\<lparr>timers := timers s @ [TimerSafe c]\<rparr>) = init_ok (K, s)"
  "setStatus s \<Longrightarrow> init_ok (K, s\<lparr>timers := timers s @ [TimerDoRun]\<rparr>) = init_ok (K, s)"
  "init_ok (K, s\<lparr>keepaliveCounter := k, timers := ts\<rparr>) = init_ok (K, s\<lparr>timers := ts\<rparr>)"
  by (auto simp: init_ok_def)

lemma init_ok_empty: "init_ok (K, s) \<Longrightarrow> init_ok ([], s)"
  by (simp add: init_ok_def)

lemma init_ok_subset: "init_ok (K, s) \<Longrightarrow> set K1 \<subseteq> set K \<Longrightarrow> init_ok (K1, s)"
  by (simp add: init_ok_def filter_empty_conv) blast

lemma init_ok_throw_exit: "init_ok (K, s) \<Longrightarrow> init_ok (throw_exit K s)"
  using init_ok_subset [OF _ unwind_suffix] by (auto simp: throw_exit_def init_ok_empty split: option.split)

lemma init_ok_throw_other: "init_ok (K, s) \<Longrightarrow> init_ok (throw_other K s)"
  by (auto simp: throw_other_def intro: init_ok_empty)

lemma init_ok_exitJS: "init_ok (K, s) \<Longrightarrow> init_ok (exitJS status K s)"
  by (auto simp: exitJS_def exitRuntime_def native_exit_def Let_def intro: init_ok_throw_other split: list.split)

lemma init_ok_doRun:
  assumes "init_ok (K, s)" and "setStatus s \<or> runDependencies s \<le> 0"
  shows "init_ok (doRun K s)"
proof (cases "calledRun s")
  case False
  then have "inits (trace s) = []" using assms(1) by (auto simp: init_ok_def)
  then show ?thesis
    using assms False by (simp add: doRun_def initRuntime_def Let_def init_ok_def note_it_def)
qed (use assms in \<open>simp add: doRun_def\<close>)

lemma init_ok_remove: "init_ok (K, s) \<Longrightarrow> init_ok (removeRunDependency K s)"
  by (simp add: removeRunDependency_def runCaller_def run_def preRun_def Let_def)

lemma init_ok_perform: "init_ok (K, s) \<Longrightarrow> init_ok (perform a K s)"
  by (cases a) (simp_all add: init_ok_remove init_ok_exitJS init_ok_throw_exit init_ok_throw_other force_exit_def abort_run_def
      addRunDependency_def keepalivePush_def keepalivePop_def safeSetTimeout_def keepalive_clear_def Let_def)

lemma step_init_ok:
  assumes "init_ok (f # K, s)"
  shows "init_ok (step f K s)"
proof -
  note pop = init_ok_pop [OF assms]
  show ?thesis
  proof (cases f)
    case (Acts as)
    then show ?thesis using pop(1) by (cases as) (simp_all add: init_ok_perform)
  next
    case (ProcExit code)
    then show ?thesis using pop(1) by (auto simp: proc_exit_def Let_def intro!: init_ok_throw_exit)
  next
    case DoRun
    then show ?thesis using pop(1,3) by (auto intro: init_ok_doRun)
  next
    case AfterPreRun
    then show ?thesis using pop(1) by (auto simp: after_preRun_def intro: init_ok_doRun)
  next
    case (ReceiveInstance ctors)
    then show ?thesis using pop(1) by (simp add: receiveInstance_def init_ok_remove)
  qed (use pop in \<open>auto simp: run_def preRun_def postRun_def start_cb_def maybeExit_def init_ok_exitJS note_it_def [symmetric]
      split: list.splits option.splits\<close>)
qed

lemma init_ok_doRun_frame: "setStatus s \<Longrightarrow> init_ok (DoRun # K, s) = init_ok (K, s)"
  by (simp add: init_ok_def)

lemma reaches_init_ok: "reaches m \<Longrightarrow> init_ok m"
proof (induction rule: reaches.induct)
  case (loaded preInit page native pre post init status noExit)
  then show ?case by (auto simp: init_ok_def start_module_def module_loaded_def filter_empty_conv)
next
  case (stepped f K s)
  then show ?case by (simp add: step_init_ok)
next
  case (called s script)
  then show ?case by simp
next
  case (arrived s ctors)
  then show ?case by simp
next
  case (fired s i)
  have "set (take i (timers s) @ drop (Suc i) (timers s)) \<subseteq> set (timers s)"
    using set_take_subset [of i] set_drop_subset [of "Suc i"] by fastforce
  then have "init_ok ([], s\<lparr>timers := take i (timers s) @ drop (Suc i) (timers s)\<rparr>)"
    using fired by (auto simp: init_ok_def)
  moreover have "timers s ! i = TimerDoRun \<Longrightarrow> setStatus s"
    using fired nth_mem [of i "timers s"] by (auto simp: init_ok_def)
  ultimately show ?case
    by (cases "timers s ! i") (simp_all add: fire_def callUserCallback_def keepalivePop_def init_ok_doRun_frame Let_def)
qed

text \<open>
  C26: However the callbacks call back into the runtime: it is initialised at most once, never while run
  dependencies are pending unless the page displays a status (then the check precedes a timer), and
  initialisation callbacks, the ready promise and the callbacks after the run come later.
\<close>

theorem runtime_initialised_once:
  assumes "reaches (K, s)"
  shows "length (inits (trace s)) \<le> 1 \<and> (\<forall>d. InitRuntime d \<in> set (trace s) \<and> \<not> setStatus s \<longrightarrow> d \<le> 0)
    \<and> filter needs_init (early (trace s)) = []"
proof -
  have ok: "init_ok (K, s)" using reaches_init_ok [OF assms] .
  moreover have "InitRuntime d \<in> set (inits (trace s))" if "InitRuntime d \<in> set (trace s)" for d
    using that by (simp add: inits_def)
  ultimately show ?thesis by (cases "inits (trace s) = []") (auto simp: init_ok_def)
qed

theorem runtime_initialised_once_witness:
  "length (inits (trace started_module)) \<le> 1 \<and> trace started_module \<noteq> []"
  using runtime_initialised_once [OF reaches_started_module] by (simp add: started_module_trace)

section \<open>The run is not forgotten\<close>

fun callers_below :: "frame list \<Rightarrow> bool" where
  "callers_below [] \<longleftrightarrow> True"
| "callers_below (f # K) \<longleftrightarrow> (f = AfterPreRun \<or> take 1 K \<noteq> [AfterRunCaller]) \<and> callers_below K"

definition will_check :: "frame list \<Rightarrow> runtime \<Rightarrow> bool" where
  "will_check K s \<longleftrightarrow>
     runDependencies s > 0 \<or> TimerDoRun \<in> set (timers s) \<or> Run \<in> set K \<or> AfterPreRun \<in> set K \<or> DoRun \<in> set K"

definition waits :: "frame list \<Rightarrow> runtime \<Rightarrow> bool" where
  "waits K s \<longleftrightarrow> callers_below K \<and> (armed s \<or> AfterRunCaller \<in> set K) \<and> will_check K s"

definition run_ok :: "machine \<Rightarrow> bool" where
  "run_ok m = (case m of (K, s) \<Rightarrow> Thrown \<in> set (trace s) \<or> calledRun s \<or> waits K s)"

lemma caller_has_check: "callers_below (f # K) \<Longrightarrow> f \<noteq> AfterPreRun \<Longrightarrow> AfterRunCaller \<in> set K \<Longrightarrow> AfterPreRun \<in> set K"
proof (induction K arbitrary: f)
  case (Cons g K)
  then show ?case by (cases "g = AfterPreRun") auto
qed simp

lemma run_ok_throw [simp]: "run_ok (throw_exit K s)" "run_ok (throw_other K s)"
  by (simp_all add: run_ok_def throw_exit_def throw_other_def split: option.split)

lemma run_ok_done: "calledRun s \<or> Thrown \<in> set (trace s) \<Longrightarrow> run_ok (step f K s)"
proof (cases f)
  case (Acts as)
  assume "calledRun s \<or> Thrown \<in> set (trace s)"
  then show ?thesis
  proof (cases as)
    case (Cons a as')
    then show ?thesis using \<open>calledRun s \<or> Thrown \<in> set (trace s)\<close>
      by (cases a) (auto simp: Acts machine_defs run_ok_def split: option.splits list.splits)
  next
    case Nil
    then show ?thesis using \<open>calledRun s \<or> Thrown \<in> set (trace s)\<close> by (auto simp: Acts run_ok_def)
  qed
qed (auto simp: machine_defs run_ok_def split: option.splits list.splits)

lemma waits_remove:
  assumes "waits K s" and "take 1 K \<noteq> [AfterRunCaller]" and "armed s \<or> AfterPreRun \<in> set K"
  shows "run_ok (removeRunDependency K s)"
proof (cases "runDependencies s = 1 \<and> armed s")
  case True
  then show ?thesis
    using assms by (auto simp: removeRunDependency_def runCaller_def run_def preRun_def Let_def run_ok_def waits_def will_check_def)
next
  case False
  then show ?thesis
    using assms by (auto simp: removeRunDependency_def Let_def run_ok_def waits_def will_check_def)
qed

lemma waits_remove_acts: "waits (Acts as # K) s \<Longrightarrow> run_ok (removeRunDependency (Acts as # K) s)"
  using caller_has_check [of "Acts as" K] by (intro waits_remove) (auto simp: waits_def)

lemma waits_receive: "waits (ReceiveInstance c # K) s \<Longrightarrow> run_ok (receiveInstance c K s)"
  unfolding receiveInstance_def using caller_has_check [of "ReceiveInstance c" K]
  by (intro waits_remove) (auto simp: waits_def will_check_def)

lemma waits_perform: "waits (Acts as # K) s \<Longrightarrow> run_ok (perform a (Acts as # K) s)"
proof (cases "a = RemoveRunDependency")
  case False
  assume "waits (Acts as # K) s"
  with False show ?thesis
    by (cases a) (auto simp: machine_defs run_ok_def waits_def will_check_def split: option.splits list.splits)
qed (simp add: waits_remove_acts)

lemma waits_step:
  assumes "waits (f # K) s"
  shows "run_ok (step f K s)"
proof (cases f)
  case (Acts as)
  show ?thesis
  proof (cases as)
    case Nil
    then show ?thesis using assms by (auto simp: Acts run_ok_def waits_def will_check_def)
  next
    case (Cons a as')
    then have "waits (Acts as' # K) s" using assms by (auto simp: Acts waits_def will_check_def)
    then show ?thesis using Cons by (simp add: Acts waits_perform)
  qed
next
  case (ProcExit code)
  then show ?thesis by (simp add: proc_exit_def Let_def)
next
  case (ReceiveInstance ctors)
  then show ?thesis using assms by (simp add: waits_receive)
next
  case AfterPreRun
  then show ?thesis using assms
    by (auto simp: after_preRun_def doRun_def initRuntime_def note_it_def Let_def run_ok_def waits_def will_check_def)
next
  case DoRun
  then show ?thesis using assms by (auto simp: doRun_def initRuntime_def note_it_def Let_def run_ok_def)
qed (use assms in \<open>auto simp: machine_defs run_ok_def waits_def will_check_def split: option.splits list.splits\<close>)

lemma reaches_run_ok: "reaches m \<Longrightarrow> run_ok m"
proof (induction rule: reaches.induct)
  case (loaded preInit page native pre post init status noExit)
  have "callers_below (map (\<lambda>c. Acts (page c)) cs @ [Run])" for cs
  proof (induction cs)
    case (Cons c cs)
    then show ?case by (cases cs) auto
  qed simp
  then show ?case by (simp add: run_ok_def start_module_def module_loaded_def waits_def will_check_def)
next
  case (stepped f K s)
  then show ?case by (cases "calledRun s \<or> Thrown \<in> set (trace s)") (auto simp: run_ok_done run_ok_def [of "(f # K, s)"] intro: waits_step)
next
  case (called s script)
  then show ?case by (auto simp: run_ok_def waits_def will_check_def)
next
  case (arrived s ctors)
  then show ?case by (auto simp: run_ok_def waits_def will_check_def)
next
  case (fired s i)
  have "TimerDoRun \<in> set (timers s) \<Longrightarrow> timers s ! i \<noteq> TimerDoRun \<Longrightarrow>
      TimerDoRun \<in> set (take i (timers s) @ drop (Suc i) (timers s))"
    using id_take_nth_drop [OF fired.hyps(2)] by (metis Un_iff insert_iff list.simps(15) set_append)
  then show ?case
    using fired
    by (cases "timers s ! i") (auto simp: fire_def callUserCallback_def keepalivePop_def run_ok_def waits_def will_check_def Let_def)
qed

text \<open>
  As long as no callback throws, the run is not forgotten: between two turns either it has been called, or
  \<open>runCaller\<close> is still registered and dependencies are pending or the timer of the status display is.
\<close>

theorem run_not_forgotten:
  assumes "reaches ([], s)" and "Thrown \<notin> set (trace s)"
  shows "calledRun s \<or> armed s \<and> (runDependencies s > 0 \<or> TimerDoRun \<in> set (timers s))"
  using reaches_run_ok [OF assms(1)] assms(2) by (auto simp: run_ok_def waits_def will_check_def)

theorem run_not_forgotten_witness:
  "armed waiting_module \<and> runDependencies waiting_module = 1 \<and> \<not> calledRun waiting_module"
  using run_not_forgotten [OF reaches_waiting_module] by (simp add: waiting_module_def module_loaded_def)

text \<open>
  Without the condition on throws the run can be forgotten: a callback before the run that throws the text
  \<open>unwind\<close>, inside the callback of a timer, is stopped by \<open>callUserCallback\<close> after \<open>runCaller\<close> was unregistered.
  Nothing is reported, no dependency is pending, and the run is never called.
\<close>

definition unwinding_page :: "cb \<Rightarrow> act list" where
  "unwinding_page c = (if c = 1 then [Unwind] else [RemoveRunDependency])"

theorem unwind_before_run_forgets_it:
  "\<exists>s. reaches ([], s) \<and> Uncaught \<notin> set (trace s) \<and> runDependencies s = 0 \<and> timers s = [] \<and> \<not> calledRun s \<and> \<not> armed s"
proof -
  define s0 where "s0 = module_loaded unwinding_page [] [1] [] None False True"
  define s1 where "s1 = s0\<lparr>keepaliveCounter := 1, timers := [TimerSafe 2]\<rparr>"
  define s2 where "s2 = the (settle (fst (fire 0 s1)) (snd (fire 0 s1)))"
  have "settle [Run] s0 = Some s0" by (simp add: s0_def run_simps)
  then have "reaches ([], s0)"
    using reaches_settle [OF reaches.loaded [of "[]", unfolded start_module_def]] by (simp add: s0_def del: settle_simps)
  moreover have "settle [Acts [SafeSetTimeout 2]] s0 = Some s1" by (simp add: s0_def s1_def run_simps)
  ultimately have r1: "reaches ([], s1)" using reaches_settle [OF reaches.called] by blast
  have e2: "settle (fst (fire 0 s1)) (snd (fire 0 s1)) = Some s2" "Uncaught \<notin> set (trace s2)" "runDependencies s2 = 0"
    "timers s2 = []" "\<not> calledRun s2" "\<not> armed s2"
    by (simp_all add: s2_def s1_def s0_def fire_def run_simps unwinding_page_def)
  have "reaches (fire 0 s1)" using reaches.fired [OF r1, of 0] by (simp add: s1_def)
  then have "reaches ([], s2)" using reaches_settle [of "fst (fire 0 s1)" "snd (fire 0 s1)"] e2(1) by simp
  then show ?thesis using e2 by blast
qed

section \<open>The run comes\<close>

definition leads :: "machine \<Rightarrow> machine \<Rightarrow> bool" where
  "leads m m' \<longleftrightarrow> (\<exists>n. (tick ^^ n) m = m')"

lemma leads_refl [simp]: "leads m m"
  unfolding leads_def by (rule exI [of _ 0]) simp

lemma leads_trans: "leads m m1 \<Longrightarrow> leads m1 m2 \<Longrightarrow> leads m m2"
  unfolding leads_def using ticks_trans by blast

lemma leads_step: "leads (step f K s) m \<Longrightarrow> leads (f # K, s) m"
  unfolding leads_def using ticks_step by blast

lemma leads_settle: "leads (K, s) (K1, s1) \<Longrightarrow> settle K s = settle K1 s1"
  unfolding leads_def using settle_ticks by blast

text \<open>Callbacks that neither throw nor touch the dependencies or the queue being drained.\<close>

fun calm :: "act \<Rightarrow> bool" where
  "calm (AddOnInit c) = True"
| "calm (AddOnExit c) = True"
| "calm (AddOnPostRun c) = True"
| "calm KeepalivePush = True"
| "calm KeepalivePop = True"
| "calm (SafeSetTimeout c) = True"
| "calm _ = False"

definition calm_cb :: "runtime \<Rightarrow> cb \<Rightarrow> bool" where
  "calm_cb s c = list_all calm (page_code s c)"

definition alike :: "runtime \<Rightarrow> runtime \<Rightarrow> bool" where
  "alike s s1 \<longleftrightarrow> atPreRun s1 = atPreRun s \<and> runDependencies s1 = runDependencies s \<and> setStatus s1 = setStatus s
     \<and> calledRun s1 = calledRun s \<and> page_code s1 = page_code s"

lemma alike_trans: "alike s s1 \<Longrightarrow> alike s1 s2 \<Longrightarrow> alike s s2"
  by (simp add: alike_def)

lemma calm_perform: "calm a \<Longrightarrow> \<exists>s1. perform a K s = (K, s1) \<and> alike s s1"
  by (cases a) (simp_all add: keepalivePush_def keepalivePop_def safeSetTimeout_def Let_def alike_def)

lemma calm_acts: "list_all calm as \<Longrightarrow> \<exists>s1. leads (Acts as # K, s) (K, s1) \<and> alike s s1"
proof (induction as arbitrary: s)
  case Nil
  have "leads (Acts [] # K, s) (K, s)" by (rule leads_step) simp
  then show ?case by (auto simp: alike_def)
next
  case (Cons a as)
  then obtain s1 where s1: "perform a (Acts as # K) s = (Acts as # K, s1)" "alike s s1"
    using calm_perform [of a "Acts as # K" s] by auto
  obtain s2 where s2: "leads (Acts as # K, s1) (K, s2)" "alike s1 s2" using Cons by auto
  have "leads (Acts (a # as) # K, s) (K, s2)" by (rule leads_step) (use s1(1) s2(1) in simp)
  then show ?case using alike_trans [OF s1(2) s2(2)] by blast
qed

lemma calm_preRun:
  "list_all (calm_cb s) q \<Longrightarrow> atPreRun s = q \<Longrightarrow>
     \<exists>s1. leads (CallPreRun # K, s) (K, s1) \<and> alike (s\<lparr>atPreRun := []\<rparr>) s1"
proof (induction q arbitrary: s)
  case Nil
  have "leads (CallPreRun # K, s) (K, s)" by (rule leads_step) (use Nil in simp)
  then show ?case using Nil by (auto simp: alike_def)
next
  case (Cons c q)
  define s0 where "s0 = note_it (RanCallback PreRunPhase c) (s\<lparr>atPreRun := q\<rparr>)"
  obtain s1 where s1: "leads (Acts (page_code s c) # CallPreRun # K, s0) (CallPreRun # K, s1)" "alike s0 s1"
    using calm_acts [of "page_code s c" "CallPreRun # K" s0] Cons.prems by (auto simp: calm_cb_def)
  have "atPreRun s1 = q" "page_code s1 = page_code s" using s1(2) by (simp_all add: alike_def s0_def note_it_def)
  moreover from this have "list_all (calm_cb s1) q" using Cons.prems(1) by (simp add: calm_cb_def [abs_def])
  ultimately obtain s2 where s2: "leads (CallPreRun # K, s1) (K, s2)" "alike (s1\<lparr>atPreRun := []\<rparr>) s2"
    using Cons.IH [of s1] by blast
  have "leads (CallPreRun # K, s) (CallPreRun # K, s1)"
    by (rule leads_step) (use Cons.prems s1(1) in \<open>simp add: start_cb_def s0_def\<close>)
  then have "leads (CallPreRun # K, s) (K, s2)" using s2(1) by (rule leads_trans)
  moreover have "alike (s\<lparr>atPreRun := []\<rparr>) s2"
    using s1(2) s2(2) by (simp add: alike_def s0_def note_it_def)
  ultimately show ?case by blast
qed

lemma calledRun_step: "calledRun s \<Longrightarrow> calledRun (snd (step f K s))"
proof (cases f)
  case (Acts as)
  assume "calledRun s"
  then show ?thesis
  proof (cases as)
    case (Cons a as')
    then show ?thesis using \<open>calledRun s\<close> by (cases a) (auto simp: Acts machine_defs split: option.splits list.splits)
  qed (simp add: Acts)
qed (auto simp: machine_defs split: option.splits list.splits)

lemma calledRun_ticks: "calledRun (snd m) \<Longrightarrow> calledRun (snd ((tick ^^ n) m))"
proof (induction n)
  case (Suc n)
  obtain K s where "(tick ^^ n) m = (K, s)" by fastforce
  with Suc show ?case by (cases K) (simp_all add: calledRun_step)
qed simp

text \<open>The run is called at some step of the turn.\<close>

definition comes_to_run :: "machine \<Rightarrow> bool" where
  "comes_to_run m \<longleftrightarrow> (\<exists>n. calledRun (snd ((tick ^^ n) m)))"

lemma comes_to_run_now: "calledRun (snd m) \<Longrightarrow> comes_to_run m"
  unfolding comes_to_run_def by (rule exI [of _ 0]) simp

lemma comes_to_run_later: "leads m m' \<Longrightarrow> comes_to_run m' \<Longrightarrow> comes_to_run m"
  unfolding comes_to_run_def leads_def using ticks_trans by metis

lemma comes_to_run_step: "comes_to_run (step f K s) \<Longrightarrow> comes_to_run (f # K, s)"
  using comes_to_run_later [OF leads_step [OF leads_refl]] .

lemma comes_to_run_settled: "comes_to_run (K, s) \<Longrightarrow> settle K s = Some r \<Longrightarrow> calledRun r"
proof -
  assume "comes_to_run (K, s)" and r: "settle K s = Some r"
  then obtain n where n: "calledRun (snd ((tick ^^ n) (K, s)))" by (auto simp: comes_to_run_def)
  obtain K1 s1 where m: "(tick ^^ n) (K, s) = (K1, s1)" by fastforce
  then obtain k where "(tick ^^ k) (K1, s1) = ([], r)" using settle_ticks [OF m] r settle_is_reached by metis
  then show ?thesis using calledRun_ticks [of "(K1, s1)" k] n m by simp
qed

lemma calm_run_called:
  assumes "list_all (calm_cb s) (modPreRun s @ atPreRun s)" and "runDependencies s \<le> 0" and "\<not> setStatus s"
  shows "comes_to_run (run K s)"
proof -
  define s0 where "s0 = s\<lparr>atPreRun := rev (modPreRun s) @ atPreRun s, modPreRun := []\<rparr>"
  have "list_all (calm_cb s0) (atPreRun s0)" using assms(1) by (simp add: s0_def calm_cb_def list_all_def)
  then obtain s1 where s1: "leads (CallPreRun # AfterPreRun # K, s0) (AfterPreRun # K, s1)" "alike (s0\<lparr>atPreRun := []\<rparr>) s1"
    using calm_preRun by blast
  have "runDependencies s1 \<le> 0" "\<not> setStatus s1" using s1(2) assms by (simp_all add: alike_def s0_def)
  then have "calledRun (snd (step AfterPreRun K s1))"
    by (auto simp: after_preRun_def doRun_def initRuntime_def note_it_def Let_def)
  then have "comes_to_run (AfterPreRun # K, s1)" by (intro comes_to_run_step comes_to_run_now)
  moreover have "run K s = (CallPreRun # AfterPreRun # K, s0)" using assms by (simp add: run_def preRun_def s0_def)
  ultimately show ?thesis using comes_to_run_later [OF s1(1)] by simp
qed

lemma remove_all_called:
  assumes "list_all (calm_cb s) (modPreRun s @ atPreRun s)" and "runDependencies s = int (Suc n)" and "\<not> setStatus s" and "armed s"
  shows "comes_to_run ([Acts (replicate (Suc n) RemoveRunDependency)], s)"
  using assms
proof (induction n arbitrary: s)
  case 0
  define s1 where "s1 = s\<lparr>runDependencies := 0, armed := False\<rparr>"
  have "step (Acts [RemoveRunDependency]) [] s = runCaller [Acts []] s1"
    using 0 by (simp add: removeRunDependency_def Let_def s1_def)
  moreover have "comes_to_run (runCaller [Acts []] s1)"
    using calm_run_called [of s1] 0 by (simp add: s1_def runCaller_def comes_to_run_now calm_cb_def [abs_def])
  ultimately show ?case using comes_to_run_step by (metis One_nat_def replicate_0 replicate_Suc)
next
  case (Suc n)
  define s1 where "s1 = s\<lparr>runDependencies := int (Suc n)\<rparr>"
  have "step (Acts (replicate (Suc (Suc n)) RemoveRunDependency)) [] s = ([Acts (replicate (Suc n) RemoveRunDependency)], s1)"
    using Suc.prems by (simp add: removeRunDependency_def Let_def s1_def)
  moreover have "comes_to_run ([Acts (replicate (Suc n) RemoveRunDependency)], s1)"
    using Suc by (simp add: s1_def calm_cb_def [abs_def])
  ultimately show ?case using comes_to_run_step by metis
qed

text \<open>
  C27: Between two turns, let no exception have been thrown so far, no page that displays a status, and callbacks
  before the run that neither throw nor exit nor touch the dependencies nor register further ones before the
  run. Then a script that removes every pending dependency calls the run, whatever the callbacks of the run do,
  or the run was called before.
\<close>

theorem run_comes:
  assumes "reaches ([], s)" and "Thrown \<notin> set (trace s)" and "\<not> setStatus s"
    and "list_all (calm_cb s) (modPreRun s @ atPreRun s)"
  shows "\<exists>n. calledRun (snd ((tick ^^ n) ([Acts (replicate (nat (runDependencies s)) RemoveRunDependency)], s)))"
proof (cases "calledRun s")
  case False
  have "armed s" "runDependencies s > 0 \<or> TimerDoRun \<in> set (timers s)"
    using reaches_run_ok [OF assms(1)] assms(2) False by (auto simp: run_ok_def waits_def will_check_def)
  moreover have "TimerDoRun \<notin> set (timers s)"
    using reaches_init_ok [OF assms(1)] assms(3) by (auto simp: init_ok_def)
  ultimately have armed: "armed s" "runDependencies s > 0" by auto
  then obtain n where n: "runDependencies s = int (Suc n)" using zero_less_imp_eq_int by (metis gr0_conv_Suc)
  then have "nat (runDependencies s) = Suc n" by simp
  then show ?thesis using remove_all_called [OF assms(4) n assms(3) armed(1)] by (simp add: comes_to_run_def)
qed (rule exI [of _ 0], simp)

theorem run_comes_witness:
  "\<exists>n. calledRun (snd ((tick ^^ n) ([Acts [RemoveRunDependency]], waiting_module)))"
  using run_comes [OF reaches_waiting_module]
  by (simp add: waiting_module_def module_loaded_def calm_cb_def small_page_def)

section \<open>Exiting\<close>

fun exit_quiet :: "act \<Rightarrow> bool" where
  "exit_quiet AddRunDependency = True"
| "exit_quiet (AddOnPreRun c) = True"
| "exit_quiet (AddOnInit c) = True"
| "exit_quiet (AddOnPostRun c) = True"
| "exit_quiet KeepalivePop = True"
| "exit_quiet _ = False"

definition exit_quiet_cb :: "runtime \<Rightarrow> cb \<Rightarrow> bool" where
  "exit_quiet_cb s c = list_all exit_quiet (page_code s c)"

definition exiting :: "runtime \<Rightarrow> runtime \<Rightarrow> bool" where
  "exiting s s1 \<longleftrightarrow> atExit s1 = atExit s \<and> noExitRuntime s1 = noExitRuntime s \<and> keepaliveCounter s1 \<le> keepaliveCounter s
     \<and> trace s1 = trace s \<and> timers s1 = timers s \<and> page_code s1 = page_code s"

lemma exiting_trans: "exiting s s1 \<Longrightarrow> exiting s1 s2 \<Longrightarrow> exiting s s2"
  by (simp add: exiting_def)

lemma exit_quiet_perform: "exit_quiet a \<Longrightarrow> \<exists>s1. perform a K s = (K, s1) \<and> exiting s s1"
  by (cases a) (simp_all add: keepalivePop_def addRunDependency_def exiting_def)

lemma exit_quiet_acts: "list_all exit_quiet as \<Longrightarrow> \<exists>s1. leads (Acts as # K, s) (K, s1) \<and> exiting s s1"
proof (induction as arbitrary: s)
  case Nil
  have "leads (Acts [] # K, s) (K, s)" by (rule leads_step) simp
  then show ?case by (auto simp: exiting_def)
next
  case (Cons a as)
  then obtain s1 where s1: "perform a (Acts as # K) s = (Acts as # K, s1)" "exiting s s1"
    using exit_quiet_perform [of a "Acts as # K" s] by auto
  obtain s2 where s2: "leads (Acts as # K, s1) (K, s2)" "exiting s1 s2" using Cons by auto
  have "leads (Acts (a # as) # K, s) (K, s2)" by (rule leads_step) (use s1(1) s2(1) in simp)
  then show ?case using exiting_trans [OF s1(2) s2(2)] by blast
qed

lemma exit_loop:
  "list_all (exit_quiet_cb s) q \<Longrightarrow> atExit s = q \<Longrightarrow>
     \<exists>s1. leads (CallExit # K, s) (K, s1)
       \<and> exiting (s\<lparr>atExit := [], trace := trace s @ map (RanCallback ExitPhase) q\<rparr>) s1"
proof (induction q arbitrary: s)
  case Nil
  have "leads (CallExit # K, s) (K, s)" by (rule leads_step) (use Nil in simp)
  then show ?case using Nil by (auto simp: exiting_def)
next
  case (Cons c q)
  define s0 where "s0 = note_it (RanCallback ExitPhase c) (s\<lparr>atExit := q\<rparr>)"
  obtain s1 where s1: "leads (Acts (page_code s c) # CallExit # K, s0) (CallExit # K, s1)" "exiting s0 s1"
    using exit_quiet_acts [of "page_code s c" "CallExit # K" s0] Cons.prems by (auto simp: exit_quiet_cb_def)
  have "atExit s1 = q" "page_code s1 = page_code s" using s1(2) by (simp_all add: exiting_def s0_def note_it_def)
  moreover from this have "list_all (exit_quiet_cb s1) q" using Cons.prems(1) by (simp add: exit_quiet_cb_def [abs_def])
  ultimately obtain s2 where s2: "leads (CallExit # K, s1) (K, s2)"
      "exiting (s1\<lparr>atExit := [], trace := trace s1 @ map (RanCallback ExitPhase) q\<rparr>) s2"
    using Cons.IH [of s1] by blast
  have "leads (CallExit # K, s) (CallExit # K, s1)"
    by (rule leads_step) (use Cons.prems s1(1) in \<open>simp add: start_cb_def s0_def\<close>)
  then have "leads (CallExit # K, s) (K, s2)" using s2(1) by (rule leads_trans)
  moreover have "exiting (s\<lparr>atExit := [], trace := trace s @ map (RanCallback ExitPhase) (c # q)\<rparr>) s2"
    using s1(2) s2(2) by (simp add: exiting_def s0_def note_it_def)
  ultimately show ?case by blast
qed

lemma register_acts: "leads ([Acts (map AddOnExit cs @ as)], s) ([Acts as], s\<lparr>atExit := rev cs @ atExit s\<rparr>)"
proof (induction cs arbitrary: s)
  case (Cons c cs)
  from Cons [of "s\<lparr>atExit := c # atExit s\<rparr>"] show ?case by (intro leads_step) simp
qed simp

text \<open>What the compiled exit handlers do when they are called next.\<close>

definition next_native :: "runtime \<Rightarrow> act list" where
  "next_native s = (case funcsOnExit s of [] \<Rightarrow> [] | as # _ \<Rightarrow> as)"

lemma native_exit_quiet:
  assumes "exportsLoaded s" and "list_all exit_quiet (next_native s)"
  shows "\<exists>s1. leads (native_exit K s) (K, s1) \<and> exiting (note_it NativeExit s) s1"
proof (cases "funcsOnExit s")
  case Nil
  then show ?thesis using assms(1) by (auto simp: native_exit_def exiting_def intro!: exI [of _ "note_it NativeExit s"])
next
  case (Cons as rest)
  then obtain s1 where "leads (Acts as # K, note_it NativeExit (s\<lparr>funcsOnExit := rest\<rparr>)) (K, s1)"
      "exiting (note_it NativeExit (s\<lparr>funcsOnExit := rest\<rparr>)) s1"
    using exit_quiet_acts assms(2) by (fastforce simp: next_native_def)
  then show ?thesis using assms(1) Cons by (auto simp: native_exit_def exiting_def note_it_def)
qed

text \<open>
  C29: A script that registers exit callbacks and exits, when the module is loaded, nothing keeps the runtime
  alive, and neither the compiled exit handlers nor the exit callbacks throw, exit, keep the runtime alive,
  register further exit callbacks or start timers: the turn ends, the compiled exit handlers run, then the
  callbacks from the last registered to the first, then the file system is closed and the page is told; the
  status is kept and no callback of a timer starts any more.
\<close>

theorem exit_runs_callbacks_last_first:
  assumes "exportsLoaded s" and "\<not> keepRuntimeAlive s"
    and "list_all exit_quiet (next_native s)" and "list_all (exit_quiet_cb s) (cs @ atExit s)"
  shows "\<exists>s1. settle [Acts (map AddOnExit cs @ [ExitWith status])] s = Some s1
      \<and> trace s1 = trace s @ [NativeExit] @ map (RanCallback ExitPhase) (rev cs @ atExit s)
         @ [FsQuit, OnExit (Some status), Thrown, Uncaught]
      \<and> exitStatus s1 = Some status \<and> runtimeExited s1 \<and> aborted s1
      \<and> (\<forall>func. callUserCallback func [] s1 = ([], s1))"
proof -
  let ?K = "[ProcExit (Some status), Acts []]" and ?q = "rev cs @ atExit s"
  define s0 where "s0 = s\<lparr>atExit := ?q, exitStatus := Some status\<rparr>"
  have start: "leads ([Acts (map AddOnExit cs @ [ExitWith status])], s) (native_exit (CallExit # ExitRuntimeEnd # ?K) s0)"
    using assms(2) leads_trans [OF register_acts leads_step]
    by (simp add: exitJS_def exitRuntime_def keepRuntimeAlive_def s0_def Let_def)
  obtain s1 where s1: "leads (native_exit (CallExit # ExitRuntimeEnd # ?K) s0) (CallExit # ExitRuntimeEnd # ?K, s1)"
      "exiting (note_it NativeExit s0) s1"
    using native_exit_quiet [of s0] assms(1,3) by (auto simp: s0_def next_native_def)
  have "list_all (exit_quiet_cb s1) ?q" "atExit s1 = ?q"
    using assms(4) s1(2) by (auto simp: exiting_def s0_def note_it_def exit_quiet_cb_def list_all_def)
  then obtain s2 where s2: "leads (CallExit # ExitRuntimeEnd # ?K, s1) (ExitRuntimeEnd # ?K, s2)"
      "exiting (s1\<lparr>atExit := [], trace := trace s1 @ map (RanCallback ExitPhase) ?q\<rparr>) s2"
    using exit_loop by blast
  have run: "settle [Acts (map AddOnExit cs @ [ExitWith status])] s = settle (ExitRuntimeEnd # ?K) s2"
    by (rule leads_settle [OF leads_trans [OF start leads_trans [OF s1(1) s2(1)]]])
  have dead: "\<not> noExitRuntime s2" "\<not> keepaliveCounter s2 > 0"
    using assms(2) s1(2) s2(2) by (auto simp: keepRuntimeAlive_def exiting_def s0_def note_it_def)
  have "trace s2 = trace s @ [NativeExit] @ map (RanCallback ExitPhase) ?q"
    using s1(2) s2(2) by (simp add: exiting_def s0_def note_it_def)
  with dead show ?thesis
    unfolding run
    by (simp add: proc_exit_def throw_exit_def keepRuntimeAlive_def note_it_def callUserCallback_def Let_def)
qed

lemma exit_runs_callbacks_last_first_witness:
  "\<exists>s1. settle [Acts [AddOnExit 1, AddOnExit 2, ExitWith 3]] started_module = Some s1
     \<and> trace s1 = trace started_module @
       [NativeExit, RanCallback ExitPhase 2, RanCallback ExitPhase 1, FsQuit, OnExit (Some 3), Thrown, Uncaught]"
  using exit_runs_callbacks_last_first [of started_module "[1, 2]" 3] started_module_trace
  by (auto simp: next_native_def exit_quiet_cb_def small_page_def simp del: settle_simps)

text \<open>
  Before the module is loaded there are no compiled exit handlers to call: \<open>exit\<close> throws a \<open>TypeError\<close> before
  any exit callback has run, the file system is not closed and the page is not told.
\<close>

theorem exit_before_load_throws:
  assumes "\<not> exportsLoaded s" and "\<not> keepRuntimeAlive s"
  shows "settle [Acts (map AddOnExit cs @ [ExitWith status])] s =
    Some (s\<lparr>atExit := rev cs @ atExit s, exitStatus := Some status, trace := trace s @ [Thrown, Uncaught]\<rparr>)"
  unfolding leads_settle [OF register_acts]
  using assms by (simp add: exitJS_def exitRuntime_def native_exit_def throw_other_def note_it_def keepRuntimeAlive_def Let_def)

end
