(* ===== verification/WasmModule.thy ===== *)
theory WasmModule
  imports Prelude
begin

text \<open>
  Signatures of functions and the tiny WebAssembly module that wraps a function of JavaScript; a reader for
  the binary format of the WebAssembly specification, by which the module has the type of the signature.
\<close>

section \<open>Signatures\<close>

datatype valtype = I32 | I64 | F32 | F64 | Externref

record functype =
  params :: "valtype option list"
  results :: "valtype option list"

text \<open>A letter without entry gives \<open>undefined\<close>, here \<open>None\<close>.\<close>

fun typeNames :: "char \<Rightarrow> valtype option" where
  "typeNames c =
     (if c = CHR ''i'' then Some I32 else if c = CHR ''j'' then Some I64 else if c = CHR ''f'' then Some F32
      else if c = CHR ''d'' then Some F64 else if c = CHR ''e'' then Some Externref else if c = CHR ''p'' then Some I32
      else None)"

definition sigToWasmTypes :: "string \<Rightarrow> functype" where
  "sigToWasmTypes sig =
     \<lparr>params = map typeNames (tl sig),
      results = (if sig \<noteq> [] \<and> hd sig = CHR ''v'' then [] else [if sig = [] then None else typeNames (hd sig)])\<rparr>"

text \<open>Numbers pushed on an array; \<open>Uint8Array\<close> keeps them modulo 256 and turns \<open>undefined\<close> into 0.\<close>

definition uleb128Encode :: "nat \<Rightarrow> nat list \<Rightarrow> nat list" where
  "uleb128Encode n target = (if n < 128 then target @ [n] else target @ [n mod 128 + 128, n div 128])"

fun typeCodes :: "char \<Rightarrow> nat" where
  "typeCodes c =
     (if c = CHR ''i'' then 0x7f else if c = CHR ''p'' then 0x7f else if c = CHR ''j'' then 0x7e
      else if c = CHR ''f'' then 0x7d else if c = CHR ''d'' then 0x7c else if c = CHR ''e'' then 0x6f
      else 0)"

definition generateFuncType :: "string \<Rightarrow> nat list \<Rightarrow> nat list" where
  "generateFuncType sig target =
     (let sigRet = take 1 sig; sigParam = drop 1 sig;
          t1 = uleb128Encode (length sigParam) (target @ [0x60]);
          t2 = t1 @ map typeCodes sigParam
      in if sigRet = ''v'' then t2 @ [0x00]
         else t2 @ [0x01, if sigRet = [] then 0 else typeCodes (hd sigRet)])"

definition module_bytes :: "string \<Rightarrow> nat list" where
  "module_bytes sig =
     (let typeSectionBody = generateFuncType sig [0x01];
          bytes = [0x00, 0x61, 0x73, 0x6d, 0x01, 0x00, 0x00, 0x00, 0x01];
          b1 = uleb128Encode (length typeSectionBody) bytes @ typeSectionBody;
          b2 = b1 @ [0x02, 0x07, 0x01, 0x01, 0x65, 0x01, 0x66, 0x00, 0x00,
                     0x07, 0x05, 0x01, 0x01, 0x66, 0x00, 0x00]
      in map (\<lambda>b. b mod 256) b2)"

section \<open>Reading a module\<close>

text \<open>
  The binary format of the WebAssembly specification, as far as the wrapper needs it: unsigned LEB128 numbers,
  sections, vectors, names, function types, imports of functions and exports of functions.
\<close>

fun leb :: "nat list \<Rightarrow> (nat \<times> nat list) option" where
  "leb [] = None"
| "leb (b # bs) =
     (if b < 128 then Some (b, bs)
      else if b < 256 then (case leb bs of None \<Rightarrow> None | Some (n, r) \<Rightarrow> Some (b - 128 + 128 * n, r))
      else None)"

fun vec_of :: "nat \<Rightarrow> (nat list \<Rightarrow> ('a \<times> nat list) option) \<Rightarrow> nat list \<Rightarrow> ('a list \<times> nat list) option" where
  "vec_of 0 p bs = Some ([], bs)"
| "vec_of (Suc n) p bs =
     (case p bs of None \<Rightarrow> None
      | Some (x, r) \<Rightarrow> (case vec_of n p r of None \<Rightarrow> None | Some (xs, r2) \<Rightarrow> Some (x # xs, r2)))"

definition vec :: "(nat list \<Rightarrow> ('a \<times> nat list) option) \<Rightarrow> nat list \<Rightarrow> ('a list \<times> nat list) option" where
  "vec p bs = (case leb bs of None \<Rightarrow> None | Some (n, r) \<Rightarrow> vec_of n p r)"

fun any_byte :: "nat list \<Rightarrow> (nat \<times> nat list) option" where
  "any_byte [] = None"
| "any_byte (b # bs) = Some (b, bs)"

fun read_valtype :: "nat list \<Rightarrow> (valtype \<times> nat list) option" where
  "read_valtype (b # bs) =
     (if b = 127 then Some (I32, bs) else if b = 126 then Some (I64, bs) else if b = 125 then Some (F32, bs)
      else if b = 124 then Some (F64, bs) else if b = 111 then Some (Externref, bs) else None)"
| "read_valtype [] = None"

fun read_functype :: "nat list \<Rightarrow> ((valtype list \<times> valtype list) \<times> nat list) option" where
  "read_functype (b # bs) =
     (if b \<noteq> 96 then None
      else case vec read_valtype bs of None \<Rightarrow> None
           | Some (ps, r) \<Rightarrow> (case vec read_valtype r of None \<Rightarrow> None | Some (rs, r2) \<Rightarrow> Some ((ps, rs), r2)))"
| "read_functype [] = None"

definition read_import :: "nat list \<Rightarrow> ((nat list \<times> nat list \<times> nat) \<times> nat list) option" where
  "read_import bs =
     (case vec any_byte bs of None \<Rightarrow> None
      | Some (m, r) \<Rightarrow> (case vec any_byte r of None \<Rightarrow> None
        | Some (n, r2) \<Rightarrow> (case r2 of 0 # r3 \<Rightarrow> (case leb r3 of None \<Rightarrow> None | Some (t, r4) \<Rightarrow> Some ((m, n, t), r4)) | _ \<Rightarrow> None)))"

definition read_export :: "nat list \<Rightarrow> ((nat list \<times> nat) \<times> nat list) option" where
  "read_export bs =
     (case vec any_byte bs of None \<Rightarrow> None
      | Some (n, r) \<Rightarrow> (case r of 0 # r2 \<Rightarrow> (case leb r2 of None \<Rightarrow> None | Some (t, r3) \<Rightarrow> Some ((n, t), r3)) | _ \<Rightarrow> None))"

text \<open>A section with a given number; its contents must fill it.\<close>

definition read_section :: "nat \<Rightarrow> (nat list \<Rightarrow> ('a list \<times> nat list) option) \<Rightarrow> nat list \<Rightarrow> ('a list \<times> nat list) option" where
  "read_section k p bs =
     (case bs of [] \<Rightarrow> None
      | b # r \<Rightarrow>
          if b \<noteq> k then None
          else case leb r of None \<Rightarrow> None
               | Some (n, r2) \<Rightarrow>
                   if n > length r2 then None
                   else (case p (take n r2) of Some (xs, []) \<Rightarrow> Some (xs, drop n r2) | _ \<Rightarrow> None))"

type_synonym wrapper_module =
  "(valtype list \<times> valtype list) list \<times> (nat list \<times> nat list \<times> nat) list \<times> (nat list \<times> nat) list"

definition read_module :: "nat list \<Rightarrow> wrapper_module option" where
  "read_module bs =
     (if take 8 bs \<noteq> [0, 97, 115, 109, 1, 0, 0, 0] then None
      else case read_section 1 (vec read_functype) (drop 8 bs) of None \<Rightarrow> None
           | Some (ts, r) \<Rightarrow> (case read_section 2 (vec read_import) r of None \<Rightarrow> None
             | Some (is, r2) \<Rightarrow> (case read_section 7 (vec read_export) r2 of Some (es, []) \<Rightarrow> Some (ts, is, es) | _ \<Rightarrow> None)))"

lemma leb_uleb:
  assumes "n < 16384"
  shows "uleb128Encode n xs = xs @ uleb128Encode n []" and "leb (uleb128Encode n [] @ r) = Some (n, r)"
    and "\<forall>b \<in> set (uleb128Encode n []). b < 256"
  using assms by (auto simp: uleb128Encode_def)

definition sig_letter :: "char \<Rightarrow> bool" where
  "sig_letter c \<longleftrightarrow> typeNames c \<noteq> None"

lemma sig_letter_cases:
  assumes "sig_letter c"
  obtains "c = CHR ''i''" | "c = CHR ''j''" | "c = CHR ''f''" | "c = CHR ''d''" | "c = CHR ''e''" | "c = CHR ''p''"
proof -
  have "c \<in> set ''ijfdep''"
    using assms unfolding sig_letter_def typeNames.simps by (simp only: list.set insert_iff split: if_split_asm) simp_all
  then show ?thesis using that by auto
qed

lemma read_code: "sig_letter c \<Longrightarrow> typeNames c = Some (the (typeNames c)) \<and> read_valtype (typeCodes c # r) = Some (the (typeNames c), r) \<and> typeCodes c < 256"
  by (elim sig_letter_cases) simp_all

declare typeNames.simps [simp del] typeCodes.simps [simp del]

lemma vec_of_codes:
  "list_all sig_letter cs \<Longrightarrow> vec_of (length cs) read_valtype (map typeCodes cs @ r) = Some (map (the \<circ> typeNames) cs, r)"
proof (induction cs)
  case (Cons c cs)
  then show ?case using read_code [of c "map typeCodes cs @ r"] by (simp del: read_valtype.simps)
qed simp

lemma vec_codes:
  "list_all sig_letter cs \<Longrightarrow> length cs < 16384 \<Longrightarrow>
     vec read_valtype (uleb128Encode (length cs) [] @ map typeCodes cs @ r) = Some (map (the \<circ> typeNames) cs, r)"
  unfolding vec_def leb_uleb(2) by (simp only: option.case prod.case vec_of_codes)

definition valid_sig :: "string \<Rightarrow> bool" where
  "valid_sig sig \<longleftrightarrow> sig \<noteq> [] \<and> (hd sig = CHR ''v'' \<or> sig_letter (hd sig)) \<and> list_all sig_letter (tl sig)"

definition result_bytes :: "char \<Rightarrow> nat list" where
  "result_bytes c = (if c = CHR ''v'' then [0] else [1, typeCodes c])"

definition result_types :: "char \<Rightarrow> valtype list" where
  "result_types c = (if c = CHR ''v'' then [] else [the (typeNames c)])"

definition type_body :: "string \<Rightarrow> nat list" where
  "type_body sig = [1, 96] @ uleb128Encode (length (tl sig)) [] @ map typeCodes (tl sig) @ result_bytes (hd sig)"

lemma generateFuncType_body:
  assumes "sig \<noteq> []" and "length (tl sig) < 16384"
  shows "generateFuncType sig [1] = type_body sig"
  using assms leb_uleb(1) [OF assms(2), of "[1, 96]"]
  by (cases sig) (simp_all add: generateFuncType_def type_body_def result_bytes_def Let_def)

lemma leb_small: "b < 128 \<Longrightarrow> leb (b # bs) = Some (b, bs)"
  by simp

declare leb.simps(2) [simp del]

lemma read_results:
  assumes "c = CHR ''v'' \<or> sig_letter c"
  shows "vec read_valtype (result_bytes c @ r) = Some (result_types c, r)"
proof (cases "c = CHR ''v''")
  case True
  then show ?thesis by (simp add: result_bytes_def result_types_def vec_def leb_small)
next
  case False
  then have "read_valtype (typeCodes c # r) = Some (the (typeNames c), r)" using assms read_code by blast
  then show ?thesis using False by (simp add: result_bytes_def result_types_def vec_def leb_small del: read_valtype.simps)
qed

lemma read_type_body:
  assumes "valid_sig sig" and "length (tl sig) < 16384"
  shows "vec read_functype (type_body sig) = Some ([(map (the \<circ> typeNames) (tl sig), result_types (hd sig))], [])"
proof -
  have p: "vec read_valtype (uleb128Encode (length (tl sig)) [] @ map typeCodes (tl sig) @ result_bytes (hd sig))
      = Some (map (the \<circ> typeNames) (tl sig), result_bytes (hd sig))"
    using assms by (intro vec_codes) (simp_all add: valid_sig_def)
  have q: "vec read_valtype (result_bytes (hd sig)) = Some (result_types (hd sig), [])"
    using read_results [of "hd sig" "[]"] assms(1) by (simp add: valid_sig_def)
  show ?thesis unfolding type_body_def vec_def [of read_functype] by (simp add: leb_small p q del: length_tl)
qed

lemma bytes_small:
  assumes "valid_sig sig" and "length (tl sig) < 16384"
  shows "\<forall>b \<in> set (type_body sig). b < 256"
proof -
  have "\<forall>c \<in> set (tl sig). typeCodes c < 256" using assms(1) read_code by (auto simp: valid_sig_def list_all_iff)
  moreover have "\<forall>b \<in> set (result_bytes (hd sig)). b < 256"
    using assms(1) read_code by (auto simp: valid_sig_def result_bytes_def)
  ultimately show ?thesis using leb_uleb(3) [OF assms(2)] by (auto simp: type_body_def)
qed

lemma length_type_body:
  assumes "length (tl sig) < 16376"
  shows "length (type_body sig) < 16384"
  using assms by (auto simp: type_body_def uleb128Encode_def result_bytes_def)

lemma read_section_body:
  assumes "n < 16384" and "n = length b" and "p b = Some (xs, [])"
  shows "read_section k p (k # uleb128Encode n [] @ b @ r) = Some (xs, r)"
  using leb_uleb(2) [OF assms(1), of "b @ r"] assms(2,3) by (simp add: read_section_def)

definition import_bytes :: "nat list" where "import_bytes = [1, 1, 101, 1, 102, 0, 0]"

definition export_bytes :: "nat list" where "export_bytes = [1, 1, 102, 0, 0]"

lemma module_bytes_sections:
  assumes "valid_sig sig" and "length (tl sig) < 16376"
  shows "module_bytes sig = [0, 97, 115, 109, 1, 0, 0, 0] @ (1 # uleb128Encode (length (type_body sig)) [] @ type_body sig
      @ (2 # uleb128Encode 7 [] @ import_bytes @ (7 # uleb128Encode 5 [] @ export_bytes @ [])))"
proof -
  have n: "length (tl sig) < 16384" "sig \<noteq> []" using assms by (auto simp: valid_sig_def)
  note len = length_type_body [OF assms(2)]
  have "map (\<lambda>b. b mod 256) (type_body sig) = type_body sig"
    using bytes_small [OF assms(1) n(1)] by (simp add: map_idI)
  moreover have "map (\<lambda>b. b mod 256) (uleb128Encode (length (type_body sig)) []) = uleb128Encode (length (type_body sig)) []"
    using leb_uleb(3) [OF len] by (simp add: map_idI)
  moreover have "uleb128Encode (length (type_body sig)) [0, 97, 115, 109, 1, 0, 0, 0, 1]
      = [0, 97, 115, 109, 1, 0, 0, 0, 1] @ uleb128Encode (length (type_body sig)) []"
    by (rule leb_uleb(1) [OF len])
  moreover have "uleb128Encode 7 [] = [7]" "uleb128Encode 5 [] = [5]" by (simp_all add: uleb128Encode_def)
  ultimately show ?thesis
    using generateFuncType_body [OF n(2,1)] by (simp add: module_bytes_def Let_def import_bytes_def export_bytes_def)
qed

text \<open>
  C32: The bytes made for a valid signature, read by the binary format of WebAssembly, are a module with one
  function type, the one of the signature, that imports the function \<open>e.f\<close> with this type and exports it as \<open>f\<close>.
\<close>

theorem wrapper_module_has_signature:
  assumes "valid_sig sig" and "length sig \<le> 16376"
  shows "\<exists>ps rs. read_module (module_bytes sig) = Some ([(ps, rs)], [([101], [102], 0)], [([102], 0)])
    \<and> sigToWasmTypes sig = \<lparr>params = map Some ps, results = map Some rs\<rparr>"
proof -
  have n: "length (tl sig) < 16376" "length (tl sig) < 16384" using assms by (auto simp: valid_sig_def)
  have imp: "vec read_import import_bytes = Some ([([101], [102], 0)], [])"
    by (simp add: import_bytes_def vec_def read_import_def leb_small numeral_eq_Suc)
  have exp: "vec read_export export_bytes = Some ([([102], 0)], [])"
    by (simp add: export_bytes_def vec_def read_export_def leb_small numeral_eq_Suc)
  have "read_module (module_bytes sig)
      = Some ([(map (the \<circ> typeNames) (tl sig), result_types (hd sig))], [([101], [102], 0)], [([102], 0)])"
    unfolding module_bytes_sections [OF assms(1) n(1)] read_module_def
    using read_section_body [where k = 1 and p = "vec read_functype", OF length_type_body [OF n(1)] refl read_type_body [OF assms(1) n(2)]]
      read_section_body [where k = 2 and p = "vec read_import" and n = 7, OF _ _ imp]
      read_section_body [where k = 7 and p = "vec read_export" and n = 5, OF _ _ exp]
    by (simp add: import_bytes_def export_bytes_def)
  moreover have "map typeNames (tl sig) = map Some (map (the \<circ> typeNames) (tl sig))"
    using assms(1) read_code by (auto simp: valid_sig_def list_all_iff)
  moreover have "typeNames (hd sig) = Some (the (typeNames (hd sig)))" if "hd sig \<noteq> CHR ''v''"
    using that assms(1) read_code by (auto simp: valid_sig_def)
  ultimately show ?thesis
    using assms(1) by (auto simp: sigToWasmTypes_def result_types_def valid_sig_def)
qed

theorem wrapper_module_has_signature_witness:
  "sigToWasmTypes ''vid'' = \<lparr>params = [Some I32, Some F64], results = []\<rparr>
    \<and> (\<exists>ps rs. read_module (module_bytes ''vid'') = Some ([(ps, rs)], [([101], [102], 0)], [([102], 0)]))"
  using wrapper_module_has_signature [of "''vid''"]
  by (auto simp: valid_sig_def sig_letter_def typeNames.simps sigToWasmTypes_def)

end
