(* ===== verification/FuncTable.thy ===== *)
theory FuncTable
  imports WasmModule
begin

text \<open>
  Functions of JavaScript in the table of the compiled program: the table with its mirror and \<open>addFunction\<close>.

  The engine is a parameter: whether it has the constructor \<open>WebAssembly.Function\<close>, which types that accepts,
  which modules it compiles, and how far the table can grow.
\<close>

section \<open>The table\<close>

text \<open>Function objects: exports of the compiled program, functions of JavaScript, and the wrappers made here.\<close>

datatype func = WasmExport nat | JsFunction nat | Reflected functype nat | Wrapped "nat list" nat

record engine =
  type_reflection :: bool
  accepts_type :: "functype \<Rightarrow> bool"
  compiles :: "nat list \<Rightarrow> bool"
  table_limit :: nat

record table =
  wasmTable :: "func option list"
  wasmTableMirror :: "func option list"
  functionsInTableMap :: "(func \<rightharpoonup> nat) option"
  freeTableIndexes :: "nat list"

datatype table_error = UnableToGrow | InvalidSignature

definition convertJsFunctionToWasm :: "engine \<Rightarrow> nat \<Rightarrow> string \<Rightarrow> table_error + func" where
  "convertJsFunctionToWasm e f sig =
     (if type_reflection e
      then (if accepts_type e (sigToWasmTypes sig) then Inr (Reflected (sigToWasmTypes sig) f) else Inl InvalidSignature)
      else (if compiles e (module_bytes sig) then Inr (Wrapped (module_bytes sig) f) else Inl InvalidSignature))"

text \<open>Setting an element of an array behind its end leaves holes, which read as \<open>undefined\<close>.\<close>

definition mirror_set :: "'a option list \<Rightarrow> nat \<Rightarrow> 'a option \<Rightarrow> 'a option list" where
  "mirror_set xs i x = (xs @ replicate (Suc i - length xs) None)[i := x]"

definition getWasmTableEntry :: "nat \<Rightarrow> table \<Rightarrow> func option \<times> table" where
  "getWasmTableEntry funcPtr s =
     (let mirrored = (if funcPtr < length (wasmTableMirror s) then wasmTableMirror s ! funcPtr else None) in
      case mirrored of
        Some f \<Rightarrow> (Some f, s)
      | None \<Rightarrow>
          let f = wasmTable s ! funcPtr
          in (f, s\<lparr>wasmTableMirror := mirror_set (wasmTableMirror s) funcPtr f\<rparr>))"

fun updateTableMap :: "nat \<Rightarrow> nat \<Rightarrow> table \<Rightarrow> table" where
  "updateTableMap offset 0 s = s"
| "updateTableMap offset (Suc count) s =
     (case functionsInTableMap s of
        None \<Rightarrow> s
      | Some m \<Rightarrow>
          (case getWasmTableEntry offset s of
             (Some item, s1) \<Rightarrow> updateTableMap (Suc offset) count (s1\<lparr>functionsInTableMap := Some (m(item \<mapsto> offset))\<rparr>)
           | (None, s1) \<Rightarrow> updateTableMap (Suc offset) count s1))"

definition getFunctionAddress :: "func \<Rightarrow> table \<Rightarrow> nat \<times> table" where
  "getFunctionAddress f s =
     (let s1 = (case functionsInTableMap s of
                  None \<Rightarrow> updateTableMap 0 (length (wasmTable s)) (s\<lparr>functionsInTableMap := Some Map.empty\<rparr>)
                | Some _ \<Rightarrow> s)
      in case functionsInTableMap s1 of
           None \<Rightarrow> (0, s1)
         | Some m \<Rightarrow> (case m f of Some i \<Rightarrow> (i, s1) | None \<Rightarrow> (0, s1)))"

definition getEmptyTableSlot :: "engine \<Rightarrow> table \<Rightarrow> (table_error + nat) \<times> table" where
  "getEmptyTableSlot e s =
     (if freeTableIndexes s \<noteq> [] then (Inr (last (freeTableIndexes s)), s\<lparr>freeTableIndexes := butlast (freeTableIndexes s)\<rparr>)
      else if length (wasmTable s) < table_limit e
      then (Inr (length (wasmTable s)), s\<lparr>wasmTable := wasmTable s @ [None]\<rparr>)
      else (Inl UnableToGrow, s))"

definition setWasmTableEntry :: "nat \<Rightarrow> func \<Rightarrow> table \<Rightarrow> table" where
  "setWasmTableEntry idx f s =
     (let s1 = s\<lparr>wasmTable := (wasmTable s)[idx := Some f]\<rparr>
      in s1\<lparr>wasmTableMirror := mirror_set (wasmTableMirror s1) idx (wasmTable s1 ! idx)\<rparr>)"

text \<open>The engine refuses to store a plain function of JavaScript with a \<open>TypeError\<close>, which leads to the wrapper.\<close>

definition addFunction :: "engine \<Rightarrow> func \<Rightarrow> string \<Rightarrow> table \<Rightarrow> (table_error + nat) \<times> table" where
  "addFunction e f sig s =
     (case getFunctionAddress f s of (rtn, s1) \<Rightarrow>
      if rtn \<noteq> 0 then (Inr rtn, s1)
      else case getEmptyTableSlot e s1 of
             (Inl err, s2) \<Rightarrow> (Inl err, s2)
           | (Inr slot, s2) \<Rightarrow>
               (case (case f of JsFunction n \<Rightarrow> convertJsFunctionToWasm e n sig | _ \<Rightarrow> Inr f) of
                  Inl err \<Rightarrow> (Inl err, s2)
                | Inr stored \<Rightarrow>
                    let s3 = setWasmTableEntry slot stored s2
                    in (Inr slot, s3\<lparr>functionsInTableMap := (case functionsInTableMap s3 of
                          None \<Rightarrow> None | Some m \<Rightarrow> Some (m(f \<mapsto> slot)))\<rparr>)))"

section \<open>Registering functions\<close>

definition entry_for :: "func \<Rightarrow> func option \<Rightarrow> bool" where
  "entry_for f x \<longleftrightarrow> x = Some f \<or> (\<exists>n. f = JsFunction n \<and> ((\<exists>b. x = Some (Wrapped b n)) \<or> (\<exists>t. x = Some (Reflected t n))))"

definition mirror_ok :: "table \<Rightarrow> bool" where
  "mirror_ok s \<longleftrightarrow> (\<forall>i f. i < length (wasmTableMirror s) \<and> wasmTableMirror s ! i = Some f \<longrightarrow>
     i < length (wasmTable s) \<and> wasmTable s ! i = Some f)"

definition map_ok :: "table \<Rightarrow> bool" where
  "map_ok s \<longleftrightarrow> (\<forall>m. functionsInTableMap s = Some m \<longrightarrow> inj_on m (dom m)
     \<and> (\<forall>f i. m f = Some i \<longrightarrow> i < length (wasmTable s) \<and> entry_for f (wasmTable s ! i)))"

text \<open>The first entry of the table is null; free slots are empty.\<close>

definition table_ok :: "table \<Rightarrow> bool" where
  "table_ok s \<longleftrightarrow> wasmTable s \<noteq> [] \<and> wasmTable s ! 0 = None \<and> mirror_ok s \<and> map_ok s
     \<and> (\<forall>i \<in> set (freeTableIndexes s). 0 < i \<and> i < length (wasmTable s) \<and> wasmTable s ! i = None) \<and> distinct (freeTableIndexes s)"

lemma mirror_set_length [simp]: "length (mirror_set xs i x) = max (length xs) (Suc i)"
  by (simp add: mirror_set_def)

lemma mirror_set_nth: "j < length (mirror_set xs i x) \<Longrightarrow> mirror_set xs i x ! j = (if j = i then x else if j < length xs then xs ! j else None)"
  by (auto simp: mirror_set_def nth_list_update nth_append)

lemma entry_for_None [simp]: "\<not> entry_for f None"
  by (simp add: entry_for_def)

lemma entry_for_self [simp]: "entry_for f (Some f)"
  by (simp add: entry_for_def)

lemma getWasmTableEntry_ok:
  assumes "mirror_ok s" and "i < length (wasmTable s)"
  shows "\<exists>mi. getWasmTableEntry i s = (wasmTable s ! i, s\<lparr>wasmTableMirror := mi\<rparr>) \<and> mirror_ok (s\<lparr>wasmTableMirror := mi\<rparr>)"
proof (cases "i < length (wasmTableMirror s) \<and> wasmTableMirror s ! i \<noteq> None")
  case True
  then obtain f where f: "i < length (wasmTableMirror s)" "wasmTableMirror s ! i = Some f" by auto
  then have "wasmTable s ! i = Some f" using assms(1) unfolding mirror_ok_def by blast
  then have "getWasmTableEntry i s = (wasmTable s ! i, s\<lparr>wasmTableMirror := wasmTableMirror s\<rparr>)"
    using f by (simp add: getWasmTableEntry_def Let_def)
  then show ?thesis using assms(1) by (intro exI [of _ "wasmTableMirror s"]) simp
next
  case False
  then have e: "getWasmTableEntry i s = (wasmTable s ! i, s\<lparr>wasmTableMirror := mirror_set (wasmTableMirror s) i (wasmTable s ! i)\<rparr>)"
    by (auto simp: getWasmTableEntry_def Let_def)
  have "mirror_ok (s\<lparr>wasmTableMirror := mirror_set (wasmTableMirror s) i (wasmTable s ! i)\<rparr>)"
    using assms by (auto simp: mirror_ok_def mirror_set_nth split: if_splits)
  with e show ?thesis by blast
qed

lemma updateTableMap_ok:
  "mirror_ok s \<Longrightarrow> functionsInTableMap s = Some m \<Longrightarrow> offset + count \<le> length (wasmTable s) \<Longrightarrow>
     (\<And>f i. m f = Some i \<Longrightarrow> i < offset \<and> wasmTable s ! i = Some f) \<Longrightarrow>
     \<exists>mi m1. updateTableMap offset count s = s\<lparr>wasmTableMirror := mi, functionsInTableMap := Some m1\<rparr>
       \<and> mirror_ok (s\<lparr>wasmTableMirror := mi\<rparr>)
       \<and> (\<forall>f i. m1 f = Some i \<longrightarrow> i < offset + count \<and> wasmTable s ! i = Some f)
       \<and> dom m \<union> {f. \<exists>i. offset \<le> i \<and> i < offset + count \<and> wasmTable s ! i = Some f} \<subseteq> dom m1"
proof (induction offset count s arbitrary: m rule: updateTableMap.induct)
  case (1 offset s)
  then show ?case by (intro exI [of _ "wasmTableMirror s"] exI [of _ m]) auto
next
  case (2 offset count s)
  obtain mi where mi: "getWasmTableEntry offset s = (wasmTable s ! offset, s\<lparr>wasmTableMirror := mi\<rparr>)"
      "mirror_ok (s\<lparr>wasmTableMirror := mi\<rparr>)"
    using getWasmTableEntry_ok 2(3,5) by (metis add_Suc_right le_add1 le_trans less_eq_Suc_le add_Suc)
  have split: "{f. \<exists>i. offset \<le> i \<and> i < offset + Suc count \<and> wasmTable s ! i = Some f}
      = {f. wasmTable s ! offset = Some f} \<union> {f. \<exists>i. Suc offset \<le> i \<and> i < Suc offset + count \<and> wasmTable s ! i = Some f}"
  proof -
    have "offset \<le> i \<and> i < offset + Suc count \<longleftrightarrow> i = offset \<or> (Suc offset \<le> i \<and> i < Suc offset + count)" for i by auto
    then show ?thesis unfolding Collect_disj_eq [symmetric] by (intro Collect_cong) metis
  qed
  show ?case
  proof (cases "wasmTable s ! offset")
    case None
    have "\<exists>mi' m1. updateTableMap (Suc offset) count (s\<lparr>wasmTableMirror := mi\<rparr>)
        = s\<lparr>wasmTableMirror := mi', functionsInTableMap := Some m1\<rparr> \<and> mirror_ok (s\<lparr>wasmTableMirror := mi'\<rparr>)
       \<and> (\<forall>f i. m1 f = Some i \<longrightarrow> i < Suc offset + count \<and> wasmTable s ! i = Some f)
       \<and> dom m \<union> {f. \<exists>i. Suc offset \<le> i \<and> i < Suc offset + count \<and> wasmTable s ! i = Some f} \<subseteq> dom m1"
      using 2(1) [OF 2(4) mi(1) [symmetric] None, of m] 2 mi by (auto simp: less_Suc_eq)
    then show ?thesis unfolding split using 2(4) mi None by auto
  next
    case (Some item)
    define m2 where "m2 = m(item \<mapsto> offset)"
    note ih = 2(2) [OF 2(4) mi(1) [symmetric] Some, folded m2_def, of m2]
    have prem: "m2 f = Some i \<Longrightarrow> i < Suc offset \<and> wasmTable s ! i = Some f" for f i
      using 2(6) [of f i] Some by (auto simp: m2_def split: if_splits)
    have "\<exists>mi' m1. updateTableMap (Suc offset) count (s\<lparr>wasmTableMirror := mi, functionsInTableMap := Some m2\<rparr>)
        = s\<lparr>wasmTableMirror := mi', functionsInTableMap := Some m1\<rparr> \<and> mirror_ok (s\<lparr>wasmTableMirror := mi'\<rparr>)
       \<and> (\<forall>f i. m1 f = Some i \<longrightarrow> i < Suc offset + count \<and> wasmTable s ! i = Some f)
       \<and> dom m2 \<union> {f. \<exists>i. Suc offset \<le> i \<and> i < Suc offset + count \<and> wasmTable s ! i = Some f} \<subseteq> dom m1"
      using ih prem mi(2) 2(5) by (simp add: mirror_ok_def)
    then show ?thesis unfolding split using 2(4) mi Some by (auto simp: m2_def)
  qed
qed

lemma getFunctionAddress_ok:
  assumes "table_ok s"
  shows "\<exists>mi m1. getFunctionAddress f s = ((case m1 f of None \<Rightarrow> 0 | Some i \<Rightarrow> i), s\<lparr>wasmTableMirror := mi, functionsInTableMap := Some m1\<rparr>)
     \<and> table_ok (s\<lparr>wasmTableMirror := mi, functionsInTableMap := Some m1\<rparr>)
     \<and> (functionsInTableMap s = None \<longrightarrow> (\<forall>i<length (wasmTable s). \<forall>g. wasmTable s ! i = Some g \<longrightarrow> g \<in> dom m1))"
proof (cases "functionsInTableMap s")
  case None
  have "mirror_ok (s\<lparr>functionsInTableMap := Some Map.empty\<rparr>)" using assms by (simp add: table_ok_def mirror_ok_def)
  then obtain mi m1 where u: "updateTableMap 0 (length (wasmTable s)) (s\<lparr>functionsInTableMap := Some Map.empty\<rparr>)
        = s\<lparr>wasmTableMirror := mi, functionsInTableMap := Some m1\<rparr>"
      "mirror_ok (s\<lparr>wasmTableMirror := mi\<rparr>)"
      "\<forall>f i. m1 f = Some i \<longrightarrow> i < length (wasmTable s) \<and> wasmTable s ! i = Some f"
      "{f. \<exists>i<length (wasmTable s). wasmTable s ! i = Some f} \<subseteq> dom m1"
    using updateTableMap_ok [of "s\<lparr>functionsInTableMap := Some Map.empty\<rparr>" Map.empty 0 "length (wasmTable s)"]
    by (auto simp: mirror_ok_def)
  have "inj_on m1 (dom m1)"
  proof (rule inj_onI)
    fix g h
    assume "g \<in> dom m1" "h \<in> dom m1" "m1 g = m1 h"
    then obtain i where "m1 g = Some i" "m1 h = Some i" by auto
    then have "Some g = Some h" using u(3) by metis
    then show "g = h" by simp
  qed
  then have "map_ok (s\<lparr>wasmTableMirror := mi, functionsInTableMap := Some m1\<rparr>)"
    using u(3) by (auto simp: map_ok_def)
  then have "table_ok (s\<lparr>wasmTableMirror := mi, functionsInTableMap := Some m1\<rparr>)"
    using assms u(2) by (simp add: table_ok_def mirror_ok_def)
  moreover have "getFunctionAddress f s = ((case m1 f of None \<Rightarrow> 0 | Some i \<Rightarrow> i), s\<lparr>wasmTableMirror := mi, functionsInTableMap := Some m1\<rparr>)"
    using None u(1) by (simp add: getFunctionAddress_def Let_def split: option.split)
  ultimately show ?thesis using u(4) by blast
next
  case (Some m)
  then have "s\<lparr>functionsInTableMap := Some m\<rparr> = s" by (cases s) simp
  then have "table_ok (s\<lparr>functionsInTableMap := Some m\<rparr>)" using assms by metis
  then show ?thesis using Some
    by (intro exI [of _ "wasmTableMirror s"] exI [of _ m]) (simp add: getFunctionAddress_def Let_def split: option.split)
qed

lemma getEmptyTableSlot_ok:
  assumes "table_ok s" and "getEmptyTableSlot e s = (Inr i, s1)"
  shows "table_ok s1 \<and> 0 < i \<and> i < length (wasmTable s1) \<and> wasmTable s1 ! i = None \<and> i \<notin> set (freeTableIndexes s1)
    \<and> functionsInTableMap s1 = functionsInTableMap s
    \<and> (\<forall>j<length (wasmTable s). wasmTable s1 ! j = wasmTable s ! j \<and> j < length (wasmTable s1))"
proof (cases "freeTableIndexes s = []")
  case True
  then have s1: "i = length (wasmTable s)" "s1 = s\<lparr>wasmTable := wasmTable s @ [None]\<rparr>"
    using assms(2) by (auto simp: getEmptyTableSlot_def split: if_splits)
  have "map_ok s1" "mirror_ok s1"
    using assms(1) by (auto simp: table_ok_def map_ok_def mirror_ok_def s1 nth_append less_Suc_eq)
  then show ?thesis using assms(1) True by (auto simp: table_ok_def s1 nth_append)
next
  case False
  then obtain fs where fs: "freeTableIndexes s = fs @ [i]" "s1 = s\<lparr>freeTableIndexes := fs\<rparr>"
    using assms(2) by (auto simp: getEmptyTableSlot_def) (metis append_butlast_last_id)
  then show ?thesis using assms(1) by (auto simp: table_ok_def map_ok_def mirror_ok_def)
qed

lemma register_ok:
  assumes "table_ok s" and "0 < i" "i < length (wasmTable s)" "wasmTable s ! i = None" "i \<notin> set (freeTableIndexes s)"
    and "functionsInTableMap s = Some m" and "m f = None \<or> m f = Some 0" and "entry_for f (Some x)"
  shows "table_ok ((setWasmTableEntry i x s)\<lparr>functionsInTableMap := Some (m(f \<mapsto> i))\<rparr>)"
proof -
  let ?t = "(wasmTable s)[i := Some x]" and ?m = "m(f \<mapsto> i)"
  have m: "inj_on m (dom m)" "\<And>g j. m g = Some j \<Longrightarrow> j < length (wasmTable s) \<and> entry_for g (wasmTable s ! j)"
    using assms(1,6) by (auto simp: table_ok_def map_ok_def)
  then have new: "m g \<noteq> Some i" for g using assms(4) entry_for_None by metis
  have "inj_on ?m (dom ?m)"
    using m(1) new by (auto simp: inj_on_def dom_def split: if_splits)
  moreover have "?m g = Some j \<Longrightarrow> j < length ?t \<and> entry_for g (?t ! j)" for g j
    using m(2) new assms(3,8) by (cases "j = i") (auto split: if_splits)
  ultimately have "map_ok ((setWasmTableEntry i x s)\<lparr>functionsInTableMap := Some ?m\<rparr>)"
    by (simp add: map_ok_def setWasmTableEntry_def Let_def)
  moreover have "mirror_ok (setWasmTableEntry i x s)"
    using assms(1,3) by (auto simp: table_ok_def mirror_ok_def setWasmTableEntry_def Let_def mirror_set_nth nth_list_update split: if_splits)
  moreover have "mirror_ok (s1\<lparr>functionsInTableMap := fm\<rparr>) = mirror_ok s1" for s1 fm by (simp add: mirror_ok_def)
  ultimately show ?thesis
    using assms by (auto simp: table_ok_def setWasmTableEntry_def Let_def nth_list_update)
qed

text \<open>
  C31: Whatever index \<open>addFunction\<close> returns: the table has an entry for the function there, a wrapper of it when it
  is a function of JavaScript; the entries that were in the table stay; nothing is added when the function is
  already an entry of a table that has not been scanned yet; and asking again gives the same index and leaves
  the state alone.
\<close>

theorem addFunction_registers:
  assumes "table_ok s" and "addFunction e f sig s = (Inr i, s1)"
  shows "table_ok s1 \<and> 0 < i \<and> i < length (wasmTable s1) \<and> entry_for f (wasmTable s1 ! i)
    \<and> (\<forall>j<length (wasmTable s). wasmTable s ! j \<noteq> None \<longrightarrow> wasmTable s1 ! j = wasmTable s ! j)
    \<and> (Some f \<in> set (wasmTable s) \<and> functionsInTableMap s = None \<longrightarrow> wasmTable s1 = wasmTable s)
    \<and> (\<forall>e' sig'. addFunction e' f sig' s1 = (Inr i, s1))"
proof -
  obtain mi m where g: "getFunctionAddress f s = ((case m f of None \<Rightarrow> 0 | Some i \<Rightarrow> i), s\<lparr>wasmTableMirror := mi, functionsInTableMap := Some m\<rparr>)"
      "table_ok (s\<lparr>wasmTableMirror := mi, functionsInTableMap := Some m\<rparr>)"
      "functionsInTableMap s = None \<longrightarrow> (\<forall>i<length (wasmTable s). \<forall>g. wasmTable s ! i = Some g \<longrightarrow> g \<in> dom m)"
    using getFunctionAddress_ok [OF assms(1)] by blast
  define s0 where "s0 = s\<lparr>wasmTableMirror := mi, functionsInTableMap := Some m\<rparr>"
  have tab: "wasmTable s0 = wasmTable s" "functionsInTableMap s0 = Some m" by (simp_all add: s0_def)
  have ok0: "table_ok s0" using g(2) by (simp add: s0_def)
  have again: "addFunction e' f sig' s1 = (Inr i, s1)" if "functionsInTableMap s1 = Some m1" "m1 f = Some i" "0 < i" for m1 e' sig'
    using that by (simp add: addFunction_def getFunctionAddress_def Let_def)
  have at: "j < length (wasmTable s)" "entry_for f (wasmTable s ! j)" "0 < j" if "m f = Some j" for j
  proof -
    show a: "j < length (wasmTable s)" "entry_for f (wasmTable s ! j)" using ok0 that by (auto simp: table_ok_def map_ok_def tab)
    have "wasmTable s ! 0 = None" using assms(1) by (simp add: table_ok_def)
    then show "0 < j" using a(2) entry_for_None by (metis gr0I)
  qed
  show ?thesis
  proof (cases "m f")
    case (Some j)
    then have "i = j" "s1 = s0" using assms(2) g(1) at(3) by (simp_all add: addFunction_def s0_def)
    then show ?thesis using Some at ok0 again [of m] by (simp add: tab)
  next
    case None
    have new: "\<not> (Some f \<in> set (wasmTable s) \<and> functionsInTableMap s = None)"
      using g(3) None by (auto simp: in_set_conv_nth)
    obtain s2 where s2: "getEmptyTableSlot e s0 = (Inr i, s2)"
      and rest: "\<exists>x. entry_for f (Some x) \<and> s1 = (setWasmTableEntry i x s2)\<lparr>functionsInTableMap :=
          (case functionsInTableMap (setWasmTableEntry i x s2) of None \<Rightarrow> None | Some m \<Rightarrow> Some (m(f \<mapsto> i)))\<rparr>"
      using assms(2) g(1) None unfolding addFunction_def s0_def [symmetric]
      by (auto simp: Let_def convertJsFunctionToWasm_def entry_for_def split: prod.splits sum.splits func.splits if_splits)
    note slot = getEmptyTableSlot_ok [OF ok0 s2]
    obtain x where x: "entry_for f (Some x)" "s1 = (setWasmTableEntry i x s2)\<lparr>functionsInTableMap := Some (m(f \<mapsto> i))\<rparr>"
      using rest slot by (auto simp: tab setWasmTableEntry_def Let_def)
    have "table_ok s1" using register_ok [of s2 i m f x] slot None x tab by auto
    moreover have "wasmTable s1 = (wasmTable s2)[i := Some x]" by (simp add: x(2) setWasmTableEntry_def Let_def)
    ultimately show ?thesis using slot x(1) new again [of "m(f \<mapsto> i)"] by (auto simp: tab x(2) nth_list_update)
  qed
qed

definition sample_engine :: engine where
  "sample_engine = \<lparr>type_reflection = False, accepts_type = \<lambda>t. True, compiles = \<lambda>bs. read_module bs \<noteq> None, table_limit = 3\<rparr>"

definition sample_table :: table where
  "sample_table = \<lparr>wasmTable = [None, Some (WasmExport 4)], wasmTableMirror = [], functionsInTableMap = None, freeTableIndexes = []\<rparr>"

theorem addFunction_registers_witness:
  "\<exists>s1. addFunction sample_engine (WasmExport 9) ''v'' sample_table = (Inr 2, s1) \<and> wasmTable s1 ! 1 = Some (WasmExport 4)"
proof -
  have ok: "table_ok sample_table"
    by (simp add: table_ok_def mirror_ok_def map_ok_def sample_table_def)
  obtain s1 where a: "addFunction sample_engine (WasmExport 9) ''v'' sample_table = (Inr 2, s1)"
    by (simp add: addFunction_def getFunctionAddress_def getEmptyTableSlot_def sample_engine_def sample_table_def numeral_2_eq_2
        getWasmTableEntry_def mirror_set_def Let_def)
  then show ?thesis using addFunction_registers [OF ok a] by (auto simp: sample_table_def)
qed

end
