(* ===== verification/Interop.thy ===== *)
theory Interop
  imports Memory
begin

text \<open>
  Calls from JavaScript into the compiled program: \<open>stringToUTF8OnStack\<close>, \<open>ccall\<close> and \<open>cwrap\<close>.

  The compiled function is a parameter; it maps arguments and state to a result and a new state, or throws.
  Its stack is a region of memory below the stack pointer. Where \<open>stackAlloc\<close>, which is compiled, puts a
  block is a parameter too.
\<close>

datatype jsval = JNum int | JStr js_units | JArr "u8 list" | JBool bool | JNull

record cstate =
  mem :: heap
  sp :: nat

text \<open>The new stack pointer, which is also the address of the block.\<close>

type_synonym stack_alloc = "nat \<Rightarrow> nat \<Rightarrow> nat"

type_synonym cfunc = "jsval list \<Rightarrow> cstate \<Rightarrow> cstate + jsval \<times> cstate"

definition stackSave :: "cstate \<Rightarrow> nat" where "stackSave s = sp s"

definition stackRestore :: "nat \<Rightarrow> cstate \<Rightarrow> cstate" where "stackRestore p s = s\<lparr>sp := p\<rparr>"

definition stackAlloc :: "stack_alloc \<Rightarrow> nat \<Rightarrow> cstate \<Rightarrow> nat \<times> cstate" where
  "stackAlloc alloc bytes s = (alloc bytes (sp s), s\<lparr>sp := alloc bytes (sp s)\<rparr>)"

definition stringToUTF8OnStack :: "stack_alloc \<Rightarrow> js_units \<Rightarrow> cstate \<Rightarrow> nat \<times> cstate" where
  "stringToUTF8OnStack alloc str s =
     (let bytes = lengthBytesUTF8 str + 1 in
      case stackAlloc alloc bytes s of (p, s1) \<Rightarrow> (p, s1\<lparr>mem := fst (stringToUTF8 str p bytes (mem s1))\<rparr>))"

text \<open>
  The converters of \<open>ccall\<close>, looked up by the name of the argument's type. For the type \<open>string\<close> a number
  or boolean other than 0 has no length and is written as the empty string; an array throws unless it is
  empty. \<open>None\<close> is a throw.
\<close>

definition toC_string :: "stack_alloc \<Rightarrow> jsval \<Rightarrow> cstate \<Rightarrow> (jsval \<times> cstate) option" where
  "toC_string alloc v s =
     (let write = (\<lambda>str. case stringToUTF8OnStack alloc str s of (p, s1) \<Rightarrow> Some (JNum (int p), s1)) in
      case v of
        JNull \<Rightarrow> Some (JNum 0, s)
      | JNum n \<Rightarrow> if n = 0 then Some (JNum 0, s) else write []
      | JBool b \<Rightarrow> write []
      | JStr str \<Rightarrow> write str
      | JArr bs \<Rightarrow> if bs = [] then write [] else None)"

text \<open>For the type \<open>array\<close> only arrays of bytes are modelled; anything else is counted as a throw.\<close>

definition toC_array :: "stack_alloc \<Rightarrow> jsval \<Rightarrow> cstate \<Rightarrow> (jsval \<times> cstate) option" where
  "toC_array alloc v s =
     (case v of
        JArr bs \<Rightarrow>
          (case stackAlloc alloc (length bs) s of (p, s1) \<Rightarrow>
             (case writeArrayToMemory bs p (mem s1) of
                Inl e \<Rightarrow> None
              | Inr m \<Rightarrow> Some (JNum (int p), s1\<lparr>mem := m\<rparr>)))
      | _ \<Rightarrow> None)"

definition toC :: "stack_alloc \<Rightarrow> string option \<Rightarrow> (jsval \<Rightarrow> cstate \<Rightarrow> (jsval \<times> cstate) option) option" where
  "toC alloc type =
     (if type = Some ''string'' then Some (toC_string alloc)
      else if type = Some ''array'' then Some (toC_array alloc) else None)"

text \<open>The loop over the arguments: the saved stack pointer, 0 for none, the converted arguments and the state.\<close>

fun convert_args :: "stack_alloc \<Rightarrow> string option list \<Rightarrow> jsval list \<Rightarrow> nat \<Rightarrow> cstate \<Rightarrow> (nat \<times> jsval list \<times> cstate) option" where
  "convert_args alloc types [] saved s = Some (saved, [], s)"
| "convert_args alloc types (v # vs) saved s =
     (let type = (case types of [] \<Rightarrow> None | t # ts \<Rightarrow> t) in
      case toC alloc type of
        None \<Rightarrow>
          (case convert_args alloc (drop 1 types) vs saved s of
             None \<Rightarrow> None
           | Some (st, cs, s1) \<Rightarrow> Some (st, v # cs, s1))
      | Some converter \<Rightarrow>
          (let saved1 = (if saved = 0 then stackSave s else saved) in
           case converter v s of
             None \<Rightarrow> None
           | Some (c, s1) \<Rightarrow>
               (case convert_args alloc (drop 1 types) vs saved1 s1 of
                  None \<Rightarrow> None
                | Some (st, cs, s2) \<Rightarrow> Some (st, c # cs, s2))))"

definition to_boolean :: "jsval \<Rightarrow> bool" where
  "to_boolean v = (case v of JNum n \<Rightarrow> n \<noteq> 0 | JStr str \<Rightarrow> str \<noteq> [] | JArr bs \<Rightarrow> True | JBool b \<Rightarrow> b | JNull \<Rightarrow> False)"

definition convertReturnValue :: "(u8 list \<Rightarrow> js_units) option \<Rightarrow> string option \<Rightarrow> jsval \<Rightarrow> cstate \<Rightarrow> jsval" where
  "convertReturnValue decoder returnType v s =
     (if returnType = Some ''string'' then JStr (UTF8ToString decoder (mem s) (case v of JNum n \<Rightarrow> nat n | _ \<Rightarrow> 0) None)
      else if returnType = Some ''boolean'' then JBool (to_boolean v)
      else v)"

text \<open>
  The result is a throw, with the state the function leaves if it was called, or a value. The types may
  be left out only where there are no arguments: \<open>argTypes[i]\<close> of \<open>undefined\<close> is a \<open>TypeError\<close>. Names of
  types that a plain object inherits, like \<open>constructor\<close>, are not modelled.
\<close>

definition ccall ::
  "stack_alloc \<Rightarrow> (u8 list \<Rightarrow> js_units) option \<Rightarrow> cfunc \<Rightarrow> string option \<Rightarrow> string option list option \<Rightarrow> jsval list \<Rightarrow> cstate
     \<Rightarrow> cstate option + jsval \<times> cstate" where
  "ccall alloc decoder func returnType argTypes args s =
     (case (case argTypes of
              Some types \<Rightarrow> convert_args alloc types args 0 s
            | None \<Rightarrow> if args = [] then Some (0, [], s) else None) of
        None \<Rightarrow> Inl None
      | Some (saved, cArgs, s1) \<Rightarrow>
          (case func cArgs s1 of
             Inl s2 \<Rightarrow> Inl (Some s2)
           | Inr (v, s2) \<Rightarrow>
               let s3 = (if saved \<noteq> 0 then stackRestore saved s2 else s2)
               in Inr (convertReturnValue decoder returnType v s3, s3)))"

definition direct_call :: "cfunc \<Rightarrow> jsval list \<Rightarrow> cstate \<Rightarrow> cstate option + jsval \<times> cstate" where
  "direct_call func args s = (case func args s of Inl s2 \<Rightarrow> Inl (Some s2) | Inr r \<Rightarrow> Inr r)"

definition cwrap ::
  "stack_alloc \<Rightarrow> (u8 list \<Rightarrow> js_units) option \<Rightarrow> cfunc \<Rightarrow> string option \<Rightarrow> string option list option \<Rightarrow> bool \<Rightarrow> jsval list \<Rightarrow> cstate
     \<Rightarrow> cstate option + jsval \<times> cstate" where
  "cwrap alloc decoder func returnType argTypes opts args s =
     (let numericArgs = (case argTypes of None \<Rightarrow> True
            | Some ts \<Rightarrow> list_all (\<lambda>t. t = Some ''number'' \<or> t = Some ''boolean'') ts);
          numericRet = returnType \<noteq> Some ''string''
      in if numericRet \<and> numericArgs \<and> \<not> opts then direct_call func args s
         else ccall alloc decoder func returnType argTypes args s)"

section \<open>The arguments of the callee\<close>

text \<open>
  The string that an argument of the type \<open>string\<close> is written as; \<open>None\<close> for those that pass as 0.
\<close>

definition c_string :: "jsval \<Rightarrow> js_units option" where
  "c_string v = (case v of JStr str \<Rightarrow> Some str | JNull \<Rightarrow> None | JNum n \<Rightarrow> if n = 0 then None else Some [] | _ \<Rightarrow> Some [])"

text \<open>
  What the callee gets for an argument, in a memory with the stack pointer \<open>low\<close>. For the type \<open>string\<close>
  it is the address of the bytes of the whole string, whatever its units are, with a 0 after them; for
  the type \<open>array\<close> it is the address of the bytes; for any other type it is the argument itself.
\<close>

definition holds :: "string option \<Rightarrow> jsval \<Rightarrow> jsval \<Rightarrow> nat \<Rightarrow> heap \<Rightarrow> bool" where
  "holds type v c low m =
     (if type = Some ''string''
      then (case c_string v of
              None \<Rightarrow> c = JNum 0
            | Some str \<Rightarrow> \<exists>p. c = JNum (int p) \<and> low \<le> p \<and> p + length (utf8_encode str) < length m
                \<and> take (length (utf8_encode str) + 1) (drop p m) = utf8_encode str @ [0])
      else if type = Some ''array''
      then \<exists>bs p. v = JArr bs \<and> c = JNum (int p) \<and> low \<le> p \<and> p + length bs \<le> length m \<and> take (length bs) (drop p m) = bs
      else c = v)"

text \<open>Memory that agrees from an address on, below which blocks lie.\<close>

definition agree_from :: "nat \<Rightarrow> heap \<Rightarrow> heap \<Rightarrow> bool" where
  "agree_from a m m1 \<longleftrightarrow> length m1 = length m \<and> drop a m1 = drop a m"

lemma agree_from_refl [simp]: "agree_from a m m"
  by (simp add: agree_from_def)

lemma agree_from_trans: "agree_from a m m1 \<Longrightarrow> agree_from a m1 m2 \<Longrightarrow> agree_from a m m2"
  by (simp add: agree_from_def)

lemma agree_from_up:
  assumes "agree_from a m m1" and "a \<le> b"
  shows "agree_from b m m1"
proof -
  have "drop b xs = drop (b - a) (drop a xs)" for xs :: heap using assms(2) by simp
  then show ?thesis using assms(1) unfolding agree_from_def by metis
qed

lemma holds_agree: "holds type v c low m \<Longrightarrow> agree_from low m m1 \<Longrightarrow> low1 \<le> low \<Longrightarrow> holds type v c low1 m1"
proof -
  assume a: "holds type v c low m" "agree_from low m m1" "low1 \<le> low"
  have "drop p m1 = drop p m" if "low \<le> p" for p using agree_from_up [OF a(2) that] by (simp add: agree_from_def)
  moreover have "length m1 = length m" using a(2) by (simp add: agree_from_def)
  ultimately show ?thesis using a(1,3) by (auto simp: holds_def split: option.splits if_splits)
qed

text \<open>
  What the compiled \<open>stackAlloc\<close> does while there is room: it moves the stack pointer down by the size, rounded
  up to the alignment of 16 bytes.
\<close>

definition allocates :: "stack_alloc \<Rightarrow> bool" where
  "allocates alloc \<longleftrightarrow> (\<forall>n p. n + 16 \<le> p \<longrightarrow> alloc n p + n \<le> p \<and> p \<le> alloc n p + n + 15)"

fun arg_room :: "string option \<Rightarrow> jsval \<Rightarrow> nat" where
  "arg_room type (JStr str) = (if type = Some ''string'' then lengthBytesUTF8 str + 17 else 0)"
| "arg_room type (JArr bs) = (if type = Some ''array'' then length bs + 17 else if type = Some ''string'' then 17 else 0)"
| "arg_room type _ = (if type = Some ''string'' then 17 else 0)"

fun args_room :: "string option list \<Rightarrow> jsval list \<Rightarrow> nat" where
  "args_room types [] = 0"
| "args_room types (v # vs) = arg_room (case types of [] \<Rightarrow> None | t # ts \<Rightarrow> t) v + args_room (drop 1 types) vs"

lemma on_stack:
  assumes "allocates alloc" and "lengthBytesUTF8 str + 17 < sp s" and "sp s \<le> length (mem s)"
    and "stringToUTF8OnStack alloc str s = (p, s1)"
  shows "p = sp s1 \<and> 0 < p \<and> sp s1 \<le> sp s \<and> sp s \<le> sp s1 + lengthBytesUTF8 str + 16 \<and> agree_from (sp s) (mem s) (mem s1)
    \<and> p + length (utf8_encode str) < length (mem s1) \<and> take (length (utf8_encode str) + 1) (drop p (mem s1)) = utf8_encode str @ [0]"
proof -
  let ?n = "lengthBytesUTF8 str + 1"
  have p: "p = alloc ?n (sp s)" "s1 = s\<lparr>sp := p, mem := fst (stringToUTF8Array str (mem s) p ?n)\<rparr>"
    using assms(4) by (auto simp: stringToUTF8OnStack_def stackAlloc_def stringToUTF8_def Let_def)
  have a: "p + ?n \<le> sp s" "sp s \<le> p + ?n + 15"
    using assms(1) [unfolded allocates_def, rule_format, of ?n "sp s"] assms(2) p(1) by simp_all
  have fits: "p + ?n \<le> length (mem s)" using a assms(3) by simp
  have pre: "utf8_prefix str (?n - 1) = utf8_encode str" by (rule utf8_prefix_all) (simp add: length_utf8_encode)
  have m: "mem s1 = take p (mem s) @ (utf8_encode str @ [0]) @ drop (p + ?n) (mem s)"
    using stringToUTF8Array_heap [OF _ fits, of str] pre by (simp add: p(2) length_utf8_encode)
  have "drop (p + ?n) (mem s1) = drop (p + ?n) (mem s)" "length (mem s1) = length (mem s)"
    using fits by (simp_all add: m length_utf8_encode)
  then have "agree_from (sp s) (mem s) (mem s1)"
    using agree_from_up [of "p + ?n" "mem s" "mem s1" "sp s"] a(1) by (simp add: agree_from_def)
  moreover have "take (length (utf8_encode str) + 1) (drop p (mem s1)) = utf8_encode str @ [0]"
    using fits by (simp add: m)
  ultimately show ?thesis using a fits assms(2) p(2) m by (auto simp: length_utf8_encode)
qed

lemma converted:
  assumes "allocates alloc" and "arg_room type v < sp s" and "sp s \<le> length (mem s)"
    and "toC alloc type = Some converter" and "converter v s = Some (c, s1)"
  shows "0 < sp s1 \<and> sp s1 \<le> sp s \<and> sp s \<le> sp s1 + arg_room type v \<and> agree_from (sp s) (mem s) (mem s1)
    \<and> holds type v c (sp s1) (mem s1)"
proof (cases "type = Some ''string''")
  case True
  then have c: "toC_string alloc v s = Some (c, s1)" using assms(4,5) by (simp add: toC_def)
  show ?thesis
  proof (cases "c_string v")
    case None
    then have "c = JNum 0" "s1 = s" "arg_room type v = 17"
      using c True by (auto simp: c_string_def toC_string_def split: jsval.splits if_splits prod.splits)
    then show ?thesis using True None assms(2) by (simp add: holds_def)
  next
    case (Some str)
    then obtain p where p: "stringToUTF8OnStack alloc str s = (p, s1)" "c = JNum (int p)"
      and room: "arg_room type v = lengthBytesUTF8 str + 17"
      using c True by (auto simp: c_string_def toC_string_def split: jsval.splits if_splits prod.splits)
    have "lengthBytesUTF8 str + 17 < sp s" using assms(2) room by simp
    from on_stack [OF assms(1) this assms(3) p(1)] show ?thesis
      unfolding room holds_def if_P [OF True] Some option.case p(2) by auto
  qed
next
  case False
  then have t: "type = Some ''array''" and c: "toC_array alloc v s = Some (c, s1)"
    using assms(4,5) by (auto simp: toC_def split: if_splits)
  then obtain bs where bs: "v = JArr bs" by (cases v) (auto simp: toC_array_def)
  define p where "p = alloc (length bs) (sp s)"
  let ?m = "take p (mem s) @ bs @ drop (p + length bs) (mem s)"
  have s1: "c = JNum (int p)" "s1 = s\<lparr>sp := p, mem := ?m\<rparr>" "p + length bs \<le> length (mem s)"
    using c by (auto simp: bs toC_array_def stackAlloc_def writeArrayToMemory_def array_set_def p_def split: if_splits)
  have a: "p + length bs \<le> sp s" "sp s \<le> p + length bs + 15"
    using assms(1,2) p_def bs t unfolding allocates_def by auto
  have m: "mem s1 = take p (mem s) @ bs @ drop (p + length bs) (mem s)"
    using s1(2) by simp
  have "agree_from (p + length bs) (mem s) (mem s1)" using s1(3) by (simp add: agree_from_def m)
  then have "agree_from (sp s) (mem s) (mem s1)" using agree_from_up a(1) by blast
  moreover have "take (length bs) (drop p (mem s1)) = bs" "p + length bs \<le> length (mem s1)"
    using s1(3) by (simp_all add: m)
  ultimately show ?thesis using a assms(2) s1(1,2) bs t by (auto simp: holds_def)
qed

lemma converted_args:
  "allocates alloc \<Longrightarrow> args_room types vs < sp s \<Longrightarrow> sp s \<le> length (mem s) \<Longrightarrow>
     convert_args alloc types vs saved s = Some (st, cs, s1) \<Longrightarrow>
     length cs = length vs \<and> 0 < sp s1 \<and> sp s1 \<le> sp s \<and> agree_from (sp s) (mem s) (mem s1)
     \<and> (\<forall>i<length vs. holds (if i < length types then types ! i else None) (vs ! i) (cs ! i) (sp s1) (mem s1))
     \<and> st = (if saved \<noteq> 0 then saved else if st = 0 then 0 else sp s) \<and> (st = 0 \<longrightarrow> s1 = s)"
proof (induction vs arbitrary: types saved s st cs s1)
  case Nil
  then show ?case by simp
next
  case (Cons v vs)
  define type where "type = (case types of [] \<Rightarrow> None | t # ts \<Rightarrow> t)"
  have nth: "(if Suc i < length types then types ! Suc i else None) = (if i < length (drop 1 types) then drop 1 types ! i else None)"
    "(if 0 < length types then types ! 0 else None) = type" for i
    by (cases types; simp add: type_def)+
  show ?case
  proof (cases "toC alloc type")
    case None
    then obtain cs' where r: "convert_args alloc (drop 1 types) vs saved s = Some (st, cs', s1)" "cs = v # cs'"
      using Cons.prems(4) by (auto simp: type_def [symmetric] Let_def split: option.splits)
    note ih = Cons.IH [OF Cons.prems(1) _ Cons.prems(3) r(1)]
    have "holds type v v low m" for low m using None by (auto simp: holds_def toC_def split: if_splits)
    then show ?thesis
      using ih Cons.prems(2) nth unfolding r(2) All_less_Suc2 length_Cons by (simp add: type_def [symmetric])
  next
    case (Some converter)
    define saved1 where "saved1 = (if saved = 0 then stackSave s else saved)"
    obtain c s0 cs' where r: "converter v s = Some (c, s0)" "convert_args alloc (drop 1 types) vs saved1 s0 = Some (st, cs', s1)"
        "cs = c # cs'"
      using Cons.prems(4) Some
      by (auto simp: type_def [symmetric] Let_def saved1_def [symmetric] split: option.splits)
    have room: "arg_room type v + args_room (drop 1 types) vs < sp s" using Cons.prems(2) by (simp add: type_def)
    note one = converted [OF Cons.prems(1) _ Cons.prems(3) Some r(1)]
    have one': "0 < sp s0" "sp s0 \<le> sp s" "sp s \<le> sp s0 + arg_room type v" "agree_from (sp s) (mem s) (mem s0)"
        "holds type v c (sp s0) (mem s0)"
      using one room by simp_all
    have len: "sp s0 \<le> length (mem s0)" using one'(2,4) Cons.prems(3) by (simp add: agree_from_def)
    have ih: "length cs' = length vs" "0 < sp s1" "sp s1 \<le> sp s0" "agree_from (sp s0) (mem s0) (mem s1)"
        "\<forall>i<length vs. holds (if i < length (drop 1 types) then drop 1 types ! i else None) (vs ! i) (cs' ! i) (sp s1) (mem s1)"
        "st = (if saved1 \<noteq> 0 then saved1 else if st = 0 then 0 else sp s0)"
      using Cons.IH [OF Cons.prems(1) _ len r(2)] room one'(3) by simp_all
    have "saved1 \<noteq> 0" using one' by (simp add: saved1_def stackSave_def)
    moreover have "agree_from (sp s) (mem s) (mem s1)" using agree_from_trans one'(2,4) ih(4) agree_from_up by blast
    moreover have "holds type v c (sp s1) (mem s1)" using holds_agree one'(5) ih(3,4) by blast
    ultimately show ?thesis
      using ih one'(2) nth unfolding r(3) All_less_Suc2 length_Cons by (simp add: saved1_def stackSave_def)
  qed
qed

text \<open>Arguments the converters accept.\<close>

fun proper :: "string option \<Rightarrow> jsval \<Rightarrow> bool" where
  "proper type (JArr bs) \<longleftrightarrow> type \<noteq> Some ''string'' \<or> bs = []"
| "proper type _ \<longleftrightarrow> type \<noteq> Some ''array''"

fun proper_args :: "string option list \<Rightarrow> jsval list \<Rightarrow> bool" where
  "proper_args types [] \<longleftrightarrow> True"
| "proper_args types (v # vs) \<longleftrightarrow> proper (case types of [] \<Rightarrow> None | t # ts \<Rightarrow> t) v \<and> proper_args (drop 1 types) vs"

lemma conversion_succeeds:
  assumes "allocates alloc" and "proper type v" and "arg_room type v < sp s" and "sp s \<le> length (mem s)"
    and "toC alloc type = Some converter"
  shows "\<exists>c s1. converter v s = Some (c, s1)"
proof (cases "type = Some ''string''")
  case True
  then show ?thesis using assms(2,5) by (cases v) (auto simp: toC_def toC_string_def split: prod.splits)
next
  case False
  then have t: "type = Some ''array''" "converter = toC_array alloc" using assms(5) by (auto simp: toC_def split: if_splits)
  then obtain bs where bs: "v = JArr bs" using assms(2) by (cases v) auto
  have "alloc (length bs) (sp s) + length bs \<le> sp s"
    using assms(1) [unfolded allocates_def, rule_format, of "length bs" "sp s"] assms(3) t bs by simp
  then show ?thesis using t bs assms(4) by (simp add: toC_array_def stackAlloc_def writeArrayToMemory_def array_set_def)
qed

lemma convert_args_succeeds:
  "allocates alloc \<Longrightarrow> proper_args types vs \<Longrightarrow> args_room types vs < sp s \<Longrightarrow> sp s \<le> length (mem s) \<Longrightarrow>
     convert_args alloc types vs saved s \<noteq> None"
proof (induction vs arbitrary: types saved s)
  case (Cons v vs)
  define type where "type = (case types of [] \<Rightarrow> None | t # ts \<Rightarrow> t)"
  have p: "proper type v" "arg_room type v + args_room (drop 1 types) vs < sp s" "proper_args (drop 1 types) vs"
    using Cons.prems by (simp_all add: type_def)
  show ?case
  proof (cases "toC alloc type")
    case None
    then show ?thesis using Cons.IH [OF Cons.prems(1) p(3) _ Cons.prems(4)] p(2)
      by (auto simp: type_def [symmetric] Let_def split: option.splits)
  next
    case (Some converter)
    obtain c s1 where c: "converter v s = Some (c, s1)"
      using conversion_succeeds [OF Cons.prems(1) p(1) _ Cons.prems(4) Some] p(2) by auto
    have "args_room (drop 1 types) vs < sp s1" "sp s1 \<le> length (mem s1)"
      using converted [OF Cons.prems(1) _ Cons.prems(4) Some c] p(2) Cons.prems(4) by (simp_all add: agree_from_def)
    then obtain st cs s2 where "convert_args alloc (drop 1 types) vs (if saved = 0 then stackSave s else saved) s1 = Some (st, cs, s2)"
      using Cons.IH [OF Cons.prems(1) p(3)] by (metis not_None_eq prod_cases3)
    then show ?thesis using Some c by (simp add: type_def [symmetric] Let_def)
  qed
qed simp

lemma saved_stays: "convert_args alloc types vs saved s = Some (st, cs, s1) \<Longrightarrow> saved \<noteq> 0 \<Longrightarrow> st = saved"
  by (induction vs arbitrary: types saved s st cs s1) (auto simp: Let_def split: option.splits list.splits)

lemma converting_saves:
  "convert_args alloc types vs saved s = Some (st, cs, s1) \<Longrightarrow> 0 < sp s \<Longrightarrow> i < length vs \<Longrightarrow> i < length types \<Longrightarrow>
     toC alloc (types ! i) \<noteq> None \<Longrightarrow> st \<noteq> 0"
proof (induction vs arbitrary: types saved s st cs s1 i)
  case (Cons v vs)
  then obtain t ts where types: "types = t # ts" by (cases types) auto
  show ?case
  proof (cases "toC alloc t")
    case None
    then obtain j where "i = Suc j" using Cons.prems(5) types by (cases i) auto
    then show ?thesis using Cons.IH [of ts saved s st _ s1 j] Cons.prems None
      by (auto simp: types Let_def split: option.splits)
  next
    case (Some converter)
    then show ?thesis using Cons.prems(1,2) saved_stays
      by (force simp: types Let_def stackSave_def split: option.splits if_splits)
  qed
qed simp

text \<open>
  C30: With room on the stack for the arguments, and arguments that their converters accept, \<open>ccall\<close> calls
  the compiled function once. It gets every argument of the type \<open>string\<close> as the address of the encoding
  of all its code units, zeros and unpaired surrogates included, with a 0 after it, every array as
  the address of its bytes, and other arguments as they are. All of them are in memory at the same time, at or
  above the stack pointer the function gets, and nothing at or above the old stack pointer has changed. When
  the function returns, the caller has its own stack pointer back if some argument was converted or if the
  function left the pointer as it was, and the result is converted in the memory the function left. When
  the function throws, the pointer is left as it is.
\<close>

theorem ccall_passes_arguments:
  assumes "allocates alloc" and "proper_args argTypes args" and "args_room argTypes args < sp s" and "sp s \<le> length (mem s)"
  shows "\<exists>cArgs s1. length cArgs = length args \<and> 0 < sp s1
    \<and> (\<forall>i<length args. holds (if i < length argTypes then argTypes ! i else None) (args ! i) (cArgs ! i) (sp s1) (mem s1))
    \<and> agree_from (sp s) (mem s) (mem s1)
    \<and> (case func cArgs s1 of
          Inl s2 \<Rightarrow> ccall alloc decoder func returnType (Some argTypes) args s = Inl (Some s2)
        | Inr (v, s2) \<Rightarrow> \<exists>s3. ccall alloc decoder func returnType (Some argTypes) args s
              = Inr (convertReturnValue decoder returnType v s3, s3) \<and> mem s3 = mem s2
            \<and> ((\<exists>i < length args. i < length argTypes \<and> argTypes ! i \<in> {Some ''string'', Some ''array''}) \<or> sp s2 = sp s1
                \<longrightarrow> sp s3 = sp s))"
proof -
  obtain st cs s1 where c: "convert_args alloc argTypes args 0 s = Some (st, cs, s1)"
    using convert_args_succeeds [OF assms, of 0] by auto
  note ok = converted_args [OF assms(1,3,4) c]
  have "0 < sp s" using assms(3) by simp
  then have "\<exists>i < length args. i < length argTypes \<and> argTypes ! i \<in> {Some ''string'', Some ''array''} \<Longrightarrow> st \<noteq> 0"
    using converting_saves [OF c] by (auto simp: toC_def)
  moreover have "st \<noteq> 0 \<Longrightarrow> st = sp s" "st = 0 \<Longrightarrow> s1 = s" using ok by auto
  ultimately show ?thesis
    using ok c by (intro exI [of _ cs] exI [of _ s1])
      (auto simp: ccall_def Let_def stackRestore_def split: sum.split prod.split)
qed

text \<open>
  With types for the arguments, a wrapped function is the call with conversions, also when it skips them,
  unless the result is a boolean.
\<close>

lemma convert_args_numbers:
  "list_all (\<lambda>t. t = Some ''number'' \<or> t = Some ''boolean'') types \<Longrightarrow> convert_args alloc types vs 0 s = Some (0, vs, s)"
proof (induction vs arbitrary: types)
  case (Cons v vs)
  then show ?case by (cases types) (auto simp: toC_def Let_def)
qed simp

theorem cwrap_is_ccall:
  assumes "returnType \<noteq> Some ''boolean''"
  shows "cwrap alloc decoder func returnType (Some argTypes) opts args s
    = ccall alloc decoder func returnType (Some argTypes) args s"
proof (cases "returnType \<noteq> Some ''string'' \<and> list_all (\<lambda>t. t = Some ''number'' \<or> t = Some ''boolean'') argTypes \<and> \<not> opts")
  case True
  then show ?thesis using assms convert_args_numbers [of argTypes alloc args s]
    by (simp add: cwrap_def direct_call_def ccall_def convertReturnValue_def Let_def split: sum.split prod.split)
next
  case False
  then show ?thesis by (auto simp: cwrap_def Let_def)
qed

text \<open>
  Without types a wrapped function with a string result, or one made with options, throws for every
  call that has arguments, before it calls the function.
\<close>

theorem cwrap_without_types_throws:
  assumes "returnType = Some ''string'' \<or> opts" and "args \<noteq> []"
  shows "cwrap alloc decoder func returnType None opts args s = Inl None"
  using assms by (auto simp: cwrap_def ccall_def)

lemma cwrap_without_types_throws_witness:
  "cwrap (\<lambda>n p. p - n) None (\<lambda>as t. Inr (JNum 3, t)) (Some ''string'') None False [JNum 7] \<lparr>mem = [1], sp = 1\<rparr> = Inl None"
  by (rule cwrap_without_types_throws) simp_all

lemma cwrap_boolean_is_number:
  "cwrap alloc decoder (\<lambda>as s. Inr (JNum 1, s)) (Some ''boolean'') (Some [Some ''number'']) False [JNum 5] s = Inr (JNum 1, s)"
  "ccall alloc decoder (\<lambda>as s. Inr (JNum 1, s)) (Some ''boolean'') (Some [Some ''number'']) [JNum 5] s = Inr (JBool True, s)"
  by (simp_all add: cwrap_def direct_call_def ccall_def toC_def convertReturnValue_def to_boolean_def Let_def)

definition down16 :: stack_alloc where
  "down16 n p = p - 16 * ((n + 15) div 16)"

lemma down16_allocates: "allocates down16"
  unfolding allocates_def down16_def by auto

lemma number_returned: "convertReturnValue decoder (Some ''number'') v s = v"
  by (simp add: convertReturnValue_def)

theorem ccall_passes_arguments_witness:
  "\<exists>s3. ccall down16 None (\<lambda>as t. Inr (JNum 0, t)) (Some ''number'') (Some [Some ''string'', Some ''number'']) [JStr [0x48, 0xE9], JNum 7]
         \<lparr>mem = replicate 80 1, sp = 80\<rparr> = Inr (JNum 0, s3) \<and> sp s3 = 80"
proof -
  let ?args = "[JStr [0x48, 0xE9], JNum 7]" and ?types = "[Some ''string'', Some ''number'']"
  define s0 where "s0 = \<lparr>mem = replicate 80 1, sp = 80\<rparr>"
  have room: "proper_args ?types ?args" "args_room ?types ?args < sp s0" "sp s0 \<le> length (mem s0)"
    by (simp_all add: s0_def)
  have "\<exists>s3. ccall down16 None (\<lambda>as t. Inr (JNum 0, t)) (Some ''number'') (Some ?types) ?args s0 = Inr (JNum 0, s3) \<and> sp s3 = sp s0"
    using ccall_passes_arguments [OF down16_allocates room, where func = "\<lambda>as t. Inr (JNum 0, t)" and decoder = None and returnType = "Some ''number''"]
    by (auto simp: number_returned)
  then show ?thesis by (simp add: s0_def)
qed

theorem cwrap_is_ccall_witness:
  "cwrap down16 None (\<lambda>as t. Inr (JNum 3, t)) None (Some [Some ''number'']) False [JNum 7] \<lparr>mem = [1], sp = 1\<rparr>
     = Inr (JNum 3, \<lparr>mem = [1], sp = 1\<rparr>)"
  using cwrap_is_ccall [of None down16 None "\<lambda>as t. Inr (JNum 3, t)" "[Some ''number'']" False "[JNum 7]" "\<lparr>mem = [1], sp = 1\<rparr>"]
  by (simp add: ccall_def toC_def convertReturnValue_def Let_def)

end
