(* ===== verification/FsInit.thy ===== *)
theory FsInit
  imports FsStreamProps
begin

unbundle bit_operations_syntax

text \<open>
  The start of the file system: \<open>createDevice\<close> and \<open>createDataFile\<close>, the default directories and devices,
  the standard streams and \<open>init\<close>.
\<close>

section \<open>Devices and files with data\<close>

text \<open>
  The operations \<open>createDevice\<close> registers are those of a \<open>CallbackDevice\<close>; what its callbacks return and
  take is part of the state. The number of the device is the next unused major number.
\<close>

definition createDevice :: "string \<Rightarrow> string \<Rightarrow> bool \<Rightarrow> bool \<Rightarrow> nid io" where
  "createDevice dir name input output s =
     (let path = join2 dir name;
          m = FS_getMode input output;
          dev = makedev (nextMajor s) 0;
          s1 = registerDevice dev (CallbackDevice input output) (s\<lparr>nextMajor := nextMajor s + 1\<rparr>)
      in FS_mkdev path m (Some dev) s1)"

text \<open>Text is stored by its code units, each cut to a byte by the array of the file.\<close>

datatype file_data = TextData js_units | ArrayData "u8 list"

definition data_bytes :: "file_data \<Rightarrow> u8 list \<times> bool" where
  "data_bytes d = (case d of TextData str \<Rightarrow> (map ucast str, False) | ArrayData bs \<Rightarrow> (bs, True))"

definition data_path :: "string option \<Rightarrow> string \<Rightarrow> string" where
  "data_path dir name = (case dir of None \<Rightarrow> name
     | Some d \<Rightarrow> if d = [] then name else if name = [] then d else join2 d name)"

text \<open>
  An empty text is false in a condition, so nothing is written for it. The file is made writable for the
  time of the write.
\<close>

definition createDataFile ::
  "string option \<Rightarrow> string \<Rightarrow> file_data option \<Rightarrow> bool \<Rightarrow> bool \<Rightarrow> bool \<Rightarrow> unit io" where
  "createDataFile dir name data canRead canWrite canOwn =
     (let path = data_path dir name; m = FS_getMode canRead canWrite in
      bnd (FS_create path (Some m)) (\<lambda>node.
      case (if data = Some (TextData []) then None else data) of
        None \<Rightarrow> ret ()
      | Some d \<Rightarrow>
          (case data_bytes d of (bs, typed) \<Rightarrow>
             bnd (chmod_node node (m OR 146)) (\<lambda>_.
             bnd (open_node node 577 False) (\<lambda>stream.
             bnd (FS_write stream bs 0 (int (length bs)) (Some 0) canOwn typed) (\<lambda>_.
             bnd (FS_close stream) (\<lambda>_.
             chmod_node node m)))))))"

section \<open>The first files\<close>

definition createDefaultDirectories :: "unit io" where
  "createDefaultDirectories =
     bnd (FS_mkdir ''/tmp'' None) (\<lambda>_.
     bnd (FS_mkdir ''/home'' None) (\<lambda>_.
     bnd (FS_mkdir ''/home/web_user'' None) (\<lambda>_. ret ())))"

definition createDefaultDevices :: "unit io" where
  "createDefaultDevices =
     bnd (FS_mkdir ''/dev'' None) (\<lambda>_.
     thn (\<lambda>s. upd (registerDevice (makedev 1 3) NullDevice) s)
     (bnd (FS_mkdev ''/dev/null'' (makedev 1 3) None) (\<lambda>_.
     thn (\<lambda>s. upd (tty_register (makedev 5 0) DefaultTty) s)
     (thn (\<lambda>s. upd (tty_register (makedev 6 0) DefaultTty1) s)
     (bnd (FS_mkdev ''/dev/tty'' (makedev 5 0) None) (\<lambda>_.
     bnd (FS_mkdev ''/dev/tty1'' (makedev 6 0) None) (\<lambda>_.
     bnd (createDevice ''/dev'' ''random'' True False) (\<lambda>_.
     bnd (createDevice ''/dev'' ''urandom'' True False) (\<lambda>_.
     bnd (FS_mkdir ''/dev/shm'' None) (\<lambda>_.
     bnd (FS_mkdir ''/dev/shm/tmp'' None) (\<lambda>_. ret ())))))))))))"

text \<open>The arguments tell which of the standard streams the page provides.\<close>

definition standard_device :: "bool \<Rightarrow> string \<Rightarrow> bool \<Rightarrow> bool \<Rightarrow> string \<Rightarrow> nid io" where
  "standard_device given name input output tty_path =
     (if given then createDevice ''/dev'' name input output
      else FS_symlink tty_path (''/dev/'' @ name))"

definition createStandardStreams :: "bool \<Rightarrow> bool \<Rightarrow> bool \<Rightarrow> unit io" where
  "createStandardStreams stdin stdout stderr =
     bnd (standard_device stdin ''stdin'' True False ''/dev/tty'') (\<lambda>_.
     bnd (standard_device stdout ''stdout'' False True ''/dev/tty'') (\<lambda>_.
     bnd (standard_device stderr ''stderr'' False True ''/dev/tty1'') (\<lambda>_.
     bnd (FS_open ''/dev/stdin'' 0 None) (\<lambda>_.
     bnd (FS_open ''/dev/stdout'' 1 None) (\<lambda>_.
     bnd (FS_open ''/dev/stderr'' 1 None) (\<lambda>_. ret ()))))))"

text \<open>\<open>staticInit\<close> without the special directories, then \<open>init\<close>.\<close>

definition first_files :: "nat \<Rightarrow> fs" where
  "first_files frames =
     snd (createDefaultDevices (snd (createDefaultDirectories (mounted_fs frames))))"

definition FS_init :: "bool \<Rightarrow> bool \<Rightarrow> bool \<Rightarrow> unit io" where
  "FS_init stdin stdout stderr = createStandardStreams stdin stdout stderr"

section \<open>What a file made with data holds\<close>

lemma mode_bits:
  fixes m k :: i32
  shows "isFile ((m AND 4095) OR (k AND NOT 4095)) \<longleftrightarrow> isFile k"
proof -
  have "((m AND 4095) OR (k AND NOT 4095)) AND 61440 = k AND (61440 :: i32)"
  proof -
    have "(4095 :: i32) AND 61440 = 0" "NOT 4095 AND 61440 = (61440 :: i32)" by simp_all
    then show ?thesis by (simp add: bit.conj_disj_distrib2 and.assoc)
  qed
  then show ?thesis by (simp add: isFile_def)
qed

lemma created_file:
  assumes "fs_wf s" and "FS_create path (Some m) s = (Inr n, s1)"
  shows "mode (nodes s1 n) = (m AND 4095) OR 32768" "node_ops (nodes s1 n) = FileOps" "file_ok (nodes s1 n)"
    "file_bytes (nodes s1 n) = []"
proof -
  let ?m = "m AND 4095 OR 32768"
  have "FS_mknod path ?m 0 s = (Inr n, s1)" using assms(2) by (simp add: FS_create_def)
  then obtain p d where r: "FS_lookupPath path of_parent s = Inr (p, Some d)" "mayCreate d (basename path) s = Inr 0"
      "node_ops (nodes s d) = DirOps" "MEMFS_createNode (Some d) (basename path) ?m 0 s = (Inr n, s1)"
    using FS_mknod_Inr by blast
  note d = FS_lookupPath_bound [OF assms(1) r(1)]
  note e = createNode_effect [OF assms(1) d r(3) mayCreate_0(1) [OF assms(1) d r(3,2)] r(4)]
  have "isFile ?m" using mode_bits [of m 32768] by (simp add: isFile_def)
  then have t: "typed_node (nodes (snd (new_node (Some d) (basename path) ?m 0 s)) n)
      = (nodes (snd (new_node (Some d) (basename path) ?m 0 s)) n)\<lparr>node_ops := FileOps, usedBytes := 0, contents := Null\<rparr>"
    using isFile_not by (simp add: typed_node_def e(1) new_node_fields)
  show "mode (nodes s1 n) = ?m" "node_ops (nodes s1 n) = FileOps"
    by (subst e(5), subst t, simp add: e(1) new_node_fields)+
  have "contents (nodes s1 n) = Null" "usedBytes (nodes s1 n) = 0" by (subst e(5), simp add: t)+
  then show "file_ok (nodes s1 n)" "file_bytes (nodes s1 n) = []"
    by (simp_all add: file_ok_def file_bytes_def byte_array_def)
qed

text \<open>A write of the whole buffer at position 0 of a fresh file.\<close>

lemma write_fresh:
  assumes f: "open_file s x n fl 0" and acc: "fl AND 2097155 \<noteq> 0" "fl AND 1024 = 0" and empty: "file_bytes (nodes s n) = []"
  shows "\<exists>d. FS_write x bs 0 (int (length bs)) (Some 0) canOwn typed s = (Inr (length bs), upd_node n (\<lambda>_. d) s)
    \<and> file_ok d \<and> same_meta (nodes s n) d \<and> file_bytes d = bs"
proof -
  have st: "stream_ops (stream_table s x) = FileStream" "stream_node (stream_table s x) = n" "seekable (stream_table s x)"
      "stream_flags x s = fl" "file_ok (nodes s n)"
    using f by (simp_all add: open_file_def)
  have "\<exists>d. write_file (nodes s n) bs 0 (length bs) 0 canOwn typed (clock s) = Inr (length bs, d)
      \<and> file_ok d \<and> same_meta (nodes s n) d \<and> file_bytes d = bs"
  proof (cases "bs = []")
    case True
    then show ?thesis using st(5) empty by (simp add: write_file_nothing)
  next
    case False
    then show ?thesis using write_file_ok [OF st(5), of "length bs" 0 bs 0 canOwn typed "clock s"] empty by (auto simp: put_all)
  qed
  then show ?thesis
    using rw_ok_at [OF f acc(1), of "length bs" 0] st acc(2)
    by (auto simp: FS_write_def stream_write_def Let_def)
qed

lemma chmod_file:
  assumes "node_ops (nodes s n) \<noteq> NoOps"
  shows "chmod_node n m s
    = (Inr (), upd_node n (\<lambda>d. d\<lparr>mode := (m AND 4095) OR (mode d AND NOT 4095), timestamp := clock s\<rparr>) s)"
  using assms by (simp add: chmod_node_def MEMFS_setattr_def upd_node_def)

definition set_mode :: "nid \<Rightarrow> i32 \<Rightarrow> fs \<Rightarrow> fs" where
  "set_mode n m s = upd_node n (\<lambda>d. d\<lparr>mode := (m AND 4095) OR (mode d AND NOT 4095), timestamp := clock s\<rparr>) s"

lemma set_mode_fields:
  "streams (set_mode n m s) = streams s" "stream_table (set_mode n m s) = stream_table s" "nextStream (set_mode n m s) = nextStream s"
  "mode (nodes (set_mode n m s) n) = (m AND 4095) OR (mode (nodes s n) AND NOT 4095)"
  "node_ops (nodes (set_mode n m s) n) = node_ops (nodes s n)" "file_bytes (nodes (set_mode n m s) n) = file_bytes (nodes s n)"
  "file_ok (nodes (set_mode n m s) n) = file_ok (nodes s n)" "k \<noteq> n \<Longrightarrow> nodes (set_mode n m s) k = nodes s k"
  "ignorePermissions (set_mode n m s) = ignorePermissions s"
  by (simp_all add: set_mode_def file_bytes_def file_ok_def byte_array_def)

lemma getPath_set_mode: "getPath n (set_mode k m s) = getPath n s"
proof -
  have "parent (nodes (set_mode k m s) i) = parent (nodes s i)" "node_name (nodes (set_mode k m s) i) = node_name (nodes s i)"
    "mount_ref (nodes (set_mode k m s) i) = mount_ref (nodes s i)" "mount_table (set_mode k m s) = mount_table s"
    "nextInode (set_mode k m s) = nextInode s" for i
    by (simp_all add: set_mode_def)
  note same = this
  have "getPath_loop fuel i path (set_mode k m s) = getPath_loop fuel i path s" for fuel i path
    by (induction fuel arbitrary: i path) (simp_all add: same isRoot_def split: option.split)
  then show ?thesis by (simp add: getPath_def same)
qed

lemma write_bits:
  fixes m k :: i32
  shows "(((m OR 146) AND 4095) OR (k AND NOT 4095)) AND 146 = 146"
proof -
  have "(4095 :: i32) AND 146 = 146" "NOT 4095 AND 146 = (0 :: i32)" by simp_all
  then have "(m OR 146) AND 4095 AND 146 = (m OR 146) AND 146" "k AND NOT 4095 AND 146 = 0"
    by (simp_all add: and.assoc)
  moreover have "(m OR 146) AND 146 = (146 :: i32)" by (simp add: bit.conj_disj_distrib2)
  ultimately show ?thesis by (simp add: bit.conj_disj_distrib2)
qed

lemma permitted:
  assumes "mode (nodes s n) AND 146 = 146"
  shows "nodePermissions n (flagsToPermissionString 577) s = Inr 0" "nodePermissions n (Some ''w'') s = Inr 0"
  using assms by (simp_all add: nodePermissions_def flagsToPermissionString_def)

text \<open>
  Once \<open>createDataFile\<close> has made the file, with a free descriptor and a path to the new node, it succeeds:
  the file holds exactly the data, has the requested mode and type whatever the mode forbids, no descriptor
  stays open and no other node has changed since the file was made.
\<close>

theorem createDataFile_stores_data:
  assumes "fs_wf s" and "FS_create (data_path dir name) (Some (FS_getMode canRead canWrite)) s = (Inr n, s1)"
    and "nextfd s = Inr fd" and "getPath n s1 = Inr q" and "data_bytes d = (bs, typed)" and "d \<noteq> TextData []"
  shows "\<exists>s2. createDataFile dir name (Some d) canRead canWrite canOwn s = (Inr (), s2)
    \<and> file_bytes (nodes s2 n) = bs \<and> file_ok (nodes s2 n) \<and> isFile (mode (nodes s2 n))
    \<and> mode (nodes s2 n) AND 4095 = FS_getMode canRead canWrite \<and> nextfd s2 = Inr fd
    \<and> (\<forall>k. k \<noteq> n \<longrightarrow> nodes s2 k = nodes s1 k)"
proof -
  let ?m = "FS_getMode canRead canWrite"
  note new = created_file [OF assms(1,2)]
  have st1: "streams s1 = streams s" using assms(2) mknod_streams by (simp add: FS_create_def)
  let ?s2 = "set_mode n (?m OR 146) s1"
  have c1: "chmod_node n (?m OR 146) s1 = (Inr (), ?s2)" using chmod_file new(2) by (simp add: set_mode_def)
  have file2: "isFile (mode (nodes ?s2 n))" using mode_bits [of "?m OR 146" "mode (nodes s1 n)"] new(1) mode_bits [of ?m 32768]
    by (simp add: set_mode_fields isFile_def)
  have "mode (nodes ?s2 n) AND 146 = 146" using write_bits by (simp add: set_mode_fields)
  note perm = permitted [OF this]
  have fd2: "nextfd ?s2 = Inr fd" using assms(3) st1 by (simp add: nextfd_def set_mode_fields)
  obtain s3 where s3: "open_node n 577 False ?s2 = (Inr (nextStream ?s2), s3)" "same_names ?s2 s3"
      "open_file s3 (nextStream ?s2) n 65 0" "streams s3 = set_slot fd (Some (nextStream ?s2)) (streams ?s2)"
      "stream_fd (stream_table s3 (nextStream ?s2)) = Some fd" "file_bytes (nodes s3 n) = []"
      "\<And>k. k \<noteq> n \<Longrightarrow> nodes s3 k = nodes ?s2 k"
    using open_node_regular [OF file2 _ _ _ _ perm fd2, of q] new(2,3) assms(4) by (auto simp: set_mode_fields getPath_set_mode)
  obtain x where x: "nextStream ?s2 = x" by blast
  obtain e where e: "FS_write x bs 0 (int (length bs)) (Some 0) canOwn typed s3 = (Inr (length bs), upd_node n (\<lambda>_. e) s3)"
      "file_ok e" "same_meta (nodes s3 n) e" "file_bytes e = bs"
    using write_fresh [OF s3(3) _ _ s3(6), of bs canOwn typed] x by auto
  let ?s4 = "upd_node n (\<lambda>_. e) s3"
  have "open_file ?s4 x n 65 0" using open_file_node [OF s3(3) e(3,2)] x by simp
  then obtain s5 where s5: "FS_close x ?s4 = (Inr (), s5)" "nodes s5 = nodes ?s4" "streams s5 = set_slot fd None (streams ?s4)"
    using close_open [of ?s4 x n 65 0 fd] s3(5) x by auto
  have ops: "node_ops (nodes s5 n) = FileOps" "mode (nodes s5 n) = mode (nodes ?s2 n)" "file_ok (nodes s5 n)" "file_bytes (nodes s5 n) = bs"
    using s5(2) e same_namesD [OF s3(2)] new(2) by (simp_all add: same_meta_def set_mode_fields)
  let ?s6 = "set_mode n ?m s5"
  have c2: "chmod_node n ?m s5 = (Inr (), ?s6)" using chmod_file ops(1) by (simp add: set_mode_def)
  have "createDataFile dir name (Some d) canRead canWrite canOwn s = (Inr (), ?s6)"
    using assms(2,5,6) c1 s3(1) x e(1) s5(1) c2 by (simp add: createDataFile_def bnd_def Let_def)
  moreover have "file_bytes (nodes ?s6 n) = bs" "file_ok (nodes ?s6 n)" using ops by (simp_all add: set_mode_fields)
  moreover have "isFile (mode (nodes ?s6 n))" using mode_bits file2 ops(2) by (simp add: set_mode_fields)
  moreover have "mode (nodes ?s6 n) AND 4095 = ?m"
  proof -
    have "?m AND 4095 = ?m" by (simp add: FS_getMode_def Let_def)
    moreover have "(k AND NOT 4095) AND 4095 = (0 :: i32)" for k by (simp add: and.assoc)
    ultimately show ?thesis by (simp add: set_mode_fields bit.conj_disj_distrib2)
  qed
  moreover have "nextfd ?s6 = Inr fd"
    using slots_again [OF fd2, of ?s6 x] s3(4) s5(3) x by (simp add: set_mode_fields)
  moreover have "nodes ?s6 k = nodes s1 k" if "k \<noteq> n" for k
    using s3(7) s5(2) that by (simp add: set_mode_fields)
  ultimately show ?thesis by blast
qed

lemma createDataFile_stores_data_witness:
  "\<exists>s2. createDataFile (Some ''/'') ''a'' (Some (ArrayData [1, 2])) True False False (mounted_fs 7) = (Inr (), s2)
    \<and> file_bytes (nodes s2 2) = [1, 2] \<and> mode (nodes s2 2) AND 4095 = 365"
proof -
  have "fst (FS_create ''/a'' (Some 365) (mounted_fs frames)) = Inr 2
      \<and> getPath 2 (snd (FS_create ''/a'' (Some 365) (mounted_fs frames))) = Inr ''/a''" for frames
    by (simp add: example_states fs_eval find_chain_numeral follow_links_numeral)
  from this [of 7] obtain s1 where s1: "FS_create ''/a'' (Some 365) (mounted_fs 7) = (Inr 2, s1)" "getPath 2 s1 = Inr ''/a''"
    by (metis prod.collapse)
  have m: "FS_getMode True False = 365" by (simp add: FS_getMode_def)
  have p: "data_path (Some ''/'') ''a'' = ''/a''"
    by (simp add: data_path_def join2_def normalize_def normalizeArray_def parts_of_def isAbs_def Let_def)
  have fd: "nextfd (mounted_fs 7) = Inr 0"
    by (simp add: nextfd_def MAX_OPEN_FDS_def mounted_fs_def initial_fs_def fs_eval)
  from createDataFile_stores_data [OF mounted_fs_wf, of "Some ''/''" "''a''" True False 7 2 s1 0 "''/a''" "ArrayData [1, 2]" "[1, 2]" True False]
  show ?thesis using s1 fd by (auto simp: m p data_bytes_def)
qed

end
