(* ===== verification/Terminals.thy ===== *)
theory Terminals
  imports FsStreamProps
begin

unbundle bit_operations_syntax

text \<open>
  What a terminal prints: bytes are collected in \<open>put_char\<close> until a line feed, decoded as UTF-8 and handed to
  \<open>out\<close> or \<open>err\<close>.
\<close>

lemma utf8_bytes_newline: "u < 0x110000 \<Longrightarrow> byte 10 \<in> set (utf8_bytes u) \<Longrightarrow> u = 10"
proof -
  assume u: "u < 0x110000" and i: "byte 10 \<in> set (utf8_bytes u)"
  have b: "byte n = byte 10 \<Longrightarrow> n < 256 \<Longrightarrow> n = 10" for n
    using unat_byte [of n] unat_byte [of 10] by simp
  from u have r: "u \<le> 0x7FF \<Longrightarrow> u div 64 < 32" "u \<le> 0xFFFF \<Longrightarrow> u div 4096 < 16" "u div 262144 < 8"
    by auto
  have m: "128 + x mod 64 < 256" for x :: nat using mod_less_divisor [of 64 x] by linarith
  show ?thesis
    using i u r b [of u] b [of "192 + u div 64"] b [of "224 + u div 4096"] b [of "240 + u div 262144"]
      b [of "128 + u mod 64"] b [of "128 + u div 64 mod 64"] b [of "128 + u div 4096 mod 64"] m
    by (auto simp: utf8_bytes_arith simp del: of_nat_add split: if_splits)
qed

lemma utf8_encode_newline: "10 \<notin> set str \<Longrightarrow> 10 \<notin> set (utf8_encode str)"
proof (induction str rule: utf8_encode.induct)
  case (2 c str)
  have "10 \<notin> set (after_code_point c str)" using 2(2) set_drop_subset [of 1 str] by (auto simp: after_code_point_def)
  moreover have "code_point c str \<noteq> 10"
  proof
    assume "code_point c str = 10"
    then have "unat c = 10" using pair_code_point_range(1) [of "unat c" str] by (auto simp: code_point_def split: if_splits)
    then have "c = 10" by (simp add: word_unat_eq_iff)
    then show False using 2(2) by simp
  qed
  moreover have "byte 10 = 10" by simp
  ultimately show ?case
    using 2(1) utf8_bytes_newline [OF code_point_range, of c str] by auto
qed simp

lemma UTF8ArrayToString_whole:
  assumes "well_formed str" "0 \<notin> set str"
  shows "UTF8ArrayToString None (utf8_encode str) 0 None = str"
proof -
  let ?E = "utf8_encode str"
  have "byte_at ?E (0 + i) \<noteq> 0" if "i < length ?E" for i
  proof -
    have "?E ! i \<noteq> 0" using utf8_encode_nonzero [OF assms(2)] that by (metis nth_mem)
    then show ?thesis using that by (simp add: byte_at_def unat_eq_zero)
  qed
  moreover have "byte_at ?E (0 + length ?E) = 0" by (simp add: byte_at_def)
  ultimately have "scan_end ?E 0 None = 0 + length ?E" by (intro scan_end_at) auto
  moreover have "decode_loop ?E 0 (0 + length ?E) = str" by (intro decode_loop_encode assms) simp
  ultimately show ?thesis by (simp add: UTF8ArrayToString_def Let_def)
qed

lemma put_chars_collect:
  assumes "ttys s dev = Some t" and "10 \<notin> set bs" and "0 \<notin> set bs"
  shows "fold (put_char dev) bs s = s\<lparr>ttys := (ttys s)(dev \<mapsto> t\<lparr>tty_output := tty_output t @ bs\<rparr>)\<rparr>"
  using assms
proof (induction bs arbitrary: s t)
  case Nil
  then have "(ttys s)(dev \<mapsto> t) = ttys s" by auto
  then show ?case by simp
next
  case (Cons b bs)
  define s1 where "s1 = s\<lparr>ttys := (ttys s)(dev \<mapsto> t\<lparr>tty_output := tty_output t @ [b]\<rparr>)\<rparr>"
  have at: "ttys s1 dev = Some (t\<lparr>tty_output := tty_output t @ [b]\<rparr>)" by (simp add: s1_def)
  have "put_char dev b s = s1" using Cons.prems by (auto simp: put_char_def s1_def)
  moreover have "fold (put_char dev) bs s1
      = s1\<lparr>ttys := (ttys s1)(dev \<mapsto> t\<lparr>tty_output := (tty_output t @ [b]) @ bs\<rparr>)\<rparr>"
    using Cons.IH [OF at] Cons.prems by (simp add: fun_upd_def)
  moreover have "(ttys s1)(dev \<mapsto> u) = (ttys s)(dev \<mapsto> u)" "s1\<lparr>ttys := v\<rparr> = s\<lparr>ttys := v\<rparr>" for u v
    by (auto simp: s1_def)
  ultimately show ?case by (simp add: fun_upd_def)
qed

definition line_ok :: "js_units \<Rightarrow> bool" where
  "line_ok str \<longleftrightarrow> well_formed str \<and> 0 \<notin> set str \<and> 10 \<notin> set str"

definition printed :: "js_units list \<Rightarrow> u8 list" where
  "printed ls = concat (map (\<lambda>str. utf8_encode str @ [10]) ls)"

lemma put_lines:
  assumes "ttys s dev = Some \<lparr>tty_output = [], tty_kind = k\<rparr>" and "list_all line_ok ls"
  shows "fold (put_char dev) (printed ls) s = s\<lparr>console := console s @ map (\<lambda>str. (k = DefaultTty1, str)) ls\<rparr>"
  using assms
proof (induction ls arbitrary: s)
  case Nil
  then show ?case by (simp add: printed_def)
next
  case (Cons str ls)
  let ?E = "utf8_encode str"
  let ?s1 = "s\<lparr>ttys := (ttys s)(dev \<mapsto> \<lparr>tty_output = ?E, tty_kind = k\<rparr>)\<rparr>"
  let ?s2 = "s\<lparr>console := console s @ [(k = DefaultTty1, str)]\<rparr>"
  have l: "well_formed str" "0 \<notin> set str" "10 \<notin> set str" using Cons.prems(2) by (simp_all add: line_ok_def)
  have "fold (put_char dev) ?E s = ?s1"
    using put_chars_collect [OF Cons.prems(1) utf8_encode_newline [OF l(3)] utf8_encode_nonzero [OF l(2)]] by simp
  moreover have "put_char dev 10 ?s1 = ?s2"
  proof -
    have "(ttys s)(dev \<mapsto> \<lparr>tty_output = [], tty_kind = k\<rparr>) = ttys s" using Cons.prems(1) by auto
    then show ?thesis by (simp add: put_char_def tty_flush_def UTF8ArrayToString_whole [OF l(1,2)])
  qed
  moreover have "fold (put_char dev) (printed ls) ?s2 = ?s2\<lparr>console := console ?s2 @ map (\<lambda>str. (k = DefaultTty1, str)) ls\<rparr>"
    using Cons by simp
  ultimately show ?case by (simp add: printed_def)
qed

text \<open>
  A write of whole lines to an open terminal with nothing pending prints exactly these lines, in order, on the
  standard output or the error output of the terminal, and leaves nothing pending. It moves the position of
  the stream and touches no file.
\<close>

theorem terminal_prints_lines:
  assumes "stream_ops (stream_table s x) = DeviceStream dev TtyDevice" and "stream_tty (stream_table s x) = Some dev'"
    and "ttys s dev' = Some \<lparr>tty_output = [], tty_kind = k\<rparr>"
    and "rw_error x (int (length (printed ls))) None 0 s = 0" and "\<not> seekable (stream_table s x)"
    and "list_all line_ok ls"
  shows "\<exists>s1. FS_write x (printed ls) 0 (int (length (printed ls))) None canOwn typed s = (Inr (length (printed ls)), s1)
    \<and> console s1 = console s @ map (\<lambda>str. (k = DefaultTty1, str)) ls \<and> ttys s1 = ttys s
    \<and> (\<forall>i. contents (nodes s1 i) = contents (nodes s i))"
proof -
  have "elements 0 (length (printed ls)) (printed ls) = printed ls" by (simp add: elements_subarray subarray_def)
  then show ?thesis
    using assms put_lines [OF assms(3,6)]
    by (auto simp: FS_write_def stream_write_def touch_def set_position_def upd_shared_def upd_node_def Let_def)
qed

lemma terminal_prints_lines_witness:
  "\<exists>x s s1. FS_write x (printed [[72, 233], [0x20AC]]) 0 8 None False True s = (Inr 8, s1) \<and> console s1 = [(True, [72, 233]), (True, [0x20AC])]"
proof -
  define s where "s = (mounted_fs 3)\<lparr>stream_table := (\<lambda>_. \<lparr>stream_node = 0, stream_path = [], stream_fd = Some 1, seekable = False,
      stream_ops = DeviceStream 1536 TtyDevice, stream_tty = Some 1536, getdents = None, shared = 0\<rparr>),
      shared_table := (\<lambda>_. \<lparr>flags = 1, position = 0\<rparr>), ttys := [1536 \<mapsto> \<lparr>tty_output = [], tty_kind = DefaultTty1\<rparr>]\<rparr>"
  have n: "length (printed [[72, 233], [0x20AC]]) = 8"
    by (simp add: printed_def utf8_bytes_def code_point_def after_code_point_def is_surrogate_def)
  have "rw_error 0 8 None 0 s = 0"
    by (simp add: s_def rw_error_def isClosed_def stream_flags_def has_rw_def mounted_fs_def initial_fs_def fs_eval no_node_def)
  moreover have "list_all line_ok [[72, 233], [0x20AC]]"
    by (simp add: line_ok_def is_surrogate_def after_code_point_def)
  moreover have "console s = []" by (simp add: s_def mounted_fs_def initial_fs_def fs_eval)
  ultimately show ?thesis
    using terminal_prints_lines [of s 0 1536 1536 DefaultTty1 "[[72, 233], [0x20AC]]" False True] n
    by (auto simp: s_def)
qed

end
