(* ===== verification/ReaderWriterLock.thy ===== *)
theory ReaderWriterLock
  imports Prelude
begin

text \<open>
  \<open>core/Shared/CrossThreadReaderWriterLock.cs\<close>: a lock for readers and writers made of two
  semaphores and a counter, which \<open>shared/ClientManager.cs\<close> holds from one event to the next and
  releases on another thread.

  What acquires and releases is therefore not a thread but a token (\<open>CrossThreadLockToken\<close>), and the
  model gives each token a place in the code: between two operations on a semaphore. One step of a
  token is one such operation or one update of \<open>_readerCount\<close>, so every interleaving of the calls on
  any number of threads is a sequence of steps.
\<close>

section \<open>The lock and its methods\<close>

type_synonym token = nat

datatype place =
    Outside
  | EnteringRead \<comment> \<open>at \<open>_readLock.Wait()\<close> of \<open>EnterReadLock\<close>\<close>
  | CountingIn \<comment> \<open>at \<open>_readerCount++\<close>\<close>
  | FirstReader \<comment> \<open>at \<open>_writeLock.Wait()\<close> of \<open>EnterReadLock\<close>\<close>
  | LeavingEnter \<comment> \<open>in the \<open>finally\<close> of \<open>EnterReadLock\<close>\<close>
  | Reading
  | ExitingRead \<comment> \<open>at \<open>_readLock.Wait()\<close> of \<open>ExitReadLock\<close>\<close>
  | CountingOut \<comment> \<open>at \<open>_readerCount--\<close>\<close>
  | LastReader \<comment> \<open>at \<open>_writeLock.Release()\<close> of \<open>ExitReadLock\<close>\<close>
  | LeavingExit \<comment> \<open>in the \<open>finally\<close> of \<open>ExitReadLock\<close>\<close>
  | EnteringWrite \<comment> \<open>at \<open>_writeLock.Wait()\<close> of \<open>EnterWriteLock\<close>\<close>
  | Writing
  | ExitingWrite \<comment> \<open>at \<open>_writeLock.Release()\<close> of \<open>ExitWriteLock\<close>\<close>

record rwlock =
  writeLock :: nat
  readLock :: nat
  readerCount :: i32
  place_of :: "token \<Rightarrow> place"

definition new_lock :: rwlock where
  "new_lock = \<lparr>writeLock = 1, readLock = 1, readerCount = 0, place_of = (\<lambda>_. Outside)\<rparr>"

text \<open>
  Both semaphores are \<open>SemaphoreSlim(1, 1)\<close>: \<open>Wait\<close> goes on when the count is positive,
  \<open>Release\<close> throws \<open>SemaphoreFullException\<close> at the maximum.
\<close>

datatype progress = Moved rwlock | Waits | SemaphoreFullException

definition goto :: "token \<Rightarrow> place \<Rightarrow> rwlock \<Rightarrow> rwlock" where
  "goto t p s = s\<lparr>place_of := (place_of s)(t := p)\<rparr>"

definition wait_read :: "token \<Rightarrow> place \<Rightarrow> rwlock \<Rightarrow> progress" where
  "wait_read t p s = (if readLock s > 0 then Moved (goto t p (s\<lparr>readLock := readLock s - 1\<rparr>)) else Waits)"

definition wait_write :: "token \<Rightarrow> place \<Rightarrow> rwlock \<Rightarrow> progress" where
  "wait_write t p s = (if writeLock s > 0 then Moved (goto t p (s\<lparr>writeLock := writeLock s - 1\<rparr>)) else Waits)"

definition release_read :: "token \<Rightarrow> place \<Rightarrow> rwlock \<Rightarrow> progress" where
  "release_read t p s =
     (if readLock s < 1 then Moved (goto t p (s\<lparr>readLock := readLock s + 1\<rparr>)) else SemaphoreFullException)"

definition release_write :: "token \<Rightarrow> place \<Rightarrow> rwlock \<Rightarrow> progress" where
  "release_write t p s =
     (if writeLock s < 1 then Moved (goto t p (s\<lparr>writeLock := writeLock s + 1\<rparr>)) else SemaphoreFullException)"

definition EnterReadLock :: "token \<Rightarrow> rwlock \<Rightarrow> progress" where
  "EnterReadLock t s =
     (case place_of s t of
        EnteringRead \<Rightarrow> wait_read t CountingIn s
      | CountingIn \<Rightarrow>
          let n = readerCount s + 1
          in Moved (goto t (if n = 1 then FirstReader else LeavingEnter) (s\<lparr>readerCount := n\<rparr>))
      | FirstReader \<Rightarrow> wait_write t LeavingEnter s
      | LeavingEnter \<Rightarrow> release_read t Reading s
      | _ \<Rightarrow> Waits)"

definition ExitReadLock :: "token \<Rightarrow> rwlock \<Rightarrow> progress" where
  "ExitReadLock t s =
     (case place_of s t of
        ExitingRead \<Rightarrow> wait_read t CountingOut s
      | CountingOut \<Rightarrow>
          let n = readerCount s - 1
          in Moved (goto t (if n = 0 then LastReader else LeavingExit) (s\<lparr>readerCount := n\<rparr>))
      | LastReader \<Rightarrow> release_write t LeavingExit s
      | LeavingExit \<Rightarrow> release_read t Outside s
      | _ \<Rightarrow> Waits)"

definition EnterWriteLock :: "token \<Rightarrow> rwlock \<Rightarrow> progress" where
  "EnterWriteLock t s = (case place_of s t of EnteringWrite \<Rightarrow> wait_write t Writing s | _ \<Rightarrow> Waits)"

definition ExitWriteLock :: "token \<Rightarrow> rwlock \<Rightarrow> progress" where
  "ExitWriteLock t s = (case place_of s t of ExitingWrite \<Rightarrow> release_write t Outside s | _ \<Rightarrow> Waits)"

text \<open>
  \<open>Dispose\<close> marks the token and exits the lock it stands for; a token that is marked, because it is
  on its way out, does nothing.
\<close>

definition Dispose :: "token \<Rightarrow> rwlock \<Rightarrow> rwlock" where
  "Dispose t s =
     (case place_of s t of Reading \<Rightarrow> goto t ExitingRead s | Writing \<Rightarrow> goto t ExitingWrite s | _ \<Rightarrow> s)"

definition advance :: "token \<Rightarrow> rwlock \<Rightarrow> progress" where
  "advance t s =
     (if place_of s t \<in> {EnteringRead, CountingIn, FirstReader, LeavingEnter} then EnterReadLock t s
      else if place_of s t \<in> {ExitingRead, CountingOut, LastReader, LeavingExit} then ExitReadLock t s
      else if place_of s t = EnteringWrite then EnterWriteLock t s
      else ExitWriteLock t s)"

section \<open>Runs\<close>

text \<open>The tokens \<open>T\<close> are the uses of the lock; any of them may move next.\<close>

inductive lock_step :: "token set \<Rightarrow> rwlock \<Rightarrow> rwlock \<Rightarrow> bool" for T where
  enter_read: "t \<in> T \<Longrightarrow> place_of s t = Outside \<Longrightarrow> lock_step T s (goto t EnteringRead s)"
| enter_write: "t \<in> T \<Longrightarrow> place_of s t = Outside \<Longrightarrow> lock_step T s (goto t EnteringWrite s)"
| dispose: "t \<in> T \<Longrightarrow> lock_step T s (Dispose t s)"
| run_on: "t \<in> T \<Longrightarrow> advance t s = Moved s' \<Longrightarrow> lock_step T s s'"

inductive lock_reachable :: "token set \<Rightarrow> rwlock \<Rightarrow> bool" for T where
  start: "lock_reachable T new_lock"
| step: "lock_reachable T s \<Longrightarrow> lock_step T s s' \<Longrightarrow> lock_reachable T s'"

section \<open>Counting the tokens at a place\<close>

definition count_at :: "token set \<Rightarrow> place set \<Rightarrow> rwlock \<Rightarrow> nat" where
  "count_at T P s = card {t \<in> T. place_of s t \<in> P}"

text \<open>The holders of \<open>_readLock\<close>, the readers in \<open>_readerCount\<close> and the writers.\<close>

definition inside :: "place set" where
  "inside = {CountingIn, FirstReader, LeavingEnter, CountingOut, LastReader, LeavingExit}"

definition counted :: "place set" where
  "counted = {FirstReader, LeavingEnter, Reading, ExitingRead, CountingOut}"

definition writers :: "place set" where
  "writers = {Writing, ExitingWrite}"

definition lock_inv :: "token set \<Rightarrow> rwlock \<Rightarrow> bool" where
  "lock_inv T s \<longleftrightarrow>
     readLock s + count_at T inside s = 1 \<and>
     readerCount s = of_nat (count_at T counted s) \<and>
     (0 < count_at T {FirstReader} s \<longrightarrow> count_at T counted s = 1) \<and>
     (0 < count_at T {LastReader} s \<longrightarrow> count_at T counted s = 0) \<and>
     writeLock s + count_at T writers s +
       (if count_at T {FirstReader} s < count_at T counted s \<or> 0 < count_at T {LastReader} s then 1 else 0) = 1"

lemma goto_simps [simp]:
  "writeLock (goto t p s) = writeLock s"
  "readLock (goto t p s) = readLock s"
  "readerCount (goto t p s) = readerCount s"
  "place_of (goto t p s) = (place_of s)(t := p)"
  by (simp_all add: goto_def)

lemma count_at_fields [simp]:
  "count_at T P (s\<lparr>writeLock := n\<rparr>) = count_at T P s"
  "count_at T P (s\<lparr>readLock := n\<rparr>) = count_at T P s"
  "count_at T P (s\<lparr>readerCount := i\<rparr>) = count_at T P s"
  by (simp_all add: count_at_def)

lemma goto_fields [simp]:
  "goto t p (s\<lparr>writeLock := n\<rparr>) = (goto t p s)\<lparr>writeLock := n\<rparr>"
  "goto t p (s\<lparr>readLock := n\<rparr>) = (goto t p s)\<lparr>readLock := n\<rparr>"
  "goto t p (s\<lparr>readerCount := i\<rparr>) = (goto t p s)\<lparr>readerCount := i\<rparr>"
  by (simp_all add: goto_def)

lemma count_goto:
  assumes "finite T" and "t \<in> T"
  shows "count_at T P (goto t p s) + (if place_of s t \<in> P then 1 else 0)
    = count_at T P s + (if p \<in> P then 1 else 0)"
proof -
  let ?R = "{u \<in> T. u \<noteq> t \<and> place_of s u \<in> P}"
  have split: "{u \<in> T. place_of v u \<in> P} = (if place_of v t \<in> P then insert t ?R else ?R)"
    if "\<And>u. u \<noteq> t \<Longrightarrow> place_of v u = place_of s u" for v
    using assms(2) that by auto metis+
  have "card (insert t ?R) = Suc (card ?R)" using assms(1) by (intro card_insert_disjoint) auto
  then show ?thesis
    unfolding count_at_def using split [of s] split [of "goto t p s"] by simp
qed

lemma count_mono: "finite T \<Longrightarrow> P \<subseteq> Q \<Longrightarrow> count_at T P s \<le> count_at T Q s"
  unfolding count_at_def by (rule card_mono) auto


lemma count_two:
  assumes "finite T" and "P \<inter> Q = {}"
  shows "count_at T (P \<union> Q) s = count_at T P s + count_at T Q s"
proof -
  have "{t \<in> T. place_of s t \<in> P \<union> Q} = {t \<in> T. place_of s t \<in> P} \<union> {t \<in> T. place_of s t \<in> Q}" by auto
  moreover have "{t \<in> T. place_of s t \<in> P} \<inter> {t \<in> T. place_of s t \<in> Q} = {}" using assms(2) by auto
  ultimately show ?thesis using assms(1) by (simp add: count_at_def card_Un_disjoint)
qed

lemma count_le: "finite T \<Longrightarrow> count_at T P s \<le> card T"
  unfolding count_at_def by (rule card_mono) auto

lemma count_pos: "finite T \<Longrightarrow> t \<in> T \<Longrightarrow> place_of s t \<in> P \<Longrightarrow> 0 < count_at T P s"
  unfolding count_at_def by (subst card_gt_0_iff) auto

lemma count_posE:
  assumes "0 < count_at T P s"
  obtains t where "t \<in> T" "place_of s t \<in> P"
proof -
  have "{t \<in> T. place_of s t \<in> P} \<noteq> {}" using assms by (metis card.empty count_at_def less_irrefl)
  then show thesis using that by blast
qed

lemma first_and_last: "finite T \<Longrightarrow> count_at T {FirstReader} s + count_at T {LastReader} s \<le> count_at T inside s"
  using count_two [of T "{FirstReader}" "{LastReader}" s] count_mono [of T "{FirstReader} \<union> {LastReader}" inside s]
  by (simp add: inside_def)

lemma count_word:
  assumes "n < 2 ^ 32"
  shows "(of_nat n :: i32) = 0 \<longleftrightarrow> n = 0" and "(of_nat n :: i32) = 1 \<longleftrightarrow> n = 1"
proof -
  have "unat (of_nat n :: i32) = n" using assms by (simp add: unat_of_nat take_bit_nat_eq_self)
  then show "(of_nat n :: i32) = 0 \<longleftrightarrow> n = 0" "(of_nat n :: i32) = 1 \<longleftrightarrow> n = 1"
    by (simp_all add: word_unat_eq_iff)
qed

lemmas place_sets = inside_def counted_def writers_def

text \<open>The five counts of the invariant after one token has gone from a known place to another.\<close>

lemma counts_after:
  assumes "finite T" "t \<in> T" "place_of s t = q"
  shows "count_at T inside (goto t p s) + (if q \<in> inside then 1 else 0) = count_at T inside s + (if p \<in> inside then 1 else 0)"
    and "count_at T counted (goto t p s) + (if q \<in> counted then 1 else 0) = count_at T counted s + (if p \<in> counted then 1 else 0)"
    and "count_at T writers (goto t p s) + (if q \<in> writers then 1 else 0) = count_at T writers s + (if p \<in> writers then 1 else 0)"
    and "count_at T {FirstReader} (goto t p s) + (if q = FirstReader then 1 else 0)
      = count_at T {FirstReader} s + (if p = FirstReader then 1 else 0)"
    and "count_at T {LastReader} (goto t p s) + (if q = LastReader then 1 else 0)
      = count_at T {LastReader} s + (if p = LastReader then 1 else 0)"
  using count_goto [OF assms(1,2), of inside p s] count_goto [OF assms(1,2), of counted p s]
    count_goto [OF assms(1,2), of writers p s] count_goto [OF assms(1,2), of "{FirstReader}" p s]
    count_goto [OF assms(1,2), of "{LastReader}" p s] assms(3) by simp_all

lemma inv_outside_step:
  assumes "finite T" "t \<in> T" "lock_inv T s" "place_of s t = Outside" "p \<in> {EnteringRead, EnteringWrite}"
  shows "lock_inv T (goto t p s)"
  using assms(3,5) counts_after [OF assms(1,2,4), where p = p] by (auto simp: lock_inv_def place_sets)

lemma inv_counts: 
  assumes "finite T" "lock_inv T s" "card T < 2 ^ 32"
  shows "count_at T counted s < 2 ^ 32" "count_at T {FirstReader} s + count_at T {LastReader} s \<le> 1"
  using count_le [OF assms(1), of counted s] first_and_last [OF assms(1), of s] assms(2,3)
  by (auto simp: lock_inv_def)


text \<open>A token that holds \<open>_readLock\<close> is alone in the code between its \<open>Wait\<close> and its \<open>Release\<close>.\<close>

lemma alone_inside:
  assumes "finite T" "t \<in> T" "lock_inv T s" "place_of s t \<in> inside" "P \<subseteq> inside" "place_of s t \<notin> P"
  shows "count_at T P s = 0"
proof -
  have "count_at T (P \<union> {place_of s t}) s = count_at T P s + count_at T {place_of s t} s"
    using assms by (intro count_two) auto
  moreover have "count_at T (P \<union> {place_of s t}) s \<le> count_at T inside s"
    using assms by (intro count_mono) auto
  moreover have "0 < count_at T {place_of s t} s" using assms count_pos by blast
  moreover have "count_at T inside s \<le> 1" using assms(3) by (auto simp: lock_inv_def)
  ultimately show ?thesis by linarith
qed

lemmas token_code = advance_def EnterReadLock_def ExitReadLock_def EnterWriteLock_def ExitWriteLock_def
  wait_read_def wait_write_def release_read_def release_write_def Let_def

lemma advance_inv:
  assumes fin: "finite T" "t \<in> T" and inv: "lock_inv T s" and small: "card T < 2 ^ 32"
    and busy: "place_of s t \<notin> {Outside, Reading, Writing}"
  shows "(\<exists>s'. advance t s = Moved s' \<and> lock_inv T s') \<or> advance t s = Waits"
proof -
  note c = counts_after [OF fin refl, where s = s] and k = inv_counts [OF fin(1) inv small]
  note pos = count_pos [OF fin, where s = s] and fl = first_and_last [OF fin(1), of s]
  have alone: "place_of s t \<in> inside - {FirstReader} \<Longrightarrow> count_at T {FirstReader} s = 0"
    "place_of s t \<in> inside - {LastReader} \<Longrightarrow> count_at T {LastReader} s = 0"
    by (rule alone_inside [OF fin inv]; auto simp: place_sets)+
  have e: "readerCount s = of_nat (count_at T counted s)" using inv by (simp add: lock_inv_def)
  have w: "readerCount s + 1 = 1 \<longleftrightarrow> count_at T counted s = 0" "readerCount s - 1 = 0 \<longleftrightarrow> count_at T counted s = 1"
    using count_word [OF k(1)] e by simp_all
  show ?thesis
  proof (cases "place_of s t")
    case EnteringRead
    then show ?thesis using inv c [where p = CountingIn] by (auto simp: token_code lock_inv_def place_sets)
  next
    case CountingIn
    show ?thesis
    proof (cases "count_at T counted s = 0")
      case True
      with CountingIn w have "advance t s = Moved (goto t FirstReader (s\<lparr>readerCount := readerCount s + 1\<rparr>))"
        by (simp add: token_code)
      with True show ?thesis using inv CountingIn alone fl c [where p = FirstReader]
        by (auto simp: lock_inv_def place_sets)
    next
      case False
      with CountingIn w have "advance t s = Moved (goto t LeavingEnter (s\<lparr>readerCount := readerCount s + 1\<rparr>))"
        by (simp add: token_code)
      with False show ?thesis using inv CountingIn alone fl c [where p = LeavingEnter]
        by (auto simp: lock_inv_def place_sets)
    qed
  next
    case FirstReader
    then show ?thesis using inv pos [where P = "{FirstReader}"] alone fl c [where p = LeavingEnter]
      by (auto simp: token_code lock_inv_def place_sets)
  next
    case LeavingEnter
    then show ?thesis using inv pos [where P = inside] c [where p = Reading] by (auto simp: token_code lock_inv_def place_sets)
  next
    case ExitingRead
    then show ?thesis using inv c [where p = CountingOut] by (auto simp: token_code lock_inv_def place_sets)
  next
    case CountingOut
    show ?thesis
    proof (cases "count_at T counted s = 1")
      case True
      with CountingOut w have "advance t s = Moved (goto t LastReader (s\<lparr>readerCount := readerCount s - 1\<rparr>))"
        by (simp add: token_code)
      with True show ?thesis
        using inv CountingOut alone pos [where P = counted] fl c [where p = LastReader]
        by (auto simp: lock_inv_def place_sets)
    next
      case False
      with CountingOut w have "advance t s = Moved (goto t LeavingExit (s\<lparr>readerCount := readerCount s - 1\<rparr>))"
        by (simp add: token_code)
      moreover have "count_at T counted s = Suc (count_at T counted (goto t LeavingExit s))"
        using c(2) [where p = LeavingExit] CountingOut by (simp add: counted_def)
      then have "readerCount s - 1 = of_nat (count_at T counted (goto t LeavingExit s))" using e by simp
      ultimately show ?thesis
        using False inv CountingOut alone pos [where P = counted] fl c [where p = LeavingExit]
        by (auto simp: lock_inv_def place_sets)
    qed
  next
    case LastReader
    then show ?thesis using inv pos [where P = "{LastReader}"] fl c [where p = LeavingExit]
      by (auto simp: token_code lock_inv_def place_sets)
  next
    case LeavingExit
    then show ?thesis using inv pos [where P = inside] c [where p = Outside] by (auto simp: token_code lock_inv_def place_sets)
  next
    case EnteringWrite
    then show ?thesis using inv c [where p = Writing] by (auto simp: token_code lock_inv_def place_sets)
  next
    case ExitingWrite
    then show ?thesis using inv pos [where P = writers] c [where p = Outside] by (auto simp: token_code lock_inv_def place_sets)
  qed (use busy in simp_all)
qed


lemma dispose_inv:
  assumes fin: "finite T" "t \<in> T" and inv: "lock_inv T s"
  shows "lock_inv T (Dispose t s)"
proof (cases "place_of s t")
  case Reading
  then show ?thesis using inv counts_after [OF fin Reading, of ExitingRead]
    by (auto simp: Dispose_def lock_inv_def place_sets)
next
  case Writing
  then show ?thesis using inv counts_after [OF fin Writing, of ExitingWrite]
    by (auto simp: Dispose_def lock_inv_def place_sets)
qed (use inv in \<open>simp_all add: Dispose_def\<close>)

lemma advance_idle: "place_of s t \<in> {Outside, Reading, Writing} \<Longrightarrow> advance t s = Waits"
  by (auto simp: token_code)

lemma reachable_inv:
  assumes "finite T" "card T < 2 ^ 32" "lock_reachable T s"
  shows "lock_inv T s"
  using assms(3)
proof induction
  case start
  show ?case by (simp add: lock_inv_def new_lock_def count_at_def place_sets)
next
  case (step s s')
  from step(2,3) show ?case
  proof cases
    case (enter_read t)
    then show ?thesis using step(3) inv_outside_step [OF assms(1), of t s EnteringRead] by simp
  next
    case (enter_write t)
    then show ?thesis using step(3) inv_outside_step [OF assms(1), of t s EnteringWrite] by simp
  next
    case (dispose t)
    then show ?thesis using step(3) dispose_inv [OF assms(1)] by simp
  next
    case (run_on t)
    then show ?thesis
      using advance_inv [OF assms(1) run_on(1) step(3) assms(2)] advance_idle [of s t] by fastforce
  qed
qed

section \<open>What the lock promises\<close>

text \<open>
  The abstract lock: who reads and who writes. A reader may come in when nobody writes, a writer when
  nobody reads or writes.
\<close>

record holders =
  reading :: "token set"
  writing :: "token set"

inductive may_change :: "holders \<Rightarrow> holders \<Rightarrow> bool" where
  unchanged: "may_change h h"
| begin_read: "writing h = {} \<Longrightarrow> may_change h (h\<lparr>reading := insert t (reading h)\<rparr>)"
| end_read: "may_change h (h\<lparr>reading := reading h - {t}\<rparr>)"
| begin_write: "writing h = {} \<Longrightarrow> reading h = {} \<Longrightarrow> may_change h (h\<lparr>writing := {t}\<rparr>)"
| end_write: "may_change h (h\<lparr>writing := writing h - {t}\<rparr>)"

definition holders_of :: "token set \<Rightarrow> rwlock \<Rightarrow> holders" where
  "holders_of T s = \<lparr>reading = {t \<in> T. place_of s t = Reading}, writing = {t \<in> T. place_of s t = Writing}\<rparr>"

lemma holders_fields [simp]:
  "holders_of T (s\<lparr>writeLock := n\<rparr>) = holders_of T s"
  "holders_of T (s\<lparr>readLock := n\<rparr>) = holders_of T s"
  "holders_of T (s\<lparr>readerCount := i\<rparr>) = holders_of T s"
  by (simp_all add: holders_of_def)

lemma holders_goto:
  assumes "t \<in> T"
  shows "holders_of T (goto t p s) =
    \<lparr>reading = (if p = Reading then insert t (reading (holders_of T s)) else reading (holders_of T s) - {t}),
     writing = (if p = Writing then insert t (writing (holders_of T s)) else writing (holders_of T s) - {t})\<rparr>"
  using assms by (auto simp: holders_of_def)

lemma holders_quiet:
  "t \<in> T \<Longrightarrow> place_of s t \<notin> {Reading, Writing} \<Longrightarrow> p \<notin> {Reading, Writing} \<Longrightarrow> holders_of T (goto t p s) = holders_of T s"
  by (auto simp: holders_of_def)

lemma none_there: "finite T \<Longrightarrow> count_at T P s = 0 \<Longrightarrow> t \<in> T \<Longrightarrow> place_of s t \<notin> P"
  using count_pos [of T t s P] by auto

lemma inv_no_writer:
  assumes "finite T" "lock_inv T s" "t \<in> T" "place_of s t \<in> counted - {FirstReader}"
  shows "writing (holders_of T s) = {}" "writeLock s = 0"
proof -
  have "count_at T ({FirstReader} \<union> {place_of s t}) s = count_at T {FirstReader} s + count_at T {place_of s t} s"
    using assms by (intro count_two) auto
  moreover have "count_at T ({FirstReader} \<union> {place_of s t}) s \<le> count_at T counted s"
    using assms by (intro count_mono) (auto simp: counted_def)
  moreover have "0 < count_at T {place_of s t} s" using assms count_pos by blast
  ultimately have "count_at T {FirstReader} s < count_at T counted s" by linarith
  then have "count_at T writers s = 0 \<and> writeLock s = 0" using assms(2) by (auto simp: lock_inv_def)
  then show "writing (holders_of T s) = {}" "writeLock s = 0"
    using none_there [OF assms(1), of writers s] by (auto simp: holders_of_def writers_def)
qed

lemma inv_writer_alone:
  assumes "finite T" "lock_inv T s" "0 < writeLock s"
  shows "reading (holders_of T s) = {}" "writing (holders_of T s) = {}"
proof -
  show "reading (holders_of T s) = {}"
    using inv_no_writer(2) [OF assms(1,2)] assms(3) by (force simp: holders_of_def counted_def)
  have "count_at T writers s = 0" using assms(2,3) by (auto simp: lock_inv_def)
  then show "writing (holders_of T s) = {}"
    using none_there [OF assms(1), of writers s] by (auto simp: holders_of_def writers_def)
qed

lemma advance_refines:
  assumes "finite T" "lock_inv T s" "t \<in> T" "advance t s = Moved s'"
  shows "may_change (holders_of T s) (holders_of T s')"
proof -
  have quiet: "may_change (holders_of T s) (holders_of T (goto t p s))"
    if "place_of s t \<notin> {Reading, Writing}" "p \<notin> {Reading, Writing}" for p
    using holders_quiet [OF assms(3) that] by (simp add: may_change.unchanged)
  have away: "t \<notin> reading (holders_of T s)" "t \<notin> writing (holders_of T s)"
    if "place_of s t \<notin> {Reading, Writing}"
    using that by (auto simp: holders_of_def)
  show ?thesis
  proof (cases "place_of s t")
    case LeavingEnter
    then have "holders_of T s' = (holders_of T s)\<lparr>reading := insert t (reading (holders_of T s))\<rparr>"
      using assms(4) away holders_goto [OF assms(3), of Reading s]
      by (auto simp: token_code split: if_splits)
    moreover have "writing (holders_of T s) = {}"
      using inv_no_writer(1) [OF assms(1,2,3)] LeavingEnter by (simp add: counted_def)
    ultimately show ?thesis by (simp add: may_change.begin_read)
  next
    case EnteringWrite
    then have pos: "0 < writeLock s" and s': "s' = (goto t Writing s)\<lparr>writeLock := writeLock s - 1\<rparr>"
      using assms(4) by (auto simp: token_code split: if_splits)
    note none = inv_writer_alone [OF assms(1,2) pos]
    have "holders_of T s' = (holders_of T s)\<lparr>writing := {t}\<rparr>"
      using none holders_goto [OF assms(3), of Writing s] by (simp add: s')
    then show ?thesis using none by (simp add: may_change.begin_write)
  qed (use assms(4) quiet in \<open>auto simp: token_code split: if_splits\<close>)
qed

lemma lock_step_refines:
  assumes "finite T" "lock_inv T s" "lock_step T s s'"
  shows "may_change (holders_of T s) (holders_of T s')"
  using assms(3)
proof cases
  case (enter_read t)
  then show ?thesis using holders_quiet [of t T s EnteringRead] by (simp add: may_change.unchanged)
next
  case (enter_write t)
  then show ?thesis using holders_quiet [of t T s EnteringWrite] by (simp add: may_change.unchanged)
next
  case (dispose t)
  have "holders_of T s' = holders_of T s \<or>
      holders_of T s' = (holders_of T s)\<lparr>reading := reading (holders_of T s) - {t}\<rparr> \<or>
      holders_of T s' = (holders_of T s)\<lparr>writing := writing (holders_of T s) - {t}\<rparr>"
    using dispose by (cases "place_of s t") (auto simp: Dispose_def holders_of_def)
  then show ?thesis by (metis may_change.unchanged may_change.end_read may_change.end_write)
next
  case (run_on t)
  then show ?thesis using advance_refines [OF assms(1,2)] by blast
qed

definition exclusive :: "holders \<Rightarrow> bool" where
  "exclusive h \<longleftrightarrow> writing h = {} \<or> (\<exists>t. writing h = {t} \<and> reading h = {})"

lemma may_change_exclusive: "may_change h h' \<Longrightarrow> exclusive h \<Longrightarrow> exclusive h'"
  by (induction rule: may_change.induct) (auto simp: exclusive_def)

lemma reachable_exclusive:
  assumes "finite T" "card T < 2 ^ 32" "lock_reachable T s"
  shows "exclusive (holders_of T s)"
  using assms(3)
proof induction
  case start
  show ?case by (simp add: exclusive_def holders_of_def new_lock_def)
next
  case (step s s')
  then show ?case
    using lock_step_refines [OF assms(1) reachable_inv [OF assms(1,2)]] may_change_exclusive by blast
qed

section \<open>The calls end\<close>

definition steps_left :: "place \<Rightarrow> nat" where
  "steps_left p = (case p of
     EnteringRead \<Rightarrow> 4 | CountingIn \<Rightarrow> 3 | FirstReader \<Rightarrow> 2 | LeavingEnter \<Rightarrow> 1
   | ExitingRead \<Rightarrow> 4 | CountingOut \<Rightarrow> 3 | LastReader \<Rightarrow> 2 | LeavingExit \<Rightarrow> 1
   | EnteringWrite \<Rightarrow> 1 | ExitingWrite \<Rightarrow> 1 | _ \<Rightarrow> 0)"

definition pending :: "token set \<Rightarrow> rwlock \<Rightarrow> nat" where
  "pending T s = (\<Sum>t\<in>T. steps_left (place_of s t))"

lemma advance_pending:
  assumes "finite T" "t \<in> T" "advance t s = Moved s'"
  shows "pending T s' < pending T s"
proof -
  obtain p where p: "place_of s' = (place_of s)(t := p)" "steps_left p < steps_left (place_of s t)"
    using assms(3) by (cases "place_of s t") (auto simp: token_code steps_left_def split: if_splits)
  have "pending T s' = steps_left p + (\<Sum>u\<in>T - {t}. steps_left (place_of s u))"
    using sum.remove [OF assms(1,2), of "\<lambda>u. steps_left (place_of s' u)"] p(1) by (simp add: pending_def)
  moreover have "pending T s = steps_left (place_of s t) + (\<Sum>u\<in>T - {t}. steps_left (place_of s u))"
    using sum.remove [OF assms(1,2)] by (simp add: pending_def)
  ultimately show ?thesis using p(2) by linarith
qed

text \<open>Whoever is ahead in the code: the places from which a token can always go on.\<close>

lemma can_go_on:
  assumes "finite T" "lock_inv T s" "t \<in> T"
  shows "place_of s t \<in> inside - {FirstReader} \<Longrightarrow> \<exists>s'. advance t s = Moved s'"
    and "place_of s t = ExitingWrite \<Longrightarrow> \<exists>s'. advance t s = Moved s'"
    and "place_of s t \<in> {EnteringRead, ExitingRead} \<Longrightarrow> 0 < readLock s \<Longrightarrow> \<exists>s'. advance t s = Moved s'"
proof -
  have "readLock s = 0" if "place_of s t \<in> inside"
    using count_pos [OF assms(1,3) that] assms(2) by (simp add: lock_inv_def)
  moreover have "writeLock s = 0" if "place_of s t \<in> {LastReader, ExitingWrite}"
  proof -
    have "0 < count_at T {LastReader} s \<or> 0 < count_at T writers s"
      using count_pos [OF assms(1,3), of s "{LastReader}"] count_pos [OF assms(1,3), of s writers] that
      by (auto simp: writers_def)
    then show ?thesis using assms(2) by (auto simp: lock_inv_def split: if_splits)
  qed
  ultimately show "place_of s t \<in> inside - {FirstReader} \<Longrightarrow> \<exists>s'. advance t s = Moved s'"
    and "place_of s t = ExitingWrite \<Longrightarrow> \<exists>s'. advance t s = Moved s'"
    and "place_of s t \<in> {EnteringRead, ExitingRead} \<Longrightarrow> 0 < readLock s \<Longrightarrow> \<exists>s'. advance t s = Moved s'"
    by (auto simp: token_code inside_def)
qed

text \<open>When \<open>_writeLock\<close> is taken and nobody holds the lock, somebody is about to give it back.\<close>

lemma write_lock_comes_back:
  assumes fin: "finite T" and inv: "lock_inv T s" and taken: "writeLock s = 0"
    and nobody: "\<And>u. u \<in> T \<Longrightarrow> place_of s u \<notin> {Reading, Writing}"
    and free: "0 < readLock s \<or> 0 < count_at T {FirstReader} s"
  shows "\<exists>u\<in>T. \<exists>s'. advance u s = Moved s'"
proof (cases "0 < count_at T writers s")
  case True
  then obtain u where "u \<in> T" "place_of s u \<in> writers" by (rule count_posE)
  with nobody have "place_of s u = ExitingWrite" by (auto simp: writers_def)
  then show ?thesis using can_go_on(2) [OF fin inv \<open>u \<in> T\<close>] \<open>u \<in> T\<close> by blast
next
  case False
  with inv taken have held: "count_at T {FirstReader} s < count_at T counted s \<or> 0 < count_at T {LastReader} s"
    by (auto simp: lock_inv_def split: if_splits)
  show ?thesis
  proof (cases "0 < count_at T {LastReader} s")
    case True
    then obtain u where "u \<in> T" "place_of s u = LastReader" by (auto elim: count_posE)
    then show ?thesis using can_go_on(1) [OF fin inv \<open>u \<in> T\<close>] by (auto simp: inside_def)
  next
    case False
    with held inv free have pos: "0 < readLock s" "0 < count_at T counted s" by (auto simp: lock_inv_def)
    then have none: "count_at T inside s = 0" using inv by (simp add: lock_inv_def)
    from pos(2) obtain u where u: "u \<in> T" "place_of s u \<in> counted" by (rule count_posE)
    have "place_of s u \<notin> inside" using none_there [OF fin none u(1)] .
    with u nobody have "place_of s u = ExitingRead" by (auto simp: counted_def inside_def)
    then show ?thesis using can_go_on(3) [OF fin inv u(1)] pos(1) u(1) by blast
  qed
qed

lemma someone_goes_on:
  assumes fin: "finite T" and inv: "lock_inv T s" and t: "t \<in> T" "place_of s t \<noteq> Outside"
    and nobody: "\<And>u. u \<in> T \<Longrightarrow> place_of s u \<notin> {Reading, Writing}"
  shows "\<exists>u\<in>T. \<exists>s'. advance u s = Moved s'"
proof (cases "0 < readLock s")
  case True
  then have "count_at T inside s = 0" using inv by (simp add: lock_inv_def)
  then have "place_of s t \<notin> inside" using none_there [OF fin _ t(1)] by blast
  then consider "place_of s t \<in> {EnteringRead, ExitingRead, ExitingWrite}" | "place_of s t = EnteringWrite"
    using t(2) nobody [OF t(1)] by (cases "place_of s t") (auto simp: inside_def)
  then show ?thesis
  proof cases
    case 1
    then show ?thesis using can_go_on(2,3) [OF fin inv t(1)] True t(1) by blast
  next
    case 2
    show ?thesis
    proof (cases "writeLock s")
      case 0
      then show ?thesis using write_lock_comes_back [OF fin inv _ nobody] True by blast
    next
      case (Suc n)
      with 2 show ?thesis using t(1) by (auto simp: token_code)
    qed
  qed
next
  case False
  then have "0 < count_at T inside s" using inv by (simp add: lock_inv_def)
  then obtain u where u: "u \<in> T" "place_of s u \<in> inside" by (rule count_posE)
  show ?thesis
  proof (cases "place_of s u = FirstReader \<and> writeLock s = 0")
    case True
    then have "0 < count_at T {FirstReader} s" using count_pos [OF fin u(1)] by simp
    then show ?thesis using write_lock_comes_back [OF fin inv _ nobody] True by auto
  next
    case False
    then have "\<exists>s'. advance u s = Moved s'"
      using u(2) can_go_on(1) [OF fin inv u(1)] by (cases "place_of s u = FirstReader") (auto simp: token_code)
    then show ?thesis using u(1) by blast
  qed
qed

section \<open>Properties\<close>

text \<open>
  C5: Every step that any number of threads (fewer than \<open>2 ^ 32\<close> tokens) can take is a step of the
  abstract lock or changes nothing of it: a reader comes in only while nobody writes, a writer only
  while nobody reads or writes.
\<close>

theorem lock_refines_holders:
  assumes "finite T" and "card T < 2 ^ 32" and "lock_reachable T s" and "lock_step T s s'"
  shows "may_change (holders_of T s) (holders_of T s')"
  using lock_step_refines [OF assms(1) reachable_inv [OF assms(1-3)] assms(4)] .

text \<open>A token that reads, and the first step of a writer that comes then.\<close>

definition read_trace :: "rwlock list" where
  "read_trace =
     (let s1 = goto 1 EnteringRead new_lock; s2 = goto 1 CountingIn (s1\<lparr>readLock := 0\<rparr>);
          s3 = goto 1 FirstReader (s2\<lparr>readerCount := 1\<rparr>); s4 = goto 1 LeavingEnter (s3\<lparr>writeLock := 0\<rparr>);
          s5 = goto 1 Reading (s4\<lparr>readLock := 1\<rparr>)
      in [s1, s2, s3, s4, s5])"

lemma read_trace_reachable:
  "lock_reachable {1, 2} (read_trace ! 3)" "lock_step {1, 2} (read_trace ! 3) (read_trace ! 4)"
  "lock_reachable {1, 2} (read_trace ! 4)"
proof -
  have e: "lock_step {1, 2} new_lock (read_trace ! 0)"
    unfolding read_trace_def Let_def by (simp add: lock_step.enter_read new_lock_def)
  have m: "lock_step {1, 2} (read_trace ! i) (read_trace ! Suc i)" if "i < 4" for i
  proof (rule lock_step.run_on [where t = 1])
    have "i = 0 \<or> i = 1 \<or> i = 2 \<or> i = 3" using that by auto
    then show "advance 1 (read_trace ! i) = Moved (read_trace ! Suc i)"
      by (auto simp: read_trace_def Let_def token_code new_lock_def goto_def)
  qed simp
  have r: "lock_reachable {1, 2} (read_trace ! i)" if "i \<le> 4" for i
    using that by (induction i) (use e m lock_reachable.intros in \<open>auto intro: lock_reachable.intros\<close>)
  show "lock_reachable {1, 2} (read_trace ! 3)" "lock_step {1, 2} (read_trace ! 3) (read_trace ! 4)"
    "lock_reachable {1, 2} (read_trace ! 4)"
    using r m [of 3] by auto
qed

lemma lock_refines_holders_witness:
  "may_change (holders_of {1, 2} (read_trace ! 3)) (holders_of {1, 2} (read_trace ! 4))"
  by (rule lock_refines_holders [OF _ _ read_trace_reachable(1,2)]) simp_all

text \<open>
  C13: Whatever the threads do, a token that writes is alone: no other token reads or writes. And no
  semaphore is ever released beyond its maximum.
\<close>

theorem writer_excludes_others:
  assumes "finite T" and "card T < 2 ^ 32" and "lock_reachable T s" and "t \<in> T"
  shows "(place_of s t = Writing \<longrightarrow> (\<forall>u \<in> T - {t}. place_of s u \<notin> {Reading, Writing})) \<and>
    advance t s \<noteq> SemaphoreFullException"
proof
  have "exclusive (holders_of T s)" by (rule reachable_exclusive [OF assms(1-3)])
  moreover have "t \<in> writing (holders_of T s)" if "place_of s t = Writing"
    using that assms(4) by (simp add: holders_of_def)
  ultimately have "writing (holders_of T s) = {t} \<and> reading (holders_of T s) = {}" if "place_of s t = Writing"
    using that by (auto simp: exclusive_def)
  then show "place_of s t = Writing \<longrightarrow> (\<forall>u \<in> T - {t}. place_of s u \<notin> {Reading, Writing})"
    by (auto simp: holders_of_def)
  show "advance t s \<noteq> SemaphoreFullException"
    using advance_inv [OF assms(1,4) reachable_inv [OF assms(1-3)] assms(2)] advance_idle [of s t] by fastforce
qed

lemma writer_excludes_others_witness:
  "\<exists>s. lock_reachable {1, 2} s \<and> place_of s 2 = Writing \<and> place_of s 1 \<notin> {Reading, Writing}"
proof -
  let ?e = "goto 2 EnteringWrite new_lock" and ?w = "(goto 2 Writing new_lock)\<lparr>writeLock := 0\<rparr>"
  have "lock_reachable {1, 2} ?e"
    by (rule lock_reachable.step [OF lock_reachable.start lock_step.enter_write]) (simp_all add: new_lock_def)
  moreover have "advance 2 ?e = Moved ?w" by (simp add: token_code new_lock_def goto_def)
  ultimately have r: "lock_reachable {1, 2} ?w" by (meson insertI1 insertI2 lock_reachable.step lock_step.run_on)
  then show ?thesis using writer_excludes_others [OF _ _ r, of 2] by auto
qed

text \<open>
  C14: The lock does not deadlock: as long as nobody holds it, some call that is under way can go on. Every
  step of a call brings it nearer to its end, so without new calls all of them return or hold the lock
  after finitely many steps.
\<close>

theorem lock_calls_go_on:
  assumes "finite T" and "card T < 2 ^ 32" and "lock_reachable T s" and "t \<in> T" and "place_of s t \<noteq> Outside"
    and "\<forall>u \<in> T. place_of s u \<notin> {Reading, Writing}"
  shows "(\<exists>u \<in> T. \<exists>s'. advance u s = Moved s') \<and>
    (\<forall>u \<in> T. \<forall>s'. advance u s = Moved s' \<longrightarrow> pending T s' < pending T s)"
  using someone_goes_on [OF assms(1) reachable_inv [OF assms(1-3)] assms(4,5)] assms(6)
    advance_pending [OF assms(1)] by blast

lemma lock_calls_go_on_witness: "\<exists>u \<in> {1, 2}. \<exists>s'. advance u (read_trace ! 3) = Moved s'"
proof -
  have "place_of (read_trace ! 3) 1 \<noteq> Outside \<and> (\<forall>u \<in> {1, 2}. place_of (read_trace ! 3) u \<notin> {Reading, Writing})"
    by (simp add: read_trace_def new_lock_def Let_def)
  then show ?thesis using lock_calls_go_on [OF _ _ read_trace_reachable(1), of 1] by auto
qed

end
