(* ===== verification/Server.thy ===== *)
theory Server
  imports VotingManager
begin

text \<open>
  \<open>core/Server/VotingServer.cs\<close> with \<open>AuthenticationServer.cs\<close>, \<open>User.TryAddClient\<close> and
  \<open>AuthenticationClient.cs\<close>: the frames a client may send, the login by challenge and response, the
  events the server raises, and what \<open>VotingManager\<close> makes of them.

  A frame is handled on some thread \<open>t\<close> until it ends or awaits. The only wait that depends on other
  frames is the one for \<open>UserAuthenticationResult\<close>: the handler of \<open>AUTH\<close> then stays in
  \<open>waiting\<close> with its token until the response arrives. \<open>sign\<close> stands for the text that
  \<open>ComputeHmacSignature\<close> makes of key and token with the library's HMAC-SHA256 and Base64; the token of
  a frame, drawn by \<open>RandomNumberGenerator\<close>, is an argument.
\<close>

datatype server_exn = Net net_exn | LockRecursion | NeverReturns

datatype server_event =
    OnClientConnected client
  | OnClientDisconnected client
  | OnClientHandshakeCompleted client
  | OnClientJoined client
  | OnClientAuthorized client user
  | OnClientUnauthorized client user
  | OnClientUserChange client user user
  | OnClientAuthorizeFailed client cs_string
  | OnOperationReceived client Operation
  | OnServerErrorEncountered client server_exn
  | OnUserDeleted user

record server =
  mgr :: manager
  templates :: "OperationType list"
  AnonymousUser :: user
  directory :: "cs_string \<Rightarrow> user option"
  NameOf :: "user \<Rightarrow> cs_string"
  ApiKey :: "user \<Rightarrow> cs_string"
  SessionsLimit :: "user \<Rightarrow> i32 option"
  UserAuthenticationResult :: "client \<Rightarrow> u8 list option"
  waiting :: "client \<Rightarrow> cs_string list"
  Initialized :: "client \<Rightarrow> bool"
  sent :: "(client \<times> u8 list) list"
  raised :: "server_event list"

type_synonym 'a action = "(server, server_exn, 'a) comp"
type_synonym signer = "cs_string \<Rightarrow> cs_string \<Rightarrow> cs_string"

section \<open>Messages\<close>

definition handshake_message :: "OperationType list \<Rightarrow> u8 list" where
  "handshake_message tps =
     WriteString (utf8_lit ''INIT'') @ WriteString (utf8_lit ''VOTE-2.3'') @ WriteInt32 (of_nat (length tps)) @
     concat (map (\<lambda>tp. WriteInt32 (of_nat (length (Instructions tp))) @ Instructions tp @ WriteInt64 (Id tp)) tps)"

definition challenge_message :: "cs_string \<Rightarrow> u8 list" where
  "challenge_message token = WriteString (utf8_lit ''AUTH'') @ WriteString token"

definition result_message :: "bool \<Rightarrow> string \<Rightarrow> u8 list" where
  "result_message success reason =
     WriteString (utf8_lit ''AUTH_RES'') @ WriteBoolean success @ WriteString (utf8_lit reason)"

definition multiplier_message :: "i32 \<Rightarrow> u8 list" where
  "multiplier_message m = WriteString (utf8_lit ''UPD'') @ WriteString (utf8_lit ''MUL'') @ Write7BitEncodedInt m"

section \<open>Sending and raising\<close>

definition SendDirect :: "client \<Rightarrow> u8 list \<Rightarrow> unit action" where
  "SendDirect c bytes = upd (\<lambda>s. s\<lparr>sent := sent s @ [(c, bytes)]\<rparr>)"

definition raise_event :: "server_event \<Rightarrow> unit action" where
  "raise_event e = upd (\<lambda>s. s\<lparr>raised := raised s @ [e]\<rparr>)"

text \<open>A handler of \<open>VotingManager\<close>: its exception comes back to the frame that raised the event.\<close>

definition on_manager :: "(manager \<Rightarrow> manager run) \<Rightarrow> unit action" where
  "on_manager handler s =
     (case handler (mgr s) of
        Done m \<Rightarrow> (Inr (), s\<lparr>mgr := m\<rparr>)
      | LockRecursionException m \<Rightarrow> (Inl LockRecursion, s\<lparr>mgr := m\<rparr>)
      | Blocked \<Rightarrow> (Inl NeverReturns, s))"

definition raise_user_change :: "thread \<Rightarrow> client \<Rightarrow> user \<Rightarrow> user \<Rightarrow> unit action" where
  "raise_user_change t c oldUser newUser =
     thn (raise_event (OnClientUserChange c oldUser newUser)) (on_manager (HandleClientUserChange t c oldUser newUser))"

section \<open>Authentication\<close>

text \<open>\<open>ConnectedClients.Count + 1 > sessionsLimit\<close> is false when there is no limit.\<close>

definition has_room :: "user \<Rightarrow> server \<Rightarrow> bool" where
  "has_room u s =
     (case SessionsLimit s u of None \<Rightarrow> True
      | Some limit \<Rightarrow> \<not> int (length (ConnectedClients (mgr s) u)) + 1 > sint limit)"

definition set_user :: "client \<Rightarrow> user \<Rightarrow> server \<Rightarrow> server" where
  "set_user c u s = s\<lparr>mgr := set_ClientUser c u (mgr s)\<rparr>"

definition TryAddClient :: "user \<Rightarrow> client \<Rightarrow> server \<Rightarrow> bool \<times> server" where
  "TryAddClient u c s =
     (if ClientUser (mgr s) c = u then (True, s)
      else if has_room u s then (True, set_user c u s)
      else (False, s))"

text \<open>The response is a user name and a signature; what is malformed is a protocol violation.\<close>

definition parse_response :: "u8 list \<Rightarrow> net_exn + (cs_string \<times> cs_string)" where
  "parse_response response =
     (case rbind (ReadString response) (\<lambda>(username, r). rbind (ReadString r) (\<lambda>(sg, _). Inr (username, sg))) of
        Inl e \<Rightarrow> Inl (if e = EndOfStreamException \<or> e = IOException then ProtocolViolationException else e)
      | Inr p \<Rightarrow> Inr p)"

text \<open>
  \<open>AuthenticateClientAsync\<close> from the response on. The result is the name it returns, and what the
  caller's \<open>onUserReceived\<close> has been told: the requested name and the user looked up.
\<close>

type_synonym login = "cs_string option \<times> cs_string \<times> user option"

definition sendResult :: "client \<Rightarrow> bool \<Rightarrow> string \<Rightarrow> login \<Rightarrow> login action" where
  "sendResult c success reason x = thn (SendDirect c (result_message success reason)) (ret x)"

definition AuthenticateClient :: "signer \<Rightarrow> client \<Rightarrow> cs_string \<Rightarrow> u8 list \<Rightarrow> login action" where
  "AuthenticateClient sign c token response =
     (if response = [] then ret (None, [], None)
      else bnd (ask (\<lambda>_. case parse_response response of Inl e \<Rightarrow> Inl (Net e) | Inr p \<Rightarrow> Inr p)) (\<lambda>(username, sg) s.
        case directory s username of
          None \<Rightarrow> sendResult c False ''User does not exist.'' (None, username, None) s
        | Some u \<Rightarrow>
            if sg = sign (ApiKey s u) token then
              case TryAddClient u c s of (added, s') \<Rightarrow>
                if added then sendResult c True ''Success.'' (Some username, username, Some u) s'
                else sendResult c False ''Sessions limit exceed.'' (None, username, Some u) s'
            else sendResult c False ''Password is incorrect.'' (None, username, Some u) s))"

text \<open>The case \<open>AUTH\<close> from the response on: the code tests the user it looked up, not the result.\<close>

definition announce_login :: "thread \<Rightarrow> client \<Rightarrow> login \<Rightarrow> unit action" where
  "announce_login t c login s =
     (case login of (username, requestedUsername, user) \<Rightarrow>
       case user of
         None \<Rightarrow> raise_event (OnClientAuthorizeFailed c requestedUsername) s
       | Some u \<Rightarrow>
           thn (if VoteMultiplier (mgr s) u \<noteq> 1 then SendDirect c (multiplier_message (VoteMultiplier (mgr s) u))
                else ret ())
             (thn (raise_event (OnClientAuthorized c u)) (raise_user_change t c (AnonymousUser s) u)) s)"

definition finish_authentication :: "signer \<Rightarrow> thread \<Rightarrow> client \<Rightarrow> cs_string \<Rightarrow> u8 list \<Rightarrow> unit action" where
  "finish_authentication sign t c token response =
     bnd (AuthenticateClient sign c token response) (announce_login t c)"

text \<open>The handler around every frame: an exception is raised as an event.\<close>

definition guarded :: "client \<Rightarrow> unit action \<Rightarrow> server \<Rightarrow> server" where
  "guarded c act s =
     (case act s of
        (Inr _, s') \<Rightarrow> s'
      | (Inl e, s') \<Rightarrow>
          if e = NeverReturns then s' else s'\<lparr>raised := raised s' @ [OnServerErrorEncountered c e]\<rparr>)"

fun resume :: "signer \<Rightarrow> thread \<Rightarrow> client \<Rightarrow> u8 list \<Rightarrow> cs_string list \<Rightarrow> server \<Rightarrow> server" where
  "resume sign t c response [] s = s"
| "resume sign t c response (token # tokens) s =
     resume sign t c response tokens (guarded c (finish_authentication sign t c token response) s)"

section \<open>Frames\<close>

definition initialize_frame :: "client \<Rightarrow> unit action" where
  "initialize_frame c = (\<lambda>s.
     thn (SendDirect c (handshake_message (templates s)))
       (thn (raise_event (OnClientHandshakeCompleted c))
         (let multiplier = VoteMultiplier (mgr s) (AnonymousUser s)
          in if multiplier \<noteq> 1 then SendDirect c (multiplier_message multiplier) else ret ())) s)"

definition register_frame :: "client \<Rightarrow> unit action" where
  "register_frame c =
     thn (upd (\<lambda>s. s\<lparr>Initialized := (Initialized s)(c := True)\<rparr>)) (raise_event (OnClientJoined c))"

definition authenticate_frame :: "signer \<Rightarrow> thread \<Rightarrow> cs_string \<Rightarrow> client \<Rightarrow> unit action" where
  "authenticate_frame sign t token c =
     thn (SendDirect c (challenge_message token)) (\<lambda>s.
       case UserAuthenticationResult s c of
         Some response \<Rightarrow> finish_authentication sign t c token response s
       | None \<Rightarrow> upd (\<lambda>s. s\<lparr>waiting := (waiting s)(c := waiting s c @ [token])\<rparr>) s)"

text \<open>\<open>TrySetResult\<close>: the first response counts, and everything that waits for it goes on.\<close>

definition set_response :: "signer \<Rightarrow> thread \<Rightarrow> client \<Rightarrow> u8 list \<Rightarrow> server \<Rightarrow> server" where
  "set_response sign t c response s =
     (case UserAuthenticationResult s c of
        Some _ \<Rightarrow> s
      | None \<Rightarrow> resume sign t c response (waiting s c)
          (s\<lparr>UserAuthenticationResult := (UserAuthenticationResult s)(c \<mapsto> response),
             waiting := (waiting s)(c := [])\<rparr>))"

definition response_frame :: "signer \<Rightarrow> thread \<Rightarrow> client \<Rightarrow> u8 list \<Rightarrow> unit action" where
  "response_frame sign t c bs =
     bnd (ask (\<lambda>_. case rbind (Read7BitEncodedInt bs) (\<lambda>(n, r). ReadBytes n r) of
                     Inl e \<Rightarrow> Inl (Net e) | Inr p \<Rightarrow> Inr p))
       (\<lambda>(response, _). upd (set_response sign t c response))"

definition operation_frame :: "thread \<Rightarrow> client \<Rightarrow> u8 list \<Rightarrow> unit action" where
  "operation_frame t c bs =
     bnd (ask (\<lambda>s. case Deserialize (templates s) bs of Inl e \<Rightarrow> Inl (Net e) | Inr p \<Rightarrow> Inr p))
       (\<lambda>(opn, _). case opn of None \<Rightarrow> ret ()
         | Some opn \<Rightarrow> thn (raise_event (OnOperationReceived c opn)) (on_manager (HandleOperationReceived t c opn)))"

definition ProcessIncomingFrame :: "signer \<Rightarrow> thread \<Rightarrow> cs_string \<Rightarrow> client \<Rightarrow> u8 list \<Rightarrow> unit action" where
  "ProcessIncomingFrame sign t token c packet =
     bnd (ask (\<lambda>_. case ReadBoolean packet of Inl e \<Rightarrow> Inl (Net e) | Inr p \<Rightarrow> Inr p)) (\<lambda>(isCommand, r).
       if isCommand then
         bnd (ask (\<lambda>_. case ReadString r of Inl e \<Rightarrow> Inl (Net e) | Inr p \<Rightarrow> Inr p)) (\<lambda>(cmd, r').
           if cmd = utf8_lit ''INIT'' then initialize_frame c
           else if cmd = utf8_lit ''REG'' then register_frame c
           else if cmd = utf8_lit ''AUTH'' then authenticate_frame sign t token c
           else if cmd = utf8_lit ''AUTH_RES'' then response_frame sign t c r'
           else ret ())
       else operation_frame t c r)"

definition data_received :: "signer \<Rightarrow> thread \<Rightarrow> cs_string \<Rightarrow> client \<Rightarrow> u8 list \<Rightarrow> server \<Rightarrow> server" where
  "data_received sign t token c packet = guarded c (ProcessIncomingFrame sign t token c packet)"

section \<open>Connections and users\<close>

definition client_connected :: "client \<Rightarrow> server \<Rightarrow> server" where
  "client_connected c s =
     s\<lparr>mgr := channel_connected c (mgr s), raised := raised s @ [OnClientConnected c]\<rparr>"

text \<open>
  The handler of \<open>OnClientDisconnected\<close> only starts a thread; \<open>votes_cleared\<close> is what this thread does later.
\<close>

definition server_client_disconnected :: "client \<Rightarrow> unit action" where
  "server_client_disconnected c =
     thn (upd (\<lambda>s. s\<lparr>mgr := channel_disconnected c (mgr s)\<rparr>)) (raise_event (OnClientDisconnected c))"

definition votes_cleared :: "thread \<Rightarrow> client \<Rightarrow> unit action" where
  "votes_cleared t c = on_manager (HandleClientDisconnected t c)"

text \<open>The operator may change a limit; nobody is disconnected by that.\<close>

definition SetSessionsLimit :: "user \<Rightarrow> i32 option \<Rightarrow> server \<Rightarrow> server" where
  "SetSessionsLimit u limit s = s\<lparr>SessionsLimit := (SessionsLimit s)(u := limit)\<rparr>"

text \<open>
  \<open>HandleUserDeleted\<close>. \<open>clients\<close> is a lazy query over the user's connected clients that changes the
  user of each client it yields, so each of the two loops runs the query anew.
\<close>

definition account_message :: "cs_string option \<Rightarrow> i32 option \<Rightarrow> u8 list" where
  "account_message name multiplier =
     WriteString (utf8_lit ''UPD'') @ WriteString (utf8_lit ''ACO'') @
     (case name of None \<Rightarrow> WriteBoolean False | Some n \<Rightarrow> WriteBoolean True @ WriteString n) @
     (case multiplier of None \<Rightarrow> [] | Some m \<Rightarrow> Write7BitEncodedInt m)"

fun unauthorize_clients :: "user \<Rightarrow> client list \<Rightarrow> unit action" where
  "unauthorize_clients anonymous [] = ret ()"
| "unauthorize_clients anonymous (c # cs) =
     thn (upd (set_user c anonymous)) (thn (SendDirect c (account_message None None)) (unauthorize_clients anonymous cs))"

fun announce_clients :: "thread \<Rightarrow> user \<Rightarrow> user \<Rightarrow> client list \<Rightarrow> unit action" where
  "announce_clients t u anonymous [] = ret ()"
| "announce_clients t u anonymous (c # cs) =
     thn (upd (set_user c anonymous)) (thn (raise_event (OnClientUnauthorized c u))
       (thn (raise_user_change t c u anonymous) (announce_clients t u anonymous cs)))"

definition user_deleted :: "thread \<Rightarrow> user \<Rightarrow> unit action" where
  "user_deleted t u =
     thn (\<lambda>s. unauthorize_clients (AnonymousUser s) (ConnectedClients (mgr s) u) s)
       (thn (raise_event (OnUserDeleted u))
         (thn (on_manager (HandleUserDeleted t))
           (\<lambda>s. announce_clients t u (AnonymousUser s) (ConnectedClients (mgr s) u) s)))"

definition ExchangeUser :: "thread \<Rightarrow> client \<Rightarrow> user \<Rightarrow> user action" where
  "ExchangeUser t c u = (\<lambda>s.
     bnd (ret (ClientUser (mgr s) c)) (\<lambda>old.
       thn (if ClientUser (mgr s) c = u then ret () else upd (set_user c u))
         (thn (raise_user_change t c u (AnonymousUser s))
           (thn (SendDirect c (account_message (if u = AnonymousUser s then None else Some (NameOf s u))
                   (Some (VoteMultiplier (mgr s) u))))
             (ret old)))) s)"


section \<open>What an action leaves alone\<close>

text \<open>
  \<open>calm\<close>: an action that changes no client's user; it may send, raise events and count votes.
  \<open>grows\<close> is the same without the promise about the clients' users.
\<close>

definition grows :: "server \<Rightarrow> server \<Rightarrow> bool" where
  "grows s s' \<longleftrightarrow> templates s' = templates s \<and> AnonymousUser s' = AnonymousUser s \<and> directory s' = directory s \<and>
     ApiKey s' = ApiKey s \<and> SessionsLimit s' = SessionsLimit s \<and> NameOf s' = NameOf s \<and>
     UserAuthenticationResult s' = UserAuthenticationResult s \<and> waiting s' = waiting s \<and> set (sent s) \<subseteq> set (sent s')"

definition calm :: "server \<Rightarrow> server \<Rightarrow> bool" where
  "calm s s' \<longleftrightarrow> grows s s' \<and> ClientUser (mgr s') = ClientUser (mgr s) \<and> ConnectedClients (mgr s') = ConnectedClients (mgr s)"

definition calm_action :: "'a action \<Rightarrow> bool" where
  "calm_action act \<longleftrightarrow> (\<forall>s. calm s (snd (act s)))"

lemma grows_refl [simp]: "grows s s" and calm_refl [simp]: "calm s s"
  by (simp_all add: grows_def calm_def)

lemma grows_trans: "grows s s' \<Longrightarrow> grows s' s'' \<Longrightarrow> grows s s''"
  by (auto simp: grows_def)

lemma calm_trans: "calm s s' \<Longrightarrow> calm s' s'' \<Longrightarrow> calm s s''"
  by (auto simp: calm_def intro: grows_trans)

lemma calm_grows: "calm s s' \<Longrightarrow> grows s s'"
  by (simp add: calm_def)

lemma calm_actionD: "calm_action act \<Longrightarrow> act s = (r, s') \<Longrightarrow> calm s s'"
  by (metis calm_action_def snd_conv)

lemma calm_action_bnd:
  assumes "calm_action m" and "\<And>x. calm_action (k x)"
  shows "calm_action (bnd m k)"
  unfolding calm_action_def
proof
  fix s
  obtain r s1 where m: "m s = (r, s1)" by fastforce
  then have "calm s s1" by (rule calm_actionD [OF assms(1)])
  moreover have "calm s1 (snd (k x s1))" for x using assms(2) by (simp add: calm_action_def)
  ultimately show "calm s (snd (bnd m k s))"
    using m by (cases r) (auto simp: bnd_split intro: calm_trans)
qed

lemma calm_action_thn: "calm_action m \<Longrightarrow> calm_action k \<Longrightarrow> calm_action (thn m k)"
  unfolding thn_def by (rule calm_action_bnd)

lemma calm_action_state: "(\<And>s. calm_action (f s)) \<Longrightarrow> calm_action (\<lambda>s. f s s)"
  by (auto simp: calm_action_def)

lemma calm_action_basic: "calm_action (ret x)" "calm_action (ask f)"
  "calm_action (SendDirect c b)" "calm_action (raise_event e)"
  "calm_action (upd (\<lambda>s. s\<lparr>Initialized := g s\<rparr>))"
  by (auto simp: calm_action_def calm_def grows_def SendDirect_def raise_event_def)

definition seats_kept :: "(manager \<Rightarrow> manager run) \<Rightarrow> bool" where
  "seats_kept h \<longleftrightarrow> (\<forall>m m'. h m = Done m' \<or> h m = LockRecursionException m' \<longrightarrow>
     ClientUser m' = ClientUser m \<and> ConnectedClients m' = ConnectedClients m)"

lemma seats_kept_handlers:
  "seats_kept (HandleClientUserChange t c u v)"
  "seats_kept (HandleOperationReceived t c opn)"
  "seats_kept (HandleClientDisconnected t c)"
  by (auto simp: seats_kept_def HandleClientUserChange_def with_upgradeable_lock_def ProcessVoteMultiplierChange_def
      HandleOperationReceived_def with_write_lock_def operation_received_frame HandleClientDisconnected_def
      client_disconnected_frame Let_def split: option.splits if_splits)

lemma calm_on_manager: "seats_kept h \<Longrightarrow> calm_action (on_manager h)"
  by (auto simp: calm_action_def calm_def grows_def on_manager_def seats_kept_def split: run.split)

lemma calm_raise_user_change: "calm_action (raise_user_change t c u v)"
  unfolding raise_user_change_def
  by (intro calm_action_thn calm_action_basic calm_on_manager seats_kept_handlers)

lemmas calm_intros = calm_action_bnd calm_action_thn calm_action_basic calm_raise_user_change calm_on_manager
  seats_kept_handlers

lemma calm_initialize: "calm_action (initialize_frame c)"
  unfolding initialize_frame_def Let_def
  by (rule calm_action_state) (auto intro!: calm_intros)

lemma calm_register: "calm_action (register_frame c)"
  unfolding register_frame_def by (intro calm_intros)

lemma calm_operation: "calm_action (operation_frame t c bs)"
  unfolding operation_frame_def by (auto intro!: calm_intros split: option.splits prod.splits)

lemma calm_guarded: "calm s (snd (act s)) \<Longrightarrow> calm s (guarded c act s)"
  by (auto simp: guarded_def calm_def grows_def split: prod.splits sum.splits)

section \<open>Nobody is taken for a user without the user's signature\<close>

text \<open>
  \<open>genuine\<close>: the client has been sent a challenge and has answered with the name of the user and the
  signature of this challenge with the user's key.
\<close>

definition genuine :: "signer \<Rightarrow> server \<Rightarrow> client \<Rightarrow> user \<Rightarrow> bool" where
  "genuine sign s c u \<longleftrightarrow> (\<exists>token response n. (c, challenge_message token) \<in> set (sent s) \<and>
     UserAuthenticationResult s c = Some response \<and> parse_response response = Inr (n, sign (ApiKey s u) token) \<and>
     directory s n = Some u)"

definition server_inv :: "signer \<Rightarrow> server \<Rightarrow> bool" where
  "server_inv sign s \<longleftrightarrow>
     (\<forall>c. ClientUser (mgr s) c = AnonymousUser s \<or> genuine sign s c (ClientUser (mgr s) c)) \<and>
     (\<forall>c. \<forall>token \<in> set (waiting s c). (c, challenge_message token) \<in> set (sent s)) \<and>
     (\<forall>u. distinct (ConnectedClients (mgr s) u) \<and> (\<forall>c \<in> set (ConnectedClients (mgr s) u). ClientUser (mgr s) c = u))"

lemma server_invD:
  assumes "server_inv sign s"
  shows "ClientUser (mgr s) c = AnonymousUser s \<or> genuine sign s c (ClientUser (mgr s) c)"
    and "token \<in> set (waiting s c) \<Longrightarrow> (c, challenge_message token) \<in> set (sent s)"
    and "distinct (ConnectedClients (mgr s) u)"
    and "c \<in> set (ConnectedClients (mgr s) u) \<Longrightarrow> ClientUser (mgr s) c = u"
  using assms by (auto simp: server_inv_def)

lemma genuine_grows: "grows s s' \<Longrightarrow> genuine sign s c u \<Longrightarrow> genuine sign s' c u"
  unfolding genuine_def grows_def by (elim conjE exE) (intro exI conjI, auto)

lemma server_inv_calm:
  assumes "server_inv sign s" and "calm s s'"
  shows "server_inv sign s'"
proof -
  have g: "grows s s'" and seats: "ClientUser (mgr s') = ClientUser (mgr s)"
    "ConnectedClients (mgr s') = ConnectedClients (mgr s)"
    using assms(2) by (simp_all add: calm_def)
  have "ClientUser (mgr s') c = AnonymousUser s' \<or> genuine sign s' c (ClientUser (mgr s') c)" for c
    using server_invD(1) [OF assms(1), of c] genuine_grows [OF g] g by (auto simp: seats grows_def)
  then show ?thesis
    using assms(1) g by (auto simp: server_inv_def seats grows_def)
qed

lemma set_ClientUser_seats [simp]:
  "ClientUser (set_ClientUser c u m) = (ClientUser m)(c := u)"
  "ConnectedClients (set_ClientUser c u m) v =
     (let rest = (if v = ClientUser m c then removeAll c (ConnectedClients m v) else ConnectedClients m v)
      in if v = u \<and> c \<notin> set rest then rest @ [c] else rest)"
  by (auto simp: set_ClientUser_def Let_def)

lemma set_user_fields [simp]:
  "grows s (set_user c u s)" "templates (set_user c u s) = templates s" "AnonymousUser (set_user c u s) = AnonymousUser s"
  "directory (set_user c u s) = directory s" "ApiKey (set_user c u s) = ApiKey s"
  "SessionsLimit (set_user c u s) = SessionsLimit s" "UserAuthenticationResult (set_user c u s) = UserAuthenticationResult s"
  "waiting (set_user c u s) = waiting s" "sent (set_user c u s) = sent s" "raised (set_user c u s) = raised s"
  "mgr (set_user c u s) = set_ClientUser c u (mgr s)"
  by (simp_all add: set_user_def grows_def)

lemma server_inv_set_user:
  assumes inv: "server_inv sign s" and new: "ClientUser (mgr s) c \<noteq> u"
    and real: "genuine sign s c u"
  shows "server_inv sign (set_user c u s)"
proof -
  let ?s = "set_user c u s"
  have outside: "c \<notin> set (ConnectedClients (mgr s) u)" using server_invD(4) [OF inv] new by blast
  have list: "ConnectedClients (mgr ?s) v = (if v = u then ConnectedClients (mgr s) u @ [c]
      else if v = ClientUser (mgr s) c then removeAll c (ConnectedClients (mgr s) v) else ConnectedClients (mgr s) v)" for v
    using outside new by (simp add: Let_def)
  have "ClientUser (mgr ?s) d = AnonymousUser ?s \<or> genuine sign ?s d (ClientUser (mgr ?s) d)" for d
    using server_invD(1) [OF inv, of d] real genuine_grows [OF set_user_fields(1), of sign s] by auto
  moreover have "distinct (ConnectedClients (mgr ?s) v) \<and> (\<forall>d \<in> set (ConnectedClients (mgr ?s) v). ClientUser (mgr ?s) d = v)" for v
    unfolding list using server_invD(3,4) [OF inv] outside by (auto simp: distinct_removeAll)
  ultimately show ?thesis using server_invD(2) [OF inv] by (simp add: server_inv_def del: set_ClientUser_seats)
qed

lemma TryAddClient_inv:
  assumes "server_inv sign s" "genuine sign s c u" "TryAddClient u c s = (b, s')"
  shows "server_inv sign s' \<and> grows s s'"
  using assms server_inv_set_user [OF assms(1) _ assms(2)] by (auto simp: TryAddClient_def split: if_splits)

lemma calm_send_result: "calm_action (sendResult c b r x)"
  unfolding sendResult_def by (intro calm_intros)

lemma calm_announce_login: "calm_action (announce_login t c login)"
  unfolding calm_action_def
proof
  fix s
  obtain n rq us where l: "login = (n, rq, us)" by (cases login)
  show "calm s (snd (announce_login t c login s))"
  proof (cases us)
    case None
    then show ?thesis using calm_action_basic(4) [of "OnClientAuthorizeFailed c rq"]
      by (simp add: announce_login_def l calm_action_def)
  next
    case (Some u)
    let ?act = "thn (if VoteMultiplier (mgr s) u \<noteq> 1 then SendDirect c (multiplier_message (VoteMultiplier (mgr s) u))
                else ret ()) (thn (raise_event (OnClientAuthorized c u)) (raise_user_change t c (AnonymousUser s) u))"
    have "calm_action ?act" by (auto intro!: calm_intros simp del: thn_apply)
    then show ?thesis using Some by (simp add: announce_login_def l calm_action_def del: thn_apply)
  qed
qed

text \<open>The signature was right in the only branch that changes the user.\<close>

lemma AuthenticateClient_inv:
  assumes inv: "server_inv sign s" and asked: "(c, challenge_message token) \<in> set (sent s)"
    and answered: "UserAuthenticationResult s c = Some response"
  shows "server_inv sign (snd (AuthenticateClient sign c token response s))
    \<and> grows s (snd (AuthenticateClient sign c token response s))"
proof (cases "parse_response response")
  case (Inl e)
  then show ?thesis using inv by (simp add: AuthenticateClient_def)
next
  case (Inr p)
  obtain n sg where p: "p = (n, sg)" by (cases p)
  have say: "server_inv sign (snd (sendResult c b w x v)) \<and> grows s (snd (sendResult c b w x v))"
    if "server_inv sign v" "grows s v" for v b w x
    using calm_send_result [of c b w x] that server_inv_calm calm_grows grows_trans
    unfolding calm_action_def by blast
  show ?thesis
  proof (cases "response = [] \<or> directory s n = None")
    case True
    then show ?thesis using Inr p inv say [OF inv grows_refl] by (auto simp: AuthenticateClient_def)
  next
    case False
    then obtain u where u: "directory s n = Some u" "response \<noteq> []" by blast
    show ?thesis
    proof (cases "sg = sign (ApiKey s u) token")
      case True
      obtain b v where try_add: "TryAddClient u c s = (b, v)" by fastforce
      have "genuine sign s c u" using u True Inr p asked answered by (auto simp: genuine_def)
      then have "server_inv sign v" "grows s v" using TryAddClient_inv [OF inv _ try_add] by auto
      then show ?thesis using Inr p u True try_add say by (simp add: AuthenticateClient_def)
    next
      case False
      then show ?thesis using Inr p u say [OF inv grows_refl] by (simp add: AuthenticateClient_def)
    qed
  qed
qed

lemma finish_authentication_inv:
  assumes "server_inv sign s" "(c, challenge_message token) \<in> set (sent s)"
    and "UserAuthenticationResult s c = Some response"
  shows "server_inv sign (snd (finish_authentication sign t c token response s))
    \<and> grows s (snd (finish_authentication sign t c token response s))"
proof -
  obtain r v where run: "AuthenticateClient sign c token response s = (r, v)" by fastforce
  then have v: "server_inv sign v" "grows s v" using AuthenticateClient_inv [OF assms] by auto
  have "calm v (snd (announce_login t c x v))" for x
    using calm_announce_login by (simp add: calm_action_def)
  then have "server_inv sign (snd (announce_login t c x v)) \<and> grows s (snd (announce_login t c x v))" for x
    using server_inv_calm [OF v(1)] calm_grows grows_trans [OF v(2)] by blast
  then show ?thesis using run v by (cases r) (simp_all add: finish_authentication_def)
qed

lemma guarded_inv:
  assumes "server_inv sign (snd (act s)) \<and> grows s (snd (act s))"
  shows "server_inv sign (guarded c act s) \<and> grows s (guarded c act s)"
proof -
  have "calm (snd (act s)) (guarded c act s)"
    by (auto simp: guarded_def calm_def grows_def split: prod.splits sum.splits)
  then show ?thesis using assms server_inv_calm calm_grows grows_trans by blast
qed

lemma resume_inv:
  assumes "server_inv sign s" "\<forall>token \<in> set tokens. (c, challenge_message token) \<in> set (sent s)"
    and "UserAuthenticationResult s c = Some response"
  shows "server_inv sign (resume sign t c response tokens s)"
  using assms
proof (induction tokens arbitrary: s)
  case Nil
  then show ?case by simp
next
  case (Cons token tokens)
  let ?v = "guarded c (finish_authentication sign t c token response) s"
  have "server_inv sign ?v \<and> grows s ?v"
    using Cons.prems by (intro guarded_inv finish_authentication_inv) auto
  then show ?case using Cons.prems by (auto intro!: Cons.IH simp: grows_def)
qed

lemma set_response_inv:
  assumes "server_inv sign s"
  shows "server_inv sign (set_response sign t c response s)"
proof (cases "UserAuthenticationResult s c")
  case None
  let ?s = "s\<lparr>UserAuthenticationResult := (UserAuthenticationResult s)(c \<mapsto> response), waiting := (waiting s)(c := [])\<rparr>"
  have "genuine sign s d u \<Longrightarrow> genuine sign ?s d u" for d u using None by (auto simp: genuine_def)
  then have "server_inv sign ?s" using assms by (auto simp: server_inv_def)
  then show ?thesis
    using None server_invD(2) [OF assms] by (auto simp: set_response_def intro!: resume_inv)
qed (use assms in \<open>simp add: set_response_def\<close>)

lemma authenticate_frame_inv:
  assumes "server_inv sign s"
  shows "server_inv sign (snd (authenticate_frame sign t token c s))"
proof -
  let ?s = "s\<lparr>sent := sent s @ [(c, challenge_message token)]\<rparr>"
  have v: "server_inv sign ?s" by (rule server_inv_calm [OF assms]) (auto simp: calm_def grows_def)
  show ?thesis
  proof (cases "UserAuthenticationResult s c")
    case None
    have "server_inv sign (?s\<lparr>waiting := (waiting s)(c := waiting s c @ [token])\<rparr>)"
      using v by (auto simp: server_inv_def genuine_def)
    then show ?thesis using None by (simp add: authenticate_frame_def SendDirect_def)
  next
    case (Some response)
    then show ?thesis
      using finish_authentication_inv [OF v, of c token response]
      by (simp add: authenticate_frame_def SendDirect_def)
  qed
qed

lemma response_frame_inv:
  assumes "server_inv sign s"
  shows "server_inv sign (snd (response_frame sign t c bs s))"
  using assms set_response_inv [OF assms]
  by (auto simp: response_frame_def split: sum.splits prod.splits)

lemma ProcessIncomingFrame_inv:
  assumes "server_inv sign s"
  shows "server_inv sign (snd (ProcessIncomingFrame sign t token c packet s))"
proof -
  have quiet: "server_inv sign (snd (act s))" if "calm_action act" for act :: "unit action"
    using that server_inv_calm [OF assms] by (simp add: calm_action_def)
  show ?thesis
  proof (cases "ReadBoolean packet")
    case (Inr p)
    obtain b r where p: "p = (b, r)" by (cases p)
    show ?thesis
    proof (cases b)
      case True
      show ?thesis
      proof (cases "ReadString r")
        case (Inl e)
        then show ?thesis using \<open>ReadBoolean packet = Inr p\<close> p True assms by (simp add: ProcessIncomingFrame_def)
      next
        case (Inr q)
        obtain cmd r' where q: "q = (cmd, r')" by (cases q)
        show ?thesis
          using \<open>ReadBoolean packet = Inr p\<close> p True Inr q assms quiet [OF calm_initialize] quiet [OF calm_register]
            authenticate_frame_inv [OF assms] response_frame_inv [OF assms]
          by (simp add: ProcessIncomingFrame_def)
      qed
    next
      case False
      then show ?thesis using Inr p quiet [OF calm_operation] by (simp add: ProcessIncomingFrame_def)
    qed
  qed (use assms in \<open>simp add: ProcessIncomingFrame_def\<close>)
qed

lemma data_received_inv:
  assumes "server_inv sign s"
  shows "server_inv sign (data_received sign t token c packet s)"
proof -
  have "calm (snd (ProcessIncomingFrame sign t token c packet s)) (data_received sign t token c packet s)"
    by (auto simp: data_received_def guarded_def calm_def grows_def split: prod.splits sum.splits)
  then show ?thesis using server_inv_calm [OF ProcessIncomingFrame_inv [OF assms]] by blast
qed

section \<open>Clients per user\<close>

text \<open>\<open>within\<close>: no user with a limit gets more clients than it had and its limit allows.\<close>

definition within :: "server \<Rightarrow> server \<Rightarrow> bool" where
  "within s s' \<longleftrightarrow> SessionsLimit s' = SessionsLimit s \<and> AnonymousUser s' = AnonymousUser s \<and> (\<forall>u limit. SessionsLimit s u = Some limit \<longrightarrow>
     int (length (ConnectedClients (mgr s') u)) \<le> max (int (length (ConnectedClients (mgr s) u))) (sint limit))"

definition within_action :: "'a action \<Rightarrow> bool" where
  "within_action act \<longleftrightarrow> (\<forall>s. within s (snd (act s)))"

lemma within_trans: "within s s' \<Longrightarrow> within s' s'' \<Longrightarrow> within s s''"
proof -
  assume w: "within s s'" "within s' s''"
  have "x \<le> max z l" if "x \<le> max y l" "y \<le> max z l" for x y z l :: int using that by (simp add: le_max_iff_disj) linarith
  then show ?thesis using w by (simp add: within_def) blast
qed

lemma calm_within: "calm s s' \<Longrightarrow> within s s'"
  by (simp add: calm_def grows_def within_def)

lemma calm_within_action: "calm_action act \<Longrightarrow> within_action act"
  by (simp add: calm_action_def within_action_def calm_within)

lemma within_action_bnd:
  assumes "within_action m" and "\<And>x. within_action (k x)"
  shows "within_action (bnd m k)"
  unfolding within_action_def
proof
  fix s
  obtain r s1 where m: "m s = (r, s1)" by fastforce
  then have "within s s1" using assms(1) by (metis snd_conv within_action_def)
  moreover have "within s1 (snd (k x s1))" for x using assms(2) by (simp add: within_action_def)
  ultimately show "within s (snd (bnd m k s))"
    using m by (cases r) (auto simp: bnd_split intro: within_trans)
qed

lemma TryAddClient_within: "TryAddClient u c s = (b, s') \<Longrightarrow> within s s'"
proof -
  assume run: "TryAddClient u c s = (b, s')"
  have shorter: "int (length (removeAll c xs)) \<le> int (length xs)" for xs
    by (simp only: of_nat_le_iff length_removeAll_less_eq)
  have "within s (set_user c u s)" if "has_room u s" "ClientUser (mgr s) c \<noteq> u"
    using that shorter by (auto simp: within_def has_room_def Let_def le_max_iff_disj)
  moreover have "within s s" by (simp add: within_def)
  ultimately show ?thesis using run by (auto simp: TryAddClient_def split: if_splits simp del: set_user_fields)
qed

lemma AuthenticateClient_within: "within_action (AuthenticateClient sign c token response)"
  unfolding within_action_def
proof
  fix s
  have say: "within s (snd (sendResult d b w x v))" if "within s v" for d b w x v
    using calm_within_action [OF calm_send_result [of d b w x]] within_trans [OF that] by (simp add: within_action_def)
  show "within s (snd (AuthenticateClient sign c token response s))"
  proof (cases "parse_response response")
    case (Inl e)
    then show ?thesis by (simp add: AuthenticateClient_def within_def)
  next
    case (Inr p)
    obtain n sg where p: "p = (n, sg)" by (cases p)
    have self: "within s s" by (simp add: within_def)
    show ?thesis
    proof (cases "response = [] \<or> directory s n = None")
      case True
      then show ?thesis using Inr p self say [OF self] by (auto simp: AuthenticateClient_def)
    next
      case False
      then obtain u where u: "directory s n = Some u" "response \<noteq> []" by blast
      obtain b v where try_add: "TryAddClient u c s = (b, v)" by fastforce
      show ?thesis
        using Inr p u try_add say [OF self] say [OF TryAddClient_within [OF try_add]] by (simp add: AuthenticateClient_def)
    qed
  qed
qed

lemma finish_authentication_within: "within_action (finish_authentication sign t c token response)"
  unfolding finish_authentication_def
  by (intro within_action_bnd AuthenticateClient_within calm_within_action calm_announce_login)

lemma guarded_within: "within_action act \<Longrightarrow> within s (guarded c act s)"
  by (auto simp: within_action_def within_def guarded_def split: prod.splits sum.splits dest!: spec [of _ s])

lemma resume_within: "within s (resume sign t c response tokens s)"
proof (induction tokens arbitrary: s)
  case Nil
  then show ?case by (simp add: within_def)
next
  case (Cons token tokens)
  show ?case
    using within_trans [OF guarded_within [OF finish_authentication_within] Cons] by simp
qed

lemma set_response_within: "within s (set_response sign t c response s)"
proof (cases "UserAuthenticationResult s c")
  case None
  let ?s = "s\<lparr>UserAuthenticationResult := (UserAuthenticationResult s)(c \<mapsto> response), waiting := (waiting s)(c := [])\<rparr>"
  have "within s ?s" by (simp add: within_def)
  then show ?thesis using None within_trans [OF _ resume_within] by (simp add: set_response_def)
qed (simp add: set_response_def within_def)

lemma authenticate_frame_within: "within_action (authenticate_frame sign t token c)"
proof -
  have "within_action (\<lambda>s. case UserAuthenticationResult s c of
      Some response \<Rightarrow> finish_authentication sign t c token response s
    | None \<Rightarrow> upd (\<lambda>s. s\<lparr>waiting := (waiting s)(c := waiting s c @ [token])\<rparr>) s)"
    using finish_authentication_within by (auto simp: within_action_def within_def split: option.split)
  then show ?thesis
    unfolding authenticate_frame_def thn_def
    by (intro within_action_bnd calm_within_action [OF calm_action_basic(3)])
qed

lemma ProcessIncomingFrame_within: "within_action (ProcessIncomingFrame sign t token c packet)"
proof -
  have upd: "within_action (upd (set_response sign t c response))" for response
    using set_response_within by (simp add: within_action_def)
  have "within_action (response_frame sign t c bs)" for bs
    unfolding response_frame_def
    by (intro within_action_bnd calm_within_action [OF calm_action_basic(2)]) (simp split: prod.split add: upd)
  note parts = this authenticate_frame_within calm_within_action [OF calm_initialize] calm_within_action [OF calm_register]
    calm_within_action [OF calm_operation] calm_within_action [OF calm_action_basic(1)]
  show ?thesis
    unfolding ProcessIncomingFrame_def
    by (intro within_action_bnd calm_within_action [OF calm_action_basic(2)])
      (auto intro!: within_action_bnd calm_within_action [OF calm_action_basic(2)] parts split: prod.split)
qed

section \<open>Runs of the server\<close>

definition fresh_server :: "server \<Rightarrow> bool" where
  "fresh_server s \<longleftrightarrow>
     (\<exists>mult. mgr s = initial_manager mult (AnonymousUser s)) \<and> (\<forall>c. UserAuthenticationResult s c = None) \<and>
     (\<forall>c. waiting s c = []) \<and> sent s = []"

text \<open>
  Connections, any bytes from any client in any order, disconnections with the clearing of the votes at any later
  time, and changes of a multiplier or of a limit by the operator. A new client belongs to the anonymous user.
\<close>

inductive server_step :: "signer \<Rightarrow> server \<Rightarrow> server \<Rightarrow> bool" for sign where
  connect: "ClientUser (mgr s) c = AnonymousUser s \<Longrightarrow> server_step sign s (client_connected c s)"
| frame: "server_step sign s (data_received sign t token c packet s)"
| disconnect: "server_step sign s (snd (server_client_disconnected c s))"
| clear: "c \<notin> set (ConnectedClients (mgr s) (ClientUser (mgr s) c)) \<Longrightarrow> server_step sign s (snd (votes_cleared t c s))"
| limit: "server_step sign s (SetSessionsLimit u new_limit s)"
| multiplier: "SetVoteMultiplier t u new (mgr s) = Done m \<Longrightarrow> server_step sign s (s\<lparr>mgr := m\<rparr>)"

inductive server_reachable :: "signer \<Rightarrow> server \<Rightarrow> bool" for sign where
  start: "fresh_server s \<Longrightarrow> server_reachable sign s"
| step: "server_reachable sign s \<Longrightarrow> server_step sign s s' \<Longrightarrow> server_reachable sign s'"

text \<open>The states of a run, the latest first.\<close>

inductive server_run :: "signer \<Rightarrow> server list \<Rightarrow> bool" for sign where
  start: "fresh_server s \<Longrightarrow> server_run sign [s]"
| step: "server_run sign (s # earlier) \<Longrightarrow> server_step sign s s' \<Longrightarrow> server_run sign (s' # s # earlier)"

lemma seats_kept_multiplier: "seats_kept (SetVoteMultiplier t u new)"
  by (auto simp: seats_kept_def SetVoteMultiplier_def HandleUserVoteMultiplierChange_def with_write_lock_def Let_def
      split: option.splits if_splits)

lemma server_inv_drop:
  assumes "server_inv sign s"
  shows "server_inv sign (s\<lparr>mgr := channel_disconnected c (mgr s)\<rparr>)"
proof -
  let ?s = "s\<lparr>mgr := channel_disconnected c (mgr s)\<rparr>"
  have list: "ConnectedClients (mgr ?s) v = (if v = ClientUser (mgr s) c then removeAll c (ConnectedClients (mgr s) v)
      else ConnectedClients (mgr s) v)" for v
    by (simp add: channel_disconnected_def)
  have user: "ClientUser (mgr ?s) = ClientUser (mgr s)" by (simp add: channel_disconnected_def)
  have "distinct (ConnectedClients (mgr ?s) v) \<and> (\<forall>d \<in> set (ConnectedClients (mgr ?s) v). ClientUser (mgr s) d = v)" for v
    unfolding list using server_invD(3,4) [OF assms] by (auto simp: distinct_removeAll)
  moreover have "genuine sign ?s d u = genuine sign s d u" for d u by (simp add: genuine_def)
  ultimately show ?thesis using server_invD(1,2) [OF assms] user by (simp add: server_inv_def)
qed

lemma server_step_inv: "server_step sign s s' \<Longrightarrow> server_inv sign s \<Longrightarrow> server_inv sign s'"
proof (induction rule: server_step.induct)
  case (connect s c)
  let ?s = "client_connected c s"
  have list: "ConnectedClients (mgr ?s) v = (if v = AnonymousUser s \<and> c \<notin> set (ConnectedClients (mgr s) v)
      then ConnectedClients (mgr s) v @ [c] else ConnectedClients (mgr s) v)" for v
    using connect(1) by (auto simp: client_connected_def channel_connected_def Let_def)
  have user: "ClientUser (mgr ?s) = ClientUser (mgr s)" by (simp add: client_connected_def channel_connected_def Let_def)
  have rest: "genuine sign ?s d u = genuine sign s d u" "waiting ?s = waiting s" "sent ?s = sent s"
    "SessionsLimit ?s = SessionsLimit s" "AnonymousUser ?s = AnonymousUser s" for d u
    by (simp_all add: client_connected_def genuine_def)
  have "distinct (ConnectedClients (mgr ?s) v) \<and> (\<forall>d \<in> set (ConnectedClients (mgr ?s) v). ClientUser (mgr s) d = v)" for v
    unfolding list using server_invD(3,4) [OF connect(2)] connect(1) by auto
  then show ?case using server_invD(1,2) [OF connect(2)] user by (simp add: server_inv_def rest)
next
  case (frame s t token c packet)
  then show ?case by (rule data_received_inv)
next
  case (disconnect s c)
  let ?v = "s\<lparr>mgr := channel_disconnected c (mgr s)\<rparr>"
  have "calm ?v (snd (server_client_disconnected c s))"
    using calm_action_basic(4) [of "OnClientDisconnected c"] by (simp add: calm_action_def server_client_disconnected_def)
  with server_inv_drop [OF disconnect] show ?case by (rule server_inv_calm)
next
  case (clear c s t)
  have "calm_action (votes_cleared t c)" unfolding votes_cleared_def by (intro calm_intros)
  then have "calm s (snd (votes_cleared t c s))" by (simp add: calm_action_def)
  with clear(2) show ?case by (rule server_inv_calm)
next
  case (limit s u new_limit)
  then show ?case by (auto simp: server_inv_def SetSessionsLimit_def genuine_def)
next
  case (multiplier t u new s m)
  have "calm s (s\<lparr>mgr := m\<rparr>)"
    using seats_kept_multiplier multiplier(1) by (auto simp: seats_kept_def calm_def grows_def)
  with multiplier(2) show ?case by (rule server_inv_calm)
qed

lemma server_reachable_inv: "server_reachable sign s \<Longrightarrow> server_inv sign s"
proof (induction rule: server_reachable.induct)
  case (start s)
  then show ?case by (auto simp: fresh_server_def server_inv_def initial_manager_def)
next
  case (step s s')
  then show ?case by (blast intro: server_step_inv)
qed

text \<open>A step keeps the clients of a user within the limits, but for the anonymous user, who gets every new client.\<close>

lemma server_step_within:
  assumes "server_step sign s s'" and "u \<noteq> AnonymousUser s" and "SessionsLimit s u = Some limit"
  shows "int (length (ConnectedClients (mgr s') u)) \<le> max (int (length (ConnectedClients (mgr s) u))) (sint limit)"
  using assms
proof (induction rule: server_step.induct)
  case (connect s c)
  then show ?case by (simp add: client_connected_def channel_connected_def Let_def)
next
  case (frame s t token c packet)
  have "within s (data_received sign t token c packet s)"
    unfolding data_received_def by (rule guarded_within [OF ProcessIncomingFrame_within])
  with frame show ?case by (simp add: within_def)
next
  case (disconnect s c)
  have "length (removeAll c xs) \<le> length xs" for xs by (rule length_removeAll_less_eq)
  then have "length (ConnectedClients (channel_disconnected c (mgr s)) u) \<le> length (ConnectedClients (mgr s) u)"
    by (simp add: channel_disconnected_def)
  then show ?case by (simp add: server_client_disconnected_def raise_event_def le_max_iff_disj)
next
  case (clear c s t)
  have "calm_action (votes_cleared t c)" unfolding votes_cleared_def by (intro calm_intros)
  then have "within s (snd (votes_cleared t c s))" by (simp add: calm_action_def calm_within)
  with clear show ?case by (simp add: within_def)
next
  case (limit s v new_limit)
  then show ?case by (simp add: SetSessionsLimit_def)
next
  case (multiplier t v new s m)
  then have "ConnectedClients m = ConnectedClients (mgr s)" using seats_kept_multiplier by (auto simp: seats_kept_def)
  then show ?case by simp
qed

lemma server_step_anonymous: "server_step sign s s' \<Longrightarrow> AnonymousUser s' = AnonymousUser s"
proof (induction rule: server_step.induct)
  case (frame s t token c packet)
  have "within s (data_received sign t token c packet s)"
    unfolding data_received_def by (rule guarded_within [OF ProcessIncomingFrame_within])
  then show ?case by (simp add: within_def)
qed (auto simp: client_connected_def server_client_disconnected_def raise_event_def SetSessionsLimit_def votes_cleared_def
    on_manager_def split: run.split)

end
