(* ===== verification/ServerProps.thy ===== *)
theory ServerProps
  imports Server
begin

text \<open>
  The properties of the server: a login succeeds exactly with the right signature, no sequence of
  frames gets a client a user it cannot sign for, the limit of sessions is kept by logins that do not
  overlap, and what goes wrong around failed logins and deleted users.
\<close>

section \<open>What a client sends\<close>

text \<open>\<open>AuthenticationClient.AuthenticateAsync\<close> and the frames \<open>VotingClient\<close> wraps around it.\<close>

definition authenticate_request :: "u8 list" where
  "authenticate_request = WriteBoolean True @ WriteString (utf8_lit ''AUTH'')"

definition signature_payload :: "signer \<Rightarrow> cs_string \<Rightarrow> cs_string \<Rightarrow> cs_string \<Rightarrow> u8 list" where
  "signature_payload sign user apiKey serverToken = WriteString user @ WriteString (sign apiKey serverToken)"

definition signature_frame :: "u8 list \<Rightarrow> u8 list" where
  "signature_frame data =
     WriteBoolean True @ WriteString (utf8_lit ''AUTH_RES'') @ Write7BitEncodedInt (of_nat (length data)) @ data"

section \<open>One frame at a time\<close>

lemma cmd_differ: "utf8_lit ''AUTH'' \<noteq> utf8_lit ''INIT''" "utf8_lit ''AUTH'' \<noteq> utf8_lit ''REG''"
  "utf8_lit ''AUTH_RES'' \<noteq> utf8_lit ''INIT''" "utf8_lit ''AUTH_RES'' \<noteq> utf8_lit ''REG''"
  "utf8_lit ''AUTH_RES'' \<noteq> utf8_lit ''AUTH''"
  by (simp_all add: utf8_lit_def)

lemma request_processed:
  "ProcessIncomingFrame sign t token c authenticate_request = authenticate_frame sign t token c"
  using string_codec.dec_enc_exact [of "utf8_lit ''AUTH''"]
  by (intro ext) (simp add: ProcessIncomingFrame_def authenticate_request_def ReadBoolean_Write cmd_differ)

lemma response_processed:
  assumes "length data < 2 ^ 31"
  shows "ProcessIncomingFrame sign t token c (signature_frame data) = upd (set_response sign t c data)"
proof -
  have "ReadBytes (of_nat (length data)) data = Inr (data, [])"
    using ReadBytes_append [OF assms, of "[]"] by simp
  then have "rbind (Read7BitEncodedInt (Write7BitEncodedInt (of_nat (length data)) @ data)) (\<lambda>(n, r). ReadBytes n r)
    = Inr (data, [])"
    by (simp add: Read7BitEncodedInt_Write)
  then show ?thesis
    by (intro ext) (simp add: ProcessIncomingFrame_def signature_frame_def ReadBoolean_Write ReadString_Write cmd_differ
        response_frame_def)
qed

lemma parse_signature:
  "str_ok user \<Longrightarrow> str_ok sg \<Longrightarrow> parse_response (WriteString user @ WriteString sg) = Inr (user, sg)"
  using string_codec.dec_enc_exact [of sg] by (simp add: parse_response_def ReadString_Write)

lemma payload_not_empty [simp]: "WriteString s @ x \<noteq> []"
  by simp

lemma user_change_without_votes:
  assumes "clientVotes m c = None" and "upgradeable m = None"
  shows "HandleClientUserChange t c u v m = Done m"
  using assms by (simp add: HandleClientUserChange_def with_upgradeable_lock_def ProcessVoteMultiplierChange_def)

lemma announce_without_votes:
  assumes "clientVotes (mgr s) c = None" and "upgradeable (mgr s) = None"
  shows "announce_login t c (n, rq, Some u) s = (Inr (),
    s\<lparr>sent := sent s @ (if VoteMultiplier (mgr s) u \<noteq> 1 then [(c, multiplier_message (VoteMultiplier (mgr s) u))] else []),
      raised := raised s @ [OnClientAuthorized c u, OnClientUserChange c (AnonymousUser s) u]\<rparr>)"
  using user_change_without_votes [OF assms, of t "AnonymousUser s" u]
  by (simp add: announce_login_def SendDirect_def raise_event_def raise_user_change_def on_manager_def)

lemma request_waits:
  assumes "UserAuthenticationResult s c = None"
  shows "data_received sign t token c authenticate_request s =
    s\<lparr>sent := sent s @ [(c, challenge_message token)], waiting := (waiting s)(c := waiting s c @ [token])\<rparr>"
  using assms by (simp add: data_received_def guarded_def request_processed authenticate_frame_def SendDirect_def)

lemma response_resumes:
  assumes "UserAuthenticationResult s c = None" and "waiting s c = [token]" and "length data < 2 ^ 31"
  shows "data_received sign t token' c (signature_frame data) s =
    guarded c (finish_authentication sign t c token data)
      (s\<lparr>UserAuthenticationResult := (UserAuthenticationResult s)(c \<mapsto> data), waiting := (waiting s)(c := [])\<rparr>)"
  using assms by (simp add: data_received_def guarded_def [of _ "upd _"] response_processed set_response_def)

section \<open>Logins\<close>

lemma login_run:
  assumes "UserAuthenticationResult s c = None" and "waiting s c = []"
    and "directory s n = Some u" and "ClientUser (mgr s) c = u \<or> has_room u s"
    and "clientVotes (mgr s) c = None" and "upgradeable (mgr s) = None"
    and "str_ok n" and "str_ok (sign (ApiKey s u) token)"
    and "length (signature_payload sign n (ApiKey s u) token) < 2 ^ 31"
    and s1_def: "s1 = data_received sign t token c authenticate_request s"
    and s2_def: "s2 = data_received sign t' token' c (signature_frame (signature_payload sign n (ApiKey s u) token)) s1"
  shows "s2 = (if ClientUser (mgr s) c = u then s else set_user c u s)
     \<lparr>UserAuthenticationResult := (UserAuthenticationResult s)(c \<mapsto> signature_payload sign n (ApiKey s u) token),
      waiting := (waiting s)(c := []),
      sent := sent s @ [(c, challenge_message token), (c, result_message True ''Success.'')] @
        (if VoteMultiplier (mgr s) u \<noteq> 1 then [(c, multiplier_message (VoteMultiplier (mgr s) u))] else []),
      raised := raised s @ [OnClientAuthorized c u, OnClientUserChange c (AnonymousUser s) u]\<rparr>"
proof -
  define p where "p = signature_payload sign n (ApiKey s u) token"
  define v where "v = s1\<lparr>UserAuthenticationResult := (UserAuthenticationResult s1)(c \<mapsto> p), waiting := (waiting s1)(c := [])\<rparr>"
  define w where "w = (if ClientUser (mgr s) c = u then v else set_user c u v)"
  have s1: "s1 = s\<lparr>sent := sent s @ [(c, challenge_message token)], waiting := (waiting s)(c := [token])\<rparr>"
    using assms(1,2) by (simp add: s1_def request_waits)
  have s2: "s2 = guarded c (finish_authentication sign t' c token p) v"
    unfolding s2_def v_def p_def using assms(1,9) by (intro response_resumes) (simp_all add: s1)
  have w: "sent w = sent s @ [(c, challenge_message token)]" "raised w = raised s" "AnonymousUser w = AnonymousUser s"
    "clientVotes (mgr w) c = None" "upgradeable (mgr w) = None" "VoteMultiplier (mgr w) = VoteMultiplier (mgr s)"
    using assms(5,6) by (simp_all add: w_def v_def s1 set_ClientUser_def Let_def)
  have room: "has_room u v = has_room u s" by (simp add: has_room_def v_def s1 split: option.split)
  have "TryAddClient u c v = (True, w)"
    using assms(4) room by (auto simp: TryAddClient_def v_def w_def s1)
  then have "AuthenticateClient sign c token p v = sendResult c True ''Success.'' (Some n, n, Some u) w"
    using assms(3,7,8) parse_signature [of n "sign (ApiKey s u) token"]
    by (simp add: AuthenticateClient_def p_def signature_payload_def v_def s1)
  then have "finish_authentication sign t' c token p v =
      announce_login t' c (Some n, n, Some u) (w\<lparr>sent := sent w @ [(c, result_message True ''Success.'')]\<rparr>)"
    by (simp add: finish_authentication_def sendResult_def SendDirect_def)
  also have "\<dots> = (Inr (), w\<lparr>sent := sent s @ [(c, challenge_message token), (c, result_message True ''Success.'')] @
        (if VoteMultiplier (mgr s) u \<noteq> 1 then [(c, multiplier_message (VoteMultiplier (mgr s) u))] else []),
      raised := raised s @ [OnClientAuthorized c u, OnClientUserChange c (AnonymousUser s) u]\<rparr>)"
    by (subst announce_without_votes) (simp_all add: w)
  finally show ?thesis
    unfolding s2 guarded_def by (simp add: w_def v_def p_def s1 set_user_def)
qed

text \<open>
  A client that knows the key logs in: it asks, is sent the challenge, answers with the signature, and
  then belongs to the user, is told so and is sent the multiplier of the user unless it is 1.
\<close>

theorem login_succeeds:
  assumes "UserAuthenticationResult s c = None" and "waiting s c = []"
    and "directory s n = Some u" and "ClientUser (mgr s) c = u \<or> has_room u s"
    and "clientVotes (mgr s) c = None" and "upgradeable (mgr s) = None"
    and "str_ok n" and "str_ok (sign (ApiKey s u) token)"
    and "length (signature_payload sign n (ApiKey s u) token) < 2 ^ 31"
    and s1_def: "s1 = data_received sign t token c authenticate_request s"
    and s2_def: "s2 = data_received sign t' token' c (signature_frame (signature_payload sign n (ApiKey s u) token)) s1"
  shows "ClientUser (mgr s2) c = u \<and>
    sent s2 = sent s @ [(c, challenge_message token), (c, result_message True ''Success.'')] @
      (if VoteMultiplier (mgr s) u \<noteq> 1 then [(c, multiplier_message (VoteMultiplier (mgr s) u))] else []) \<and>
    raised s2 = raised s @ [OnClientAuthorized c u, OnClientUserChange c (AnonymousUser s) u]"
  unfolding login_run [OF assms] by simp

definition sample_sign :: signer where "sample_sign key token = key @ token"

definition sample_server :: server where
  "sample_server = \<lparr>mgr = initial_manager (\<lambda>u. if u = 5 then 3 else 1) 0, templates = [], AnonymousUser = 0,
     directory = [[97] \<mapsto> 5], NameOf = (\<lambda>_. [97]), ApiKey = (\<lambda>_. [52, 50]), SessionsLimit = [5 \<mapsto> 1],
     UserAuthenticationResult = (\<lambda>_. None), waiting = (\<lambda>_. []), Initialized = (\<lambda>_. False), sent = [], raised = []\<rparr>"

definition sample_lobby :: server where "sample_lobby = client_connected 4 sample_server"

definition sample_waiting :: server where
  "sample_waiting = data_received sample_sign 0 [7] 4 authenticate_request sample_lobby"

definition sample_login :: server where
  "sample_login = data_received sample_sign 0 [] 4 (signature_frame (signature_payload sample_sign [97] [52, 50] [7]))
     sample_waiting"

lemma sample_fields:
  "UserAuthenticationResult sample_lobby 4 = None" "waiting sample_lobby 4 = []" "directory sample_lobby [97] = Some 5"
  "has_room 5 sample_lobby" "clientVotes (mgr sample_lobby) 4 = None" "upgradeable (mgr sample_lobby) = None"
  "ApiKey sample_lobby 5 = [52, 50]" "VoteMultiplier (mgr sample_lobby) 5 = 3" "AnonymousUser sample_lobby = 0"
  by (simp_all add: sample_lobby_def client_connected_def sample_server_def channel_connected_def initial_manager_def
      has_room_def Let_def)

lemma sample_payload: "length (signature_payload sample_sign [97] [52, 50] [7]) < 2 ^ 31"
  by (simp add: signature_payload_def sample_sign_def WriteString_def Write7BitEncodedInt_def enc7.simps)

lemma sample_reachable: "server_reachable sample_sign sample_lobby" "server_reachable sample_sign sample_waiting"
  "server_reachable sample_sign sample_login"
proof -
  have "fresh_server sample_server" by (auto simp: fresh_server_def sample_server_def)
  moreover have "ClientUser (mgr sample_server) 4 = AnonymousUser sample_server"
    by (simp add: sample_server_def initial_manager_def)
  ultimately show l: "server_reachable sample_sign sample_lobby"
    unfolding sample_lobby_def by (blast intro: server_reachable.intros server_step.connect)
  then show w: "server_reachable sample_sign sample_waiting"
    unfolding sample_waiting_def by (blast intro: server_reachable.intros server_step.frame)
  then show "server_reachable sample_sign sample_login"
    unfolding sample_login_def by (blast intro: server_reachable.intros server_step.frame)
qed

lemma sample_login_state:
  "sample_login = (if ClientUser (mgr sample_lobby) 4 = 5 then sample_lobby else set_user 4 5 sample_lobby)
     \<lparr>UserAuthenticationResult := (UserAuthenticationResult sample_lobby)(4 \<mapsto> signature_payload sample_sign [97] [52, 50] [7]),
      waiting := (waiting sample_lobby)(4 := []), sent := sent sample_login, raised := raised sample_login\<rparr>"
proof -
  have "str_ok (sample_sign [52, 50] [7])" by (simp add: sample_sign_def str_ok_def)
  then show ?thesis
    using login_run [OF sample_fields(1-3) _ sample_fields(5,6) _ _ _ refl refl, where token = "[7]" and sign = sample_sign]
      sample_fields sample_payload
    by (simp add: sample_login_def sample_waiting_def str_ok_def)
qed

lemma sample_login_user: "ClientUser (mgr sample_login) 4 = 5" "AnonymousUser sample_login = 0"
  "SessionsLimit sample_login = [5 \<mapsto> 1]"
proof -
  show "ClientUser (mgr sample_login) 4 = 5" by (subst sample_login_state) simp
  show "AnonymousUser sample_login = 0" by (subst sample_login_state) (simp add: sample_fields)
  show "SessionsLimit sample_login = [5 \<mapsto> 1]"
    by (subst sample_login_state) (simp add: sample_lobby_def client_connected_def sample_server_def)
qed

lemma login_succeeds_witness:
  "\<exists>s1 s2. s1 = data_received sample_sign 0 [7] 4 authenticate_request sample_lobby \<and>
     s2 = data_received sample_sign 0 [] 4 (signature_frame (signature_payload sample_sign [97] [52, 50] [7])) s1 \<and>
     ClientUser (mgr s2) 4 = 5 \<and> raised s2 = raised sample_lobby @ [OnClientAuthorized 4 5, OnClientUserChange 4 0 5]"
proof -
  have "str_ok (sample_sign [52, 50] [7])" by (simp add: sample_sign_def str_ok_def)
  then show ?thesis
    using login_succeeds [OF sample_fields(1-3) _ sample_fields(5,6) _ _ _ refl refl, where token = "[7]" and sign = sample_sign]
      sample_fields sample_payload
    by (simp add: str_ok_def)
qed

text \<open>
  C3: Whatever bytes any clients send, in any order and on any threads: a client belongs to the anonymous
  user, or it has been sent a challenge and has answered it with the name of its user and the signature
  of this challenge with the key of this user.
\<close>

theorem no_login_without_signature:
  assumes "server_reachable sign s" and "ClientUser (mgr s) c \<noteq> AnonymousUser s"
  shows "\<exists>token response n. (c, challenge_message token) \<in> set (sent s) \<and>
    UserAuthenticationResult s c = Some response \<and>
    parse_response response = Inr (n, sign (ApiKey s (ClientUser (mgr s) c)) token) \<and>
    directory s n = Some (ClientUser (mgr s) c)"
  using server_invD(1) [OF server_reachable_inv [OF assms(1)], of c] assms(2) by (simp add: genuine_def)

lemma no_login_without_signature_witness:
  "\<exists>token response n. (4, challenge_message token) \<in> set (sent sample_login) \<and>
     UserAuthenticationResult sample_login 4 = Some response \<and>
     parse_response response = Inr (n, sample_sign (ApiKey sample_login 5) token) \<and> directory sample_login n = Some 5"
  using no_login_without_signature [OF sample_reachable(3), of 4] by (simp add: sample_login_user)

lemma server_run_reachable: "server_run sign states \<Longrightarrow> states \<noteq> [] \<and> server_reachable sign (hd states)"
  by (induction rule: server_run.induct) (auto intro: server_reachable.intros)

lemma server_run_within:
  assumes "server_run sign states" and "u \<noteq> AnonymousUser (hd states)"
    and "\<forall>s \<in> set states. \<exists>limit. SessionsLimit s u = Some limit \<and> sint limit \<le> bound"
  shows "int (length (ConnectedClients (mgr (hd states)) u)) \<le> max 0 bound"
  using assms
proof (induction rule: server_run.induct)
  case (start s)
  then show ?case by (auto simp: fresh_server_def initial_manager_def)
next
  case (step s earlier s')
  then obtain limit where l: "SessionsLimit s u = Some limit" "sint limit \<le> bound" by auto
  have "u \<noteq> AnonymousUser s" using step by (simp add: server_step_anonymous)
  then have "int (length (ConnectedClients (mgr s') u)) \<le> max (int (length (ConnectedClients (mgr s) u))) (sint limit)"
    and "int (length (ConnectedClients (mgr s) u)) \<le> max 0 bound"
    using server_step_within [OF step(2) _ l(1)] step by auto
  moreover from this(2) l(2) have "max (int (length (ConnectedClients (mgr s) u))) (sint limit) \<le> max 0 bound" by simp
  ultimately show ?case by simp
qed

text \<open>
  C11: Frames are handled one at a time, so logins do not overlap; the operator may raise and lower limits, which
  disconnects nobody. If a user other than the anonymous one has had a limit of sessions from the start of the
  server on, it never has more clients than the largest limit it has had so far; so while its limit has not been
  lowered, not more than its limit.
\<close>

theorem sessions_limit_kept:
  assumes "server_run sign (s # earlier)" and "u \<noteq> AnonymousUser s"
    and "\<forall>s' \<in> set (s # earlier). \<exists>limit. SessionsLimit s' u = Some limit \<and> sint limit \<le> bound"
  shows "int (length (ConnectedClients (mgr s) u)) \<le> max 0 bound"
  using server_run_within [OF assms(1) _ assms(3)] assms(2) by simp

lemma sample_run: "server_run sample_sign [sample_login, sample_waiting, sample_lobby, sample_server]"
proof -
  have "server_run sample_sign [sample_server]"
    by (rule server_run.start) (auto simp: fresh_server_def sample_server_def)
  moreover have "server_step sample_sign sample_server sample_lobby"
    unfolding sample_lobby_def by (rule server_step.connect) (simp add: sample_server_def initial_manager_def)
  moreover have "server_step sample_sign sample_lobby sample_waiting" "server_step sample_sign sample_waiting sample_login"
    unfolding sample_waiting_def sample_login_def by (rule server_step.frame)+
  ultimately show ?thesis by (blast intro: server_run.step)
qed

lemma sessions_limit_kept_witness: "length (ConnectedClients (mgr sample_login) 5) \<le> 1"
proof -
  have "SessionsLimit sample_server 5 = Some 1" "SessionsLimit sample_lobby 5 = Some 1" "SessionsLimit sample_waiting 5 = Some 1"
    "SessionsLimit sample_login 5 = Some 1"
    using sample_login_user(3) request_waits [OF sample_fields(1), of sample_sign 0 "[7]"]
    by (simp_all add: sample_waiting_def sample_lobby_def client_connected_def) (simp_all add: sample_server_def)
  then show ?thesis using sessions_limit_kept [OF sample_run, of 5 1] sample_login_user(2) by simp
qed

text \<open>
  The check and the change of \<open>TryAddClient\<close> are not one step: \<open>userLock\<close> belongs to the client and
  \<open>infoLock\<close> is only read, so two clients can both find the last place free and both take it.
\<close>

theorem overlapping_logins_exceed_limit:
  assumes "SessionsLimit s u = Some limit" and "int (length (ConnectedClients (mgr s) u)) + 1 = sint limit"
    and "c \<noteq> d" and "{c, d} \<inter> set (ConnectedClients (mgr s) u) = {}"
    and "ClientUser (mgr s) c \<noteq> u" and "ClientUser (mgr s) d \<noteq> u"
  shows "has_room u s \<and> int (length (ConnectedClients (mgr (set_user d u (set_user c u s))) u)) = sint limit + 1"
  using assms by (simp add: has_room_def Let_def)

section \<open>Failed logins\<close>

lemma AuthenticateClient_wrong:
  assumes "parse_response data = Inr (n, sg)" and "directory s n = Some u" and "sg \<noteq> sign (ApiKey s u) token"
  shows "AuthenticateClient sign c token data s = (Inr (None, n, Some u),
    s\<lparr>sent := sent s @ [(c, result_message False ''Password is incorrect.'')]\<rparr>)"
proof -
  obtain r where "ReadString data = Inr (n, r)"
    using assms(1) by (auto simp: parse_response_def rbind_eq_Inr split: sum.splits)
  then have "data \<noteq> []" using shrinksD [OF ReadString_shrinks] by fastforce
  then show ?thesis using assms by (simp add: AuthenticateClient_def sendResult_def SendDirect_def)
qed

lemma finish_wrong:
  assumes "parse_response data = Inr (n, sg)" and "directory s n = Some u" and "sg \<noteq> sign (ApiKey s u) token"
    and "clientVotes (mgr s) c = None" and "upgradeable (mgr s) = None"
  shows "finish_authentication sign t c token data s = (Inr (),
    s\<lparr>sent := sent s @ [(c, result_message False ''Password is incorrect.'')] @
        (if VoteMultiplier (mgr s) u \<noteq> 1 then [(c, multiplier_message (VoteMultiplier (mgr s) u))] else []),
      raised := raised s @ [OnClientAuthorized c u, OnClientUserChange c (AnonymousUser s) u]\<rparr>)"
  using assms(4,5)
  by (simp add: finish_authentication_def AuthenticateClient_wrong [where sign = sign and token = token, OF assms(1-3)] announce_without_votes)

text \<open>
  C39: A wrong signature for an existing user changes no client's user and the client is told so, but the
  server then announces the login: it sends the multiplier of the user and raises
  \<open>OnClientAuthorized\<close> and \<open>OnClientUserChange\<close>, because it tests the user it looked up and not the
  result.
\<close>

theorem failed_login_is_announced:
  assumes "UserAuthenticationResult s c = None" and "waiting s c = [token]" and "length data < 2 ^ 31"
    and "parse_response data = Inr (n, sg)" and "directory s n = Some u" and "sg \<noteq> sign (ApiKey s u) token"
    and "clientVotes (mgr s) c = None" and "upgradeable (mgr s) = None"
    and "s' = data_received sign t token' c (signature_frame data) s"
  shows "mgr s' = mgr s \<and>
    sent s' = sent s @ [(c, result_message False ''Password is incorrect.'')] @
      (if VoteMultiplier (mgr s) u \<noteq> 1 then [(c, multiplier_message (VoteMultiplier (mgr s) u))] else []) \<and>
    raised s' = raised s @ [OnClientAuthorized c u, OnClientUserChange c (AnonymousUser s) u]"
  using assms(5-8) unfolding assms(9) response_resumes [OF assms(1-3)]
  by (simp add: guarded_def finish_wrong [where sign = sign and token = token, OF assms(4)])

lemma sample_waiting_fields:
  "sample_waiting = sample_lobby\<lparr>sent := [(4, challenge_message [7])], waiting := (\<lambda>_. [])(4 := [[7]])\<rparr>"
  using request_waits [OF sample_fields(1), of sample_sign 0 "[7]"]
  by (simp add: sample_waiting_def) (simp add: sample_lobby_def client_connected_def sample_server_def fun_upd_def)

lemma failed_login_is_announced_witness:
  "\<exists>s'. s' = data_received sample_sign 0 [] 4 (signature_frame (WriteString [97] @ WriteString [0])) sample_waiting \<and>
     ClientUser (mgr s') 4 = 0 \<and> OnClientAuthorized 4 5 \<in> set (raised s')"
proof -
  have p: "parse_response (WriteString [97] @ WriteString [0]) = Inr ([97], [0])"
    by (rule parse_signature) (simp_all add: str_ok_def)
  have "length (WriteString [97] @ WriteString [0]) < 2 ^ 31"
    by (simp add: WriteString_def Write7BitEncodedInt_def enc7.simps)
  moreover have "UserAuthenticationResult sample_waiting 4 = None" "waiting sample_waiting 4 = [[7]]"
    "directory sample_waiting [97] = Some 5" "ApiKey sample_waiting 5 = [52, 50]"
    "clientVotes (mgr sample_waiting) 4 = None" "upgradeable (mgr sample_waiting) = None"
    using sample_fields by (simp_all add: sample_waiting_fields)
  moreover have "ClientUser (mgr sample_waiting) 4 = 0"
    by (simp add: sample_waiting_fields sample_lobby_def client_connected_def sample_server_def channel_connected_def
        initial_manager_def Let_def)
  ultimately show ?thesis
    using failed_login_is_announced [OF _ _ _ p _ _ _ _ refl, of sample_waiting 4 "[7]" 5 sample_sign 0 "[]"]
    by (simp add: sample_sign_def)
qed


text \<open>
  \<open>UserAuthenticationResult\<close> is completed once in the life of a connection. After a failed login the
  server answers every further attempt from the old response, before the client has seen the new
  challenge, and drops what the client then sends: unless the old signature fits the new challenge, the
  client cannot log in on this connection any more.
\<close>

theorem second_login_uses_old_response:
  assumes "UserAuthenticationResult s c = Some old" and "parse_response old = Inr (n, sg)"
    and "directory s n = Some u" and "sg \<noteq> sign (ApiKey s u) token" and "length data < 2 ^ 31"
    and "clientVotes (mgr s) c = None" and "upgradeable (mgr s) = None"
    and s1: "s1 = data_received sign t token c authenticate_request s"
    and s2: "s2 = data_received sign t' token' c (signature_frame data) s1"
  shows "mgr s2 = mgr s \<and> (c, result_message False ''Password is incorrect.'') \<in> set (sent s1) \<and> s2 = s1"
proof -
  let ?v = "s\<lparr>sent := sent s @ [(c, challenge_message token)]\<rparr>"
  have "authenticate_frame sign t token c s = finish_authentication sign t c token old ?v"
    using assms(1) by (simp add: authenticate_frame_def SendDirect_def)
  also have "\<dots> = (Inr (), ?v\<lparr>sent := sent ?v @ [(c, result_message False ''Password is incorrect.'')] @
        (if VoteMultiplier (mgr ?v) u \<noteq> 1 then [(c, multiplier_message (VoteMultiplier (mgr ?v) u))] else []),
      raised := raised ?v @ [OnClientAuthorized c u, OnClientUserChange c (AnonymousUser ?v) u]\<rparr>)"
    by (rule finish_wrong [OF assms(2)]) (use assms(3,4,6,7) in simp_all)
  finally have run: "mgr s1 = mgr s" "UserAuthenticationResult s1 c = Some old"
    "(c, result_message False ''Password is incorrect.'') \<in> set (sent s1)"
    using assms(1) by (simp_all add: s1 data_received_def guarded_def request_processed)
  moreover have "s2 = s1"
    using run(2) by (simp add: s2 data_received_def guarded_def response_processed [OF assms(5)] set_response_def)
  ultimately show ?thesis by simp
qed

lemma second_login_uses_old_response_witness:
  "\<exists>s1 s2. s1 = data_received sample_sign 0 [8] 4 authenticate_request sample_login \<and>
     s2 = data_received sample_sign 0 [] 4 (signature_frame (signature_payload sample_sign [97] [52, 50] [8])) s1 \<and>
     s2 = s1"
proof -
  have "UserAuthenticationResult sample_login 4 = Some (signature_payload sample_sign [97] [52, 50] [7])"
    "directory sample_login [97] = Some 5" "ApiKey sample_login 5 = [52, 50]"
    "clientVotes (mgr sample_login) 4 = None" "upgradeable (mgr sample_login) = None"
    using sample_fields by (subst sample_login_state; simp add: set_user_def set_ClientUser_def Let_def)+
  moreover have "parse_response (signature_payload sample_sign [97] [52, 50] [7]) = Inr ([97], [52, 50, 7])"
    unfolding signature_payload_def sample_sign_def by (simp add: parse_signature str_ok_def)
  moreover have "length (signature_payload sample_sign [97] [52, 50] [8]) < 2 ^ 31"
    by (simp add: signature_payload_def sample_sign_def WriteString_def Write7BitEncodedInt_def enc7.simps)
  ultimately show ?thesis
    using second_login_uses_old_response [of sample_login 4 _ "[97]" "[52, 50, 7]" 5 sample_sign "[8]" _ _ 0 _ 0 "[]", OF _ _ _ _ _ _ _ refl refl]
    by (simp add: sample_sign_def)
qed

section \<open>Deleted users\<close>

lemma unauthorize_run:
  "unauthorize_clients a cs s = (Inr (), s\<lparr>mgr := fold (\<lambda>c. set_ClientUser c a) cs (mgr s),
     sent := sent s @ map (\<lambda>c. (c, account_message None None)) cs\<rparr>)"
  by (induction cs arbitrary: s) (simp_all add: SendDirect_def set_user_def)

lemma fold_seats:
  assumes "\<forall>c \<in> set cs. ClientUser m c = u" and "u \<noteq> a" and "distinct cs"
  shows "ConnectedClients (fold (\<lambda>c. set_ClientUser c a) cs m) u = filter (\<lambda>c. c \<notin> set cs) (ConnectedClients m u) \<and>
    ClientUser (fold (\<lambda>c. set_ClientUser c a) cs m) = (\<lambda>d. if d \<in> set cs then a else ClientUser m d) \<and>
    tallies (fold (\<lambda>c. set_ClientUser c a) cs m) = tallies m \<and>
    upgradeable (fold (\<lambda>c. set_ClientUser c a) cs m) = upgradeable m"
  using assms
proof (induction cs arbitrary: m)
  case Nil
  then show ?case by (simp add: fun_eq_iff)
next
  case (Cons c cs)
  let ?v = "set_ClientUser c a m"
  have v: "ConnectedClients ?v u = filter (\<lambda>d. d \<noteq> c) (ConnectedClients m u)"
    "ClientUser ?v = (ClientUser m)(c := a)" "tallies ?v = tallies m" "upgradeable ?v = upgradeable m"
    using Cons.prems by (auto simp: set_ClientUser_def Let_def removeAll_filter_not_eq intro: filter_cong)
  have "\<forall>d \<in> set cs. ClientUser ?v d = u" using Cons.prems by auto
  then have "ConnectedClients (fold (\<lambda>c. set_ClientUser c a) cs ?v) u = filter (\<lambda>c. c \<notin> set cs) (ConnectedClients ?v u) \<and>
    ClientUser (fold (\<lambda>c. set_ClientUser c a) cs ?v) = (\<lambda>d. if d \<in> set cs then a else ClientUser ?v d) \<and>
    tallies (fold (\<lambda>c. set_ClientUser c a) cs ?v) = tallies ?v \<and>
    upgradeable (fold (\<lambda>c. set_ClientUser c a) cs ?v) = upgradeable ?v"
    using Cons.prems by (intro Cons.IH) auto
  then show ?case by (simp only: fold_simps v) (auto simp: fun_eq_iff intro: filter_cong)
qed

text \<open>
  C40: When a user is deleted, its clients become anonymous and are told so, but nobody else is: the loop
  that should raise \<open>OnClientUnauthorized\<close> and \<open>OnClientUserChange\<close> runs over the lazy query a second
  time, and by then the user has no clients left. The votes of these clients keep their old weight in
  the tallies.
\<close>

theorem deleted_user_change_not_announced:
  assumes "upgradeable (mgr s) = None" and "u \<noteq> AnonymousUser s"
    and "\<forall>c \<in> set (ConnectedClients (mgr s) u). ClientUser (mgr s) c = u"
    and "distinct (ConnectedClients (mgr s) u)"
    and "s' = snd (user_deleted t u s)"
  shows "(\<forall>c \<in> set (ConnectedClients (mgr s) u). ClientUser (mgr s') c = AnonymousUser s \<and>
      (c, account_message None None) \<in> set (sent s')) \<and>
    ConnectedClients (mgr s') u = [] \<and> raised s' = raised s @ [OnUserDeleted u] \<and> tallies (mgr s') = tallies (mgr s)"
proof -
  let ?cs = "ConnectedClients (mgr s) u"
  let ?m = "fold (\<lambda>c. set_ClientUser c (AnonymousUser s)) ?cs (mgr s)"
  have m: "ConnectedClients ?m u = []" "ClientUser ?m = (\<lambda>d. if d \<in> set ?cs then AnonymousUser s else ClientUser (mgr s) d)"
    "tallies ?m = tallies (mgr s)" "upgradeable ?m = None"
    using fold_seats [OF assms(3,2,4)] assms(1) by (simp_all add: filter_empty_conv)
  have "s' = s\<lparr>mgr := ?m\<lparr>upgradeable := Some t\<rparr>, sent := sent s @ map (\<lambda>c. (c, account_message None None)) ?cs,
      raised := raised s @ [OnUserDeleted u]\<rparr>"
    unfolding assms(5) user_deleted_def using m(1,4)
    by (simp add: unauthorize_run raise_event_def on_manager_def HandleUserDeleted_def with_upgradeable_lock_def)
  then show ?thesis using m by simp
qed

lemma deleted_user_change_not_announced_witness:
  "\<exists>s'. s' = snd (user_deleted 0 5 (set_user 4 5 sample_lobby)) \<and> ClientUser (mgr s') 4 = 0 \<and>
     raised s' = [OnClientConnected 4, OnUserDeleted 5]"
proof -
  have "ConnectedClients (mgr (set_user 4 5 sample_lobby)) 5 = [4]"
    by (simp add: Let_def) (simp add: sample_lobby_def client_connected_def sample_server_def channel_connected_def
        initial_manager_def Let_def)
  moreover have "upgradeable (mgr (set_user 4 5 sample_lobby)) = None" "raised sample_lobby = [OnClientConnected 4]"
    using sample_fields by (simp_all add: set_ClientUser_def Let_def)
      (simp add: sample_lobby_def client_connected_def sample_server_def)
  ultimately show ?thesis
    using deleted_user_change_not_announced [OF _ _ _ _ refl, of "set_user 4 5 sample_lobby" 5 0] sample_fields
    by simp
qed

end
