(* ===== verification/VotingClient.thy ===== *)
theory VotingClient
  imports ServerProps
begin

text \<open>
  \<open>core/Client/VotingClient.cs\<close>: what the client makes of the messages of the server. A
  \<open>TaskCompletionSource\<close> is its state; the first completion counts.
\<close>

section \<open>Messages from the server\<close>

datatype completion = Pending | Completed | Failed

datatype client_event =
    OnDisconnect string
  | OnVoteMultiplierChange i32 i32
  | OnUserChanged "cs_string option"
  | OnAuthorizationFinished bool cs_string
  | OnConnectionFinished

record voting_client =
  operationTypes :: "i64 \<Rightarrow> ClientOperationType option"
  voteMultiplierCache :: i32
  userName :: "cs_string option"
  handshake :: completion
  AuthenticationFetchToken :: "cs_string option"
  AuthenticationResult :: "(bool \<times> cs_string) option"
  disposed :: bool
  outbox :: "u8 list list"
  notified :: "client_event list"

type_synonym 'a client_action = "(voting_client, net_exn, 'a) comp"

text \<open>A read that may throw, from the rest of the message.\<close>

definition reading_of :: "'a dec \<Rightarrow> u8 list \<Rightarrow> ('a \<times> u8 list) client_action" where
  "reading_of d bs = ask (\<lambda>_. d bs)"

definition notify :: "client_event \<Rightarrow> unit client_action" where
  "notify e = upd (\<lambda>v. v\<lparr>notified := notified v @ [e]\<rparr>)"

definition complete :: "completion \<Rightarrow> voting_client \<Rightarrow> voting_client" where
  "complete outcome v = (if handshake v = Pending then v\<lparr>handshake := outcome\<rparr> else v)"

text \<open>
  The loop over the operation types of the handshake. \<open>Clear\<close> only empties the dictionary: the old
  types are not disposed.
\<close>

fun read_types :: "nat \<Rightarrow> u8 list \<Rightarrow> unit client_action" where
  "read_types 0 bs = ret ()"
| "read_types (Suc n) bs =
     bnd (reading_of ReadInt32 bs) (\<lambda>(instructionsLength, r1).
     bnd (reading_of (ReadBytes instructionsLength) r1) (\<lambda>(instructions, r2).
     bnd (reading_of ReadInt64 r2) (\<lambda>(typeId, r3).
     thn (upd (\<lambda>v. v\<lparr>operationTypes := (operationTypes v)
            (typeId \<mapsto> \<lparr>cId = typeId, cInstructions = instructions, cTypeDisposed = False\<rparr>)\<rparr>))
       (read_types n r3))))"

definition handshake_body :: "u8 list \<Rightarrow> unit client_action" where
  "handshake_body bs =
     bnd (reading_of ReadString bs) (\<lambda>(versionString, r).
       if versionString \<noteq> utf8_lit ''VOTE-2.3'' then upd (complete Failed)
       else
         bnd (reading_of ReadInt32 r) (\<lambda>(arrayLength, r').
         thn (upd (\<lambda>v. v\<lparr>operationTypes := (\<lambda>_. None)\<rparr>))
           (thn (read_types (nat (sint arrayLength)) r') (upd (complete Completed)))))"

text \<open>The \<open>catch\<close> completes the handshake with the result \<open>false\<close>, which nobody looks at.\<close>

definition handshake_message_received :: "u8 list \<Rightarrow> unit client_action" where
  "handshake_message_received bs v =
     (case handshake_body bs v of (Inl _, v') \<Rightarrow> (Inr (), complete Completed v') | (Inr u, v') \<Rightarrow> (Inr u, v'))"

definition register_instance :: "u8 list" where
  "register_instance = WriteBoolean True @ WriteString (utf8_lit ''REG'')"

definition DisposeClient :: "voting_client \<Rightarrow> voting_client" where
  "DisposeClient v =
     (if disposed v then v
      else (complete Completed v)\<lparr>disposed := True, outbox := outbox v @ [register_instance], operationTypes := (\<lambda>_. None)\<rparr>)"

definition set_multiplier_cache :: "i32 \<Rightarrow> voting_client \<Rightarrow> voting_client" where
  "set_multiplier_cache m v = v\<lparr>voteMultiplierCache := m\<rparr>"

definition status_update :: "u8 list \<Rightarrow> unit client_action" where
  "status_update bs =
     bnd (reading_of ReadString bs) (\<lambda>(stat, r).
       if stat = utf8_lit ''MUL'' then
         bnd (reading_of Read7BitEncodedInt r) (\<lambda>(multiplier, _). (\<lambda>v.
           thn (upd (set_multiplier_cache multiplier))
             (notify (OnVoteMultiplierChange (voteMultiplierCache v) multiplier)) v))
       else if stat = utf8_lit ''ACO'' then
         bnd (reading_of ReadBoolean r) (\<lambda>(authorized, r').
         bnd (if authorized then reading_of ReadString r' else ret ([], r')) (\<lambda>(name, r'').
         let user = (if authorized then Some name else None) in
         thn (upd (\<lambda>v. v\<lparr>userName := user\<rparr>))
           (thn (notify (OnUserChanged user))
             (bnd (reading_of Read7BitEncodedInt r'') (\<lambda>(newMultiplier, _). (\<lambda>v.
               thn (upd (set_multiplier_cache newMultiplier))
                 (if voteMultiplierCache v \<noteq> newMultiplier
                  then notify (OnVoteMultiplierChange (voteMultiplierCache v) newMultiplier) else ret ()) v))))))
       else ret ())"

definition HandleIncomingData :: "u8 list \<Rightarrow> unit client_action" where
  "HandleIncomingData data = (\<lambda>v.
     if disposed v \<or> data = [] then ret () v
     else
       bnd (reading_of ReadString data) (\<lambda>(command, r).
         if command = utf8_lit ''INIT'' then handshake_message_received r
         else if command = utf8_lit ''END'' then
           thn (notify (OnDisconnect ''Session ended normally.'')) (upd DisposeClient)
         else if command = utf8_lit ''AUTH'' then
           bnd (reading_of ReadString r) (\<lambda>(token, _). upd (\<lambda>v.
             if AuthenticationFetchToken v = None then v\<lparr>AuthenticationFetchToken := Some token\<rparr> else v))
         else if command = utf8_lit ''AUTH_RES'' then
           bnd (reading_of ReadBoolean r) (\<lambda>(success, r').
           bnd (reading_of ReadString r') (\<lambda>(reason, _). upd (\<lambda>v.
             if AuthenticationResult v = None then v\<lparr>AuthenticationResult := Some (success, reason)\<rparr> else v)))
         else if command = utf8_lit ''UPD'' then status_update r
         else throw ProtocolViolationException) v)"

text \<open>Messages in the order in which they arrive; the socket's loop outlives the handler's exceptions.\<close>

definition deliver :: "u8 list list \<Rightarrow> voting_client \<Rightarrow> voting_client" where
  "deliver messages v = fold (\<lambda>m v. snd (HandleIncomingData m v)) messages v"

definition messages_for :: "client \<Rightarrow> (client \<times> u8 list) list \<Rightarrow> u8 list list" where
  "messages_for c msgs = map snd (filter (\<lambda>(d, _). d = c) msgs)"

end
