(* ===== verification/ClientProps.thy ===== *)
theory ClientProps
  imports VotingClient
begin

text \<open>
  The properties of the client: it learns the templates of the server, a login works from end to end, and
  where the messages of the server and the client's reading of them do not agree.
\<close>

section \<open>Reading one message\<close>

lemma literal_differ:
  "utf8_lit ''END'' \<noteq> utf8_lit ''INIT''" "utf8_lit ''AUTH'' \<noteq> utf8_lit ''END''" "utf8_lit ''AUTH_RES'' \<noteq> utf8_lit ''END''"
  "utf8_lit ''UPD'' \<noteq> utf8_lit ''INIT''" "utf8_lit ''UPD'' \<noteq> utf8_lit ''END''" "utf8_lit ''UPD'' \<noteq> utf8_lit ''AUTH''"
  "utf8_lit ''UPD'' \<noteq> utf8_lit ''AUTH_RES''" "utf8_lit ''ACO'' \<noteq> utf8_lit ''MUL''"
  by (simp_all add: utf8_lit_def)

lemma reading_simps [simp]: "reading_of d bs v = (d bs, v)"
  by (simp add: reading_of_def)

lemma bnd_reading [simp]:
  "bnd (reading_of d bs) k v = (case d bs of Inl e \<Rightarrow> (Inl e, v) | Inr p \<Rightarrow> k p v)"
  by (simp add: bnd_split)

lemma notify_apply [simp]: "notify e v = (Inr (), v\<lparr>notified := notified v @ [e]\<rparr>)"
  by (simp add: notify_def)

lemma bnd_notify [simp]: "bnd (notify e) k v = k () (v\<lparr>notified := notified v @ [e]\<rparr>)"
  by (simp add: bnd_split)

lemmas client_simps = cmd_differ literal_differ ReadString_Write ReadBoolean_Write Read7BitEncodedInt_Write ReadInt32_Write
  ReadInt64_Write HandleIncomingData_def

lemma challenge_received:
  "\<not> disposed v \<Longrightarrow> str_ok token \<Longrightarrow> HandleIncomingData (challenge_message token) v =
    (Inr (), if AuthenticationFetchToken v = None then v\<lparr>AuthenticationFetchToken := Some token\<rparr> else v)"
  using string_codec.dec_enc_exact [of token] by (simp add: client_simps challenge_message_def)

lemma result_received:
  "\<not> disposed v \<Longrightarrow> length reason < 2 ^ 31 \<Longrightarrow> HandleIncomingData (result_message b reason) v =
    (Inr (), if AuthenticationResult v = None then v\<lparr>AuthenticationResult := Some (b, utf8_lit reason)\<rparr> else v)"
  using string_codec.dec_enc_exact [of "utf8_lit reason"] by (simp add: client_simps result_message_def)

lemma multiplier_received:
  "\<not> disposed v \<Longrightarrow> HandleIncomingData (multiplier_message m) v =
    (Inr (), v\<lparr>voteMultiplierCache := m, notified := notified v @ [OnVoteMultiplierChange (voteMultiplierCache v) m]\<rparr>)"
  using int7_codec.dec_enc_exact [of m]
  by (simp add: client_simps multiplier_message_def status_update_def set_multiplier_cache_def)

section \<open>The handshake\<close>

definition client_type :: "OperationType \<Rightarrow> ClientOperationType" where
  "client_type tp = \<lparr>cId = Id tp, cInstructions = Instructions tp, cTypeDisposed = False\<rparr>"

lemma read_types_written:
  assumes "\<forall>tp \<in> set tps. length (Instructions tp) < 2 ^ 31" and "distinct (map Id tps)"
  shows "read_types (length tps)
      (concat (map (\<lambda>tp. WriteInt32 (of_nat (length (Instructions tp))) @ Instructions tp @ WriteInt64 (Id tp)) tps)) v =
    (Inr (), v\<lparr>operationTypes := operationTypes v ++ map_of (map (\<lambda>tp. (Id tp, client_type tp)) tps)\<rparr>)"
  using assms
proof (induction tps arbitrary: v)
  case Nil
  then show ?case by simp
next
  case (Cons tp tps)
  have "map_of (map (\<lambda>tp. (Id tp, client_type tp)) tps) (Id tp) = None"
    using Cons.prems(2) by (auto simp: map_of_eq_None_iff)
  then have types: "operationTypes v ++ map_of (map (\<lambda>tp. (Id tp, client_type tp)) (tp # tps)) =
      (operationTypes v)(Id tp \<mapsto> client_type tp) ++ map_of (map (\<lambda>tp. (Id tp, client_type tp)) tps)"
    by (auto simp: map_add_def fun_eq_iff split: option.splits)
  have rest: "read_types (length tps) (concat (map (\<lambda>tp. WriteInt32 (of_nat (length (Instructions tp))) @
        Instructions tp @ WriteInt64 (Id tp)) tps)) w =
      (Inr (), w\<lparr>operationTypes := operationTypes w ++ map_of (map (\<lambda>tp. (Id tp, client_type tp)) tps)\<rparr>)" for w
    using Cons.prems by (intro Cons.IH) simp_all
  have "read_types (length (tp # tps)) (concat (map (\<lambda>tp. WriteInt32 (of_nat (length (Instructions tp))) @
        Instructions tp @ WriteInt64 (Id tp)) (tp # tps))) v =
      read_types (length tps) (concat (map (\<lambda>tp. WriteInt32 (of_nat (length (Instructions tp))) @
        Instructions tp @ WriteInt64 (Id tp)) tps)) (v\<lparr>operationTypes := (operationTypes v)(Id tp \<mapsto> client_type tp)\<rparr>)"
    using Cons.prems(1) by (simp add: ReadInt32_Write ReadBytes_append ReadInt64_Write client_type_def)
  then show ?case unfolding types rest by simp
qed

lemma handshake_received:
  assumes "\<not> disposed v" and "handshake v = Pending" and "length tps < 2 ^ 31"
    and "\<forall>tp \<in> set tps. length (Instructions tp) < 2 ^ 31" and "distinct (map Id tps)"
  shows "HandleIncomingData (handshake_message tps) v =
    (Inr (), v\<lparr>operationTypes := map_of (map (\<lambda>tp. (Id tp, client_type tp)) tps), handshake := Completed\<rparr>)"
proof -
  have "sint (of_nat (length tps) :: i32) = int (length tps)" by (rule sint_of_nat_small [OF assms(3)])
  then show ?thesis
    using assms(1,2) read_types_written [OF assms(4,5)]
    by (simp add: client_simps handshake_message_def handshake_message_received_def handshake_body_def complete_def bnd_split)
qed

text \<open>
  C6: The handshake: a client that is sent the templates of the server holds, for every template, its
  number and its instructions and nothing else, and the connection attempt goes on.
\<close>

theorem client_learns_templates:
  assumes "\<not> disposed v" and "handshake v = Pending" and "length tps < 2 ^ 31"
    and "\<forall>tp \<in> set tps. length (Instructions tp) < 2 ^ 31" and "distinct (map Id tps)"
  shows "HandleIncomingData (handshake_message tps) v =
    (Inr (), v\<lparr>operationTypes := map_of (map (\<lambda>tp. (Id tp, client_type tp)) tps), handshake := Completed\<rparr>)"
  using assms by (rule handshake_received)

definition new_client :: voting_client where
  "new_client = \<lparr>operationTypes = (\<lambda>_. None), voteMultiplierCache = 1, userName = None, handshake = Pending,
     AuthenticationFetchToken = None, AuthenticationResult = None, disposed = False, outbox = [], notified = []\<rparr>"

lemma client_learns_templates_witness:
  "operationTypes (snd (HandleIncomingData (handshake_message [\<lparr>Id = 1, Instructions = [5, 6]\<rparr>]) new_client)) 1
    = Some \<lparr>cId = 1, cInstructions = [5, 6], cTypeDisposed = False\<rparr>"
  by (subst client_learns_templates) (simp_all add: new_client_def client_type_def)

text \<open>
  Whatever follows the version in the handshake, even nothing at all, the attempt to connect goes on: the
  \<open>catch\<close> completes the handshake with a result that is not looked at instead of failing it.
\<close>

theorem broken_handshake_is_accepted:
  assumes "\<not> disposed v" and "handshake v = Pending"
  shows "fst (HandleIncomingData (WriteString (utf8_lit ''INIT'') @ WriteString (utf8_lit ''VOTE-2.3'') @ rest) v) = Inr () \<and>
    handshake (snd (HandleIncomingData (WriteString (utf8_lit ''INIT'') @ WriteString (utf8_lit ''VOTE-2.3'') @ rest) v)) = Completed"
proof -
  have kept: "handshake (snd (read_types n bs w)) = handshake w" for n bs w
    by (induction n arbitrary: bs w) (simp_all split: sum.split prod.split)
  obtain r w where run: "handshake_body (WriteString (utf8_lit ''VOTE-2.3'') @ rest) v = (r, w)" by fastforce
  have "(r \<noteq> Inr () \<and> handshake w = Pending) \<or> (r = Inr () \<and> handshake w = Completed)"
  proof (cases "ReadInt32 rest")
    case (Inl e)
    then show ?thesis using run assms(2) by (auto simp: handshake_body_def client_simps)
  next
    case (Inr p)
    obtain n r' where p: "p = (n, r')" by (cases p)
    let ?v = "v\<lparr>operationTypes := (\<lambda>_. None)\<rparr>"
    have "handshake (snd (read_types (nat (sint n)) r' ?v)) = Pending" using kept assms(2) by simp
    then show ?thesis using run Inr p
      by (cases "read_types (nat (sint n)) r' ?v"; cases "fst (read_types (nat (sint n)) r' ?v)")
        (auto simp: handshake_body_def client_simps complete_def)
  qed
  then show ?thesis using assms run
    by (cases r) (auto simp: client_simps handshake_message_received_def complete_def)
qed

lemma broken_handshake_is_accepted_witness:
  "handshake (snd (HandleIncomingData (WriteString (utf8_lit ''INIT'') @ WriteString (utf8_lit ''VOTE-2.3'') @ []) new_client)) = Completed"
  using broken_handshake_is_accepted [of new_client "[]"] by (simp add: new_client_def)


section \<open>A login from end to end\<close>

definition new_messages :: "client \<Rightarrow> server \<Rightarrow> server \<Rightarrow> u8 list list" where
  "new_messages c s s' = messages_for c (drop (length (sent s)) (sent s'))"

text \<open>
  The client asks to log in, signs the challenge it receives with its key and reads the answers. When the
  server knows the name with the same key and has room for the session, the client ends up as that user
  on the server and is told \<open>Success.\<close>; but its idea of its multiplier is only renewed when the user's
  multiplier is not 1: a client that had been told another one before keeps it.
\<close>

theorem login_end_to_end:
  assumes "UserAuthenticationResult s c = None" and "waiting s c = []"
    and "directory s n = Some u" and "ClientUser (mgr s) c = u \<or> has_room u s"
    and "clientVotes (mgr s) c = None" and "upgradeable (mgr s) = None"
    and "str_ok n" and "str_ok (sign (ApiKey s u) token)" and "str_ok token"
    and "length (signature_payload sign n (ApiKey s u) token) < 2 ^ 31"
    and "\<not> disposed v" and "AuthenticationFetchToken v = None" and "AuthenticationResult v = None"
    and s1: "s1 = data_received sign t token c authenticate_request s"
    and v1: "v1 = deliver (new_messages c s s1) v"
    and s2: "s2 = data_received sign t' token' c
      (signature_frame (signature_payload sign n (ApiKey s u) (the (AuthenticationFetchToken v1)))) s1"
    and v2: "v2 = deliver (new_messages c s1 s2) v1"
  shows "ClientUser (mgr s2) c = u \<and> AuthenticationResult v2 = Some (True, utf8_lit ''Success.'') \<and>
    voteMultiplierCache v2 = (if VoteMultiplier (mgr s) u \<noteq> 1 then VoteMultiplier (mgr s) u else voteMultiplierCache v)"
proof -
  have sent1: "sent s1 = sent s @ [(c, challenge_message token)]"
    using request_waits [OF assms(1)] by (simp add: s1)
  then have v1': "v1 = v\<lparr>AuthenticationFetchToken := Some token\<rparr>"
    using challenge_received [OF assms(11,9)] assms(12)
    by (simp add: v1 deliver_def new_messages_def messages_for_def)
  then have s2': "s2 = data_received sign t' token' c (signature_frame (signature_payload sign n (ApiKey s u) token)) s1"
    by (simp add: s2)
  note run = login_run [OF assms(1-8,10) s1 s2']
  have new: "new_messages c s1 s2 = result_message True ''Success.'' #
      (if VoteMultiplier (mgr s) u \<noteq> 1 then [multiplier_message (VoteMultiplier (mgr s) u)] else [])"
    by (simp add: new_messages_def messages_for_def sent1 run)
  let ?w = "v1\<lparr>AuthenticationResult := Some (True, utf8_lit ''Success.'')\<rparr>"
  have "\<not> disposed v1" "AuthenticationResult v1 = None" using assms(11,13) by (simp_all add: v1')
  then have "snd (HandleIncomingData (result_message True ''Success.'') v1) = ?w" "\<not> disposed ?w"
    by (simp_all add: result_received)
  then have "v2 = (if VoteMultiplier (mgr s) u \<noteq> 1 then snd (HandleIncomingData (multiplier_message (VoteMultiplier (mgr s) u)) ?w) else ?w)"
    by (simp add: v2 deliver_def new)
  then have "AuthenticationResult v2 = Some (True, utf8_lit ''Success.'')"
    "voteMultiplierCache v2 = (if VoteMultiplier (mgr s) u \<noteq> 1 then VoteMultiplier (mgr s) u else voteMultiplierCache v)"
    using multiplier_received [OF \<open>\<not> disposed ?w\<close>] by (simp_all add: v1')
  moreover have "ClientUser (mgr s2) c = u" by (simp add: run)
  ultimately show ?thesis by simp
qed

lemma login_end_to_end_witness:
  "\<exists>s1 v1 s2 v2. s1 = data_received sample_sign 0 [7] 4 authenticate_request sample_lobby \<and>
     v1 = deliver (new_messages 4 sample_lobby s1) new_client \<and>
     s2 = data_received sample_sign 0 [] 4 (signature_frame (signature_payload sample_sign [97] [52, 50]
       (the (AuthenticationFetchToken v1)))) s1 \<and>
     v2 = deliver (new_messages 4 s1 s2) v1 \<and> voteMultiplierCache v2 = 3"
proof -
  have "str_ok (sample_sign [52, 50] [7])" "str_ok [7]" by (simp_all add: sample_sign_def str_ok_def)
  then show ?thesis
    using login_end_to_end [OF sample_fields(1-3) _ sample_fields(5,6) _ _ _ _ _ _ _ refl refl refl refl,
        where token = "[7]" and sign = sample_sign and v = new_client and t = 0 and t' = 0 and token' = "[]"]
      sample_fields sample_payload
    by (simp add: str_ok_def new_client_def)
qed

text \<open>
  The message that a deleted user's clients are sent lacks the multiplier that the client reads at its
  end: the handler throws after it has changed the user, and the client keeps the multiplier of the user
  that is gone.
\<close>

theorem deletion_message_cannot_be_read:
  assumes "\<not> disposed v"
  shows "HandleIncomingData (account_message None None) v =
    (Inl EndOfStreamException, v\<lparr>userName := None, notified := notified v @ [OnUserChanged None]\<rparr>)"
proof -
  have "Read7BitEncodedInt [] = Inl EndOfStreamException"
    by (simp add: Read7BitEncodedInt_def numeral_eq_Suc ReadByte_def)
  moreover have "ReadBoolean (WriteBoolean False) = Inr (False, [])" using ReadBoolean_Write [of False "[]"] by simp
  ultimately show ?thesis
    using assms by (simp add: client_simps account_message_def status_update_def Let_def)
qed

lemma deletion_message_cannot_be_read_witness:
  "fst (HandleIncomingData (account_message None None) new_client) = Inl EndOfStreamException"
  by (subst deletion_message_cannot_be_read) (simp_all add: new_client_def)

end
