(* ===== verification/ClientConnect.thy ===== *)
theory ClientConnect
  imports ClientProps
begin

text \<open>
  \<open>VotingClient.ConnectAsync\<close> and \<open>SendOperationAsync\<close>: the order of sends and waits of a connection attempt, which
  holds the connection lock until it ends, and the sending of one vote.

  What happens at a wait is a parameter: the messages that are delivered until it is over. A wait that no
  message ends is \<open>Waiting\<close>: the call does not return and keeps the lock. \<open>DisconnectAsync\<close> and the handlers of the
  events return. The counter of attempts that a connection resets belongs to the loop that reconnects.
\<close>

section \<open>Connecting\<close>

datatype stopped = Exception | Waiting

record surroundings =
  socket_connects :: bool
  sends :: "u8 list \<Rightarrow> bool"
  until_handshake :: "u8 list list"
  until_token :: "u8 list list"
  until_result :: "u8 list list"

type_synonym connecting = "(voting_client, stopped, unit) comp"

definition initialize_request :: "u8 list" where
  "initialize_request = WriteBoolean True @ WriteString (utf8_lit ''INIT'')"

definition SendFrame :: "surroundings \<Rightarrow> u8 list \<Rightarrow> connecting" where
  "SendFrame S data = (if sends S data then upd (\<lambda>v. v\<lparr>outbox := outbox v @ [data]\<rparr>) else throw Exception)"

definition tell_client :: "client_event \<Rightarrow> connecting" where
  "tell_client e = upd (\<lambda>v. v\<lparr>notified := notified v @ [e]\<rparr>)"

text \<open>The wait for a task that a message completes.\<close>

definition await_field :: "(voting_client \<Rightarrow> 'a option) \<Rightarrow> u8 list list \<Rightarrow> (voting_client, stopped, 'a) comp" where
  "await_field task messages = (\<lambda>v.
     let v' = deliver messages v in case task v' of None \<Rightarrow> (Inl Waiting, v') | Some x \<Rightarrow> (Inr x, v'))"

text \<open>The wait for the handshake, with the \<open>finally\<close> that disposes the client when it has failed.\<close>

definition await_handshake :: "surroundings \<Rightarrow> connecting" where
  "await_handshake S =
     thn (upd (deliver (until_handshake S)))
       (\<lambda>v. case handshake v of
          Completed \<Rightarrow> ret () v
        | Pending \<Rightarrow> throw Waiting v
        | Failed \<Rightarrow>
            thn (tell_client (OnDisconnect ''Failed to initialize the connection.''))
              (thn (upd DisposeClient) (throw Exception)) v)"

text \<open>\<open>AuthenticationClient.AuthenticateAsync\<close> with the two callbacks of \<open>ConnectAsync\<close>.\<close>

definition Authenticate :: "signer \<Rightarrow> cs_string \<Rightarrow> cs_string \<Rightarrow> surroundings \<Rightarrow> (voting_client, stopped, bool \<times> cs_string) comp" where
  "Authenticate sign user apiKey S =
     thn (SendFrame S authenticate_request)
       (bnd (await_field AuthenticationFetchToken (until_token S)) (\<lambda>serverToken.
         if serverToken = [] then throw Exception
         else
           thn (SendFrame S (signature_frame (signature_payload sign user apiKey serverToken)))
             (await_field AuthenticationResult (until_result S))))"

definition authorize :: "signer \<Rightarrow> (cs_string \<times> cs_string) option \<Rightarrow> surroundings \<Rightarrow> connecting" where
  "authorize sign data S =
     (case data of
        None \<Rightarrow> ret ()
      | Some (user, apiKey) \<Rightarrow>
          thn (upd (\<lambda>v. v\<lparr>AuthenticationFetchToken := None, AuthenticationResult := None\<rparr>))
            (bnd (Authenticate sign user apiKey S) (\<lambda>(success, reason).
              thn (if success then thn (upd (\<lambda>v. v\<lparr>userName := Some user\<rparr>)) (tell_client (OnUserChanged (Some user))) else ret ())
                (tell_client (OnAuthorizationFinished success reason)))))"

definition connect_body :: "signer \<Rightarrow> (cs_string \<times> cs_string) option \<Rightarrow> surroundings \<Rightarrow> connecting" where
  "connect_body sign data S =
     thn (upd (\<lambda>v. v\<lparr>handshake := Pending\<rparr>))
       (thn (if socket_connects S then ret () else throw Exception)
         (thn (SendFrame S initialize_request)
           (thn (await_handshake S)
             (thn (authorize sign data S)
               (thn (SendFrame S register_instance) (tell_client OnConnectionFinished))))))"

text \<open>The \<open>catch\<close> fails the handshake, if it is pending, and throws again.\<close>

definition ConnectAsync :: "signer \<Rightarrow> (cs_string \<times> cs_string) option \<Rightarrow> surroundings \<Rightarrow> connecting" where
  "ConnectAsync sign data S = (\<lambda>v.
     if disposed v then ret () v
     else case connect_body sign data S v of
         (Inl Exception, v') \<Rightarrow> (Inl Exception, complete Failed v')
       | r \<Rightarrow> r)"

section \<open>Sending a vote\<close>

text \<open>
  What one call of \<open>SendOperationAsync\<close> meets: whether the client or the operation is disposed on entry and the
  client at the test of the loop, whether the caller has cancelled by then, how the wait for the lock ends
  (\<open>LockCancelled\<close> is the \<open>TaskCanceledException\<close> that is caught, \<open>LockThrows\<close> any other), what holds under the
  lock, how the send ends, and whether the client was disposed meanwhile, which disposes the lock and makes
  the \<open>Release\<close> of the \<open>finally\<close> throw. The loop runs once at most, because every way through its body leaves it.
\<close>

datatype lock_wait = Granted | LockCancelled | LockThrows
datatype send_end = Sent | SendCancelled | SendThrows

record sending =
  disposed_on_entry :: bool
  disposed_at_loop :: bool
  cancelled_at_loop :: bool
  lock_answer :: lock_wait
  type_disposed_under_lock :: bool
  cancelled_under_lock :: bool
  send_answer :: send_end
  lock_disposed :: bool

text \<open>The result is an exception (\<open>None\<close>) or the value returned, and the frames that were sent.\<close>

definition SendOperationAsync :: "ClientOperation \<Rightarrow> sending \<Rightarrow> bool option \<times> u8 list list" where
  "SendOperationAsync operation W =
     (if disposed_on_entry W then (Some False, [])
      else case ClientSerialize operation of
          None \<Rightarrow> (Some False, [])
        | Some bytes \<Rightarrow>
            let frame = WriteBoolean False @ bytes in
            if \<not> (\<not> disposed_at_loop W \<and> \<not> cancelled_at_loop W) then (Some True, [])
            else (case lock_answer W of
                LockCancelled \<Rightarrow> (Some False, [])
              | LockThrows \<Rightarrow> (None, [])
              | Granted \<Rightarrow>
                  let r = (if type_disposed_under_lock W \<or> cancelled_under_lock W then (Some False, [])
                    else case send_answer W of
                      Sent \<Rightarrow> (Some True, [frame])
                    | SendCancelled \<Rightarrow> (Some False, [])
                    | SendThrows \<Rightarrow> (None, []))
                  in if lock_disposed W then (None, snd r) else r))"

text \<open>
  Unless the lock is disposed, the result says whether the vote was sent, but for one case: a caller that has cancelled before the call,
  or whose client is disposed just after the first test, is told \<open>true\<close> and nothing is sent.
\<close>

theorem sent_iff_told:
  "\<not> lock_disposed W \<Longrightarrow> snd (SendOperationAsync operation W) \<noteq> [] \<longleftrightarrow>
     fst (SendOperationAsync operation W) = Some True \<and> \<not> disposed_at_loop W \<and> \<not> cancelled_at_loop W"
  by (auto simp: SendOperationAsync_def Let_def split: option.split send_end.split lock_wait.split)

theorem cancelled_send_is_told_true:
  assumes "ClientSerialize operation \<noteq> None" and "\<not> disposed_on_entry W" and "cancelled_at_loop W"
  shows "SendOperationAsync operation W = (Some True, [])"
  using assms by (auto simp: SendOperationAsync_def)

section \<open>A session with the server\<close>

lemma bnd_thn: "bnd (thn m k) h v = bnd m (\<lambda>_. bnd k h) v"
  by (simp add: thn_def bnd_def split: prod.split sum.split)

lemma bnd_bnd: "bnd (bnd m k) h v = bnd m (\<lambda>x. bnd (k x) h) v"
  by (simp add: bnd_def split: prod.split sum.split)

lemma await_field_arrives:
  "task (deliver messages v) = Some x \<Longrightarrow> await_field task messages v = (Inr x, deliver messages v)"
  "task (deliver messages v) = Some x \<Longrightarrow> bnd (await_field task messages) k v = k x (deliver messages v)"
  by (simp_all add: await_field_def bnd_def Let_def)

lemma connecting_simps [simp]:
  "sends S data \<Longrightarrow> bnd (SendFrame S data) k v = k () (v\<lparr>outbox := outbox v @ [data]\<rparr>)"
  "\<not> sends S data \<Longrightarrow> bnd (SendFrame S data) k v = (Inl Exception, v)"
  "bnd (tell_client e) k v = k () (v\<lparr>notified := notified v @ [e]\<rparr>)"
  "tell_client e v = (Inr (), v\<lparr>notified := notified v @ [e]\<rparr>)"
  by (simp_all add: SendFrame_def tell_client_def)

lemma initialize_processed:
  "data_received sign t token c initialize_request s =
     s\<lparr>sent := sent s @ (c, handshake_message (templates s)) #
         (if VoteMultiplier (mgr s) (AnonymousUser s) \<noteq> 1 then [(c, multiplier_message (VoteMultiplier (mgr s) (AnonymousUser s)))] else []),
       raised := raised s @ [OnClientHandshakeCompleted c]\<rparr>"
proof -
  have "ProcessIncomingFrame sign t token c initialize_request = initialize_frame c"
    using string_codec.dec_enc_exact [of "utf8_lit ''INIT''"]
    by (intro ext) (simp add: ProcessIncomingFrame_def initialize_request_def ReadBoolean_Write)
  then show ?thesis
    by (simp add: data_received_def guarded_def initialize_frame_def SendDirect_def raise_event_def Let_def)
qed

lemma deliver_simps [simp]: "deliver [] v = v" "deliver (m # ms) v = deliver ms (snd (HandleIncomingData m v))"
  by (simp_all add: deliver_def)

text \<open>What a multiplier the server may send leaves of the client.\<close>

definition maybe_multiplier :: "i32 \<Rightarrow> voting_client \<Rightarrow> voting_client" where
  "maybe_multiplier m v =
     (if m \<noteq> 1 then v\<lparr>voteMultiplierCache := m, notified := notified v @ [OnVoteMultiplierChange (voteMultiplierCache v) m]\<rparr> else v)"

lemma multiplier_delivered:
  "\<not> disposed v \<Longrightarrow> deliver (if m \<noteq> 1 then [multiplier_message m] else []) v = maybe_multiplier m v"
  by (simp add: maybe_multiplier_def multiplier_received)

lemma maybe_multiplier_fields [simp]:
  "operationTypes (maybe_multiplier m v) = operationTypes v" "disposed (maybe_multiplier m v) = disposed v"
  "handshake (maybe_multiplier m v) = handshake v" "AuthenticationFetchToken (maybe_multiplier m v) = AuthenticationFetchToken v"
  "AuthenticationResult (maybe_multiplier m v) = AuthenticationResult v" "outbox (maybe_multiplier m v) = outbox v"
  by (simp_all add: maybe_multiplier_def)

definition templates_ok :: "OperationType list \<Rightarrow> bool" where
  "templates_ok tps \<longleftrightarrow> length tps < 2 ^ 31 \<and> (\<forall>tp \<in> set tps. length (Instructions tp) < 2 ^ 31) \<and> distinct (map Id tps)"

lemma handshake_delivered:
  assumes "\<not> disposed v" and "handshake v = Pending" and "templates_ok tps"
  shows "deliver (handshake_message tps # (if m \<noteq> 1 then [multiplier_message m] else [])) v =
    maybe_multiplier m (v\<lparr>operationTypes := map_of (map (\<lambda>tp. (Id tp, client_type tp)) tps), handshake := Completed\<rparr>)"
proof -
  let ?w = "v\<lparr>operationTypes := map_of (map (\<lambda>tp. (Id tp, client_type tp)) tps), handshake := Completed\<rparr>"
  have "HandleIncomingData (handshake_message tps) v = (Inr (), ?w)"
    using handshake_received [OF assms(1,2)] assms(3) by (simp add: templates_ok_def)
  moreover have "\<not> disposed ?w" using assms(1) by simp
  ultimately show ?thesis using multiplier_delivered [of ?w m] by simp
qed

lemma new_messages_append:
  "sent s' = sent s @ xs \<Longrightarrow> new_messages c s s' = messages_for c xs"
  by (simp add: new_messages_def)

lemma messages_for_simps [simp]:
  "messages_for c [] = []" "messages_for c ((d, m) # xs) = (if d = c then m # messages_for c xs else messages_for c xs)"
  "messages_for c (if b then [(c, m)] else []) = (if b then [m] else [])"
  by (simp_all add: messages_for_def)

text \<open>The server's side of a session: what the three frames of the client make it send.\<close>

lemma server_session:
  assumes "UserAuthenticationResult s c = None" and "waiting s c = []"
    and "directory s n = Some u" and "ClientUser (mgr s) c = u \<or> has_room u s"
    and "clientVotes (mgr s) c = None" and "upgradeable (mgr s) = None"
    and "str_ok n" and "str_ok (sign (ApiKey s u) token)"
    and "length (signature_payload sign n (ApiKey s u) token) < 2 ^ 31"
    and s1: "s1 = data_received sign t0 token0 c initialize_request s"
    and s2: "s2 = data_received sign t token c authenticate_request s1"
    and s3: "s3 = data_received sign t' token' c (signature_frame (signature_payload sign n (ApiKey s u) token)) s2"
  shows "new_messages c s s1 = handshake_message (templates s) #
      (let m = VoteMultiplier (mgr s) (AnonymousUser s) in if m \<noteq> 1 then [multiplier_message m] else [])"
    and "new_messages c s1 s2 = [challenge_message token]"
    and "new_messages c s2 s3 = result_message True ''Success.'' #
      (let m = VoteMultiplier (mgr s) u in if m \<noteq> 1 then [multiplier_message m] else [])"
    and "ClientUser (mgr s3) c = u"
proof -
  note init = initialize_processed [of sign t0 token0 c s, folded s1]
  have room: "has_room u s1 = has_room u s" "ClientUser (mgr s1) c = ClientUser (mgr s) c"
    by (simp_all add: init has_room_def split: option.split)
  have keep: "UserAuthenticationResult s1 c = None" "waiting s1 c = []" "directory s1 n = Some u"
    "ClientUser (mgr s1) c = u \<or> has_room u s1" "clientVotes (mgr s1) c = None" "upgradeable (mgr s1) = None"
    "ApiKey s1 u = ApiKey s u" "VoteMultiplier (mgr s1) = VoteMultiplier (mgr s)"
    unfolding room using assms(1-6) by (simp_all add: init)
  show "new_messages c s s1 = handshake_message (templates s) #
      (let m = VoteMultiplier (mgr s) (AnonymousUser s) in if m \<noteq> 1 then [multiplier_message m] else [])"
    by (simp add: init new_messages_def Let_def)
  have sent2: "sent s2 = sent s1 @ [(c, challenge_message token)]" using request_waits [OF keep(1)] by (simp add: s2)
  then show "new_messages c s1 s2 = [challenge_message token]" by (simp add: new_messages_append)
  have s3': "s3 = data_received sign t' token' c (signature_frame (signature_payload sign n (ApiKey s1 u) token)) s2"
    by (simp only: s3 keep(7))
  have run: "s3 = (if ClientUser (mgr s1) c = u then s1 else set_user c u s1)
     \<lparr>UserAuthenticationResult := (UserAuthenticationResult s1)(c \<mapsto> signature_payload sign n (ApiKey s u) token),
      waiting := (waiting s1)(c := []),
      sent := sent s1 @ [(c, challenge_message token), (c, result_message True ''Success.'')] @
        (if VoteMultiplier (mgr s) u \<noteq> 1 then [(c, multiplier_message (VoteMultiplier (mgr s) u))] else []),
      raised := raised s1 @ [OnClientAuthorized c u, OnClientUserChange c (AnonymousUser s1) u]\<rparr>"
    using login_run [OF keep(1-6) assms(7) _ _ s2 s3'] assms(8,9) keep(7,8) by simp
  then have "sent s3 = sent s2 @ (c, result_message True ''Success.'') #
      (if VoteMultiplier (mgr s) u \<noteq> 1 then [(c, multiplier_message (VoteMultiplier (mgr s) u))] else [])"
    by (simp add: sent2)
  then show "new_messages c s2 s3 = result_message True ''Success.'' #
      (let m = VoteMultiplier (mgr s) u in if m \<noteq> 1 then [multiplier_message m] else [])"
    by (simp add: new_messages_append Let_def)
  show "ClientUser (mgr s3) c = u" by (simp add: run set_user_def set_ClientUser_def Let_def)
qed

text \<open>The client's side: the login on the messages of a server that accepts it, and the whole attempt.\<close>

lemma authorize_accepted:
  assumes "\<not> disposed v" and "str_ok token" and "token \<noteq> []" and "\<And>data. sends S data"
    and "until_token S = [challenge_message token]"
    and "until_result S = result_message True ''Success.'' # (if m \<noteq> 1 then [multiplier_message m] else [])"
  shows "\<exists>v'. authorize sign (Some (n, key)) S v = (Inr (), v') \<and> operationTypes v' = operationTypes v
    \<and> outbox v' = outbox v @ [authenticate_request, signature_frame (signature_payload sign n key token)]
    \<and> userName v' = Some n \<and> AuthenticationResult v' = Some (True, utf8_lit ''Success.'')"
proof -
  let ?frame = "signature_frame (signature_payload sign n key token)"
  let ?v3 = "v\<lparr>AuthenticationFetchToken := None, AuthenticationResult := None, outbox := outbox v @ [authenticate_request]\<rparr>"
  have d3: "deliver [challenge_message token] ?v3 = ?v3\<lparr>AuthenticationFetchToken := Some token\<rparr>"
    using challenge_received [of ?v3 token] assms(1,2) by simp
  let ?v4 = "?v3\<lparr>AuthenticationFetchToken := Some token, outbox := outbox ?v3 @ [?frame]\<rparr>"
  let ?w = "?v4\<lparr>AuthenticationResult := Some (True, utf8_lit ''Success.'')\<rparr>"
  define v5 where "v5 = maybe_multiplier m ?w"
  have "HandleIncomingData (result_message True ''Success.'') ?v4 = (Inr (), ?w)"
    using result_received [of ?v4 "''Success.''" True] assms(1) by simp
  then have d5: "deliver (until_result S) ?v4 = v5"
    unfolding assms(6) v5_def using multiplier_delivered [of ?w m] assms(1) by simp
  have f5: "AuthenticationResult v5 = Some (True, utf8_lit ''Success.'')" "operationTypes v5 = operationTypes v"
    "outbox v5 = outbox v @ [authenticate_request, ?frame]"
    by (simp_all add: v5_def)
  show ?thesis
    using assms(3) d3 d5 f5
    by (simp add: authorize_def Authenticate_def bnd_thn bnd_bnd await_field_arrives assms(4,5) del: deliver_simps)
qed

lemma handshake_arrives:
  assumes "\<not> disposed v" and "handshake v = Pending" and "templates_ok tps"
    and "until_handshake S = handshake_message tps # (if m \<noteq> 1 then [multiplier_message m] else [])"
  shows "\<exists>v'. await_handshake S v = (Inr (), v') \<and> \<not> disposed v' \<and> outbox v' = outbox v
    \<and> operationTypes v' = map_of (map (\<lambda>tp. (Id tp, client_type tp)) tps)"
  using assms(1) handshake_delivered [OF assms(1-3), of m] by (simp add: await_handshake_def assms(4) del: deliver_simps)

lemma client_session:
  assumes "\<not> disposed v" and "templates_ok tps" and "str_ok token" and "token \<noteq> []"
    and "socket_connects S" and "\<And>data. sends S data"
    and "until_handshake S = handshake_message tps # (if m \<noteq> 1 then [multiplier_message m] else [])"
    and "until_token S = [challenge_message token]"
    and "until_result S = result_message True ''Success.'' # (if m' \<noteq> 1 then [multiplier_message m'] else [])"
  shows "\<exists>v'. ConnectAsync sign (Some (n, key)) S v = (Inr (), v')
    \<and> outbox v' = outbox v @ [initialize_request, authenticate_request,
        signature_frame (signature_payload sign n key token), register_instance]
    \<and> operationTypes v' = map_of (map (\<lambda>tp. (Id tp, client_type tp)) tps)
    \<and> userName v' = Some n \<and> AuthenticationResult v' = Some (True, utf8_lit ''Success.'')
    \<and> last (notified v') = OnConnectionFinished"
proof -
  let ?v1 = "v\<lparr>handshake := Pending, outbox := outbox v @ [initialize_request]\<rparr>"
  obtain v2 where v2: "await_handshake S ?v1 = (Inr (), v2)" "\<not> disposed v2" "outbox v2 = outbox v @ [initialize_request]"
    "operationTypes v2 = map_of (map (\<lambda>tp. (Id tp, client_type tp)) tps)"
    using handshake_arrives [of ?v1 tps S m] assms(1,2,7) by auto
  obtain v3 where "authorize sign (Some (n, key)) S v2 = (Inr (), v3)" "operationTypes v3 = operationTypes v2"
    "outbox v3 = outbox v2 @ [authenticate_request, signature_frame (signature_payload sign n key token)]"
    "userName v3 = Some n" "AuthenticationResult v3 = Some (True, utf8_lit ''Success.'')"
    using authorize_accepted [OF v2(2) assms(3,4,6,8,9)] by blast
  then show ?thesis using assms(1,5,6) v2 by (simp add: ConnectAsync_def connect_body_def)
qed

text \<open>
  C4: A whole session from the first frame to the last. A client connects to a server that knows its name and key
  and has room for it; each of its frames is handled by the server and what the server sends is delivered
  at the next wait. Then \<open>ConnectAsync\<close> returns, having sent the four frames of the protocol in their order,
  the client holds the templates of the server and its name, the server counts it as that user, and the
  end of the connection attempt is announced last.
\<close>

theorem session_end_to_end:
  assumes "UserAuthenticationResult s c = None" and "waiting s c = []"
    and "directory s n = Some u" and "ClientUser (mgr s) c = u \<or> has_room u s"
    and "clientVotes (mgr s) c = None" and "upgradeable (mgr s) = None"
    and "str_ok n" and "str_ok (sign (ApiKey s u) token)" and "str_ok token" and "token \<noteq> []"
    and "length (signature_payload sign n (ApiKey s u) token) < 2 ^ 31"
    and "templates_ok (templates s)" and "\<not> disposed v"
    and s1: "s1 = data_received sign t0 token0 c initialize_request s"
    and s2: "s2 = data_received sign t token c authenticate_request s1"
    and s3: "s3 = data_received sign t' token' c (signature_frame (signature_payload sign n (ApiKey s u) token)) s2"
    and "socket_connects S" and "\<And>data. sends S data"
    and "until_handshake S = new_messages c s s1" and "until_token S = new_messages c s1 s2" and "until_result S = new_messages c s2 s3"
  shows "\<exists>v'. ConnectAsync sign (Some (n, ApiKey s u)) S v = (Inr (), v')
    \<and> outbox v' = outbox v @ [initialize_request, authenticate_request,
        signature_frame (signature_payload sign n (ApiKey s u) token), register_instance]
    \<and> operationTypes v' = map_of (map (\<lambda>tp. (Id tp, client_type tp)) (templates s))
    \<and> userName v' = Some n \<and> AuthenticationResult v' = Some (True, utf8_lit ''Success.'') \<and> ClientUser (mgr s3) c = u
    \<and> last (notified v') = OnConnectionFinished"
proof -
  note server = server_session [OF assms(1-8) assms(11) s1 s2 s3]
  show ?thesis
    using client_session [OF assms(13,12,9,10,17,18), where n = n and key = "ApiKey s u" and sign = sign] server(4)
    by (simp add: assms(19-21) server(1-3) Let_def)
qed

definition sample_surroundings :: surroundings where
  "sample_surroundings =
     (let s1 = data_received sample_sign 0 [] 4 initialize_request sample_lobby;
          s2 = data_received sample_sign 0 [7] 4 authenticate_request s1;
          s3 = data_received sample_sign 0 [] 4 (signature_frame (signature_payload sample_sign [97] [52, 50] [7])) s2
      in \<lparr>socket_connects = True, sends = (\<lambda>_. True), until_handshake = new_messages 4 sample_lobby s1,
          until_token = new_messages 4 s1 s2, until_result = new_messages 4 s2 s3\<rparr>)"

lemma session_end_to_end_witness:
  "\<exists>v'. ConnectAsync sample_sign (Some ([97], [52, 50])) sample_surroundings new_client = (Inr (), v') \<and>
     userName v' = Some [97] \<and> length (outbox v') = 4 \<and> last (notified v') = OnConnectionFinished"
proof -
  have "str_ok (sample_sign [52, 50] [7])" "str_ok [7]" "str_ok [97]" by (simp_all add: sample_sign_def str_ok_def)
  moreover have "templates_ok (templates sample_lobby)"
    by (simp add: templates_ok_def sample_lobby_def client_connected_def channel_connected_def sample_server_def)
  ultimately show ?thesis
    using session_end_to_end [where token = "[7]" and sign = sample_sign and v = new_client and ?t0.0 = 0 and t = 0 and t' = 0
          and ?token0.0 = "[]" and token' = "[]" and S = sample_surroundings,
          OF sample_fields(1-3) _ sample_fields(5,6) _ _ _ _ _ _ _ refl refl refl]
      sample_fields sample_payload
    by (auto simp: new_client_def sample_surroundings_def Let_def)
qed

end
