(* ===== verification/Reconnect.thy ===== *)
theory Reconnect
  imports ClientConnect "HOL-Library.While_Combinator"
begin

text \<open>
  \<open>VotingClient.ReconnectLoopAsync\<close>: the loop that a lost connection starts. The handlers of \<open>OnUserChanged\<close> and
  \<open>OnAuthorizationFinished\<close> return; those of the other events may throw. One attempt is the sequence of sends
  and waits of its \<open>try\<close>, on the client of \<open>ClientConnect\<close>; what each round meets is a parameter. A wait that
  does not end, which no timeout bounds, is the state \<open>Waits\<close>: the loop is then still running and holds the
  connection lock.
\<close>

section \<open>One attempt\<close>

text \<open>The \<open>catch\<close> around the wait for the handshake clears the operation types.\<close>

definition await_new_handshake :: "surroundings \<Rightarrow> connecting" where
  "await_new_handshake S =
     thn (upd (deliver (until_handshake S)))
       (\<lambda>v. case handshake v of
          Completed \<Rightarrow> ret () v
        | Pending \<Rightarrow> throw Waiting v
        | Failed \<Rightarrow> thn (upd (\<lambda>v. v\<lparr>operationTypes := (\<lambda>_. None)\<rparr>)) (throw Exception) v)"

text \<open>The user is announced when it has changed, under the name of the attempt also when it is now none.\<close>

definition reauthorize :: "signer \<Rightarrow> (cs_string \<times> cs_string) option \<Rightarrow> surroundings \<Rightarrow> connecting" where
  "reauthorize sign data S =
     (case data of
        None \<Rightarrow> ret ()
      | Some (user, apiKey) \<Rightarrow>
          thn (upd (\<lambda>v. v\<lparr>AuthenticationFetchToken := None, AuthenticationResult := None\<rparr>))
            (bnd (Authenticate sign user apiKey S) (\<lambda>(success, reason) v.
              let originalUser = userName v; newUser = (if success then Some user else None)
              in thn (upd (\<lambda>v. v\<lparr>userName := newUser\<rparr>))
                   (thn (if newUser \<noteq> originalUser then tell_client (OnUserChanged (Some user)) else ret ())
                     (tell_client (OnAuthorizationFinished success reason))) v)))"

definition reconnect_attempt :: "signer \<Rightarrow> (cs_string \<times> cs_string) option \<Rightarrow> surroundings \<Rightarrow> connecting" where
  "reconnect_attempt sign data S =
     thn (if socket_connects S then ret () else throw Exception)
       (thn (upd (\<lambda>v. v\<lparr>handshake := Pending\<rparr>))
         (thn (SendFrame S initialize_request)
           (thn (await_new_handshake S)
             (thn (reauthorize sign data S) (SendFrame S register_instance)))))"

section \<open>The loop\<close>

datatype loop_status = Looping | Connected | GaveUp | Threw | Waits

record reconnecting =
  rclient :: voting_client
  isReconnecting :: bool
  attempts :: nat
  rounds :: nat
  status :: loop_status
  reloads :: "bool list"

text \<open>
  What a round meets: whether closing the old socket and opening the new one come to an end, the rest of the
  connection, whether the handlers of \<open>AfterOperationsReload\<close> and \<open>OnDisconnect\<close> return, and whether the
  cancellation comes before the round or during the pause after it.
\<close>

record round_conditions =
  cancelled_before :: bool
  socket_hangs :: bool
  conditions :: surroundings
  reload_returns :: bool
  report_returns :: bool
  cancelled_in_pause :: bool

definition RECONNECT_LIMIT :: nat where "RECONNECT_LIMIT = 3"

text \<open>The \<open>catch\<close>: count the attempt, and at the limit report, disconnect and dispose.\<close>

definition attempt_failed :: "round_conditions \<Rightarrow> reconnecting \<Rightarrow> reconnecting" where
  "attempt_failed R s =
     (let s' = s\<lparr>attempts := attempts s + 1\<rparr>
      in if attempts s' \<ge> RECONNECT_LIMIT then
           let s2 = s'\<lparr>reloads := reloads s' @ [False]\<rparr>
           in if report_returns R then
                let v = rclient s2
                in s2\<lparr>rclient := DisposeClient (v\<lparr>notified := notified v @ [OnDisconnect ''Connection is interrupted.'']\<rparr>), status := GaveUp\<rparr>
              else s2\<lparr>status := Threw\<rparr>
         else if cancelled_in_pause R then s'\<lparr>status := Threw\<rparr>
         else s')"

definition reconnect_round ::
  "signer \<Rightarrow> (cs_string \<times> cs_string) option \<Rightarrow> (nat \<Rightarrow> round_conditions) \<Rightarrow> reconnecting \<Rightarrow> reconnecting" where
  "reconnect_round sign data E s =
     (let R = E (rounds s); s1 = s\<lparr>rounds := rounds s + 1\<rparr>
      in if socket_hangs R then s1\<lparr>status := Waits\<rparr>
         else case reconnect_attempt sign data (conditions R) (rclient s1) of
             (Inl Waiting, v) \<Rightarrow> s1\<lparr>rclient := v, status := Waits\<rparr>
           | (Inl Exception, v) \<Rightarrow> attempt_failed R (s1\<lparr>rclient := v\<rparr>)
           | (Inr _, v) \<Rightarrow>
               let s2 = s1\<lparr>rclient := v, attempts := 0, reloads := reloads s1 @ [True]\<rparr>
               in if reload_returns R then s2\<lparr>status := Connected\<rparr> else attempt_failed R s2)"

definition goes_on :: "(nat \<Rightarrow> round_conditions) \<Rightarrow> reconnecting \<Rightarrow> bool" where
  "goes_on E s \<longleftrightarrow> status s = Looping \<and> \<not> disposed (rclient s) \<and> \<not> cancelled_before (E (rounds s))"

definition ReconnectLoop ::
  "signer \<Rightarrow> (cs_string \<times> cs_string) option \<Rightarrow> (nat \<Rightarrow> round_conditions) \<Rightarrow> reconnecting \<Rightarrow> reconnecting option" where
  "ReconnectLoop sign data E = while_option (goes_on E) (reconnect_round sign data E)"

text \<open>
  The whole function. \<open>BeforeOperationsReload\<close> is raised before the \<open>try\<close> whose \<open>finally\<close> takes the flag back;
  the wait for the connection lock is granted, throws when cancelled, or does not end.
\<close>

datatype lock_outcome = LockGranted | LockThrown | LockNever

definition ReconnectLoopAsync ::
  "signer \<Rightarrow> (cs_string \<times> cs_string) option \<Rightarrow> (nat \<Rightarrow> round_conditions) \<Rightarrow> bool \<Rightarrow> lock_outcome \<Rightarrow> reconnecting \<Rightarrow> reconnecting option" where
  "ReconnectLoopAsync sign data E before_returns lock s =
     (if disposed (rclient s) \<or> isReconnecting s then Some s
      else let s1 = s\<lparr>isReconnecting := True, status := Looping\<rparr>
        in if \<not> before_returns then Some (s1\<lparr>status := Threw\<rparr>)
           else case lock of
               LockThrown \<Rightarrow> Some (s1\<lparr>isReconnecting := False, status := Threw\<rparr>)
             | LockNever \<Rightarrow> Some (s1\<lparr>status := Waits\<rparr>)
             | LockGranted \<Rightarrow> map_option (\<lambda>s2. if status s2 = Waits then s2 else s2\<lparr>isReconnecting := False\<rparr>)
                 (ReconnectLoop sign data E s1))"

section \<open>The loop ends or waits\<close>

text \<open>What one round does to the counters when the handlers of \<open>AfterOperationsReload\<close> return.\<close>

lemma round_counts:
  assumes "reload_returns (E (rounds s))" and "attempts s < RECONNECT_LIMIT" and "status s = Looping"
  shows "rounds (reconnect_round sign data E s) = rounds s + 1
    \<and> (status (reconnect_round sign data E s) = Looping \<longrightarrow>
        attempts (reconnect_round sign data E s) = attempts s + 1 \<and> attempts s + 1 < RECONNECT_LIMIT)
    \<and> (status (reconnect_round sign data E s) = Connected \<longrightarrow>
        attempts (reconnect_round sign data E s) = 0 \<and> last (reloads (reconnect_round sign data E s)) = True)
    \<and> (status (reconnect_round sign data E s) = GaveUp \<longrightarrow>
        attempts (reconnect_round sign data E s) = RECONNECT_LIMIT \<and> disposed (rclient (reconnect_round sign data E s)))
    \<and> isReconnecting (reconnect_round sign data E s) = isReconnecting s"
  using assms
  by (auto simp: reconnect_round_def attempt_failed_def DisposeClient_def Let_def split: prod.split sum.split stopped.split)

definition loop_ok :: "nat \<Rightarrow> (nat \<Rightarrow> round_conditions) \<Rightarrow> reconnecting \<Rightarrow> bool" where
  "loop_ok n E s \<longleftrightarrow> isReconnecting s
     \<and> (status s = Looping \<longrightarrow> attempts s < RECONNECT_LIMIT \<and> rounds s = n + attempts s)
     \<and> rounds s \<le> n + RECONNECT_LIMIT
     \<and> (status s = Connected \<longrightarrow> attempts s = 0 \<and> last (reloads s) = True)
     \<and> (status s = GaveUp \<longrightarrow> attempts s = RECONNECT_LIMIT \<and> disposed (rclient s))"

lemma loop_ok_round:
  assumes "\<forall>r. reload_returns (E r)" and "loop_ok n E s" and "goes_on E s"
  shows "loop_ok n E (reconnect_round sign data E s) \<and> n + RECONNECT_LIMIT - rounds (reconnect_round sign data E s) < n + RECONNECT_LIMIT - rounds s"
  using round_counts [of E s sign data] assms by (auto simp: loop_ok_def goes_on_def)

lemma loop_ends:
  assumes "\<forall>r. reload_returns (E r)" and "loop_ok n E s"
  shows "\<exists>s'. ReconnectLoop sign data E s = Some s' \<and> loop_ok n E s' \<and> \<not> goes_on E s'"
proof -
  obtain s' where run: "while_option (goes_on E) (reconnect_round sign data E) s = Some s'"
    using measure_while_option_Some [of "loop_ok n E" "goes_on E" "reconnect_round sign data E" "\<lambda>s. n + RECONNECT_LIMIT - rounds s" s]
      loop_ok_round [OF assms(1)] assms(2) by blast
  moreover have "loop_ok n E s'"
    using while_option_rule [of "loop_ok n E", OF _ run assms(2)] loop_ok_round [OF assms(1)] by blast
  moreover have "\<not> goes_on E s'" using while_option_stop [OF run] .
  ultimately show ?thesis unfolding ReconnectLoop_def by blast
qed

text \<open>
  C15: When the handlers of \<open>BeforeOperationsReload\<close> and \<open>AfterOperationsReload\<close> return and the connection lock is
  granted, a loop that starts with no failures counted makes at most three rounds. Then it has reconnected, with
  the count of failures back at 0 and the reload announced, or has given up after three failures and disposed the
  client, or has left because of a cancellation, a disposal or an exception of \<open>OnDisconnect\<close> or of the handlers at the
  end, or is in a wait that does not end; in every case but the last it has taken back the flag that keeps further
  loops from starting. No timeout bounds the waits.
\<close>

theorem reconnect_loop_ends:
  assumes "\<forall>r. reload_returns (E r)" and "attempts s = 0" and "\<not> disposed (rclient s)" and "\<not> isReconnecting s"
  shows "\<exists>s'. ReconnectLoopAsync sign data E True LockGranted s = Some s' \<and> rounds s' \<le> rounds s + 3
    \<and> (status s' = Connected \<longrightarrow> attempts s' = 0 \<and> last (reloads s') = True)
    \<and> (status s' = GaveUp \<longrightarrow> attempts s' = 3 \<and> disposed (rclient s'))
    \<and> (status s' = Looping \<longrightarrow> disposed (rclient s') \<or> cancelled_before (E (rounds s')))
    \<and> (isReconnecting s' \<longleftrightarrow> status s' = Waits)"
proof -
  have "loop_ok (rounds s) E (s\<lparr>isReconnecting := True, status := Looping\<rparr>)"
    using assms(2) by (simp add: loop_ok_def RECONNECT_LIMIT_def)
  then obtain s2 where "ReconnectLoop sign data E (s\<lparr>isReconnecting := True, status := Looping\<rparr>) = Some s2"
    "loop_ok (rounds s) E s2" "\<not> goes_on E s2"
    using loop_ends [OF assms(1)] by blast
  then show ?thesis
    using assms(3,4) by (auto simp: ReconnectLoopAsync_def loop_ok_def goes_on_def RECONNECT_LIMIT_def)
qed

definition lost_connection :: reconnecting where
  "lost_connection = \<lparr>rclient = new_client, isReconnecting = False, attempts = 0, rounds = 0, status = Looping, reloads = []\<rparr>"

definition refusing :: round_conditions where
  "refusing = \<lparr>cancelled_before = False, socket_hangs = False,
     conditions = \<lparr>socket_connects = False, sends = (\<lambda>_. True), until_handshake = [], until_token = [], until_result = []\<rparr>,
     reload_returns = True, report_returns = True, cancelled_in_pause = False\<rparr>"

lemma refused_loop:
  "ReconnectLoop sample_sign None (\<lambda>_. refusing) (lost_connection\<lparr>isReconnecting := True, status := Looping\<rparr>) =
    Some \<lparr>rclient = DisposeClient (new_client\<lparr>notified := notified new_client @ [OnDisconnect ''Connection is interrupted.'']\<rparr>),
      isReconnecting = True, attempts = 3, rounds = 3, status = GaveUp, reloads = [False]\<rparr>"
  by (simp add: ReconnectLoop_def goes_on_def reconnect_round_def reconnect_attempt_def attempt_failed_def refusing_def
      lost_connection_def RECONNECT_LIMIT_def new_client_def while_option_unfold Let_def)

lemma reconnect_loop_ends_witness:
  "\<exists>s'. ReconnectLoopAsync sample_sign None (\<lambda>_. refusing) True LockGranted lost_connection = Some s' \<and> rounds s' \<le> 3
     \<and> status s' = GaveUp \<and> disposed (rclient s') \<and> \<not> isReconnecting s'"
proof -
  have "status (the (ReconnectLoopAsync sample_sign None (\<lambda>_. refusing) True LockGranted lost_connection)) = GaveUp"
    using refused_loop by (simp add: ReconnectLoopAsync_def) (simp add: lost_connection_def new_client_def)
  then show ?thesis
    using reconnect_loop_ends [of "\<lambda>_. refusing" lost_connection sample_sign None]
    by (auto simp: refusing_def lost_connection_def new_client_def)
qed

section \<open>What makes it wait or run for ever\<close>

text \<open>
  A connection that is lost again before the handshake has arrived leaves the loop in the wait for it: the
  handler of the loss starts another loop, which returns because the first is still running, and nothing else
  completes the handshake. The lock is held, so no vote is sent from then on and no other attempt is made.
\<close>

theorem lost_handshake_waits:
  assumes "\<not> cancelled_before (E (rounds s))" and "\<not> socket_hangs (E (rounds s))" and "socket_connects (conditions (E (rounds s)))"
    and "sends (conditions (E (rounds s))) initialize_request" and "until_handshake (conditions (E (rounds s))) = []"
    and "\<not> disposed (rclient s)" and "\<not> isReconnecting s"
  shows "\<exists>s'. ReconnectLoopAsync sign data E True LockGranted s = Some s' \<and> status s' = Waits \<and> isReconnecting s'
    \<and> (\<forall>E' before lock. ReconnectLoopAsync sign data E' before lock s' = Some s')"
proof -
  let ?s = "s\<lparr>isReconnecting := True, status := Looping\<rparr>"
  have round: "status (reconnect_round sign data E ?s) = Waits" "isReconnecting (reconnect_round sign data E ?s)"
    using assms(2-5) by (simp_all add: reconnect_round_def reconnect_attempt_def await_new_handshake_def Let_def)
  then have "ReconnectLoop sign data E ?s = Some (reconnect_round sign data E ?s)"
    using assms(1,6) by (simp add: ReconnectLoop_def while_option_unfold goes_on_def)
  then show ?thesis using assms(6,7) round by (simp add: ReconnectLoopAsync_def)
qed

text \<open>
  A handler of \<open>BeforeOperationsReload\<close> that throws leaves the flag set: the client never reconnects again.
\<close>

theorem throwing_handler_blocks_reconnection:
  assumes "\<not> disposed (rclient s)" and "\<not> isReconnecting s"
  shows "\<exists>s'. ReconnectLoopAsync sign data E False lock s = Some s' \<and> rclient s' = rclient s
    \<and> (\<forall>E' before lock'. ReconnectLoopAsync sign data E' before lock' s' = Some s')"
  using assms by (simp add: ReconnectLoopAsync_def)

text \<open>
  When the login is refused on a new connection, the client has no user any more, but the handlers of
  \<open>OnUserChanged\<close> are told the name of the attempt as if the login had gone through.
\<close>

theorem refused_login_announces_name:
  assumes "Authenticate sign user apiKey S (v\<lparr>AuthenticationFetchToken := None, AuthenticationResult := None\<rparr>) = (Inr (False, reason), w)"
    and "userName w \<noteq> None"
  shows "reauthorize sign (Some (user, apiKey)) S v =
    (Inr (), w\<lparr>userName := None, notified := notified w @ [OnUserChanged (Some user), OnAuthorizationFinished False reason]\<rparr>)"
  using assms by (auto simp: reauthorize_def bnd_def [of "Authenticate sign user apiKey S"])

text \<open>
  A handler of \<open>AfterOperationsReload\<close> that throws, as that of \<open>ClientManager\<close> does when it cannot
  read the instructions of the server, makes the loop reconnect for ever: the counter of the attempts is
  reset before the handler runs, inside the same \<open>try\<close>, so it never reaches the limit.
\<close>

definition serving_again :: "OperationType list \<Rightarrow> round_conditions \<Rightarrow> bool" where
  "serving_again tps R \<longleftrightarrow> \<not> cancelled_before R \<and> \<not> socket_hangs R \<and> socket_connects (conditions R)
     \<and> (\<forall>data. sends (conditions R) data) \<and> until_handshake (conditions R) = [handshake_message tps]
     \<and> \<not> reload_returns R \<and> \<not> cancelled_in_pause R"

lemma served_round:
  assumes "serving_again tps (E (rounds s))" and "templates_ok tps" and "status s = Looping" and "\<not> disposed (rclient s)"
  shows "status (reconnect_round sign None E s) = Looping \<and> \<not> disposed (rclient (reconnect_round sign None E s))"
proof -
  let ?R = "E (rounds s)"
  let ?v = "(rclient s)\<lparr>handshake := Pending, outbox := outbox (rclient s) @ [initialize_request]\<rparr>"
  let ?w = "?v\<lparr>operationTypes := map_of (map (\<lambda>tp. (Id tp, client_type tp)) tps), handshake := Completed\<rparr>"
  have "deliver [handshake_message tps] ?v = ?w"
    using handshake_delivered [of ?v tps 1] assms(2,4) by (simp add: maybe_multiplier_def del: deliver_simps)
  then have "reconnect_attempt sign None (conditions ?R) (rclient s) = (Inr (), ?w\<lparr>outbox := outbox ?w @ [register_instance]\<rparr>)"
    using assms(1) by (simp add: reconnect_attempt_def await_new_handshake_def reauthorize_def serving_again_def SendFrame_def del: deliver_simps)
  then show ?thesis
    using assms(1,3,4) by (simp add: reconnect_round_def attempt_failed_def RECONNECT_LIMIT_def serving_again_def Let_def)
qed

theorem reconnect_loop_never_ends:
  assumes "\<forall>r. serving_again tps (E r)" and "templates_ok tps" and "status s = Looping" and "\<not> disposed (rclient s)"
  shows "ReconnectLoop sign None E s = None"
proof (rule ccontr)
  assume "ReconnectLoop sign None E s \<noteq> None"
  then obtain s' where run: "while_option (goes_on E) (reconnect_round sign None E) s = Some s'"
    by (auto simp: ReconnectLoop_def)
  have "status s' = Looping \<and> \<not> disposed (rclient s')"
    using while_option_rule [of "\<lambda>s. status s = Looping \<and> \<not> disposed (rclient s)", OF _ run] served_round assms by blast
  moreover have "\<not> goes_on E s'" using while_option_stop [OF run] .
  ultimately show False using assms(1) by (simp add: goes_on_def serving_again_def)
qed

lemma reconnect_loop_never_ends_witness:
  "ReconnectLoop sample_sign None (\<lambda>_. refusing\<lparr>conditions := \<lparr>socket_connects = True, sends = (\<lambda>_. True),
     until_handshake = [handshake_message []], until_token = [], until_result = []\<rparr>, reload_returns := False\<rparr>) lost_connection = None"
  by (rule reconnect_loop_never_ends [where tps = "[]"])
    (simp_all add: serving_again_def refusing_def lost_connection_def templates_ok_def new_client_def)

end
