(* ===== verification/KeyBindings.thy ===== *)
theory KeyBindings
  imports Operations
begin

text \<open>
  The operation manager of \<open>shared/ClientManager.cs\<close>: after every handshake the instructions of the
  operation types are read into the table from keys to types and the sorted set of the limits of
  inactivity. \<open>types\<close> is \<open>OperationTypes.Values\<close> in the order the dictionary gives them. The limit is of
  any linearly ordered type (\<open>TimeSpan\<close>).
\<close>

record 't key_table =
  keyOpMapping :: "cs_string \<Rightarrow> ClientOperationType option"
  parsedTimeouts :: "('t \<times> ClientOperationType) list"

type_synonym 't key_action = "('t key_table, net_exn, unit) comp"

text \<open>\<open>OperationAfkRecord.CompareTo\<close> orders by limit and then by number; a \<open>SortedSet\<close> keeps one of equals.\<close>

datatype 't afk_key = AfkKey (afk_limit: 't) (afk_number: int)

instantiation afk_key :: (linorder) linorder
begin

definition less_eq_afk_key :: "'a afk_key \<Rightarrow> 'a afk_key \<Rightarrow> bool" where
  "x \<le> y \<longleftrightarrow> (if afk_limit x \<noteq> afk_limit y then afk_limit x < afk_limit y else afk_number x \<le> afk_number y)"

definition less_afk_key :: "'a afk_key \<Rightarrow> 'a afk_key \<Rightarrow> bool" where
  "x < y \<longleftrightarrow> (if afk_limit x \<noteq> afk_limit y then afk_limit x < afk_limit y else afk_number x < afk_number y)"

instance
  by standard (auto simp: less_eq_afk_key_def less_afk_key_def intro: afk_key.expand split: if_splits)

end

definition record_key :: "'t \<times> ClientOperationType \<Rightarrow> 't afk_key" where
  "record_key r = AfkKey (fst r) (sint (cId (snd r)))"

definition add_timeout :: "'t::linorder \<times> ClientOperationType \<Rightarrow> ('t \<times> ClientOperationType) list \<Rightarrow>
    ('t \<times> ClientOperationType) list" where
  "add_timeout r rs = (if record_key r \<in> record_key ` set rs then rs else insort_key record_key r rs)"

definition bind_keys :: "ClientOperationType \<Rightarrow> cs_string list \<Rightarrow> (cs_string \<Rightarrow> ClientOperationType option) \<Rightarrow>
    (cs_string \<Rightarrow> ClientOperationType option)" where
  "bind_keys op keys table = fold (\<lambda>key t. if key \<noteq> [] then t(key \<mapsto> op) else t) keys table"

fun parse_types :: "(i64 \<Rightarrow> 't::linorder option) \<Rightarrow> ClientOperationType list \<Rightarrow> 't key_action" where
  "parse_types from_ms [] = ret ()"
| "parse_types from_ms (op # ops) =
     (if cInstructions op = [] then parse_types from_ms ops
      else bnd (ask (\<lambda>_. DeserializeInstructions from_ms (cInstructions op))) (\<lambda>(keys, afk).
        thn (upd (\<lambda>s. s\<lparr>keyOpMapping := bind_keys op keys (keyOpMapping s)\<rparr>))
          (thn (case afk of None \<Rightarrow> ret ()
                | Some limit \<Rightarrow> upd (\<lambda>s. s\<lparr>parsedTimeouts := add_timeout (limit, op) (parsedTimeouts s)\<rparr>))
            (parse_types from_ms ops))))"

definition ParseInstructions :: "(i64 \<Rightarrow> 't::linorder option) \<Rightarrow> ClientOperationType list \<Rightarrow> 't key_action" where
  "ParseInstructions from_ms types =
     thn (upd (\<lambda>s. s\<lparr>keyOpMapping := (\<lambda>_. None), parsedTimeouts := []\<rparr>)) (parse_types from_ms types)"

text \<open>\<open>RunWithOpType\<close> looks the key up and hands the type, or null, to the action.\<close>

definition RunWithOpType :: "(ClientOperationType option \<Rightarrow> 'a) \<Rightarrow> cs_string \<Rightarrow> 't key_table \<Rightarrow> 'a" where
  "RunWithOpType action key s = action (keyOpMapping s key)"

section \<open>Lemmas\<close>

lemma bind_keys_lookup:
  "bind_keys op keys table key = (if key \<in> set keys \<and> key \<noteq> [] then Some op else table key)"
  by (induction keys arbitrary: table) (auto simp: bind_keys_def)

lemma sorted_add_timeout: "sorted (map record_key rs) \<Longrightarrow> sorted (map record_key (add_timeout r rs))"
  by (simp add: add_timeout_def sorted_insort_key)

lemma distinct_add_timeout:
  "distinct (map record_key rs) \<Longrightarrow> distinct (map record_key (add_timeout r rs))"
  by (auto simp: add_timeout_def) (metis distinct_insort_key list.set_map)

lemma parse_step:
  assumes "cInstructions op \<noteq> []" and "DeserializeInstructions from_ms (cInstructions op) = Inr (keys, afk)"
  shows "parse_types from_ms (op # ops) s = parse_types from_ms ops
    (s\<lparr>keyOpMapping := bind_keys op keys (keyOpMapping s),
       parsedTimeouts := (case afk of None \<Rightarrow> parsedTimeouts s | Some limit \<Rightarrow> add_timeout (limit, op) (parsedTimeouts s))\<rparr>)"
  using assms by (simp split: option.split)

text \<open>What a well-formed set of operation types is: each carries the profile that the server wrote.\<close>

definition carries :: "('t \<Rightarrow> i64) \<Rightarrow> (i64 \<Rightarrow> 't option) \<Rightarrow> (ClientOperationType \<Rightarrow> cs_string list) \<Rightarrow>
    (ClientOperationType \<Rightarrow> 't option) \<Rightarrow> ClientOperationType \<Rightarrow> bool" where
  "carries to_ms from_ms keys_of limit_of op \<longleftrightarrow>
     cInstructions op = SerializeInstructions to_ms (keys_of op) (limit_of op) \<and>
     list_all str_ok (keys_of op) \<and> length (keys_of op) < 2 ^ 63 \<and>
     (\<forall>t. limit_of op = Some t \<longrightarrow> from_ms (to_ms t) = Some t)"

lemma carries_read:
  assumes "carries to_ms from_ms keys_of limit_of op"
  shows "cInstructions op \<noteq> []" "DeserializeInstructions from_ms (cInstructions op) = Inr (keys_of op, limit_of op)"
  using assms Deserialize_SerializeInstructions [of "keys_of op" "limit_of op" from_ms to_ms]
  by (auto simp: carries_def SerializeInstructions_def)

lemma find_append: "find P (xs @ ys) = (case find P xs of Some x \<Rightarrow> Some x | None \<Rightarrow> find P ys)"
  by (induction xs) simp_all

lemma parse_carried:
  assumes "\<forall>op \<in> set ops. carries to_ms from_ms keys_of limit_of op"
  shows "\<exists>s'. parse_types from_ms ops s = (Inr (), s') \<and>
    (\<forall>key. key \<noteq> [] \<longrightarrow> keyOpMapping s' key =
      (case find (\<lambda>op. key \<in> set (keys_of op)) (rev ops) of Some op \<Rightarrow> Some op | None \<Rightarrow> keyOpMapping s key)) \<and>
    record_key ` set (parsedTimeouts s') = record_key ` set (parsedTimeouts s) \<union>
      {AfkKey t (sint (cId op)) | t op. op \<in> set ops \<and> limit_of op = Some t} \<and>
    (sorted (map record_key (parsedTimeouts s)) \<longrightarrow> sorted (map record_key (parsedTimeouts s'))) \<and>
    (distinct (map record_key (parsedTimeouts s)) \<longrightarrow> distinct (map record_key (parsedTimeouts s')))"
  using assms
proof (induction ops arbitrary: s)
  case Nil
  then show ?case by simp
next
  case (Cons op ops)
  let ?v = "s\<lparr>keyOpMapping := bind_keys op (keys_of op) (keyOpMapping s),
     parsedTimeouts := (case limit_of op of None \<Rightarrow> parsedTimeouts s | Some limit \<Rightarrow> add_timeout (limit, op) (parsedTimeouts s))\<rparr>"
  have "carries to_ms from_ms keys_of limit_of op" using Cons.prems by simp
  note step = parse_step [OF carries_read [OF this], of ops s]
  obtain s' where s': "parse_types from_ms ops ?v = (Inr (), s')"
    "\<And>key. key \<noteq> [] \<Longrightarrow> keyOpMapping s' key =
      (case find (\<lambda>op. key \<in> set (keys_of op)) (rev ops) of Some op \<Rightarrow> Some op | None \<Rightarrow> keyOpMapping ?v key)"
    "record_key ` set (parsedTimeouts s') = record_key ` set (parsedTimeouts ?v) \<union>
      {AfkKey t (sint (cId op)) | t op. op \<in> set ops \<and> limit_of op = Some t}"
    "sorted (map record_key (parsedTimeouts ?v)) \<Longrightarrow> sorted (map record_key (parsedTimeouts s'))"
    "distinct (map record_key (parsedTimeouts ?v)) \<Longrightarrow> distinct (map record_key (parsedTimeouts s'))"
    using Cons.IH [of ?v] Cons.prems by auto
  have "keyOpMapping s' key = (case find (\<lambda>op. key \<in> set (keys_of op)) (rev (op # ops)) of
      Some op \<Rightarrow> Some op | None \<Rightarrow> keyOpMapping s key)" if "key \<noteq> []" for key
    using s'(2) [OF that] that
    by (cases "find (\<lambda>op. key \<in> set (keys_of op)) (rev ops)") (auto simp: bind_keys_lookup find_append)
  moreover have "record_key ` set (parsedTimeouts ?v) = record_key ` set (parsedTimeouts s) \<union>
      {AfkKey t (sint (cId op)) | t. limit_of op = Some t}"
    by (cases "limit_of op") (auto simp: add_timeout_def record_key_def set_insort_key)
  then have "record_key ` set (parsedTimeouts s') = record_key ` set (parsedTimeouts s) \<union>
      {AfkKey t (sint (cId op')) | t op'. op' \<in> set (op # ops) \<and> limit_of op' = Some t}"
    unfolding s'(3) by auto
  moreover have "sorted (map record_key (parsedTimeouts s)) \<Longrightarrow> sorted (map record_key (parsedTimeouts ?v))"
    by (cases "limit_of op") (simp_all add: sorted_add_timeout)
  moreover have "distinct (map record_key (parsedTimeouts s)) \<Longrightarrow> distinct (map record_key (parsedTimeouts ?v))"
    by (cases "limit_of op") (simp_all add: distinct_add_timeout)
  ultimately show ?case using s'(1,4,5) step by auto
qed

lemma parse_fails:
  "fst (parse_types from_ms ops s) = Inr () \<longleftrightarrow>
     (\<forall>op \<in> set ops. cInstructions op = [] \<or> (\<exists>x. DeserializeInstructions from_ms (cInstructions op) = Inr x))"
  by (induction ops arbitrary: s) (auto split: sum.split option.split)

section \<open>Properties\<close>

text \<open>
  C12: After the profiles of the server have been read, a key leads to the last operation type that lists it
  (so to the only one, when no two list the same key), a key that none lists leads to none, and the
  limits of inactivity are those of the profiles, sorted and without duplicates.
\<close>

theorem keys_lead_to_their_operation:
  assumes "\<forall>op \<in> set types. carries to_ms from_ms keys_of limit_of op" and "key \<noteq> []"
  shows "\<exists>s'. ParseInstructions from_ms types s = (Inr (), s') \<and>
    RunWithOpType (\<lambda>x. x) key s' = find (\<lambda>op. key \<in> set (keys_of op)) (rev types) \<and>
    record_key ` set (parsedTimeouts s') = {AfkKey t (sint (cId op)) | t op. op \<in> set types \<and> limit_of op = Some t} \<and>
    sorted (map record_key (parsedTimeouts s')) \<and> distinct (map record_key (parsedTimeouts s'))"
  using parse_carried [OF assms(1), of "s\<lparr>keyOpMapping := (\<lambda>_. None), parsedTimeouts := []\<rparr>"] assms(2)
  by (cases "find (\<lambda>op. key \<in> set (keys_of op)) (rev types)") (force simp: ParseInstructions_def RunWithOpType_def)+

lemma keys_lead_to_their_operation_witness:
  "\<exists>s'. ParseInstructions Some
      [\<lparr>cId = 1, cInstructions = SerializeInstructions id [[119]] (Some 5), cTypeDisposed = False\<rparr>]
      (\<lparr>keyOpMapping = (\<lambda>_. None), parsedTimeouts = []\<rparr> :: i64 key_table) = (Inr (), s') \<and>
    RunWithOpType (\<lambda>x. x \<noteq> None) [119] s'"
proof -
  let ?op = "\<lparr>cId = 1, cInstructions = SerializeInstructions id [[119]] (Some (5 :: i64)), cTypeDisposed = False\<rparr>"
  have "\<forall>op \<in> set [?op]. carries id Some (\<lambda>_. [[119]]) (\<lambda>_. Some 5) op"
    by (simp add: carries_def str_ok_def)
  from keys_lead_to_their_operation [OF this, of "[119]" "\<lparr>keyOpMapping = (\<lambda>_. None), parsedTimeouts = []\<rparr>"]
  show ?thesis by (auto simp: RunWithOpType_def)
qed

text \<open>
  Reading the profiles fails, and with it the handler of \<open>AfterOperationsReload\<close>, exactly when some
  operation type carries instructions that are not a profile of this version.
\<close>

lemma ParseInstructions_fails:
  "fst (ParseInstructions from_ms types s) = Inr () \<longleftrightarrow>
     (\<forall>op \<in> set types. cInstructions op = [] \<or> (\<exists>x. DeserializeInstructions from_ms (cInstructions op) = Inr x))"
  by (simp add: ParseInstructions_def parse_fails)

end
