(* ===== verification/ResultProcessor.thy ===== *)
theory ResultProcessor
  imports CoreProps
begin

text \<open>
  \<open>server/ResultProcessor.cs\<close> and the part of \<open>server/Program.cs\<close> that feeds it: what the counts of an
  operation do to the keys and the outputs of its profile.

  A \<open>double\<close> is a value of a linearly ordered type (JSON gives no NaN); \<open>rate_of\<close> is the conversion and
  division \<open>(double)totalSupporters / totalVoters\<close> and \<open>zero\<close> is \<open>0.0\<close>. \<open>performed\<close> lists the state flips
  that \<open>TriggerKeyAction\<close> and \<open>TriggerOutputAction\<close> act on, with the key of the cache; the injected key
  event and the write to the descriptor, whose errors are suppressed, are outside.
\<close>

datatype 'd rule =
    PressKey (Key: cs_string) (RequireVoters: "i32 option") (RequireSupporters: "i32 option") (RequireSupportRate: "'d option")
  | OutputResult (OutputId: cs_string) (Fd: i32) (RequireRate: "'d option")

record 'd profile =
  ProfileName :: cs_string
  VoteResults :: "'d rule list"

record 'd processor =
  keyStateCache :: "cs_string \<Rightarrow> bool option"
  outputStateCache :: "cs_string \<Rightarrow> bool option"
  performed :: "(cs_string \<times> 'd rule \<times> bool) list"

definition new_processor :: "'d processor" where
  "new_processor = \<lparr>keyStateCache = (\<lambda>_. None), outputStateCache = (\<lambda>_. None), performed = []\<rparr>"

definition CheckRule :: "'a::linorder \<Rightarrow> 'a \<Rightarrow> 'a option \<Rightarrow> bool" where
  "CheckRule zero x requirement =
     (case requirement of None \<Rightarrow> True | Some r \<Rightarrow> if r < zero then x \<le> r else x \<ge> r)"

definition current_rate :: "(int \<Rightarrow> int \<Rightarrow> 'd) \<Rightarrow> 'd \<Rightarrow> i32 \<Rightarrow> i32 \<Rightarrow> 'd" where
  "current_rate rate_of zero totalVoters totalSupporters =
     (if sint totalVoters > 0 then rate_of (sint totalSupporters) (sint totalVoters) else zero)"

text \<open>The conditions of a rule. \<open>rate >= null\<close> is false in C#.\<close>

fun rule_holds :: "'d::linorder \<Rightarrow> 'd \<Rightarrow> i32 \<Rightarrow> i32 \<Rightarrow> 'd rule \<Rightarrow> bool" where
  "rule_holds zero rate voters supporters (PressKey _ rv rs rr) \<longleftrightarrow>
     CheckRule 0 (sint voters) (map_option sint rv) \<and> CheckRule 0 (sint supporters) (map_option sint rs) \<and>
     CheckRule zero rate rr"
| "rule_holds zero rate voters supporters (OutputResult _ _ rr) \<longleftrightarrow>
     (case rr of None \<Rightarrow> False | Some r \<Rightarrow> rate \<ge> r)"

definition state_key :: "cs_string \<Rightarrow> cs_string \<Rightarrow> cs_string" where
  "state_key profileName name = profileName @ utf8_lit '':'' @ name"

definition EvaluatePressKeyRule :: "'d::linorder \<Rightarrow> cs_string \<Rightarrow> 'd rule \<Rightarrow> i32 \<Rightarrow> i32 \<Rightarrow> 'd \<Rightarrow> 'd processor \<Rightarrow> 'd processor" where
  "EvaluatePressKeyRule zero profileName rule voters supporters rate s =
     (let stateKey = state_key profileName (Key rule); currentState = rule_holds zero rate voters supporters rule;
          flip = s\<lparr>keyStateCache := (keyStateCache s)(stateKey \<mapsto> currentState),
                   performed := performed s @ [(stateKey, rule, currentState)]\<rparr>
      in case keyStateCache s stateKey of
           None \<Rightarrow> flip
         | Some lastState \<Rightarrow> if currentState \<noteq> lastState then flip else s)"

definition EvaluateOutputRule :: "'d::linorder \<Rightarrow> cs_string \<Rightarrow> 'd rule \<Rightarrow> 'd \<Rightarrow> 'd processor \<Rightarrow> 'd processor" where
  "EvaluateOutputRule zero profileName rule rate s =
     (let stateKey = state_key profileName (OutputId rule); currentState = rule_holds zero rate 0 0 rule;
          flip = s\<lparr>outputStateCache := (outputStateCache s)(stateKey \<mapsto> currentState),
                   performed := performed s @ [(stateKey, rule, currentState)]\<rparr>
      in case outputStateCache s stateKey of
           None \<Rightarrow> flip
         | Some lastState \<Rightarrow> if currentState \<noteq> lastState then flip else s)"

fun evaluate_rules :: "'d::linorder \<Rightarrow> cs_string \<Rightarrow> i32 \<Rightarrow> i32 \<Rightarrow> 'd \<Rightarrow> 'd rule list \<Rightarrow> 'd processor \<Rightarrow> 'd processor" where
  "evaluate_rules zero name voters supporters rate [] s = s"
| "evaluate_rules zero name voters supporters rate (rule # rules) s =
     evaluate_rules zero name voters supporters rate rules
       (case rule of PressKey _ _ _ _ \<Rightarrow> EvaluatePressKeyRule zero name rule voters supporters rate s
                   | OutputResult _ _ _ \<Rightarrow> EvaluateOutputRule zero name rule rate s)"

definition ProcessMetricUpdate ::
  "(int \<Rightarrow> int \<Rightarrow> 'd::linorder) \<Rightarrow> 'd \<Rightarrow> 'd profile \<Rightarrow> i32 \<Rightarrow> i32 \<Rightarrow> 'd processor \<Rightarrow> 'd processor" where
  "ProcessMetricUpdate rate_of zero profile totalVoters totalSupporters =
     evaluate_rules zero (ProfileName profile) totalVoters totalSupporters
       (current_rate rate_of zero totalVoters totalSupporters) (VoteResults profile)"

text \<open>
  The handler that \<open>Program.cs\<close> subscribes to \<open>OnOperationCountChanged\<close>, for the notifications of the
  manager in their order.
\<close>

fun route :: "(int \<Rightarrow> int \<Rightarrow> 'd::linorder) \<Rightarrow> 'd \<Rightarrow> (i64 \<Rightarrow> 'd profile option) \<Rightarrow> notification list \<Rightarrow> 'd processor \<Rightarrow> 'd processor" where
  "route rate_of zero profileMapping [] s = s"
| "route rate_of zero profileMapping (OnOperationCountChanged type voters supporters # ns) s =
     route rate_of zero profileMapping ns
       (case profileMapping (Id type) of None \<Rightarrow> s
        | Some profile \<Rightarrow> ProcessMetricUpdate rate_of zero profile voters supporters s)"
| "route rate_of zero profileMapping (OnClientVoteCleared c types # ns) s = route rate_of zero profileMapping ns s"

section \<open>The caches and what has been performed\<close>

text \<open>Whether a flip belongs to the cache of the keys.\<close>

fun is_key :: "'d rule \<Rightarrow> bool" where
  "is_key (PressKey _ _ _ _) \<longleftrightarrow> True"
| "is_key (OutputResult _ _ _) \<longleftrightarrow> False"

definition flips :: "bool \<Rightarrow> cs_string \<Rightarrow> 'd processor \<Rightarrow> bool list" where
  "flips key k s = map (snd \<circ> snd) (filter (\<lambda>(k', rule, _). is_key rule = key \<and> k' = k) (performed s))"

fun alternating :: "bool list \<Rightarrow> bool" where
  "alternating (x # y # ys) \<longleftrightarrow> x \<noteq> y \<and> alternating (y # ys)"
| "alternating _ \<longleftrightarrow> True"

lemma alternating_snoc: "alternating (xs @ [x]) \<longleftrightarrow> alternating xs \<and> (xs = [] \<or> last xs \<noteq> x)"
  by (induction xs rule: alternating.induct) auto

definition cache_of :: "bool \<Rightarrow> 'd processor \<Rightarrow> cs_string \<Rightarrow> bool option" where
  "cache_of key s = (if key then keyStateCache s else outputStateCache s)"

definition last_of :: "bool list \<Rightarrow> bool option" where
  "last_of xs = (if xs = [] then None else Some (last xs))"

definition processor_ok :: "'d processor \<Rightarrow> bool" where
  "processor_ok s \<longleftrightarrow> (\<forall>key k. alternating (flips key k s) \<and> cache_of key s k = last_of (flips key k s))"

text \<open>Both kinds of rule have one contract: the cache at the rule's key becomes the current state.\<close>

definition evaluated :: "bool \<Rightarrow> cs_string \<Rightarrow> 'd rule \<Rightarrow> bool \<Rightarrow> 'd processor \<Rightarrow> 'd processor \<Rightarrow> bool" where
  "evaluated key k rule now s s' \<longleftrightarrow>
     (\<forall>key' k'. cache_of key' s' k' = (if key' = key \<and> k' = k then Some now else cache_of key' s k')) \<and>
     performed s' = performed s @ (if cache_of key s k = Some now then [] else [(k, rule, now)])"

lemma evaluated_ok:
  assumes "evaluated (is_key rule) k rule now s s'" and "processor_ok s"
  shows "processor_ok s'"
proof -
  have "flips key' k' s' = flips key' k' s @ (if key' = is_key rule \<and> k' = k \<and> cache_of (is_key rule) s k \<noteq> Some now
      then [now] else [])" for key' k'
    using assms(1) by (auto simp: evaluated_def flips_def)
  then show ?thesis
    using assms by (auto simp: processor_ok_def evaluated_def alternating_snoc last_of_def split: if_splits)
qed

lemma press_key_evaluated:
  "is_key rule \<Longrightarrow> evaluated True (state_key name (Key rule)) rule (rule_holds zero rate v p rule) s
     (EvaluatePressKeyRule zero name rule v p rate s)"
  by (auto simp: evaluated_def EvaluatePressKeyRule_def cache_of_def Let_def split: option.splits)

lemma output_evaluated:
  "\<not> is_key rule \<Longrightarrow> evaluated False (state_key name (OutputId rule)) rule (rule_holds zero rate v p rule) s
     (EvaluateOutputRule zero name rule rate s)"
  by (cases rule) (auto simp: evaluated_def EvaluateOutputRule_def cache_of_def Let_def split: option.splits)

definition rule_name :: "'d rule \<Rightarrow> cs_string" where
  "rule_name rule = (case rule of PressKey k _ _ _ \<Rightarrow> k | OutputResult i _ _ \<Rightarrow> i)"

lemma rule_step_evaluated:
  "evaluated (is_key rule) (state_key name (rule_name rule)) rule (rule_holds zero rate v p rule) s
     (case rule of PressKey _ _ _ _ \<Rightarrow> EvaluatePressKeyRule zero name rule v p rate s
                 | OutputResult _ _ _ \<Rightarrow> EvaluateOutputRule zero name rule rate s)"
  using press_key_evaluated [of rule name zero rate v p s] output_evaluated [of rule name zero rate v p s]
  by (cases rule) (auto simp: rule_name_def)

lemma evaluate_rules_ok: "processor_ok s \<Longrightarrow> processor_ok (evaluate_rules zero name v p rate rules s)"
proof (induction rules arbitrary: s)
  case Nil
  then show ?case by simp
next
  case (Cons r rules)
  show ?case unfolding evaluate_rules.simps
    by (rule Cons.IH [OF evaluated_ok [OF rule_step_evaluated Cons.prems]])
qed

lemma route_ok: "processor_ok s \<Longrightarrow> processor_ok (route rate_of zero pm ns s)"
  by (induction rate_of zero pm ns s rule: route.induct)
    (auto simp: ProcessMetricUpdate_def evaluate_rules_ok split: option.splits)

lemma new_processor_ok: "processor_ok new_processor"
  by (simp add: processor_ok_def new_processor_def flips_def cache_of_def last_of_def)

lemma state_key_inject [simp]: "state_key name k = state_key name k' \<longleftrightarrow> k = k'"
  by (simp add: state_key_def)

text \<open>
  Rules of one kind with one key share a cache entry, and the last of them in the profile decides it.
\<close>

definition same_cache :: "'d rule \<Rightarrow> 'd rule \<Rightarrow> bool" where
  "same_cache r r' \<longleftrightarrow> is_key r' = is_key r \<and> rule_name r' = rule_name r"

definition deciding :: "'d rule list \<Rightarrow> 'd rule \<Rightarrow> 'd rule" where
  "deciding rules r = last (filter (same_cache r) rules)"

lemma evaluate_rules_snoc:
  "evaluate_rules zero name v p rate (rules @ [r]) s =
     evaluate_rules zero name v p rate [r] (evaluate_rules zero name v p rate rules s)"
  by (induction rules arbitrary: s) simp_all

lemma evaluate_rules_cache:
  assumes "rule \<in> set rules"
  shows "cache_of (is_key rule) (evaluate_rules zero name v p rate rules s) (state_key name (rule_name rule)) =
    Some (rule_holds zero rate v p (deciding rules rule))"
  using assms
proof (induction rules rule: rev_induct)
  case Nil
  then show ?case by simp
next
  case (snoc r rules)
  let ?s = "evaluate_rules zero name v p rate rules s"
  have step: "evaluated (is_key r) (state_key name (rule_name r)) r (rule_holds zero rate v p r) ?s
      (evaluate_rules zero name v p rate (rules @ [r]) s)"
    unfolding evaluate_rules_snoc using rule_step_evaluated [of r name zero rate v p ?s] by simp
  show ?case
  proof (cases "same_cache rule r")
    case True
    then show ?thesis using step by (simp add: deciding_def evaluated_def same_cache_def)
  next
    case False
    then have "rule \<in> set rules" using snoc.prems by (auto simp: same_cache_def)
    then show ?thesis using snoc.IH step False by (auto simp: deciding_def evaluated_def same_cache_def)
  qed
qed

lemma deciding_unique: "distinct (map (\<lambda>r. (is_key r, rule_name r)) rules) \<Longrightarrow> rule \<in> set rules \<Longrightarrow> deciding rules rule = rule"
proof -
  assume d: "distinct (map (\<lambda>r. (is_key r, rule_name r)) rules)" and r: "rule \<in> set rules"
  have "r' = rule" if "r' \<in> set (filter (same_cache rule) rules)" for r'
    using inj_onD [OF distinct_map [THEN iffD1, OF d, THEN conjunct2], of r' rule] that r by (auto simp: same_cache_def)
  moreover have "filter (same_cache rule) rules \<noteq> []" using r by (auto simp: filter_empty_conv same_cache_def)
  ultimately show "deciding rules rule = rule" unfolding deciding_def using last_in_set by blast
qed

section \<open>Properties\<close>

text \<open>
  Whatever counts are reported for whatever profiles, the actions performed for one key alternate between
  hold and release, and the cache knows the last of them: no key is pressed twice in a row.
\<close>

theorem key_actions_alternate:
  "alternating (flips key k (route rate_of zero profileMapping ns new_processor)) \<and>
   cache_of key (route rate_of zero profileMapping ns new_processor) k =
     last_of (flips key k (route rate_of zero profileMapping ns new_processor))"
  using route_ok [OF new_processor_ok] unfolding processor_ok_def by blast

lemma route_append: "route rate_of zero pm (ns @ ns') s = route rate_of zero pm ns' (route rate_of zero pm ns s)"
  by (induction rate_of zero pm ns s rule: route.induct) simp_all

lemma received_publishes:
  "published (operation_received c opn m) = published m @
     [OnOperationCountChanged (Type opn) (fst (GetMetrics (operation_received c opn m) (Id (Type opn))))
       (snd (GetMetrics (operation_received c opn m) (Id (Type opn))))]"
  by (simp add: operation_received_def store_tally_def GetMetrics_def Let_def)

text \<open>
  C2: From a vote to the keys and outputs. When the server counts a vote, each rule of the operation's profile
  is evaluated on the counts that \<open>GetMetrics\<close> gives afterwards, and the state of its key or output ends up as
  the conditions say of the last rule in the profile for that key or output, which is the rule itself when no
  two rules share one. If the state before the vote is one of the runs of C1 (logins before votes, no change of
  a multiplier during a disconnection), these counts are the sums of the multipliers of the clients that hold a vote.
\<close>

theorem vote_moves_keys:
  assumes "HandleOperationReceived t c opn m = Done m'" and "GetMetrics m' (Id (Type opn)) = (voters, supporters)"
    and "profileMapping (Id (Type opn)) = Some profile" and "r \<in> set (VoteResults profile)"
    and "s' = route rate_of zero profileMapping (drop (length (published m)) (published m')) s"
  shows "cache_of (is_key r) s' (state_key (ProfileName profile) (rule_name r)) =
      Some (rule_holds zero (current_rate rate_of zero voters supporters) voters supporters (deciding (VoteResults profile) r))
    \<and> (distinct (map (\<lambda>r. (is_key r, rule_name r)) (VoteResults profile)) \<longrightarrow> deciding (VoteResults profile) r = r)
    \<and> (manager_reachable m \<longrightarrow> (voters, supporters) =
        (expected voters_weight m' (Id (Type opn)), expected supporters_weight m' (Id (Type opn))))"
proof (intro conjI impI)
  have "m' = operation_received c opn m"
    using assms(1) by (auto simp: HandleOperationReceived_def with_write_lock_def split: option.splits if_splits)
  then have "drop (length (published m)) (published m') = [OnOperationCountChanged (Type opn) voters supporters]"
    using received_publishes [of c opn m] assms(2) by simp
  then have "s' = evaluate_rules zero (ProfileName profile) voters supporters (current_rate rate_of zero voters supporters)
      (VoteResults profile) s"
    using assms(3,5) by (simp add: ProcessMetricUpdate_def)
  then show "cache_of (is_key r) s' (state_key (ProfileName profile) (rule_name r)) =
      Some (rule_holds zero (current_rate rate_of zero voters supporters) voters supporters (deciding (VoteResults profile) r))"
    using evaluate_rules_cache [OF assms(4)] by simp
  show "deciding (VoteResults profile) r = r" if "distinct (map (\<lambda>r. (is_key r, rule_name r)) (VoteResults profile))"
    using that assms(4) by (rule deciding_unique)
  show "(voters, supporters) = (expected voters_weight m' (Id (Type opn)), expected supporters_weight m' (Id (Type opn)))"
    if "manager_reachable m"
    using manager_reachable_good [OF manager_reachable.step [OF that manager_step.vote [OF assms(1)]]] assms(2)
    by (simp add: good_manager_def tallies_exact_def)
qed

lemma vote_moves_keys_witness:
  "keyStateCache (route (\<lambda>a b. a div b) (0 :: int) [1 \<mapsto> \<lparr>ProfileName = [112], VoteResults = [PressKey [119] (Some 1) None None]\<rparr>]
     (drop (length (published lobby)) (published voted)) new_processor) (state_key [112] [119]) = Some True
   \<and> expected voters_weight voted 1 = 1"
proof -
  let ?r = "PressKey [119] (Some 1) None (None :: int option)"
  let ?pm = "[1 \<mapsto> \<lparr>ProfileName = [112], VoteResults = [?r]\<rparr>]"
  have run: "HandleOperationReceived 0 1 support lobby = Done voted"
    by (simp add: HandleOperationReceived_def manager_eval)
  have metrics: "GetMetrics voted (Id (Type support)) = (1, 1)" by (simp add: manager_eval)
  have p: "?pm (Id (Type support)) = Some \<lparr>ProfileName = [112], VoteResults = [?r]\<rparr>" by (simp add: support_def ballot_def)
  show ?thesis
    using vote_moves_keys [where rate_of = "\<lambda>a b. a div b" and zero = "0 :: int" and s = new_processor and profileMapping = ?pm
        and r = ?r, OF run metrics p _ refl] voted_reachable(1)
    by (simp add: cache_of_def rule_name_def CheckRule_def support_def ballot_def)
qed

text \<open>
  A profile whose output has no \<open>requireSupportRate\<close> never raises it, while a key without that
  condition is not bound by it: \<open>rate >= null\<close> is false where \<open>CheckRule\<close> takes null as met.
\<close>

theorem output_without_rate_never_fires:
  "\<not> rule_holds zero rate voters supporters (OutputResult i fd None) \<and>
   rule_holds zero rate voters supporters (PressKey k None None None)"
  by (simp add: CheckRule_def)

end
