(* ===== verification/LazyFiles.thy ===== *)
theory LazyFiles
  imports Utf8
begin

text \<open>
  \<open>FS.createLazyFile\<close> of \<open>dotnet.native.686cmdkyav.js\<close>: a file whose bytes are fetched in chunks over
  HTTP when they are read first. \<open>remote\<close> is the server at the file's URL, as the browser lets the program
  see it: the headers of the answer to \<open>HEAD\<close>, and the bodies of the answers to \<open>GET\<close> with and without a
  range, decoded, \<open>None\<close> for a failure. Without \<open>XMLHttpRequest\<close> the file is loaded as a whole by
  \<open>read_\<close>. A \<open>Content-Length\<close> that is not a number is not modelled.
\<close>

record remote =
  head_ok :: bool
  content_length :: "nat option"
  accept_ranges :: "string option"
  content_encoding :: "string option"
  get_response :: "(int \<times> int) option \<Rightarrow> u8 list option"

record lazy_array =
  lengthKnown :: bool
  chunks :: "nat \<Rightarrow> u8 list option"
  fileLength :: nat
  fileChunkSize :: nat
  datalength :: nat
  chunkSize :: nat
  requested :: "(int \<times> int) list"

definition hasByteServing :: "remote \<Rightarrow> bool" where "hasByteServing rem \<longleftrightarrow> accept_ranges rem = Some ''bytes''"

definition usesGzip :: "remote \<Rightarrow> bool" where "usesGzip rem \<longleftrightarrow> content_encoding rem = Some ''gzip''"

datatype lazy_exn = CouldNotLoad | InvalidRange | OnlyBytesAvailable

type_synonym 'a lazy_action = "(lazy_array, lazy_exn, 'a) comp"

definition new_lazy_array :: lazy_array where
  "new_lazy_array = \<lparr>lengthKnown = False, chunks = (\<lambda>_. None), fileLength = 0, fileChunkSize = 0,
     datalength = 0, chunkSize = 0, requested = []\<rparr>"

text \<open>One request. The range is only asked for when the file has more than one chunk.\<close>

definition doXHR :: "remote \<Rightarrow> int \<Rightarrow> int \<Rightarrow> u8 list lazy_action" where
  "doXHR rem start stop = (\<lambda>s.
     if start > stop then throw InvalidRange s
     else if stop > int (datalength s) - 1 then throw OnlyBytesAvailable s
     else
       thn (upd (\<lambda>s. s\<lparr>requested := requested s @ [(start, stop)]\<rparr>))
         (case get_response rem (if datalength s \<noteq> chunkSize s then Some (start, stop) else None) of
            None \<Rightarrow> throw CouldNotLoad | Some bytes \<Rightarrow> ret bytes) s)"

definition getter :: "remote \<Rightarrow> nat \<Rightarrow> u8 list lazy_action" where
  "getter rem chunkNum = (\<lambda>s.
     let start = int (chunkNum * chunkSize s);
         stop = min (int ((chunkNum + 1) * chunkSize s) - 1) (int (datalength s) - 1)
     in case chunks s chunkNum of
          Some bytes \<Rightarrow> ret bytes s
        | None \<Rightarrow> bnd (doXHR rem start stop) (\<lambda>bytes.
            thn (upd (\<lambda>s. s\<lparr>chunks := (chunks s)(chunkNum \<mapsto> bytes)\<rparr>)) (ret bytes)) s)"

text \<open>A compressed file, or one of unknown length, is downloaded as one chunk to learn its length.\<close>

definition cacheLength :: "remote \<Rightarrow> unit lazy_action" where
  "cacheLength rem =
     (if \<not> head_ok rem then throw CouldNotLoad
      else
        let announced = (case content_length rem of None \<Rightarrow> 0 | Some n \<Rightarrow> n) in
        thn (upd (\<lambda>s. s\<lparr>datalength := announced, chunkSize := (if hasByteServing rem then 1024 * 1024 else announced)\<rparr>))
          (thn (if usesGzip rem \<or> announced = 0 then
                  thn (upd (\<lambda>s. s\<lparr>datalength := 1, chunkSize := 1\<rparr>))
                    (bnd (getter rem 0) (\<lambda>bytes. upd (\<lambda>s. s\<lparr>datalength := length bytes, chunkSize := length bytes\<rparr>)))
                else ret ())
            (upd (\<lambda>s. s\<lparr>fileLength := datalength s, fileChunkSize := chunkSize s, lengthKnown := True\<rparr>))))"

definition lazy_length :: "remote \<Rightarrow> nat lazy_action" where
  "lazy_length rem = (\<lambda>s. thn (if lengthKnown s then ret () else cacheLength rem) (ask (\<lambda>s. Inr (fileLength s))) s)"

text \<open>\<open>get\<close>: \<open>None\<close> is \<open>undefined\<close>.\<close>

definition lazy_get :: "remote \<Rightarrow> int \<Rightarrow> u8 option lazy_action" where
  "lazy_get rem idx =
     bnd (lazy_length rem) (\<lambda>len.
       if idx > int len - 1 \<or> idx < 0 then ret None
       else (\<lambda>s. bnd (getter rem (nat idx div fileChunkSize s)) (\<lambda>bytes.
         let chunkOffset = nat idx mod fileChunkSize s
         in ret (if chunkOffset < length bytes then Some (bytes ! chunkOffset) else None)) s))"

section \<open>Reading a file\<close>

text \<open>\<open>writeChunks\<close>: the bytes of the buffer that the loop stores (an undefined byte becomes 0).\<close>

fun write_bytes_from :: "remote \<Rightarrow> u8 list \<Rightarrow> nat \<Rightarrow> nat \<Rightarrow> nat \<Rightarrow> u8 list lazy_action" where
  "write_bytes_from rem buffer offset position 0 = ret buffer"
| "write_bytes_from rem buffer offset position (Suc n) =
     bnd (lazy_get rem (int position)) (\<lambda>byte.
       write_bytes_from rem (buffer[offset := (case byte of Some b \<Rightarrow> b | None \<Rightarrow> 0)]) (offset + 1) (position + 1) n)"

definition writeChunks :: "remote \<Rightarrow> u8 list \<Rightarrow> nat \<Rightarrow> nat \<Rightarrow> nat \<Rightarrow> (nat \<times> u8 list) lazy_action" where
  "writeChunks rem buffer offset count position =
     bnd (lazy_length rem) (\<lambda>len.
       if position \<ge> len then ret (0, buffer)
       else let size = min (len - position) count
         in bnd (write_bytes_from rem buffer offset position size) (\<lambda>buffer'. ret (size, buffer')))"

section \<open>A server that keeps the file\<close>

text \<open>
  What HTTP says of a server that has the file. \<open>Content-Length\<close> is the length of what is sent, which is the file
  only where it is not encoded; a \<open>GET\<close> gives the file, which the browser has decoded; ranges are only
  relied on from a server that announces them and does not encode the file.
\<close>

definition serves :: "remote \<Rightarrow> u8 list \<Rightarrow> bool" where
  "serves rem file \<longleftrightarrow> head_ok rem \<and> get_response rem None = Some file \<and>
     (\<forall>n. content_encoding rem = None \<and> content_length rem = Some n \<and> n \<noteq> 0 \<longrightarrow> n = length file) \<and>
     (accept_ranges rem = Some ''bytes'' \<and> content_encoding rem = None \<longrightarrow>
        (\<forall>a b. 0 \<le> a \<and> a \<le> b \<and> b < int (length file) \<longrightarrow>
           get_response rem (Some (a, b)) = Some (take (nat (b - a + 1)) (drop (nat a) file))))"

text \<open>The answers from which the code finds the length of the file.\<close>

definition length_found :: "remote \<Rightarrow> bool" where
  "length_found rem \<longleftrightarrow> content_encoding rem = None \<or> content_encoding rem = Some ''gzip'' \<or> content_length rem = None"

definition chunk_of :: "u8 list \<Rightarrow> nat \<Rightarrow> nat \<Rightarrow> u8 list" where
  "chunk_of file n k = take n (drop (k * n) file)"

text \<open>Ranges are asked for only from a server that has announced them for a file that is not encoded.\<close>

definition lazy_ok :: "remote \<Rightarrow> u8 list \<Rightarrow> lazy_array \<Rightarrow> bool" where
  "lazy_ok rem file s \<longleftrightarrow>
     (if lengthKnown s
      then fileLength s = length file \<and> datalength s = length file \<and> fileChunkSize s = chunkSize s \<and>
        (file \<noteq> [] \<longrightarrow> 0 < chunkSize s) \<and>
        (chunkSize s \<noteq> length file \<longrightarrow> accept_ranges rem = Some ''bytes'' \<and> content_encoding rem = None) \<and>
        (\<forall>k bytes. chunks s k = Some bytes \<longrightarrow> bytes = chunk_of file (chunkSize s) k)
      else chunks s = (\<lambda>_. None))"

lemma new_lazy_array_ok: "lazy_ok rem file new_lazy_array"
  by (simp add: lazy_ok_def new_lazy_array_def)

lemma last_chunk_length: "n < (after :: nat) \<Longrightarrow> start \<le> n \<Longrightarrow>
  nat (min (int after - 1) (int n - 1) - int start + 1) = n - start"
  by (simp add: min_def)

lemma doXHR_ok:
  assumes "start \<le> stop" and "stop \<le> int (datalength s) - 1"
    and "get_response rem (if datalength s \<noteq> chunkSize s then Some (start, stop) else None) = Some bytes"
  shows "doXHR rem start stop s = (Inr bytes, s\<lparr>requested := requested s @ [(start, stop)]\<rparr>)"
proof -
  have "\<not> start > stop" "\<not> stop > int (datalength s) - 1" using assms(1,2) by linarith+
  then show ?thesis unfolding doXHR_def by (simp only: if_False assms(3) option.case) simp
qed

lemma getter_ok:
  assumes "serves rem file \<and> length_found rem" and "lazy_ok rem file s" and "lengthKnown s" and "k * chunkSize s < length file"
  shows "\<exists>s'. getter rem k s = (Inr (chunk_of file (chunkSize s) k), s') \<and> lazy_ok rem file s' \<and> lengthKnown s' \<and>
    fileChunkSize s' = fileChunkSize s"
proof (cases "chunks s k")
  case (Some bytes)
  then show ?thesis using assms(2,3) by (auto simp: getter_def lazy_ok_def)
next
  case None
  let ?c = "chunkSize s" and ?n = "length file"
  let ?start = "int (k * ?c)" and ?stop = "min (int ((k + 1) * ?c) - 1) (int ?n - 1)"
  have d: "datalength s = ?n" and pos: "0 < ?c" using assms(2-4) by (auto simp: lazy_ok_def)
  have range: "?start \<le> ?stop" "?stop \<le> int ?n - 1" proof -
    have "int (k * ?c) < int ?n" using assms(4) by (simp only: of_nat_less_iff)
    moreover have "int ((k + 1) * ?c) = int (k * ?c) + int ?c" by (simp add: algebra_simps)
    ultimately show "?start \<le> ?stop" "?stop \<le> int ?n - 1" using pos by linarith+
  qed
  have got: "get_response rem (if ?n \<noteq> ?c then Some (?start, ?stop) else None) = Some (chunk_of file ?c k)"
  proof (cases "?n = ?c")
    case True
    then have "k = 0" using assms(4) by (cases k) auto
    then show ?thesis using True assms(1) by (simp add: serves_def chunk_of_def)
  next
    case False
    have "accept_ranges rem = Some ''bytes'' \<and> content_encoding rem = None"
      using False assms(2,3) by (auto simp: lazy_ok_def)
    then have "get_response rem (Some (?start, ?stop)) = Some (take (nat (?stop - ?start + 1)) (drop (nat ?start) file))"
      using assms(1) range unfolding serves_def by force
    moreover have "take (nat (?stop - ?start + 1)) (drop (k * ?c) file) = take ?c (drop (k * ?c) file)"
    proof (cases "(k + 1) * ?c \<le> ?n")
      case True
      then have "int ((k + 1) * ?c) \<le> int ?n" by (simp only: of_nat_le_iff)
      moreover have "int ((k + 1) * ?c) = int (k * ?c) + int ?c" by (simp add: algebra_simps)
      ultimately have "?stop - ?start + 1 = int ?c" by linarith
      then show ?thesis by simp
    next
      case False
      then have "nat (?stop - ?start + 1) = ?n - k * ?c"
        using assms(4) by (intro last_chunk_length) (simp_all only: not_le less_imp_le)
      moreover have "?n - k * ?c \<le> ?c" using False by simp
      ultimately show ?thesis by (simp only: take_all length_drop order_refl)
    qed
    moreover have "nat ?start = k * ?c" by (rule nat_int)
    ultimately show ?thesis using False by (simp add: chunk_of_def del: of_nat_mult)
  qed
  have "getter rem k s = (Inr (chunk_of file ?c k),
      s\<lparr>requested := requested s @ [(?start, ?stop)], chunks := (chunks s)(k \<mapsto> chunk_of file ?c k)\<rparr>)"
    using None doXHR_ok [OF range [folded d] got [folded d], unfolded d] unfolding getter_def Let_def d
    by (simp del: of_nat_mult of_nat_add min_less_iff_conj)
  then show ?thesis using assms(2,3) by (auto simp: lazy_ok_def)
qed

lemma cacheLength_ok:
  assumes "serves rem file \<and> length_found rem" and "lazy_ok rem file s" and "\<not> lengthKnown s"
  shows "\<exists>s'. cacheLength rem s = (Inr (), s') \<and> lazy_ok rem file s' \<and> lengthKnown s'"
proof -
  let ?announced = "case content_length rem of None \<Rightarrow> 0 | Some n \<Rightarrow> n"
  have none: "chunks s = (\<lambda>_. None)" using assms(2,3) by (simp add: lazy_ok_def)
  show ?thesis
  proof (cases "usesGzip rem \<or> ?announced = 0")
    case True
    have "getter rem 0 (s\<lparr>datalength := 1, chunkSize := 1\<rparr>) =
        (Inr file, s\<lparr>datalength := 1, chunkSize := 1, requested := requested s @ [(0, 0)], chunks := [0 \<mapsto> file]\<rparr>)"
      using assms(1) none by (simp add: getter_def doXHR_def serves_def Let_def)
    then show ?thesis
      using True assms(1) by (auto simp: cacheLength_def serves_def lazy_ok_def chunk_of_def Let_def)
  next
    case False
    then have "content_encoding rem = None" "?announced = length file"
      using assms(1) by (auto simp: serves_def length_found_def usesGzip_def split: option.splits)
    then show ?thesis
      using False assms(1) none by (auto simp: cacheLength_def serves_def lazy_ok_def hasByteServing_def Let_def)
  qed
qed

lemma lazy_length_ok:
  assumes "serves rem file \<and> length_found rem" and "lazy_ok rem file s"
  shows "\<exists>s'. lazy_length rem s = (Inr (length file), s') \<and> lazy_ok rem file s' \<and> lengthKnown s' \<and>
    (lengthKnown s \<longrightarrow> s' = s)"
proof (cases "lengthKnown s")
  case True
  then show ?thesis using assms(2) by (simp add: lazy_length_def lazy_ok_def)
next
  case False
  then obtain s' where "cacheLength rem s = (Inr (), s')" "lazy_ok rem file s'" "lengthKnown s'"
    using cacheLength_ok [OF assms] by blast
  then show ?thesis using False by (auto simp: lazy_length_def lazy_ok_def)
qed

lemma lazy_get_ok:
  assumes "serves rem file \<and> length_found rem" and "lazy_ok rem file s"
  shows "\<exists>s'. lazy_get rem idx s =
      (Inr (if 0 \<le> idx \<and> idx < int (length file) then Some (file ! nat idx) else None), s') \<and>
    lazy_ok rem file s' \<and> lengthKnown s'"
proof -
  obtain v where v: "lazy_length rem s = (Inr (length file), v)" "lazy_ok rem file v" "lengthKnown v"
    using lazy_length_ok [OF assms] by blast
  show ?thesis
  proof (cases "0 \<le> idx \<and> idx < int (length file)")
    case False
    then have "idx > int (length file) - 1 \<or> idx < 0" by linarith
    then show ?thesis using False v by (auto simp: lazy_get_def)
  next
    case True
    let ?i = "nat idx" and ?c = "chunkSize v"
    have i: "?i < length file" using True by linarith
    then have c: "0 < ?c" "fileChunkSize v = ?c" using v(2,3) by (auto simp: lazy_ok_def)
    have "?i div ?c * ?c \<le> ?i" by simp
    then have "?i div ?c * ?c < length file" using i by linarith
    then obtain s' where s': "getter rem (?i div ?c) v = (Inr (chunk_of file ?c (?i div ?c)), s')"
      "lazy_ok rem file s'" "lengthKnown s'" "fileChunkSize s' = fileChunkSize v"
      using getter_ok [OF assms(1) v(2,3)] by blast
    have m: "?i div ?c * ?c + ?i mod ?c = ?i" by simp
    then have "?i mod ?c < length (chunk_of file ?c (?i div ?c))"
      using i mod_less_divisor [OF c(1), of ?i] unfolding chunk_of_def length_take length_drop by linarith
    moreover have "chunk_of file ?c (?i div ?c) ! (?i mod ?c) = file ! ?i"
      using m i mod_less_divisor [OF c(1), of ?i] unfolding chunk_of_def
      using i \<open>?i div ?c * ?c < length file\<close> by (subst nth_take) (simp_all only: nth_drop less_imp_le m)
    moreover have "\<not> (idx > int (length file) - 1 \<or> idx < 0)" using True by linarith
    ultimately show ?thesis using True v s' c(2) by (simp add: lazy_get_def)
  qed
qed

lemma write_bytes_ok:
  assumes "serves rem file \<and> length_found rem" and "lazy_ok rem file s" and "position + n \<le> length file"
  shows "\<exists>s'. write_bytes_from rem buffer offset position n s =
      (Inr (fold (\<lambda>i b. b[offset + i := file ! (position + i)]) [0..<n] buffer), s') \<and> lazy_ok rem file s'"
  using assms(2,3)
proof (induction n arbitrary: s buffer offset position)
  case 0
  then show ?case by simp
next
  case (Suc n)
  obtain v where v: "lazy_get rem (int position) s = (Inr (Some (file ! position)), v)" "lazy_ok rem file v"
    using lazy_get_ok [OF assms(1) Suc.prems(1), of "int position"] Suc.prems(2) by auto
  have "[0..<Suc n] = 0 # map Suc [0..<n]" by (simp add: upt_conv_Cons map_Suc_upt del: upt_Suc)
  then show ?case
    using v Suc.IH [OF v(2), of "position + 1" "buffer[offset := file ! position]" "offset + 1"] Suc.prems(2)
    by (simp add: fold_map o_def)
qed

lemma fold_update_nth:
  "j < length buffer \<Longrightarrow> fold (\<lambda>i b. b[offset + i := f i]) [0..<n] buffer ! j =
    (if offset \<le> j \<and> j < offset + n then f (j - offset) else buffer ! j)"
proof (induction n)
  case (Suc n)
  have "length (fold (\<lambda>i b. b[offset + i := f i]) [0..<n] buffer) = length buffer" for n
    by (induction n) simp_all
  then show ?case using Suc by (cases "j = offset + n") (auto simp: nth_list_update less_Suc_eq)
next
  case 0
  have "\<not> (offset \<le> j \<and> j < offset + 0)" by linarith
  then show ?case by (simp only: if_False upt_0 fold_simps id_apply upt_rec [of 0 0] less_irrefl)
qed

lemma writeChunks_gets_file:
  assumes "serves rem file \<and> length_found rem" and "lazy_ok rem file s" and "n = min (length file - position) count"
    and "offset + n \<le> length buffer"
  shows "\<exists>s' buffer'. writeChunks rem buffer offset count position s = (Inr (n, buffer'), s') \<and> lazy_ok rem file s' \<and>
    (\<forall>j < length buffer. buffer' ! j =
       (if offset \<le> j \<and> j < offset + n then file ! (position + (j - offset)) else buffer ! j))"
proof -
  obtain v where v: "lazy_length rem s = (Inr (length file), v)" "lazy_ok rem file v"
    using lazy_length_ok [OF assms(1,2)] by blast
  show ?thesis
  proof (cases "position \<ge> length file")
    case True
    then have "n = 0" using assms(3) by simp
    then have "\<not> (offset \<le> j \<and> j < offset + n)" for j by linarith
    moreover have "writeChunks rem buffer offset count position s = (Inr (n, buffer), v)"
      using True v(1) \<open>n = 0\<close> by (simp add: writeChunks_def)
    ultimately show ?thesis using v(2) by (metis (no_types, lifting))
  next
    case False
    then have "position + n \<le> length file" using assms(3) by simp
    then obtain s' where s': "write_bytes_from rem buffer offset position n v =
        (Inr (fold (\<lambda>i b. b[offset + i := file ! (position + i)]) [0..<n] buffer), s')" "lazy_ok rem file s'"
      using write_bytes_ok [OF assms(1) v(2)] by blast
    then have "writeChunks rem buffer offset count position s =
        (Inr (n, fold (\<lambda>i b. b[offset + i := file ! (position + i)]) [0..<n] buffer), s')"
      using v(1) False assms(3) by (simp add: writeChunks_def Let_def)
    then show ?thesis using s'(2) by (auto simp: fold_update_nth)
  qed
qed

section \<open>The node of a lazy file\<close>

datatype lazy_contents = LazyArray lazy_array | Loaded "u8 list" | NoContents

text \<open>\<open>used_bytes_setter\<close>: whether the property \<open>usedBytes\<close> may be assigned. The file is an ES module, so an
  assignment to a property that only has a getter throws.\<close>

record lazy_node =
  isDevice :: bool
  isFolder :: bool
  has_link :: bool
  lazy_contents :: lazy_contents
  url :: js_units
  used_bytes_setter :: bool

datatype load_exn = NotInWorker | ShouldHaveBeenLoaded | NoWayToLoad | EIO | ENOMEM | TypeErrorNull | Fetch lazy_exn

text \<open>\<open>createLazyFile\<close> replaces \<open>usedBytes\<close> by a getter.\<close>

definition createLazyFile :: "bool \<Rightarrow> bool \<Rightarrow> js_units \<Rightarrow> load_exn + lazy_node" where
  "createLazyFile has_xhr is_worker u =
     (if has_xhr \<and> \<not> is_worker then Inl NotInWorker
      else Inr \<lparr>isDevice = False, isFolder = False, has_link = False,
        lazy_contents = (if has_xhr then LazyArray new_lazy_array else NoContents),
        url = u, used_bytes_setter = False\<rparr>)"

definition forceLoadFile :: "bool \<Rightarrow> (js_units \<Rightarrow> js_units option) option \<Rightarrow> (lazy_node, load_exn, unit) comp" where
  "forceLoadFile has_xhr read_fn = (\<lambda>obj.
     if isDevice obj \<or> isFolder obj \<or> has_link obj \<or> lazy_contents obj \<noteq> NoContents then ret () obj
     else if has_xhr then throw ShouldHaveBeenLoaded obj
     else case read_fn of
         None \<Rightarrow> throw NoWayToLoad obj
       | Some reads \<Rightarrow> (case reads (url obj) of
             None \<Rightarrow> throw EIO obj
           | Some str \<Rightarrow>
               let obj' = obj\<lparr>lazy_contents := Loaded (intArrayFromString str True 0)\<rparr>
               in if used_bytes_setter obj' then ret () obj' else throw EIO obj'))"

fun copy_bytes :: "u8 list \<Rightarrow> u8 list \<Rightarrow> nat \<Rightarrow> nat \<Rightarrow> nat \<Rightarrow> u8 list" where
  "copy_bytes bytes buffer offset position 0 = buffer"
| "copy_bytes bytes buffer offset position (Suc n) =
     copy_bytes bytes (buffer[offset := bytes ! position]) (offset + 1) (position + 1) n"

text \<open>\<open>writeChunks\<close> on what the node holds.\<close>

definition node_chunks :: "remote \<Rightarrow> u8 list \<Rightarrow> nat \<Rightarrow> nat \<Rightarrow> nat \<Rightarrow> (lazy_node, load_exn, nat \<times> u8 list) comp" where
  "node_chunks rem buffer offset count position =
     (\<lambda>node. case lazy_contents node of
         NoContents \<Rightarrow> throw TypeErrorNull node
       | Loaded bytes \<Rightarrow>
           if position \<ge> length bytes then ret (0, buffer) node
           else let size = min (length bytes - position) count
             in ret (size, copy_bytes bytes buffer offset position size) node
       | LazyArray a \<Rightarrow> (case writeChunks rem buffer offset count position a of
             (Inl e, a') \<Rightarrow> (Inl (Fetch e), node\<lparr>lazy_contents := LazyArray a'\<rparr>)
           | (Inr r, a') \<Rightarrow> (Inr r, node\<lparr>lazy_contents := LazyArray a'\<rparr>)))"

text \<open>
  The operations of the node's streams: each of those of \<open>MEMFS\<close> after \<open>forceLoadFile\<close>, and the custom \<open>read\<close>
  and \<open>mmap\<close>. \<open>alloc\<close> is \<open>mmapAlloc\<close>: the address (0 for none) and the memory with the block zeroed.
\<close>

definition forced :: "bool \<Rightarrow> (js_units \<Rightarrow> js_units option) option \<Rightarrow> (lazy_node, load_exn, 'a) comp \<Rightarrow> (lazy_node, load_exn, 'a) comp" where
  "forced has_xhr read_fn fn = thn (forceLoadFile has_xhr read_fn) fn"

definition lazy_read :: "bool \<Rightarrow> (js_units \<Rightarrow> js_units option) option \<Rightarrow> remote \<Rightarrow> u8 list \<Rightarrow> nat \<Rightarrow> nat \<Rightarrow> nat
    \<Rightarrow> (lazy_node, load_exn, nat \<times> u8 list) comp" where
  "lazy_read has_xhr read_fn rem buffer offset count position =
     forced has_xhr read_fn (node_chunks rem buffer offset count position)"

definition lazy_mmap :: "bool \<Rightarrow> (js_units \<Rightarrow> js_units option) option \<Rightarrow> remote \<Rightarrow> (nat \<Rightarrow> heap \<Rightarrow> nat \<times> heap) \<Rightarrow> heap \<Rightarrow> nat \<Rightarrow> nat
    \<Rightarrow> (lazy_node, load_exn, nat \<times> heap) comp" where
  "lazy_mmap has_xhr read_fn rem alloc heap count position =
     forced has_xhr read_fn
       (case alloc count heap of (p, heap1) \<Rightarrow>
          if p = 0 then throw ENOMEM
          else bnd (node_chunks rem heap1 p count position) (\<lambda>(size, heap2). ret (p, heap2)))"

lemma copy_bytes_fold:
  "copy_bytes bytes buffer offset position n = fold (\<lambda>i b. b[offset + i := bytes ! (position + i)]) [0..<n] buffer"
proof (induction n arbitrary: buffer offset position)
  case (Suc n)
  have "[0..<Suc n] = 0 # map Suc [0..<n]" by (simp add: upt_conv_Cons map_Suc_upt del: upt_Suc)
  then show ?case using Suc.IH by (simp add: fold_map o_def)
qed simp

text \<open>
  C37: Where there is \<open>XMLHttpRequest\<close>, so that the node holds a lazy array, reading from a lazy file gives the bytes
  of the file the server has: the count is that of a plain file, the buffer gets the bytes of the file at the
  position and is left alone elsewhere, whichever chunks have been fetched before. The server may or may not
  serve ranges and may hide the length; it sends the file as it is or encoded as \<open>gzip\<close>, or in any other encoding
  if it then gives no \<open>Content-Length\<close>. With one, a file in another encoding is cut to the wrong length
  (\<open>brotli_file_is_cut\<close>). A server that announces ranges is relied on to answer with the range it is asked for.
\<close>

theorem lazy_read_gets_file:
  assumes "serves rem file" and "length_found rem" and "lazy_contents node = LazyArray a" and "lazy_ok rem file a"
    and "n = min (length file - position) count" and "offset + n \<le> length buffer"
  shows "\<exists>a' buffer'. lazy_read has_xhr read_fn rem buffer offset count position node =
      (Inr (n, buffer'), node\<lparr>lazy_contents := LazyArray a'\<rparr>) \<and> lazy_ok rem file a' \<and>
    (\<forall>j < length buffer. buffer' ! j =
       (if offset \<le> j \<and> j < offset + n then file ! (position + (j - offset)) else buffer ! j))"
proof -
  obtain a' buffer' where r: "writeChunks rem buffer offset count position a = (Inr (n, buffer'), a')" "lazy_ok rem file a'"
    "\<forall>j < length buffer. buffer' ! j =
       (if offset \<le> j \<and> j < offset + n then file ! (position + (j - offset)) else buffer ! j)"
    using writeChunks_gets_file [OF conjI [OF assms(1,2)] assms(4-6)] by blast
  then have "lazy_read has_xhr read_fn rem buffer offset count position node =
      (Inr (n, buffer'), node\<lparr>lazy_contents := LazyArray a'\<rparr>)"
    using assms(3) by (simp add: lazy_read_def forced_def node_chunks_def forceLoadFile_def)
  then show ?thesis using r(2,3) by blast
qed

definition ranged_remote :: "u8 list \<Rightarrow> remote" where
  "ranged_remote file = \<lparr>head_ok = True, content_length = Some (length file), accept_ranges = Some ''bytes'', content_encoding = None,
     get_response = (\<lambda>r. case r of None \<Rightarrow> Some file
       | Some (a, b) \<Rightarrow> Some (take (nat (b - a + 1)) (drop (nat a) file)))\<rparr>"

definition worker_node :: lazy_node where
  "worker_node = \<lparr>isDevice = False, isFolder = False, has_link = False, lazy_contents = LazyArray new_lazy_array,
     url = [], used_bytes_setter = False\<rparr>"

lemma lazy_read_gets_file_witness:
  "createLazyFile True True [] = Inr worker_node \<and>
   (\<exists>a' buffer'. lazy_read True None (ranged_remote [10, 20, 30]) [0, 0, 0, 0] 1 5 1 worker_node =
       (Inr (2, buffer'), worker_node\<lparr>lazy_contents := LazyArray a'\<rparr>) \<and>
     buffer' ! 1 = 20 \<and> buffer' ! 2 = 30 \<and> buffer' ! 3 = 0)"
proof -
  have "serves (ranged_remote [10, 20, 30]) [10, 20, 30]" "length_found (ranged_remote [10, 20, 30])"
    by (simp_all add: serves_def length_found_def ranged_remote_def)
  moreover have node: "lazy_contents worker_node = LazyArray new_lazy_array" by (simp add: worker_node_def)
  ultimately obtain a' buffer' where r: "lazy_read True None (ranged_remote [10, 20, 30]) [0, 0, 0, 0] 1 5 1 worker_node =
      (Inr (2, buffer'), worker_node\<lparr>lazy_contents := LazyArray a'\<rparr>)"
    "\<forall>j < 4. buffer' ! j = (if 1 \<le> j \<and> j < 1 + 2 then [10, 20, 30] ! (1 + (j - 1)) else [0, 0, 0, 0 :: u8] ! j)"
    using lazy_read_gets_file [OF _ _ node new_lazy_array_ok, of "ranged_remote [10, 20, 30]" "[10, 20, 30]" 2 1 5 1 "[0, 0, 0, 0]" True None]
    by auto
  from r(2) have "buffer' ! 1 = 20" "buffer' ! 2 = 30" "buffer' ! 3 = 0" by (simp_all add: numeral_eq_Suc)
  with r(1) show ?thesis by (auto simp: createLazyFile_def worker_node_def)
qed

text \<open>Mapping a lazy file puts its bytes into the block, and leaves the memory around them alone.\<close>

theorem lazy_mmap_gets_file:
  assumes "serves rem file \<and> length_found rem" and "lazy_contents node = LazyArray a" and "lazy_ok rem file a"
    and "alloc count heap = (p, heap1)" and "p \<noteq> 0" and "p + count \<le> length heap1"
  shows "\<exists>a' heap2. lazy_mmap has_xhr read_fn rem alloc heap count position node =
      (Inr (p, heap2), node\<lparr>lazy_contents := LazyArray a'\<rparr>) \<and> lazy_ok rem file a' \<and>
    (\<forall>j < length heap1. heap2 ! j =
       (if p \<le> j \<and> j < p + min (length file - position) count then file ! (position + (j - p)) else heap1 ! j))"
proof -
  have "p + min (length file - position) count \<le> length heap1" using assms(6) by simp
  from writeChunks_gets_file [OF assms(1,3) refl this]
  obtain a' heap2 where r: "writeChunks rem heap1 p count position a = (Inr (min (length file - position) count, heap2), a')"
    "lazy_ok rem file a'" "\<forall>j < length heap1. heap2 ! j =
       (if p \<le> j \<and> j < p + min (length file - position) count then file ! (position + (j - p)) else heap1 ! j)"
    by blast
  then have "lazy_mmap has_xhr read_fn rem alloc heap count position node =
      (Inr (p, heap2), node\<lparr>lazy_contents := LazyArray a'\<rparr>)"
    using assms(2,4,5) by (simp add: lazy_mmap_def forced_def node_chunks_def forceLoadFile_def bnd_def)
  then show ?thesis using r(2,3) by blast
qed

text \<open>
  \<open>cacheLength\<close> tests for \<open>gzip\<close> only. A server that sends the file compressed as \<open>br\<close>, with the length of what it
  sends, is read as a file of that length: of five bytes that take two when compressed, the first two.
\<close>

theorem brotli_file_is_cut:
  "\<exists>rem s. serves rem [10, 20, 30, 40, 50] \<and> content_encoding rem = Some ''br'' \<and> content_length rem = Some 2
     \<and> writeChunks rem [0, 0, 0, 0, 0] 0 5 0 new_lazy_array = (Inr (2, [10, 20, 0, 0, 0]), s)"
proof -
  define rem where "rem = \<lparr>head_ok = True, content_length = Some 2, accept_ranges = None, content_encoding = Some ''br'',
    get_response = (\<lambda>_. Some [10, 20, 30, 40, 50 :: u8])\<rparr>"
  have "serves rem [10, 20, 30, 40, 50] \<and> content_encoding rem = Some ''br'' \<and> content_length rem = Some 2"
    by (simp add: serves_def rem_def)
  moreover have "fst (writeChunks rem [0, 0, 0, 0, 0] 0 5 0 new_lazy_array) = Inr (2, [10, 20, 0, 0, 0])"
    by (simp add: rem_def writeChunks_def lazy_length_def cacheLength_def new_lazy_array_def usesGzip_def hasByteServing_def
        lazy_get_def getter_def doXHR_def bnd_def numeral_2_eq_2 Let_def)
  ultimately show ?thesis by (metis prod.collapse)
qed

text \<open>
  Without \<open>XMLHttpRequest\<close> the first read of a lazy file always fails with \<open>EIO\<close>, although the file was
  read: \<open>forceLoadFile\<close> then assigns \<open>usedBytes\<close>, which \<open>createLazyFile\<close> has made a getter, and its handler
  turns the \<open>TypeError\<close> into \<open>EIO\<close>. The contents stay, so every later read succeeds.
\<close>

theorem first_read_without_xhr_fails:
  assumes "createLazyFile False is_worker u = Inr node" and "reads u = Some str"
    and "bytes = intArrayFromString str True 0" and "n = min (length bytes - position) count"
  shows "\<exists>node'. lazy_read False (Some reads) rem buffer offset count position node = (Inl EIO, node') \<and>
    lazy_read False (Some reads) rem buffer offset count position node' =
      (Inr (n, copy_bytes bytes buffer offset position n), node')"
proof -
  let ?node = "node\<lparr>lazy_contents := Loaded bytes\<rparr>"
  have "lazy_read False (Some reads) rem buffer offset count position node = (Inl EIO, ?node)"
    using assms(1-3) by (auto simp: createLazyFile_def lazy_read_def forced_def node_chunks_def forceLoadFile_def Let_def)
  moreover have "lazy_read False (Some reads) rem buffer offset count position ?node =
      (Inr (n, copy_bytes bytes buffer offset position n), ?node)"
    using assms(4) by (simp add: lazy_read_def forced_def node_chunks_def forceLoadFile_def Let_def)
  ultimately show ?thesis by blast
qed

lemma first_read_without_xhr_fails_witness:
  "\<exists>node node'. createLazyFile False False [47] = Inr node \<and>
     lazy_read False (Some (\<lambda>_. Some [72, 105])) (ranged_remote []) [0, 0] 0 2 0 node = (Inl EIO, node') \<and>
     lazy_read False (Some (\<lambda>_. Some [72, 105])) (ranged_remote []) [0, 0] 0 2 0 node' = (Inr (2, [72, 105]), node')"
proof -
  obtain node where node: "createLazyFile False False [47] = Inr node" by (simp add: createLazyFile_def)
  have bytes: "[72, 105] = intArrayFromString [72, 105] True 0"
    by (simp add: intArrayFromString_def stringToUTF8Array_heap utf8_prefix.simps lengthBytesUTF8.simps
        code_point_def after_code_point_def is_surrogate_def utf8_bytes_def)
  have "\<exists>node'. lazy_read False (Some (\<lambda>_. Some [72, 105])) (ranged_remote []) [0, 0] 0 2 0 node = (Inl EIO, node') \<and>
     lazy_read False (Some (\<lambda>_. Some [72, 105])) (ranged_remote []) [0, 0] 0 2 0 node' =
       (Inr (2, copy_bytes [72, 105] [0, 0] 0 0 2), node')"
    by (rule first_read_without_xhr_fails [OF node _ bytes]) simp_all
  moreover have "copy_bytes [72, 105] [0, 0] 0 0 2 = [72, 105]" by (simp add: numeral_2_eq_2)
  ultimately show ?thesis using node by auto
qed

end
