(* ===== verification/ModuleLoading.thy ===== *)
theory ModuleLoading
  imports LifecycleProps Base64
begin

text \<open>
  How the script finds and loads the compiled module: the script directory, \<open>locateFile\<close>, and the ladder
  \<open>createWasm\<close>, \<open>instantiateAsync\<close>, \<open>instantiateArrayBuffer\<close>, \<open>getBinaryPromise\<close>, \<open>getBinarySync\<close>.

  The browser is a parameter: \<open>engine\<close> says which functions exist and what each answers; \<open>fetch\<close> is told how
  many requests came before, so the network may answer differently each time. A chain of promises is a
  computation that may throw: \<open>then\<close> is \<open>bnd\<close> or \<open>on_settled\<close>, \<open>catch\<close> is \<open>recover\<close>. What other code does between the
  links of the chain is not modelled here. \<open>'i\<close> is the type of instances.
\<close>

section \<open>Where the files are\<close>

definition startsWith :: "string \<Rightarrow> string \<Rightarrow> bool" where
  "startsWith s prefix \<longleftrightarrow> take (length prefix) s = prefix"

definition isFileURI :: "string \<Rightarrow> bool" where
  "isFileURI filename \<longleftrightarrow> startsWith filename ''file://''"

text \<open>\<open>replace(/[?#].*/, '')\<close>: from the first mark to the end of its line.\<close>

definition is_mark :: "char \<Rightarrow> bool" where
  "is_mark c \<longleftrightarrow> c = CHR ''?'' \<or> c = CHR ''#''"

definition is_line_end :: "char \<Rightarrow> bool" where
  "is_line_end c \<longleftrightarrow> c = CHR 0x0A \<or> c = CHR 0x0D"

definition cut_marks :: "string \<Rightarrow> string" where
  "cut_marks s = takeWhile (\<lambda>c. \<not> is_mark c) s @ dropWhile (\<lambda>c. \<not> is_line_end c) (dropWhile (\<lambda>c. \<not> is_mark c) s)"

text \<open>\<open>lastIndexOf('/') + 1\<close>, which is 0 when there is none.\<close>

fun after_last_slash :: "string \<Rightarrow> nat" where
  "after_last_slash [] = 0"
| "after_last_slash (c # cs) =
     (if after_last_slash cs > 0 then Suc (after_last_slash cs) else if c = CHR ''/'' then 1 else 0)"

text \<open>The branch of pages and workers. An empty \<open>_scriptDir\<close> or a missing \<open>currentScript\<close> leaves the value.\<close>

definition script_url :: "string option \<Rightarrow> string option \<Rightarrow> string \<Rightarrow> string" where
  "script_url worker_href current_script scriptDir =
     (let s = (case worker_href of Some href \<Rightarrow> href
         | None \<Rightarrow> (case current_script of Some src \<Rightarrow> src | None \<Rightarrow> []))
      in if scriptDir \<noteq> [] then scriptDir else s)"

definition script_directory :: "string \<Rightarrow> string" where
  "script_directory s = (if startsWith s ''blob:'' then [] else take (after_last_slash (cut_marks s)) s)"

definition locateFile :: "(string \<Rightarrow> string \<Rightarrow> string) option \<Rightarrow> string \<Rightarrow> string \<Rightarrow> string" where
  "locateFile hook scriptDirectory path = (case hook of Some f \<Rightarrow> f path scriptDirectory | None \<Rightarrow> scriptDirectory @ path)"

text \<open>The kind of the surroundings, from the kinds the script looks for.\<close>

definition environment_is_shell :: "bool \<Rightarrow> bool \<Rightarrow> bool \<Rightarrow> bool" where
  "environment_is_shell web node worker \<longleftrightarrow> \<not> web \<and> \<not> node \<and> \<not> worker"

definition wasm_name :: string where "wasm_name = ''dotnet.native.wasm''"

text \<open>\<open>resolved\<close> is \<open>new URL('dotnet.native.wasm', import.meta.url).href\<close>.\<close>

definition wasmBinaryFile :: "(string \<Rightarrow> string \<Rightarrow> string) option \<Rightarrow> string \<Rightarrow> bool \<Rightarrow> string \<Rightarrow> string" where
  "wasmBinaryFile hook scriptDirectory is_shell resolved =
     (case hook of
        Some f \<Rightarrow> if \<not> isDataURI (to_units wasm_name) then locateFile hook scriptDirectory wasm_name else wasm_name
      | None \<Rightarrow> if is_shell then wasm_name else resolved)"

section \<open>Loading\<close>

record response =
  resp_ok :: bool
  arrayBuffer :: "u8 list option"

record 'i engine =
  is_web :: bool
  is_worker :: bool
  is_node :: bool
  fetch :: "(nat \<Rightarrow> response option) option"
  instantiateStreaming :: "(response \<Rightarrow> 'i option) option"
  instantiate :: "u8 list \<Rightarrow> 'i option"
  readBinary :: "(string \<Rightarrow> u8 list option) option"
  readAsync :: "(string \<Rightarrow> u8 list option) option"
  wasmBinary :: "u8 list option"

datatype reason =
    FetchRejected | FailedToLoad | BodyRejected | BothFailed | ReadFailed | CompileFailed | HookThrew
  | RuntimeError reason

datatype message = HookFailed | StreamingFailed | FallingBack | FailedToPrepare | Aborted

datatype request = Fetch string | ReadBinary string | ReadAsync string

record 'i loader =
  requests :: "request list"
  messages :: "message list"
  rejections :: "reason list"
  abort_flag :: bool
  exports :: "'i option"
  ctors_queued :: nat
  dependencies :: int

type_synonym ('i, 'a) promise = "('i loader, reason, 'a) comp"

definition on_settled :: "('s, 'e, 'a) comp \<Rightarrow> ('a \<Rightarrow> ('s, 'e, 'b) comp) \<Rightarrow> ('e \<Rightarrow> ('s, 'e, 'b) comp) \<Rightarrow> ('s, 'e, 'b) comp" where
  "on_settled m k h = (\<lambda>s. case m s of (Inr x, s') \<Rightarrow> k x s' | (Inl e, s') \<Rightarrow> h e s')"

definition recover :: "('s, 'e, 'a) comp \<Rightarrow> ('e \<Rightarrow> ('s, 'e, 'a) comp) \<Rightarrow> ('s, 'e, 'a) comp" where
  "recover m h = on_settled m ret h"

definition err_msg :: "message \<Rightarrow> ('i, unit) promise" where
  "err_msg m = upd (\<lambda>s. s\<lparr>messages := messages s @ [m]\<rparr>)"

definition readyPromiseReject :: "reason \<Rightarrow> ('i, unit) promise" where
  "readyPromiseReject e = upd (\<lambda>s. s\<lparr>rejections := rejections s @ [e]\<rparr>)"

text \<open>\<open>abort\<close> while the runtime is not initialised.\<close>

definition abort_loading :: "reason \<Rightarrow> ('i, 'a) promise" where
  "abort_loading what =
     thn (err_msg Aborted) (thn (upd (\<lambda>s. s\<lparr>abort_flag := True\<rparr>))
       (thn (readyPromiseReject (RuntimeError what)) (throw (RuntimeError what))))"

definition request_file :: "request \<Rightarrow> ('i, unit) promise" where
  "request_file r = upd (\<lambda>s. s\<lparr>requests := requests s @ [r]\<rparr>)"

definition answer :: "reason \<Rightarrow> 'a option \<Rightarrow> ('i, 'a) promise" where
  "answer e r = (case r of None \<Rightarrow> throw e | Some x \<Rightarrow> ret x)"

definition do_fetch :: "(nat \<Rightarrow> response option) \<Rightarrow> string \<Rightarrow> ('i, response) promise" where
  "do_fetch f file = (\<lambda>s. thn (request_file (Fetch file)) (answer FetchRejected (f (length (requests s)))) s)"

text \<open>Only the compiled module's own file is looked up, so the test \<open>file == wasmBinaryFile\<close> holds.\<close>

definition getBinarySync :: "'i engine \<Rightarrow> string \<Rightarrow> ('i, u8 list) promise" where
  "getBinarySync e file =
     (case wasmBinary e of
        Some binary \<Rightarrow> ret binary
      | None \<Rightarrow> (case readBinary e of
            Some rd \<Rightarrow> thn (request_file (ReadBinary file)) (answer ReadFailed (rd file))
          | None \<Rightarrow> throw BothFailed))"

definition getBinaryPromise :: "'i engine \<Rightarrow> string \<Rightarrow> ('i, u8 list) promise" where
  "getBinaryPromise e file =
     (if wasmBinary e = None \<and> (is_web e \<or> is_worker e) then
        (if fetch e \<noteq> None \<and> \<not> isFileURI file then
           recover
             (bnd (do_fetch (the (fetch e)) file) (\<lambda>response.
                if \<not> resp_ok response then throw FailedToLoad else answer BodyRejected (arrayBuffer response)))
             (\<lambda>_. getBinarySync e file)
         else (case readAsync e of
             Some rd \<Rightarrow> thn (request_file (ReadAsync file)) (answer ReadFailed (rd file))
           | None \<Rightarrow> getBinarySync e file))
      else getBinarySync e file)"

definition instantiateArrayBuffer :: "'i engine \<Rightarrow> string \<Rightarrow> ('i \<Rightarrow> ('i, unit) promise) \<Rightarrow> ('i, unit) promise" where
  "instantiateArrayBuffer e file receiver =
     on_settled (bnd (getBinaryPromise e file) (\<lambda>binary. answer CompileFailed (instantiate e binary)))
       receiver
       (\<lambda>reason. thn (err_msg FailedToPrepare) (abort_loading reason))"

definition instantiateAsync :: "'i engine \<Rightarrow> string \<Rightarrow> ('i \<Rightarrow> ('i, unit) promise) \<Rightarrow> ('i, unit) promise" where
  "instantiateAsync e file callback =
     (if wasmBinary e = None \<and> instantiateStreaming e \<noteq> None \<and> \<not> isDataURI (to_units file) \<and> \<not> isFileURI file
         \<and> \<not> is_node e \<and> fetch e \<noteq> None
      then bnd (do_fetch (the (fetch e)) file) (\<lambda>response.
        on_settled (answer CompileFailed (the (instantiateStreaming e) response))
          callback
          (\<lambda>reason. thn (err_msg StreamingFailed) (thn (err_msg FallingBack) (instantiateArrayBuffer e file callback))))
      else instantiateArrayBuffer e file callback)"

definition receive_instance :: "'i \<Rightarrow> ('i, unit) promise" where
  "receive_instance i = upd (\<lambda>s. s\<lparr>exports := Some i, ctors_queued := ctors_queued s + 1, dependencies := dependencies s - 1\<rparr>)"

text \<open>
  The page may provide \<open>Module.instantiateWasm\<close>: it throws, or it returns and calls back with an instance at
  some time or never. After a throw the code goes on to load the module itself.
\<close>

datatype 'i hook = NoHook | HookThrows | HookReturns "'i option"

definition createWasm :: "'i hook \<Rightarrow> 'i engine \<Rightarrow> string \<Rightarrow> ('i, unit) promise" where
  "createWasm hook e file =
     (let load = recover (instantiateAsync e file receive_instance) readyPromiseReject in
      thn (upd (\<lambda>s. s\<lparr>dependencies := dependencies s + 1\<rparr>))
        (case hook of
           HookReturns None \<Rightarrow> ret ()
         | HookReturns (Some i) \<Rightarrow> receive_instance i
         | HookThrows \<Rightarrow> thn (err_msg HookFailed) (thn (readyPromiseReject HookThrew) load)
         | NoHook \<Rightarrow> load))"

definition loader_start :: "'i loader" where
  "loader_start = \<lparr>requests = [], messages = [], rejections = [], abort_flag = False, exports = None,
     ctors_queued = 0, dependencies = 0\<rparr>"

definition load_module :: "'i hook \<Rightarrow> 'i engine \<Rightarrow> string \<Rightarrow> 'i loader" where
  "load_module hook e file = snd (createWasm hook e file loader_start)"

section \<open>Finding the files\<close>

lemma takeWhile_dropWhile_none: "\<forall>c\<in>set xs. P c \<Longrightarrow> takeWhile P (xs @ ys) = xs @ takeWhile P ys"
  "\<forall>c\<in>set xs. P c \<Longrightarrow> dropWhile P (xs @ ys) = dropWhile P ys"
  by (induction xs) auto

lemma after_last_slash_none: "CHR ''/'' \<notin> set s \<Longrightarrow> after_last_slash s = 0"
  by (induction s) auto

lemma after_last_slash_append: "CHR ''/'' \<notin> set file \<Longrightarrow> after_last_slash (dir @ CHR ''/'' # file) = Suc (length dir)"
  by (induction dir) (auto simp: after_last_slash_none)

definition plain_url :: "string \<Rightarrow> bool" where
  "plain_url s \<longleftrightarrow> (\<forall>c\<in>set s. \<not> is_mark c \<and> \<not> is_line_end c)"

lemma cut_marks_url:
  assumes "plain_url address" and "query = [] \<or> is_mark (hd query)" and "\<forall>c\<in>set query. \<not> is_line_end c"
  shows "cut_marks (address @ query) = address"
proof -
  have a: "\<forall>c\<in>set address. \<not> is_mark c" using assms(1) by (auto simp: plain_url_def)
  have "takeWhile (\<lambda>c. \<not> is_mark c) query = []" "dropWhile (\<lambda>c. \<not> is_mark c) query = query"
    using assms(2) by (cases query; auto)+
  moreover have "dropWhile (\<lambda>c. \<not> is_line_end c) query = []" using assms(3) by simp
  ultimately show ?thesis using a by (simp add: cut_marks_def takeWhile_dropWhile_none)
qed

text \<open>
  Files are looked up beside the script: whatever query or fragment the script's address carries, slashes
  included, a name is appended to the directory of the address.
\<close>

theorem files_beside_script:
  assumes "plain_url dir" and "plain_url file" and "CHR ''/'' \<notin> set file"
    and "query = [] \<or> is_mark (hd query)" and "\<forall>c\<in>set query. \<not> is_line_end c" and "\<not> startsWith dir ''blob:''"
    and "5 \<le> length dir"
  shows "locateFile None (script_directory (dir @ CHR ''/'' # file @ query)) path = dir @ CHR ''/'' # path"
proof -
  have p: "plain_url (dir @ CHR ''/'' # file)" using assms(1,2) by (auto simp: plain_url_def is_mark_def is_line_end_def)
  have "cut_marks ((dir @ CHR ''/'' # file) @ query) = dir @ CHR ''/'' # file" by (rule cut_marks_url [OF p assms(4,5)])
  then have "after_last_slash (cut_marks (dir @ CHR ''/'' # file @ query)) = Suc (length dir)"
    using after_last_slash_append [OF assms(3)] by simp
  moreover have "\<not> startsWith (dir @ CHR ''/'' # file @ query) ''blob:''" using assms(6,7) by (simp add: startsWith_def)
  ultimately show ?thesis by (simp add: locateFile_def script_directory_def)
qed

lemma files_beside_script_witness:
  "locateFile None (script_directory ''http://h/js/dotnet.js?v=/1#x'') ''a.wasm'' = ''http://h/js/a.wasm''"
  using files_beside_script [of "''http://h/js''" "''dotnet.js''" "''?v=/1#x''" "''a.wasm''"]
  by (simp add: plain_url_def is_mark_def is_line_end_def startsWith_def)

section \<open>How loading ends\<close>

text \<open>A link of the chain that only makes requests.\<close>

definition only_requests :: "('i, 'a) promise \<Rightarrow> nat \<Rightarrow> bool" where
  "only_requests m n \<longleftrightarrow> (\<forall>s. \<exists>rs. snd (m s) = s\<lparr>requests := requests s @ rs\<rparr> \<and> length rs \<le> n)"

lemma only_requestsD: "only_requests m n \<Longrightarrow> \<exists>r rs. m s = (r, s\<lparr>requests := requests s @ rs\<rparr>) \<and> length rs \<le> n"
  unfolding only_requests_def by (metis prod.collapse)

lemma only_requests_basic [simp]: "only_requests (ret x) n" "only_requests (throw e) n" "only_requests (answer e r) n"
  by (auto simp: only_requests_def answer_def split: option.splits intro!: exI [of _ "[]"])

lemma only_requests_request: "only_requests m n \<Longrightarrow> only_requests (thn (request_file r) m) (Suc n)"
proof -
  assume a: "only_requests m n"
  have "\<exists>rs. snd (thn (request_file r) m s) = s\<lparr>requests := requests s @ rs\<rparr> \<and> length rs \<le> Suc n" for s
  proof -
    obtain x rs where "m (s\<lparr>requests := requests s @ [r]\<rparr>) = (x, s\<lparr>requests := (requests s @ [r]) @ rs\<rparr>)" "length rs \<le> n"
      using only_requestsD [OF a, of "s\<lparr>requests := requests s @ [r]\<rparr>"] by auto
    then show ?thesis by (intro exI [of _ "r # rs"]) (simp add: request_file_def)
  qed
  then show ?thesis by (simp add: only_requests_def)
qed

lemma only_requests_fetch: "only_requests (do_fetch f file) 1"
proof -
  have "\<exists>rs. snd (do_fetch f file s) = s\<lparr>requests := requests s @ rs\<rparr> \<and> length rs \<le> 1" for s
    by (intro exI [of _ "[Fetch file]"]) (simp add: do_fetch_def request_file_def answer_def split: option.splits)
  then show ?thesis unfolding only_requests_def by blast
qed

lemma only_requests_seq:
  fixes m :: "('i, 'a) promise" and k :: "'a \<Rightarrow> ('i, 'b) promise"
  assumes "only_requests m a" and "\<And>x. only_requests (k x) b" and "\<And>e. only_requests (h e) b"
  shows "only_requests (on_settled m k h) (a + b)" and "only_requests (bnd m k) (a + b)"
proof -
  { fix s :: "'i loader"
    obtain r rs where m: "m s = (r, s\<lparr>requests := requests s @ rs\<rparr>)" "length rs \<le> a" using only_requestsD [OF assms(1)] by blast
    define next_one where "next_one = (case r of Inr x \<Rightarrow> k x | Inl e \<Rightarrow> h e)"
    have "only_requests next_one b" unfolding next_one_def by (cases r) (simp_all add: assms(2,3))
    then obtain q qs where "next_one (s\<lparr>requests := requests s @ rs\<rparr>) = (q, s\<lparr>requests := (requests s @ rs) @ qs\<rparr>)" "length qs \<le> b"
      using only_requestsD [of next_one b "s\<lparr>requests := requests s @ rs\<rparr>"] by auto
    then have "\<exists>rs. snd (on_settled m k h s) = s\<lparr>requests := requests s @ rs\<rparr> \<and> length rs \<le> a + b"
      using m by (intro exI [of _ "rs @ qs"]) (simp add: on_settled_def next_one_def split: sum.splits) }
  then show "only_requests (on_settled m k h) (a + b)" by (simp add: only_requests_def)
  { fix s :: "'i loader"
    obtain r rs where m: "m s = (r, s\<lparr>requests := requests s @ rs\<rparr>)" "length rs \<le> a" using only_requestsD [OF assms(1)] by blast
    have "\<exists>rs. snd (bnd m k s) = s\<lparr>requests := requests s @ rs\<rparr> \<and> length rs \<le> a + b"
    proof (cases r)
      case (Inl e)
      then show ?thesis using m by (intro exI [of _ rs]) simp
    next
      case (Inr x)
      obtain q qs where "k x (s\<lparr>requests := requests s @ rs\<rparr>) = (q, s\<lparr>requests := (requests s @ rs) @ qs\<rparr>)" "length qs \<le> b"
        using only_requestsD [OF assms(2) [of x], where s = "s\<lparr>requests := requests s @ rs\<rparr>"] by auto
      then show ?thesis using m Inr by (intro exI [of _ "rs @ qs"]) simp
    qed }
  then show "only_requests (bnd m k) (a + b)" by (simp add: only_requests_def)
qed

lemma only_requests_bnd:
  fixes m :: "('i, 'a) promise" and k :: "'a \<Rightarrow> ('i, 'b) promise"
  assumes "only_requests m a" and "\<And>x. only_requests (k x) b"
  shows "only_requests (bnd m k) (a + b)"
  by (rule only_requests_seq(2) [OF assms, where h = throw]) simp_all

lemma getBinarySync_requests: "only_requests (getBinarySync e file) 1"
  using only_requests_request [of "answer ReadFailed (rd file)" 0 for rd]
  by (auto simp: getBinarySync_def split: option.splits)

lemma only_requests_mono: "only_requests m a \<Longrightarrow> a \<le> b \<Longrightarrow> only_requests m b"
  unfolding only_requests_def by (meson le_trans)

lemma getBinaryPromise_requests:
  fixes e :: "'i engine"
  shows "only_requests (getBinaryPromise e file) 2"
proof -
  have sync: "only_requests (getBinarySync e file) n" if "1 \<le> n" for n
    using only_requests_mono [OF getBinarySync_requests that] .
  have "only_requests (bnd (do_fetch f file) (\<lambda>response.
      if \<not> resp_ok response then throw FailedToLoad else answer BodyRejected (arrayBuffer response))) (1 + 0)" for f
    by (rule only_requests_bnd [OF only_requests_fetch]) simp_all
  then have "only_requests (recover (bnd (do_fetch f file) (\<lambda>response.
      if \<not> resp_ok response then throw FailedToLoad else answer BodyRejected (arrayBuffer response)))
      (\<lambda>_. getBinarySync e file)) (1 + 1)" for f
    unfolding recover_def by (intro only_requests_seq(1)) (simp_all add: sync)
  moreover have "only_requests (thn (request_file (ReadAsync file)) (answer ReadFailed (rd file)) :: ('i, u8 list) promise) 2" for rd
    using only_requests_request [of "answer ReadFailed (rd file)" 1] by (simp add: numeral_2_eq_2)
  ultimately show ?thesis
    using sync [of 2] by (simp add: getBinaryPromise_def numeral_2_eq_2 del: thn_apply split: option.split)
qed

definition received :: "'i \<Rightarrow> 'i loader \<Rightarrow> 'i loader" where
  "received i s = s\<lparr>exports := Some i, ctors_queued := ctors_queued s + 1, dependencies := dependencies s - 1\<rparr>"

definition aborted_with :: "reason \<Rightarrow> 'i loader \<Rightarrow> 'i loader" where
  "aborted_with why s = s\<lparr>messages := messages s @ [FailedToPrepare, Aborted], abort_flag := True,
     rejections := rejections s @ [RuntimeError why]\<rparr>"

lemma array_buffer_ends:
  "\<exists>rs. length rs \<le> 2 \<and>
     ((\<exists>i. instantiateArrayBuffer e file receive_instance s = (Inr (), received i (s\<lparr>requests := requests s @ rs\<rparr>)))
      \<or> (\<exists>why. instantiateArrayBuffer e file receive_instance s =
            (Inl (RuntimeError why), aborted_with why (s\<lparr>requests := requests s @ rs\<rparr>))))"
proof -
  have "only_requests (bnd (getBinaryPromise e file) (\<lambda>binary. answer CompileFailed (instantiate e binary))) (2 + 0)"
    by (rule only_requests_bnd [OF getBinaryPromise_requests]) simp_all
  then obtain r rs where r: "bnd (getBinaryPromise e file) (\<lambda>binary. answer CompileFailed (instantiate e binary)) s =
      (r, s\<lparr>requests := requests s @ rs\<rparr>)" "length rs \<le> 2"
    using only_requestsD by fastforce
  show ?thesis
  proof (cases r)
    case (Inr i)
    then have "instantiateArrayBuffer e file receive_instance s = (Inr (), received i (s\<lparr>requests := requests s @ rs\<rparr>))"
      using r(1) by (simp add: instantiateArrayBuffer_def on_settled_def receive_instance_def received_def)
    then show ?thesis using r(2) by blast
  next
    case (Inl why)
    then have "instantiateArrayBuffer e file receive_instance s =
        (Inl (RuntimeError why), aborted_with why (s\<lparr>requests := requests s @ rs\<rparr>))"
      using r(1) by (simp add: instantiateArrayBuffer_def on_settled_def err_msg_def abort_loading_def
          readyPromiseReject_def aborted_with_def)
    then show ?thesis using r(2) by blast
  qed
qed

text \<open>The three ways in which \<open>instantiateAsync\<close> ends.\<close>

datatype 'i ending = Received 'i | AbortedBy reason | NoNetwork

fun ended :: "'i ending \<Rightarrow> 'i loader \<Rightarrow> (reason + unit) \<times> 'i loader" where
  "ended (Received i) s = (Inr (), received i s)"
| "ended (AbortedBy why) s = (Inl (RuntimeError why), aborted_with why s)"
| "ended NoNetwork s = (Inl FetchRejected, s)"

lemma array_buffer_ended:
  "\<exists>rs x. length rs \<le> 2 \<and> instantiateArrayBuffer e file receive_instance s = ended x (s\<lparr>requests := requests s @ rs\<rparr>)"
proof -
  obtain rs where "length rs \<le> 2" and
    "(\<exists>i. instantiateArrayBuffer e file receive_instance s = ended (Received i) (s\<lparr>requests := requests s @ rs\<rparr>))
      \<or> (\<exists>why. instantiateArrayBuffer e file receive_instance s = ended (AbortedBy why) (s\<lparr>requests := requests s @ rs\<rparr>))"
    using array_buffer_ends [of e "file" s] by auto
  then show ?thesis by blast
qed

lemma async_ended:
  "\<exists>rs ms x. length rs \<le> 3 \<and> instantiateAsync e file receive_instance s =
     ended x (s\<lparr>messages := messages s @ ms, requests := requests s @ rs\<rparr>)"
proof (cases "wasmBinary e = None \<and> instantiateStreaming e \<noteq> None \<and> \<not> isDataURI (to_units file) \<and> \<not> isFileURI file
    \<and> \<not> is_node e \<and> fetch e \<noteq> None")
  case False
  obtain rs x where "length rs \<le> 2" "instantiateArrayBuffer e file receive_instance s = ended x (s\<lparr>requests := requests s @ rs\<rparr>)"
    using array_buffer_ended by blast
  then show ?thesis
    using False by (intro exI [of _ rs] exI [of _ "[]"] exI [of _ x]) (auto simp: instantiateAsync_def)
next
  case True
  let ?f = "the (fetch e)" and ?s1 = "s\<lparr>requests := requests s @ [Fetch file]\<rparr>"
    and ?s2 = "s\<lparr>messages := messages s @ [StreamingFailed, FallingBack], requests := requests s @ [Fetch file]\<rparr>"
  have s2: "s\<lparr>requests := requests s @ [Fetch file], messages := messages s @ [StreamingFailed, FallingBack]\<rparr> = ?s2"
    by simp
  have async: "instantiateAsync e file receive_instance s =
      (case ?f (length (requests s)) of None \<Rightarrow> ended NoNetwork ?s1
       | Some response \<Rightarrow> (case the (instantiateStreaming e) response of
            Some i \<Rightarrow> ended (Received i) ?s1
          | None \<Rightarrow> instantiateArrayBuffer e file receive_instance (?s2)))"
    using True by (auto simp: instantiateAsync_def do_fetch_def request_file_def answer_def on_settled_def err_msg_def
        receive_instance_def received_def s2 split: option.splits)
  obtain rs x where "length rs \<le> 2" and arr:
    "instantiateArrayBuffer e file receive_instance ?s2 =
      ended x (?s2\<lparr>requests := requests ?s2 @ rs\<rparr>)"
    using array_buffer_ended [of e "file" ?s2] by auto
  then show ?thesis
  proof (cases "\<exists>response. ?f (length (requests s)) = Some response \<and> the (instantiateStreaming e) response = None")
    case True
    then show ?thesis using async arr \<open>length rs \<le> 2\<close>
      by (intro exI [of _ "Fetch file # rs"] exI [of _ "[StreamingFailed, FallingBack]"] exI [of _ x]) auto
  next
    case False
    then have "\<exists>y. instantiateAsync e file receive_instance s = ended y ?s1"
      unfolding async by (metis (no_types, lifting) not_None_eq option.case(1) option.case(2))
    then obtain y where "instantiateAsync e file receive_instance s = ended y ?s1" ..
    then show ?thesis by (intro exI [of _ "[Fetch file]"] exI [of _ "[]"] exI [of _ y]) simp
  qed
qed

text \<open>
  C34: Loading never hangs half done. Whatever the browser offers and however each request ends, after at most
  three requests either the instance has been received once, the dependency it held is gone and the ready
  promise is not rejected, or no instance has been received, the dependency stays and the ready promise has
  been rejected, with \<open>abort\<close> unless the first request found no network.
\<close>

theorem loading_settles:
  "length (requests (load_module NoHook e file)) \<le> 3 \<and>
   (case exports (load_module NoHook e file) of
      Some i \<Rightarrow> ctors_queued (load_module NoHook e file) = 1 \<and> dependencies (load_module NoHook e file) = 0
        \<and> rejections (load_module NoHook e file) = [] \<and> \<not> abort_flag (load_module NoHook e file)
    | None \<Rightarrow> ctors_queued (load_module NoHook e file) = 0 \<and> dependencies (load_module NoHook e file) = 1
        \<and> rejections (load_module NoHook e file) \<noteq> []
        \<and> abort_flag (load_module NoHook e file) = (rejections (load_module NoHook e file) \<noteq> [FetchRejected]))"
proof -
  let ?s = "loader_start\<lparr>dependencies := 1\<rparr> :: 'a loader"
  obtain rs ms x where "length rs \<le> 3" and a: "instantiateAsync e file receive_instance ?s =
      ended x (?s\<lparr>messages := ms, requests := rs\<rparr>)"
    using async_ended [of e "file" ?s] by (auto simp: loader_start_def)
  then have "load_module NoHook e file = (case ended x (?s\<lparr>messages := ms, requests := rs\<rparr>) of
      (Inr u, s) \<Rightarrow> s | (Inl why, s) \<Rightarrow> s\<lparr>rejections := rejections s @ [why]\<rparr>)"
    by (simp add: load_module_def createWasm_def recover_def on_settled_def readyPromiseReject_def loader_start_def
        split: prod.splits sum.splits)
  then show ?thesis
    using \<open>length rs \<le> 3\<close> by (cases x) (simp_all add: loader_start_def received_def aborted_with_def)
qed

text \<open>
  C35: Once a server gives the module's file and the engine compiles it, the page loads it, in whatever way it
  must: a missing \<open>instantiateStreaming\<close> or one that refuses the answer, as it does for a wrong content type,
  costs at most one more request. This also holds after a throw of the page's own hook, although the ready
  promise is then rejected already: the page is told that loading failed and the program runs.
\<close>

theorem served_module_loads:
  assumes "fetch e = Some f" and "\<And>n. f n = Some \<lparr>resp_ok = True, arrayBuffer = Some bytes\<rparr>"
    and "instantiate e bytes = Some i"
    and "\<And>st j. instantiateStreaming e = Some st \<Longrightarrow> st \<lparr>resp_ok = True, arrayBuffer = Some bytes\<rparr> = Some j \<Longrightarrow> j = i"
    and "wasmBinary e = None" and "is_web e \<or> is_worker e" and "\<not> isFileURI file"
  shows "exports (load_module NoHook e file) = Some i \<and> rejections (load_module NoHook e file) = []
    \<and> exports (load_module HookThrows e file) = Some i \<and> rejections (load_module HookThrows e file) = [HookThrew]
    \<and> dependencies (load_module HookThrows e file) = 0
    \<and> length (requests (load_module NoHook e file)) \<le> 2"
proof -
  have binary: "getBinaryPromise e file s = (Inr bytes, s\<lparr>requests := requests s @ [Fetch file]\<rparr>)" for s :: "'a loader"
    using assms(1,2,5-7) by (simp add: getBinaryPromise_def recover_def on_settled_def do_fetch_def request_file_def answer_def)
  have arr: "instantiateArrayBuffer e file receive_instance s = (Inr (), received i (s\<lparr>requests := requests s @ [Fetch file]\<rparr>))"
    for s :: "'a loader"
    using binary assms(3) by (simp add: instantiateArrayBuffer_def on_settled_def answer_def receive_instance_def received_def)
  have async: "\<exists>rs ms. instantiateAsync e file receive_instance s =
      (Inr (), received i (s\<lparr>messages := messages s @ ms, requests := requests s @ rs\<rparr>)) \<and> length rs \<le> 2" for s :: "'a loader"
  proof (cases "instantiateStreaming e \<noteq> None \<and> \<not> isDataURI (to_units file) \<and> \<not> is_node e")
    case False
    then have "instantiateAsync e file receive_instance s = instantiateArrayBuffer e file receive_instance s"
      by (auto simp: instantiateAsync_def)
    then show ?thesis using arr [of s] by (intro exI [of _ "[Fetch file]"] exI [of _ "[]"]) simp
  next
    case True
    then obtain st where st: "instantiateStreaming e = Some st" by blast
    let ?answer = "st \<lparr>resp_ok = True, arrayBuffer = Some bytes\<rparr>"
    have "instantiateAsync e file receive_instance s = (case ?answer of
        Some j \<Rightarrow> (Inr (), received j (s\<lparr>messages := messages s @ [], requests := requests s @ [Fetch file]\<rparr>))
      | None \<Rightarrow> instantiateArrayBuffer e file receive_instance
          (s\<lparr>requests := requests s @ [Fetch file], messages := messages s @ [StreamingFailed, FallingBack]\<rparr>))"
      using True assms(1,2,5,7) st by (simp add: instantiateAsync_def do_fetch_def request_file_def answer_def
          on_settled_def err_msg_def receive_instance_def received_def split: option.split)
    moreover have "received i (s\<lparr>requests := a, messages := b, requests := c\<rparr>) = received i (s\<lparr>messages := b, requests := c\<rparr>)"
      for a b c by (simp add: received_def)
    ultimately show ?thesis
    proof (cases ?answer)
      case None
      then show ?thesis using \<open>instantiateAsync e file receive_instance s = _\<close> arr
        by (intro exI [of _ "[Fetch file, Fetch file]"] exI [of _ "[StreamingFailed, FallingBack]"])
          (simp add: received_def)
    next
      case (Some j)
      then have "j = i" using assms(4) [OF st] by blast
      then show ?thesis using \<open>instantiateAsync e file receive_instance s = _\<close> Some
        by (intro exI [of _ "[Fetch file]"] exI [of _ "[]"]) simp
    qed
  qed
  have load: "snd (recover (instantiateAsync e file receive_instance) readyPromiseReject s) =
      snd (instantiateAsync e file receive_instance s)" for s :: "'a loader"
    using async [of s] by (auto simp: recover_def on_settled_def)
  let ?s = "loader_start\<lparr>dependencies := 1\<rparr> :: 'a loader"
  let ?t = "loader_start\<lparr>dependencies := 1, messages := [HookFailed], rejections := [HookThrew]\<rparr> :: 'a loader"
  have "load_module NoHook e file = snd (instantiateAsync e file receive_instance ?s)"
    "load_module HookThrows e file = snd (instantiateAsync e file receive_instance ?t)"
    by (simp_all add: load_module_def createWasm_def load err_msg_def readyPromiseReject_def loader_start_def)
  then show ?thesis using async [of ?s] async [of ?t] by (auto simp: loader_start_def received_def)
qed

text \<open>A page whose server sends the module with a wrong content type, so that streaming refuses it.\<close>

definition wrong_type_engine :: "nat engine" where
  "wrong_type_engine = \<lparr>is_web = True, is_worker = False, is_node = False,
     fetch = Some (\<lambda>n. Some \<lparr>resp_ok = True, arrayBuffer = Some [0, 97, 115, 109]\<rparr>),
     instantiateStreaming = Some (\<lambda>r. None), instantiate = (\<lambda>bytes. Some (length bytes)),
     readBinary = None, readAsync = None, wasmBinary = None\<rparr>"

lemma wrong_type_engine_simps:
  "fetch wrong_type_engine = Some (\<lambda>n. Some \<lparr>resp_ok = True, arrayBuffer = Some [0, 97, 115, 109]\<rparr>)"
  "instantiate wrong_type_engine [0, 97, 115, 109] = Some 4" "instantiateStreaming wrong_type_engine = Some (\<lambda>r. None)"
  "wasmBinary wrong_type_engine = None" "is_web wrong_type_engine"
  by (simp_all add: wrong_type_engine_def)

lemma streaming_refused: "instantiateStreaming wrong_type_engine = Some st \<Longrightarrow> st r = Some j \<Longrightarrow> j = i"
  by (auto simp: wrong_type_engine_simps)

lemma served_module_loads_witness:
  "exports (load_module NoHook wrong_type_engine ''m.wasm'') = Some 4
   \<and> rejections (load_module HookThrows wrong_type_engine ''m.wasm'') = [HookThrew]"
proof -
  have "\<not> isFileURI ''m.wasm''" by (simp add: isFileURI_def startsWith_def)
  then show ?thesis
    using served_module_loads [where e = wrong_type_engine and bytes = "[0, 97, 115, 109]" and i = 4 and ?file = "''m.wasm''",
        OF wrong_type_engine_simps(1) refl wrong_type_engine_simps(2) streaming_refused]
    by (simp add: wrong_type_engine_simps)
qed

section \<open>What a browser offers\<close>

text \<open>
  \<open>readAsync\<close> and \<open>readBinary\<close> of pages and workers, over \<open>XMLHttpRequest\<close>: \<open>None\<close> is a network error, a missing
  response is \<open>null\<close>, of which \<open>Uint8Array\<close> makes an empty array. Only workers can read synchronously.
\<close>

record xhr_answer =
  xhr_status :: nat
  xhr_response :: "u8 list option"

definition response_bytes :: "xhr_answer \<Rightarrow> u8 list" where
  "response_bytes a = (case xhr_response a of Some bytes \<Rightarrow> bytes | None \<Rightarrow> [])"

definition web_readAsync :: "(string \<Rightarrow> xhr_answer option) \<Rightarrow> string \<Rightarrow> u8 list option" where
  "web_readAsync xhr u =
     (case xhr u of
        None \<Rightarrow> None
      | Some a \<Rightarrow> if xhr_status a = 200 \<or> xhr_status a = 0 \<and> xhr_response a \<noteq> None then Some (response_bytes a) else None)"

definition worker_readBinary :: "(string \<Rightarrow> xhr_answer option) \<Rightarrow> string \<Rightarrow> u8 list option" where
  "worker_readBinary xhr u = map_option response_bytes (xhr u)"

definition browser :: "bool \<Rightarrow> (string \<Rightarrow> xhr_answer option) \<Rightarrow> (nat \<Rightarrow> response option) option \<Rightarrow>
    (response \<Rightarrow> 'i option) option \<Rightarrow> (u8 list \<Rightarrow> 'i option) \<Rightarrow> 'i engine" where
  "browser worker xhr f streaming inst = \<lparr>is_web = \<not> worker, is_worker = worker, is_node = False, fetch = f,
     instantiateStreaming = streaming, instantiate = inst,
     readBinary = (if worker then Some (worker_readBinary xhr) else None),
     readAsync = Some (web_readAsync xhr), wasmBinary = None\<rparr>"

text \<open>
  A worker takes the page of an error for the module: when \<open>fetch\<close> reports that the file is not there, the
  fallback reads it again without a look at the status and hands whatever the server has sent to the
  compiler. A page has no such fallback and fails with the reason.
\<close>

theorem worker_compiles_error_page:
  assumes "f (length (requests s)) = Some r" and "\<not> resp_ok r" and "xhr file = Some a" and "\<not> isFileURI file"
  shows "fst (getBinaryPromise (browser True xhr (Some f) streaming inst) file s) = Inr (response_bytes a)"
    and "fst (getBinaryPromise (browser False xhr (Some f) streaming inst) file s) = Inl BothFailed"
  using assms
  by (simp_all add: getBinaryPromise_def browser_def recover_def on_settled_def do_fetch_def request_file_def answer_def
      getBinarySync_def worker_readBinary_def)

lemma worker_compiles_error_page_witness:
  "fst (getBinaryPromise (browser True (\<lambda>u. Some \<lparr>xhr_status = 404, xhr_response = Some [60, 104]\<rparr>)
     (Some (\<lambda>n. Some \<lparr>resp_ok = False, arrayBuffer = None\<rparr>)) None (\<lambda>b. Some ())) ''m.wasm'' loader_start) = Inr [60, 104]"
proof -
  have "\<not> isFileURI ''m.wasm''" by (simp add: isFileURI_def startsWith_def)
  from worker_compiles_error_page(1) [where f = "\<lambda>n. Some \<lparr>resp_ok = False, arrayBuffer = None\<rparr>" and s = loader_start
      and xhr = "\<lambda>u. Some \<lparr>xhr_status = 404, xhr_response = Some [60, 104]\<rparr>", OF refl _ refl this]
  show ?thesis by (simp add: response_bytes_def)
qed

section \<open>Loading and the run\<close>

text \<open>What the runtime sees of the end of loading: the instance arrives, \<open>abort\<close> is called, or nothing.\<close>

definition load_frames :: "cb \<Rightarrow> 'i loader \<Rightarrow> frame list" where
  "load_frames ctors s =
     (if exports s \<noteq> None then [ReceiveInstance ctors] else if abort_flag s then [Acts [AbortRun]] else [])"

definition page_start :: "(cb \<Rightarrow> act list) \<Rightarrow> act list list \<Rightarrow> cb list \<Rightarrow> act list option \<Rightarrow> bool \<Rightarrow> runtime" where
  "page_start page native post init noExit = module_loaded page native [] post init False noExit"

lemma page_start_runs: "settle [Run] (page_start page native post init noExit) = Some (page_start page native post init noExit)"
  by (simp add: page_start_def module_loaded_def machine_defs)

text \<open>
  The program starts exactly when an instance was loaded, in the turn of the event loop in which it arrives,
  whatever its constructors and the page's callbacks after the start do.
\<close>

theorem program_starts_iff_loaded:
  "comes_to_run (load_frames ctors (load_module hook e file), page_start page native post init noExit)
     \<longleftrightarrow> exports (load_module hook e file) \<noteq> None"
proof (cases "exports (load_module hook e file) = None")
  case True
  let ?s = "page_start page native post init noExit"
  obtain r where "settle (load_frames ctors (load_module hook e file)) ?s = Some r" "\<not> calledRun r"
    using True by (cases "abort_flag (load_module hook e file)")
      (auto simp: load_frames_def page_start_def module_loaded_def machine_defs)
  then show ?thesis using True comes_to_run_settled by blast
next
  case False
  define s1 where "s1 = (page_start page native post init noExit)\<lparr>exportsLoaded := True, atInit := [ctors], runDependencies := 0, armed := False\<rparr>"
  have "comes_to_run (run [AfterRunCaller] s1)"
    by (rule calm_run_called) (simp_all add: s1_def page_start_def module_loaded_def)
  moreover have "step (ReceiveInstance ctors) [] (page_start page native post init noExit) = run [AfterRunCaller] s1"
    by (simp add: receiveInstance_def removeRunDependency_def runCaller_def s1_def page_start_def module_loaded_def Let_def)
  ultimately have "comes_to_run ([ReceiveInstance ctors], page_start page native post init noExit)"
    using comes_to_run_step by metis
  then show ?thesis using False by (simp add: load_frames_def)
qed

end
