(* ===== verification/Preload.thy ===== *)
theory Preload
  imports FsInit
begin

text \<open>
  Preloading of files: \<open>asyncLoad\<close>, \<open>FS_handledByPreloadPlugin\<close> and \<open>FS_createPreloadedFile\<close>, which keep the run
  of the program waiting by run dependencies while files are downloaded, handed to a plugin and created.

  Downloads and plugins end later, in any order, so the code is a step relation on the jobs begun so far.
  The test of each plugin is a parameter; a plugin that takes a file calls back later. The callbacks of the
  caller return and begin no preload themselves.
\<close>

record job =
  job_dir :: string
  job_name :: string
  canRead :: bool
  canWrite :: bool
  canOwn :: bool
  dontCreateFile :: bool
  has_onload :: bool
  has_onerror :: bool
  has_preFinish :: bool

text \<open>\<open>CreateFailed\<close> tells whether the exception passed through the handler of a download.\<close>

datatype status = Downloading | AtPlugin | Finished | PluginFailed | DownloadFailed | CreateFailed bool

datatype happened = PreFinish nat | OnLoad nat | OnError nat | LoadingFailed nat | Fulfilled

record world =
  files :: fs
  run_deps :: int
  jobs :: "(job \<times> status) list"
  happenings :: "happened list"

definition tell :: "bool \<Rightarrow> happened \<Rightarrow> world \<Rightarrow> world" where
  "tell b h w = (if b then w\<lparr>happenings := happenings w @ [h]\<rparr> else w)"

definition add_dep :: "world \<Rightarrow> world" where
  "add_dep w = w\<lparr>run_deps := run_deps w + 1\<rparr>"

definition remove_dep :: "world \<Rightarrow> world" where
  "remove_dep w = (let w1 = w\<lparr>run_deps := run_deps w - 1\<rparr> in tell (run_deps w1 = 0) Fulfilled w1)"

definition set_status :: "nat \<Rightarrow> status \<Rightarrow> world \<Rightarrow> world" where
  "set_status i st w = w\<lparr>jobs := (jobs w)[i := (fst (jobs w ! i), st)]\<rparr>"

definition preload_fullname :: "job \<Rightarrow> fs \<Rightarrow> string" where
  "preload_fullname j s = (if job_name j \<noteq> [] then resolve (currentPath s) [join2 (job_dir j) (job_name j)] else job_dir j)"

text \<open>\<open>finish\<close>: the dependency \<open>cp\<close> is removed after the file is made and the caller told.\<close>

definition finish_job :: "nat \<Rightarrow> bool \<Rightarrow> u8 list \<Rightarrow> world \<Rightarrow> world" where
  "finish_job i downloading bytes w =
     (let j = fst (jobs w ! i);
          w1 = tell (has_preFinish j) (PreFinish i) w;
          (r, s) = (if \<not> dontCreateFile j
                    then createDataFile (Some (job_dir j)) (job_name j) (Some (ArrayData bytes)) (canRead j) (canWrite j) (canOwn j) (files w1)
                    else (Inr (), files w1));
          w2 = w1\<lparr>files := s\<rparr>
      in case r of
           Inl e \<Rightarrow> set_status i (CreateFailed downloading) w2
         | Inr u \<Rightarrow> remove_dep (set_status i Finished (tell (has_onload j) (OnLoad i) w2)))"

text \<open>\<open>FS_handledByPreloadPlugin\<close>: the first plugin that can handle the name gets the file.\<close>

definition handledByPreloadPlugin :: "(string \<Rightarrow> bool) list \<Rightarrow> string \<Rightarrow> bool" where
  "handledByPreloadPlugin plugins fullname \<longleftrightarrow> find (\<lambda>canHandle. canHandle fullname) plugins \<noteq> None"

definition processData :: "(string \<Rightarrow> bool) list \<Rightarrow> nat \<Rightarrow> bool \<Rightarrow> u8 list \<Rightarrow> world \<Rightarrow> world" where
  "processData plugins i downloading bytes w =
     (if handledByPreloadPlugin plugins (preload_fullname (fst (jobs w ! i)) (files w)) then set_status i AtPlugin w
      else finish_job i downloading bytes w)"

text \<open>\<open>source\<close> is \<open>None\<close> for a URL, whose download \<open>asyncLoad\<close> starts, and the bytes otherwise.\<close>

definition createPreloadedFile :: "(string \<Rightarrow> bool) list \<Rightarrow> job \<Rightarrow> u8 list option \<Rightarrow> world \<Rightarrow> world" where
  "createPreloadedFile plugins j source w =
     (let w1 = add_dep w; i = length (jobs w) in
      case source of
        None \<Rightarrow> add_dep (w1\<lparr>jobs := jobs w @ [(j, Downloading)]\<rparr>)
      | Some bytes \<Rightarrow> processData plugins i False bytes (w1\<lparr>jobs := jobs w @ [(j, Downloading)]\<rparr>))"

text \<open>The two answers of \<open>readAsync\<close> in \<open>asyncLoad\<close>. An exception of \<open>onload\<close> skips the removal of \<open>al\<close>.\<close>

definition download_done :: "(string \<Rightarrow> bool) list \<Rightarrow> nat \<Rightarrow> u8 list \<Rightarrow> world \<Rightarrow> world" where
  "download_done plugins i bytes w =
     (let w1 = processData plugins i True bytes w in
      if snd (jobs w1 ! i) = CreateFailed True then w1 else remove_dep w1)"

definition download_failed :: "nat \<Rightarrow> world \<Rightarrow> world" where
  "download_failed i w =
     (let w1 = set_status i DownloadFailed w in
      tell True (if has_onerror (fst (jobs w ! i)) then OnError i else LoadingFailed i) w1)"

definition plugin_error :: "nat \<Rightarrow> world \<Rightarrow> world" where
  "plugin_error i w = remove_dep (set_status i PluginFailed (tell (has_onerror (fst (jobs w ! i))) (OnError i) w))"

inductive preload_step :: "(string \<Rightarrow> bool) list \<Rightarrow> world \<Rightarrow> world \<Rightarrow> bool" for plugins where
  begun: "preload_step plugins w (createPreloadedFile plugins j source w)"
| arrived: "i < length (jobs w) \<Longrightarrow> snd (jobs w ! i) = Downloading \<Longrightarrow> preload_step plugins w (download_done plugins i bytes w)"
| lost: "i < length (jobs w) \<Longrightarrow> snd (jobs w ! i) = Downloading \<Longrightarrow> preload_step plugins w (download_failed i w)"
| handled: "i < length (jobs w) \<Longrightarrow> snd (jobs w ! i) = AtPlugin \<Longrightarrow> preload_step plugins w (finish_job i False bytes w)"
| refused: "i < length (jobs w) \<Longrightarrow> snd (jobs w ! i) = AtPlugin \<Longrightarrow> preload_step plugins w (plugin_error i w)"

section \<open>The count of the dependencies\<close>

fun held :: "status \<Rightarrow> int" where
  "held Downloading = 2"
| "held AtPlugin = 1"
| "held Finished = 0"
| "held PluginFailed = 0"
| "held DownloadFailed = 2"
| "held (CreateFailed downloading) = (if downloading then 2 else 1)"

definition held_by :: "(job \<times> status) list \<Rightarrow> int" where
  "held_by js = sum_list (map (held \<circ> snd) js)"

lemma held_by_append [simp]: "held_by (js @ [(j, st)]) = held_by js + held st" "held_by [] = 0"
  by (simp_all add: held_by_def)

lemma held_by_update: "i < length js \<Longrightarrow> held_by (js[i := (j, st)]) = held_by js + held st - held (snd (js ! i))"
  unfolding held_by_def by (induction js arbitrary: i) (auto simp: less_Suc_eq_0_disj)

lemma held_nonneg: "0 \<le> held st"
  by (cases st) simp_all

lemma held_by_nonneg: "0 \<le> held_by js"
  unfolding held_by_def by (induction js) (simp_all add: held_nonneg)

lemma held_by_nth: "k < length js \<Longrightarrow> held (snd (js ! k)) \<le> held_by js"
proof (induction js arbitrary: k)
  case (Cons j js)
  have "held_by (j # js) = held (snd j) + held_by js" by (simp add: held_by_def)
  then show ?case using Cons held_by_nonneg [of js] held_nonneg [of "snd j"] by (cases k) fastforce+
qed simp

lemma tell_fields [simp]:
  "run_deps (tell b h w) = run_deps w" "jobs (tell b h w) = jobs w" "files (tell b h w) = files w"
  by (simp_all add: tell_def)

lemma dep_fields [simp]:
  "run_deps (remove_dep w) = run_deps w - 1" "jobs (remove_dep w) = jobs w"
  "run_deps (add_dep w) = run_deps w + 1" "jobs (add_dep w) = jobs w" "files (add_dep w) = files w"
  by (simp_all add: remove_dep_def add_dep_def Let_def)

lemma set_status_fields [simp]:
  "run_deps (set_status i st w) = run_deps w" "jobs (set_status i st w) = (jobs w)[i := (fst (jobs w ! i), st)]"
  by (simp_all add: set_status_def)

text \<open>What a job holds less than before is what the count has lost.\<close>

definition excess :: "world \<Rightarrow> int" where "excess w = run_deps w - held_by (jobs w)"

lemma finish_job_count:
  assumes "i < length (jobs w)"
  shows "\<exists>st. jobs (finish_job i d bytes w) = (jobs w)[i := (fst (jobs w ! i), st)] \<and>
    (st = Finished \<and> run_deps (finish_job i d bytes w) = run_deps w - 1
     \<or> st = CreateFailed d \<and> run_deps (finish_job i d bytes w) = run_deps w)"
  using assms by (auto simp: finish_job_def Let_def split: prod.split sum.split)

lemma processData_count:
  assumes "i < length (jobs w)"
  shows "\<exists>st. jobs (processData plugins i d bytes w) = (jobs w)[i := (fst (jobs w ! i), st)] \<and>
    (st = Finished \<and> run_deps (processData plugins i d bytes w) = run_deps w - 1
     \<or> st \<in> {CreateFailed d, AtPlugin} \<and> run_deps (processData plugins i d bytes w) = run_deps w)"
  using finish_job_count [OF assms, of d bytes] by (auto simp: processData_def)

lemma excess_step: "preload_step plugins w w' \<Longrightarrow> excess w' = excess w"
proof (induction rule: preload_step.induct)
  case (begun w j source)
  show ?case
  proof (cases source)
    case None
    then show ?thesis by (simp add: createPreloadedFile_def excess_def Let_def)
  next
    case (Some bytes)
    let ?w = "(add_dep w)\<lparr>jobs := jobs w @ [(j, Downloading)]\<rparr>"
    show ?thesis using processData_count [of "length (jobs w)" ?w plugins False bytes] Some
      by (auto simp: createPreloadedFile_def excess_def Let_def held_by_update)
  qed
next
  case (arrived i w bytes)
  then show ?case using processData_count [OF arrived(1), of plugins True bytes]
    by (auto simp: download_done_def excess_def Let_def held_by_update)
next
  case (lost i w)
  then show ?case by (simp add: download_failed_def excess_def Let_def held_by_update)
next
  case (handled i w bytes)
  then show ?case using finish_job_count [OF handled(1), of False bytes]
    by (auto simp: excess_def held_by_update)
next
  case (refused i w)
  then show ?case by (simp add: plugin_error_def excess_def held_by_update)
qed

text \<open>A job that has ended stays as it is.\<close>

definition over :: "status \<Rightarrow> bool" where "over st \<longleftrightarrow> st \<noteq> Downloading \<and> st \<noteq> AtPlugin"

lemma over_step: "preload_step plugins w w' \<Longrightarrow> k < length (jobs w) \<Longrightarrow> over (snd (jobs w ! k)) \<Longrightarrow>
  k < length (jobs w') \<and> jobs w' ! k = jobs w ! k"
proof (induction rule: preload_step.induct)
  case (begun w j source)
  show ?case
  proof (cases source)
    case None
    then show ?thesis using begun by (simp add: createPreloadedFile_def Let_def nth_append)
  next
    case (Some bytes)
    let ?w = "(add_dep w)\<lparr>jobs := jobs w @ [(j, Downloading)]\<rparr>"
    show ?thesis using processData_count [of "length (jobs w)" ?w plugins False bytes] Some begun
      by (auto simp: createPreloadedFile_def Let_def nth_append nth_list_update)
  qed
next
  case (arrived i w bytes)
  then show ?case using processData_count [OF arrived(1), of plugins True bytes]
    by (auto simp: download_done_def Let_def over_def nth_list_update)
next
  case (lost i w)
  then show ?case by (auto simp: download_failed_def Let_def over_def nth_list_update)
next
  case (handled i w bytes)
  then show ?case using finish_job_count [OF handled(1), of False bytes]
    by (auto simp: over_def nth_list_update)
next
  case (refused i w)
  then show ?case by (auto simp: plugin_error_def over_def nth_list_update)
qed

text \<open>
  C36: Preloading never lets the run go too early and releases all it has taken: beside what other code holds, the
  count of dependencies is 0 exactly when every preload is finished or was refused by its plugin.
\<close>

theorem preloads_hold_the_run:
  assumes "(preload_step plugins)\<^sup>*\<^sup>* \<lparr>files = s, run_deps = base, jobs = [], happenings = []\<rparr> w"
  shows "base \<le> run_deps w \<and> (run_deps w = base \<longleftrightarrow> (\<forall>js\<in>set (jobs w). snd js = Finished \<or> snd js = PluginFailed))"
proof -
  have "excess w = base"
    using assms by (induction rule: rtranclp_induct) (simp_all add: excess_step, simp add: excess_def)
  then have "run_deps w = base + held_by (jobs w)" by (simp add: excess_def)
  moreover have "0 \<le> held_by js \<and> (held_by js = 0 \<longleftrightarrow> (\<forall>j\<in>set js. snd j = Finished \<or> snd j = PluginFailed))" for js
  proof (induction js)
    case (Cons j js)
    have "held_by (j # js) = held (snd j) + held_by js" by (simp add: held_by_def)
    moreover have "held (snd j) = 0 \<longleftrightarrow> snd j = Finished \<or> snd j = PluginFailed" by (cases "snd j") simp_all
    ultimately show ?case using Cons held_nonneg [of "snd j"] by auto
  qed simp
  ultimately show ?thesis by (simp add: add_nonneg_eq_0_iff)
qed

text \<open>
  A download that fails holds two dependencies for good, also when the caller has passed \<open>onerror\<close> to deal with
  it, whatever happens afterwards: the program never runs. A plugin that fails releases what it holds.
\<close>

theorem failed_download_blocks_the_run:
  assumes "(preload_step plugins)\<^sup>*\<^sup>* \<lparr>files = s, run_deps = base, jobs = [], happenings = []\<rparr> w"
    and "i < length (jobs w)" and "snd (jobs w ! i) = Downloading"
    and "(preload_step plugins)\<^sup>*\<^sup>* (download_failed i w) w'"
  shows "base + 2 \<le> run_deps w'"
proof -
  have "preload_step plugins w (download_failed i w)" using assms(2,3) by (rule preload_step.lost)
  then have all: "(preload_step plugins)\<^sup>*\<^sup>* \<lparr>files = s, run_deps = base, jobs = [], happenings = []\<rparr> w'"
    using assms(1,4) by (meson rtranclp.rtrancl_into_rtrancl rtranclp_trans)
  then have "excess w' = base"
    by (induction rule: rtranclp_induct) (simp_all add: excess_step, simp add: excess_def)
  moreover have "i < length (jobs w') \<and> snd (jobs w' ! i) = DownloadFailed"
    using assms(4)
  proof (induction rule: rtranclp_induct)
    case base
    then show ?case using assms(2) by (simp add: download_failed_def Let_def)
  next
    case (step x y)
    then show ?case using over_step [OF step(2), of i] by (simp add: over_def)
  qed
  ultimately show ?thesis using held_by_nth [of i "jobs w'"] by (simp add: excess_def)
qed

text \<open>One file is asked for; its download fails and the caller's \<open>onerror\<close> is called.\<close>

definition one_job :: job where
  "one_job = \<lparr>job_dir = ''/'', job_name = ''a'', canRead = True, canWrite = False, canOwn = False, dontCreateFile = False,
     has_onload = False, has_onerror = True, has_preFinish = False\<rparr>"

definition one_download :: world where
  "one_download = createPreloadedFile [] one_job None \<lparr>files = mounted_fs 7, run_deps = 1, jobs = [], happenings = []\<rparr>"

lemma one_download_begun:
  "(preload_step [])\<^sup>*\<^sup>* \<lparr>files = mounted_fs 7, run_deps = 1, jobs = [], happenings = []\<rparr> one_download"
  unfolding one_download_def by (rule r_into_rtranclp) (rule preload_step.begun)

lemma one_download_jobs: "jobs one_download = [(one_job, Downloading)]"
  by (simp add: one_download_def createPreloadedFile_def Let_def)

lemma preloads_hold_the_run_witness: "run_deps one_download \<noteq> 1"
  using preloads_hold_the_run [OF one_download_begun] by (simp add: one_download_jobs)

lemma failed_download_blocks_the_run_witness:
  "3 \<le> run_deps (download_failed 0 one_download) \<and> OnError 0 \<in> set (happenings (download_failed 0 one_download))"
proof -
  have "1 + 2 \<le> run_deps (download_failed 0 one_download)"
    by (rule failed_download_blocks_the_run [OF one_download_begun _ _ rtranclp.rtrancl_refl]) (simp_all add: one_download_jobs)
  then show ?thesis by (simp add: download_failed_def Let_def tell_def one_download_jobs one_job_def)
qed

end
