(* ===== verification/FsSync.thy ===== *)
theory FsSync
  imports FsStreamProps
begin

unbundle bit_operations_syntax

text \<open>
  The properties of nodes and streams that the classes \<open>FSNode\<close> and \<open>FSStream\<close> compute, and \<open>syncfs\<close>, which
  asks every mounted file system to save itself and calls back once all have answered.
\<close>

section \<open>Computed properties\<close>

definition readMode :: i32 where "readMode = 292 OR 73"
definition writeMode :: i32 where "writeMode = 146"

definition node_read :: "nid \<Rightarrow> fs \<Rightarrow> bool" where
  "node_read n s \<longleftrightarrow> mode (nodes s n) AND readMode = readMode"

definition node_write :: "nid \<Rightarrow> fs \<Rightarrow> bool" where
  "node_write n s \<longleftrightarrow> mode (nodes s n) AND writeMode = writeMode"

definition set_node_read :: "nid \<Rightarrow> bool \<Rightarrow> fs \<Rightarrow> fs" where
  "set_node_read n v = upd_node n (\<lambda>d. d\<lparr>mode := (if v then mode d OR readMode else mode d AND NOT readMode)\<rparr>)"

definition set_node_write :: "nid \<Rightarrow> bool \<Rightarrow> fs \<Rightarrow> fs" where
  "set_node_write n v = upd_node n (\<lambda>d. d\<lparr>mode := (if v then mode d OR writeMode else mode d AND NOT writeMode)\<rparr>)"

definition node_isFolder :: "nid \<Rightarrow> fs \<Rightarrow> bool" where
  "node_isFolder n s \<longleftrightarrow> isDir (mode (nodes s n))"

definition node_isDevice :: "nid \<Rightarrow> fs \<Rightarrow> bool" where
  "node_isDevice n s \<longleftrightarrow> isChrdev (mode (nodes s n))"

definition stream_isRead :: "nat \<Rightarrow> fs \<Rightarrow> bool" where
  "stream_isRead x s \<longleftrightarrow> stream_flags x s AND 2097155 \<noteq> 1"

definition stream_isWrite :: "nat \<Rightarrow> fs \<Rightarrow> bool" where
  "stream_isWrite x s \<longleftrightarrow> stream_flags x s AND 2097155 \<noteq> 0"

definition stream_isAppend :: "nat \<Rightarrow> fs \<Rightarrow> i32" where
  "stream_isAppend x s = stream_flags x s AND 1024"

definition stream_object :: "nat \<Rightarrow> fs \<Rightarrow> nid" where
  "stream_object x s = stream_node (stream_table s x)"

definition set_stream_object :: "nat \<Rightarrow> nid \<Rightarrow> fs \<Rightarrow> fs" where
  "set_stream_object x n s = s\<lparr>stream_table := (stream_table s)(x := (stream_table s x)\<lparr>stream_node := n\<rparr>)\<rparr>"

definition set_stream_flags :: "nat \<Rightarrow> i32 \<Rightarrow> fs \<Rightarrow> fs" where
  "set_stream_flags x v = upd_shared x (\<lambda>h. h\<lparr>flags := v\<rparr>)"

definition set_stream_position :: "nat \<Rightarrow> int \<Rightarrow> fs \<Rightarrow> fs" where
  "set_stream_position x v = upd_shared x (\<lambda>h. h\<lparr>position := v\<rparr>)"

lemma mask_set: "(a OR m) AND m = (m :: i32)" "(a AND NOT m) AND m = (0 :: i32)"
  by (simp_all add: bit.conj_disj_distrib2 and.assoc)

lemma mask_other: "k AND m = 0 \<Longrightarrow> (a OR k) AND m = (a AND m :: i32)" "k AND m = 0 \<Longrightarrow> (a AND NOT k) AND m = (a AND m :: i32)"
proof -
  assume a: "k AND m = 0"
  then show "(a OR k) AND m = a AND m" by (simp add: bit.conj_disj_distrib2)
  have "NOT k AND m = m"
  proof (rule bit_word_eqI)
    fix n assume "n < LENGTH(32)"
    have "bit (k AND m) n = False" using a by simp
    then show "bit (NOT k AND m) n = bit m n" using \<open>n < LENGTH(32)\<close> by (auto simp: bit_and_iff bit_not_iff)
  qed
  then show "(a AND NOT k) AND m = a AND m" by (simp add: and.assoc)
qed

text \<open>What is assigned is read back, and reading and writing are independent of one another and of the type.\<close>

theorem node_properties_independent:
  "node_read n (set_node_read n v s) = v \<and> node_write n (set_node_write n v s) = v
   \<and> node_write n (set_node_read n v s) = node_write n s \<and> node_read n (set_node_write n v s) = node_read n s
   \<and> node_isFolder n (set_node_read n v s) = node_isFolder n s \<and> node_isDevice n (set_node_write n v s) = node_isDevice n s"
proof -
  have "readMode AND writeMode = 0" "writeMode AND readMode = 0" "readMode AND 61440 = 0" "writeMode AND 61440 = 0"
    by (simp_all add: readMode_def writeMode_def)
  note other = this [THEN mask_other(1)] this [THEN mask_other(2)]
  have "(0 :: i32) \<noteq> readMode" "(0 :: i32) \<noteq> writeMode" by (simp_all add: readMode_def writeMode_def)
  then show ?thesis
    by (simp add: node_read_def node_write_def set_node_read_def set_node_write_def node_isFolder_def node_isDevice_def
        isDir_def isChrdev_def mask_set other)
qed

section \<open>Saving the mounted file systems\<close>

text \<open>
  How the file system of a mount saves itself: it has no \<open>syncfs\<close>, it answers at once, or it answers later. The
  error code \<open>null\<close> is \<open>None\<close>, and 0 counts as none. \<open>MEMFS\<close> has no \<open>syncfs\<close>; the others are parameters.
\<close>

datatype mount_sync = NoSync | SyncNow "nat option" | SyncLater

record syncer =
  syncFSRequests :: int
  warned :: "int list"
  mounts_asked :: nat
  completed :: nat
  errored :: bool
  called_back :: "nat option list"

definition is_error :: "nat option \<Rightarrow> bool" where
  "is_error e \<longleftrightarrow> e \<noteq> None \<and> e \<noteq> Some 0"

definition doCallback :: "nat option \<Rightarrow> syncer \<Rightarrow> syncer" where
  "doCallback errCode S = S\<lparr>syncFSRequests := syncFSRequests S - 1, called_back := called_back S @ [errCode]\<rparr>"

definition sync_done :: "nat option \<Rightarrow> syncer \<Rightarrow> syncer" where
  "sync_done errCode S =
     (if is_error errCode then
        (if \<not> errored S then doCallback errCode (S\<lparr>errored := True\<rparr>) else S)
      else
        let S1 = S\<lparr>completed := completed S + 1\<rparr>
        in if completed S1 \<ge> mounts_asked S1 then doCallback None S1 else S1)"

definition ask_mount :: "(mid \<Rightarrow> mount_sync) \<Rightarrow> mid \<Rightarrow> syncer \<Rightarrow> syncer" where
  "ask_mount sync m S = (case sync m of NoSync \<Rightarrow> sync_done None S | SyncNow e \<Rightarrow> sync_done e S | SyncLater \<Rightarrow> S)"

text \<open>\<open>n\<close> operations are in flight already.\<close>

definition begin_sync :: "(mid \<Rightarrow> mount_sync) \<Rightarrow> mid list \<Rightarrow> int \<Rightarrow> syncer" where
  "begin_sync sync ms n =
     fold (ask_mount sync) ms
       \<lparr>syncFSRequests = n + 1, warned = (if n + 1 > 1 then [n + 1] else []), mounts_asked = length ms,
        completed = 0, errored = False, called_back = []\<rparr>"

text \<open>The state is the counter \<open>FS.syncFSRequests\<close>, which an exception leaves raised.\<close>

definition FS_syncfs :: "(mid \<Rightarrow> mount_sync) \<Rightarrow> fs \<Rightarrow> (int, fs_exn, syncer) comp" where
  "FS_syncfs sync s n =
     (case rbind (case root s of None \<Rightarrow> Inl TypeError | Some r \<Rightarrow>
              (case mount_ref (nodes s r) of None \<Rightarrow> Inl TypeError | Some m \<Rightarrow> getMounts m s))
            (\<lambda>ms. Inr (begin_sync sync ms n)) of
        Inl e \<Rightarrow> (Inl e, n + 1)
      | Inr S \<Rightarrow> (Inr S, syncFSRequests S))"

text \<open>Afterwards the mounts that have not answered do, and other calls of \<open>syncfs\<close> begin and end.\<close>

datatype sync_event = Answer "nat option" | OtherSyncs int

definition sync_step :: "sync_event \<Rightarrow> syncer \<Rightarrow> syncer" where
  "sync_step e S = (case e of Answer errCode \<Rightarrow> sync_done errCode S
     | OtherSyncs d \<Rightarrow> S\<lparr>syncFSRequests := syncFSRequests S + d\<rparr>)"

section \<open>The callback comes once\<close>

definition first_error :: "nat option list \<Rightarrow> nat option" where
  "first_error es = (case filter is_error es of [] \<Rightarrow> None | e # _ \<Rightarrow> e)"

lemma first_error_snoc:
  "first_error (es @ [e]) = (if filter is_error es \<noteq> [] then first_error es else if is_error e then e else None)"
  by (auto simp: first_error_def split: list.split)

text \<open>What the call back has been told after the answers \<open>es\<close> of \<open>n\<close> mounts.\<close>

definition told :: "nat \<Rightarrow> nat option list \<Rightarrow> nat option list" where
  "told n es = (if filter is_error es \<noteq> [] then [first_error es] else if length es = n then [None] else [])"

definition synced :: "syncer \<Rightarrow> nat option list \<Rightarrow> syncer" where
  "synced S es = S\<lparr>syncFSRequests := syncFSRequests S - int (length (told (mounts_asked S) es)),
     completed := length (filter (\<lambda>e. \<not> is_error e) es), errored := filter is_error es \<noteq> [],
     called_back := told (mounts_asked S) es\<rparr>"

lemma synced_snoc:
  assumes "length es < mounts_asked S"
  shows "sync_done e (synced S es) = synced S (es @ [e])"
proof -
  have "length (filter (\<lambda>e. \<not> is_error e) es) + length (filter is_error es) = length es"
    by (induction es) auto
  then have "filter is_error es \<noteq> [] \<Longrightarrow> length (filter (\<lambda>e. \<not> is_error e) es) + 1 < mounts_asked S"
    "filter is_error es = [] \<Longrightarrow> length (filter (\<lambda>e. \<not> is_error e) es) = length es"
    using assms by (cases "filter is_error es"; simp)+
  then show ?thesis using assms
    by (cases "filter is_error es = []"; cases "is_error e")
      (auto simp: synced_def sync_done_def doCallback_def told_def first_error_snoc Let_def)
qed

lemma answers_synced:
  "length es \<le> mounts_asked S \<Longrightarrow> S = synced S [] \<Longrightarrow> fold sync_done es S = synced S es"
proof (induction es rule: rev_induct)
  case (snoc e es)
  then show ?case using synced_snoc [of es S e] by simp
qed simp

definition answers_now :: "(mid \<Rightarrow> mount_sync) \<Rightarrow> mid list \<Rightarrow> nat option list" where
  "answers_now sync ms = concat (map (\<lambda>m. case sync m of NoSync \<Rightarrow> [None] | SyncNow e \<Rightarrow> [e] | SyncLater \<Rightarrow> []) ms)"

lemma ask_mounts: "fold (ask_mount sync) ms S = fold sync_done (answers_now sync ms) S"
  by (induction ms arbitrary: S) (auto simp: answers_now_def ask_mount_def split: mount_sync.split)

definition answers_of :: "sync_event list \<Rightarrow> nat option list" where
  "answers_of later = concat (map (\<lambda>e. case e of Answer c \<Rightarrow> [c] | OtherSyncs d \<Rightarrow> []) later)"

definition others_of :: "sync_event list \<Rightarrow> int" where
  "others_of later = sum_list (map (\<lambda>e. case e of Answer c \<Rightarrow> 0 | OtherSyncs d \<Rightarrow> d) later)"

lemma done_shift:
  "sync_done e (S\<lparr>syncFSRequests := syncFSRequests S + d\<rparr>) = (sync_done e S)\<lparr>syncFSRequests := syncFSRequests (sync_done e S) + d\<rparr>"
  by (simp add: sync_done_def doCallback_def Let_def)

lemma dones_shift:
  "fold sync_done es (S\<lparr>syncFSRequests := syncFSRequests S + d\<rparr>) =
     (fold sync_done es S)\<lparr>syncFSRequests := syncFSRequests (fold sync_done es S) + d\<rparr>"
  by (induction es arbitrary: S) (simp_all add: done_shift)

lemma events_answers:
  "fold sync_step later S = (fold sync_done (answers_of later) S)
     \<lparr>syncFSRequests := syncFSRequests (fold sync_done (answers_of later) S) + others_of later\<rparr>"
proof (induction later arbitrary: S)
  case (Cons e later)
  then show ?case
    by (cases e) (simp_all add: answers_of_def others_of_def sync_step_def dones_shift add.assoc)
qed (simp add: answers_of_def others_of_def)

lemma getMounts_nonempty: "getMounts m s = Inr ms \<Longrightarrow> ms \<noteq> []"
proof -
  have "getMounts_loop fuel pending found s = Inr ms \<Longrightarrow> found \<noteq> [] \<or> pending \<noteq> [] \<Longrightarrow> ms \<noteq> []" for fuel pending found
    by (induction fuel arbitrary: pending found) (auto simp: Let_def split: if_splits)
  then show "getMounts m s = Inr ms \<Longrightarrow> ms \<noteq> []" by (fastforce simp: getMounts_def)
qed

text \<open>
  C38: \<open>syncfs\<close> calls back once. Whichever mounts answer at once and in whatever order the others do, while other
  calls of \<open>syncfs\<close> begin and end: when all have answered, the callback has been called exactly once, with the
  first error that came or with \<open>null\<close>, and the count of operations in flight is what the others make of it.
  Before that the callback has only been called if there was an error.
\<close>

theorem syncfs_calls_back_once:
  assumes "FS_syncfs sync s n = (Inr S, k)" and "root s = Some r" and "mount_ref (nodes s r) = Some m" and "getMounts m s = Inr ms"
    and "length (answers_of later) \<le> length (filter (\<lambda>m. sync m = SyncLater) ms)"
  shows "called_back (fold sync_step later S) = told (length ms) (answers_now sync ms @ answers_of later)
    \<and> syncFSRequests (fold sync_step later S) = n + 1 + others_of later - int (length (called_back (fold sync_step later S)))
    \<and> (length (answers_of later) = length (filter (\<lambda>m. sync m = SyncLater) ms) \<longrightarrow>
        called_back (fold sync_step later S) = [first_error (answers_now sync ms @ answers_of later)])"
proof -
  let ?S = "\<lparr>syncFSRequests = n + 1, warned = (if n + 1 > 1 then [n + 1] else []), mounts_asked = length ms,
        completed = 0, errored = False, called_back = []\<rparr>" and ?es = "answers_now sync ms @ answers_of later"
  have S: "S = fold sync_done (answers_now sync ms) ?S"
    using assms(1-4) by (simp add: FS_syncfs_def begin_sync_def ask_mounts)
  have len: "length (answers_now sync ms) + length (filter (\<lambda>m. sync m = SyncLater) ms) = length ms"
    unfolding answers_now_def by (induction ms) (auto split: mount_sync.split)
  have ne: "0 < length ms" using getMounts_nonempty [OF assms(4)] by simp
  then have "?S = synced ?S []" by (simp add: synced_def told_def)
  then have "fold sync_done ?es ?S = synced ?S ?es"
    using answers_synced [of ?es ?S] len assms(5) by simp
  then have e: "fold sync_step later S = (synced ?S ?es)\<lparr>syncFSRequests := syncFSRequests (synced ?S ?es) + others_of later\<rparr>"
    using events_answers [of later S] S by simp
  have "length ?es = length ms \<Longrightarrow> told (length ms) ?es = [first_error ?es]"
    by (auto simp: told_def first_error_def)
  then show ?thesis using len by (auto simp: e synced_def)
qed

text \<open>The root file system and a second one that answers later, with error 5.\<close>

definition two_mounts :: fs where
  "two_mounts = (mounted_fs 7)\<lparr>mount_table := (mount_table (mounted_fs 7))
     (0 := \<lparr>mountpoint = ''/'', mounts = [1], mount_root = 0\<rparr>, 1 := \<lparr>mountpoint = ''/m'', mounts = [], mount_root = 0\<rparr>),
     nextMount := 2\<rparr>"

lemma syncfs_calls_back_once_witness:
  "\<exists>S. FS_syncfs (\<lambda>m. if m = 1 then SyncLater else NoSync) two_mounts 0 = (Inr S, 1) \<and> called_back S = []
     \<and> called_back (fold sync_step [OtherSyncs 1, Answer (Some 5)] S) = [Some 5]"
proof -
  let ?sync = "\<lambda>m :: nat. if m = 1 then SyncLater else NoSync"
  obtain r where r: "root two_mounts = Some r" "mount_ref (nodes two_mounts r) = Some 0"
    by (simp add: two_mounts_def mounted_fs_def initial_fs_def fs_eval)
  have ms: "getMounts 0 two_mounts = Inr [0, 1]"
    by (simp add: getMounts_def two_mounts_def numeral_2_eq_2)
  obtain S k where S: "FS_syncfs ?sync two_mounts 0 = (Inr S, k)"
    using r ms by (simp add: FS_syncfs_def)
  then have "k = 1 \<and> called_back S = []"
    using r ms by (auto simp: FS_syncfs_def begin_sync_def ask_mount_def sync_done_def is_error_def Let_def)
  moreover have "called_back (fold sync_step [OtherSyncs 1, Answer (Some 5)] S) = [Some 5]"
    using syncfs_calls_back_once [OF S r ms, of "[OtherSyncs 1, Answer (Some 5)]"]
    by (simp add: answers_of_def answers_now_def first_error_def told_def is_error_def)
  ultimately show ?thesis using S by blast
qed

end
