(* ===== verification/Linking.thy ===== *)
theory Linking
  imports Prelude
begin

text \<open>
  What connects the script and the compiled module: the table \<open>wasmImports\<close> of functions the module calls, in
  which the functions of the .NET runtime are placeholders that the runtime replaces before the module is
  instantiated, and the functions the module exports, each of which is bound when it is called first.
\<close>

section \<open>Imports\<close>

text \<open>A placeholder returns the number of the function it stands for.\<close>

definition placeholders :: "(string \<times> nat) list" where
  "placeholders = [
     (''mono_interp_flush_jitcall_queue'', 12), (''mono_interp_invoke_wasm_jit_call_trampoline'', 11),
     (''mono_interp_jit_wasm_entry_trampoline'', 9), (''mono_interp_jit_wasm_jit_call_trampoline'', 10),
     (''mono_interp_record_interp_entry'', 8), (''mono_interp_tier_prepare_jiterpreter'', 7),
     (''mono_wasm_bind_js_import_ST'', 22), (''mono_wasm_browser_entropy'', 18), (''mono_wasm_cancel_promise'', 26),
     (''mono_wasm_console_clear'', 20), (''mono_wasm_free_method_data'', 13), (''mono_wasm_get_locale_info'', 27),
     (''mono_wasm_invoke_js_function'', 23), (''mono_wasm_invoke_jsimport_ST'', 24),
     (''mono_wasm_process_current_pid'', 19), (''mono_wasm_release_cs_owned_object'', 21),
     (''mono_wasm_resolve_or_reject_promise'', 25), (''mono_wasm_schedule_timer'', 0),
     (''mono_wasm_set_entrypoint_breakpoint'', 17), (''mono_wasm_trace_logger'', 16),
     (''schedule_background_exec'', 6)]"

definition import_names :: "string list" where
  "import_names = [
     ''__assert_fail'', ''__syscall_faccessat'', ''__syscall_fadvise64'', ''__syscall_fcntl64'',
     ''__syscall_fstat64'', ''__syscall_fstatfs64'', ''__syscall_ftruncate64'', ''__syscall_getcwd'',
     ''__syscall_getdents64'', ''__syscall_ioctl'', ''__syscall_lstat64'', ''__syscall_newfstatat'',
     ''__syscall_openat'', ''__syscall_readlinkat'', ''__syscall_stat64'', ''__syscall_unlinkat'',
     ''_emscripten_get_now_is_monotonic'', ''_localtime_js'', ''_mmap_js'', ''_munmap_js'', ''_tzset_js'', ''abort'',
     ''emscripten_date_now'', ''emscripten_force_exit'', ''emscripten_get_heap_max'', ''emscripten_get_now'',
     ''emscripten_get_now_res'', ''emscripten_resize_heap'', ''environ_get'', ''environ_sizes_get'', ''exit'',
     ''fd_close'', ''fd_pread'', ''fd_read'', ''fd_seek'', ''fd_write'', ''mono_interp_flush_jitcall_queue'',
     ''mono_interp_invoke_wasm_jit_call_trampoline'', ''mono_interp_jit_wasm_entry_trampoline'',
     ''mono_interp_jit_wasm_jit_call_trampoline'', ''mono_interp_record_interp_entry'',
     ''mono_interp_tier_prepare_jiterpreter'', ''mono_wasm_bind_js_import_ST'', ''mono_wasm_browser_entropy'',
     ''mono_wasm_cancel_promise'', ''mono_wasm_console_clear'', ''mono_wasm_free_method_data'',
     ''mono_wasm_get_locale_info'', ''mono_wasm_invoke_js_function'', ''mono_wasm_invoke_jsimport_ST'',
     ''mono_wasm_process_current_pid'', ''mono_wasm_release_cs_owned_object'',
     ''mono_wasm_resolve_or_reject_promise'', ''mono_wasm_schedule_timer'', ''mono_wasm_set_entrypoint_breakpoint'',
     ''mono_wasm_trace_logger'', ''schedule_background_exec'', ''strftime'']"

datatype 'f import = JsFunction | Placeholder nat | Linked 'f

definition wasmImports :: "(string \<times> 'f import) list" where
  "wasmImports = map (\<lambda>name. (name, case map_of placeholders name of Some i \<Rightarrow> Placeholder i | None \<Rightarrow> JsFunction)) import_names"

text \<open>
  The function of the runtime that replaces the placeholders. Its check for two placeholders of one number
  throws inside a \<open>try\<close> whose handler is empty, so the second one is passed over.
\<close>

definition note_placeholder :: "string \<times> 'f import \<Rightarrow> (nat \<Rightarrow> string option) \<Rightarrow> (nat \<Rightarrow> string option)" where
  "note_placeholder e n =
     (case snd e of Placeholder i \<Rightarrow> if n i \<noteq> None then n else n(i \<mapsto> fst e) | _ \<Rightarrow> n)"

definition link_one :: "(nat \<Rightarrow> string option) \<Rightarrow> 'f list \<Rightarrow> nat \<Rightarrow> (string \<times> 'f import) list \<Rightarrow> (string \<times> 'f import) list" where
  "link_one n functions i env =
     (case n i of None \<Rightarrow> env
      | Some name \<Rightarrow> map (\<lambda>e. if fst e = name then (name, Linked (functions ! i)) else e) env)"

definition replace_placeholders :: "'f list \<Rightarrow> (string \<times> 'f import) list \<Rightarrow> (string \<times> 'f import) list" where
  "replace_placeholders functions env =
     fold (link_one (fold note_placeholder env (\<lambda>_. None)) functions) [0..<length functions] env"

section \<open>Exports\<close>

text \<open>The name in the module, the number of parameters, and whether the function is put on \<open>Module\<close>.\<close>

definition exported_first :: "(string \<times> nat \<times> bool) list" where
  "exported_first = [
     (''__wasm_call_ctors'', 0, False), (''mono_wasm_register_root'', 3, True),
     (''mono_wasm_deregister_root'', 1, True), (''mono_wasm_add_assembly'', 3, True),
     (''mono_wasm_add_satellite_assembly'', 4, True), (''malloc'', 1, True), (''mono_wasm_setenv'', 2, True),
     (''mono_wasm_getenv'', 1, True), (''free'', 1, True), (''mono_wasm_load_runtime'', 4, True),
     (''mono_wasm_invoke_jsexport'', 2, True), (''mono_wasm_string_from_utf16_ref'', 3, True),
     (''mono_wasm_exec_regression'', 2, True), (''mono_wasm_exit'', 1, True), (''fflush'', 1, False),
     (''mono_wasm_set_main_args'', 2, True), (''mono_wasm_strdup'', 1, True),
     (''mono_wasm_parse_runtime_options'', 2, True), (''mono_wasm_intern_string_ref'', 1, True),
     (''mono_wasm_string_get_data_ref'', 4, True), (''mono_wasm_write_managed_pointer_unsafe'', 2, True),
     (''mono_wasm_copy_managed_pointer'', 2, True), (''mono_wasm_init_finalizer_thread'', 0, True),
     (''mono_wasm_i52_to_f64'', 2, True), (''mono_wasm_u52_to_f64'', 2, True), (''mono_wasm_f64_to_u52'', 2, True),
     (''mono_wasm_f64_to_i52'', 2, True), (''mono_wasm_method_get_full_name'', 1, True),
     (''mono_wasm_method_get_name'', 1, True), (''mono_wasm_method_get_name_ex'', 1, True),
     (''mono_wasm_get_f32_unaligned'', 1, True), (''mono_wasm_get_f64_unaligned'', 1, True),
     (''mono_wasm_get_i32_unaligned'', 1, True), (''mono_wasm_is_zero_page_reserved'', 0, True),
     (''mono_wasm_read_as_bool_or_null_unsafe'', 1, True), (''mono_wasm_assembly_load'', 1, True),
     (''mono_wasm_assembly_find_class'', 3, True), (''mono_wasm_assembly_find_method'', 3, True),
     (''mono_wasm_send_dbg_command_with_parms'', 7, True), (''mono_wasm_send_dbg_command'', 5, True),
     (''mono_jiterp_register_jit_call_thunk'', 2, True), (''mono_jiterp_stackval_to_data'', 3, True),
     (''mono_jiterp_stackval_from_data'', 3, True), (''mono_jiterp_get_arg_offset'', 3, True),
     (''mono_jiterp_overflow_check_i4'', 3, True), (''mono_jiterp_overflow_check_u4'', 3, True),
     (''mono_jiterp_ld_delegate_method_ptr'', 2, True), (''mono_jiterp_interp_entry'', 2, True),
     (''memset'', 3, True), (''fmodf'', 2, True), (''fmod'', 2, True), (''asin'', 1, True), (''asinh'', 1, True),
     (''acos'', 1, True), (''acosh'', 1, True), (''atan'', 1, True), (''atanh'', 1, True), (''cos'', 1, True),
     (''cbrt'', 1, True), (''cosh'', 1, True), (''exp'', 1, True), (''log'', 1, True), (''log2'', 1, True),
     (''log10'', 1, True), (''sin'', 1, True), (''sinh'', 1, True), (''tan'', 1, True), (''tanh'', 1, True),
     (''atan2'', 2, True), (''pow'', 2, True), (''fma'', 3, True), (''asinf'', 1, True), (''asinhf'', 1, True),
     (''acosf'', 1, True), (''acoshf'', 1, True), (''atanf'', 1, True), (''atanhf'', 1, True), (''cosf'', 1, True),
     (''cbrtf'', 1, True), (''coshf'', 1, True), (''expf'', 1, True), (''logf'', 1, True), (''log2f'', 1, True),
     (''log10f'', 1, True), (''sinf'', 1, True), (''sinhf'', 1, True), (''tanf'', 1, True), (''tanhf'', 1, True),
     (''atan2f'', 2, True), (''powf'', 2, True), (''fmaf'', 3, True),
     (''mono_jiterp_get_polling_required_address'', 0, True), (''mono_jiterp_prof_enter'', 2, True),
     (''mono_jiterp_prof_samplepoint'', 2, True)]"

definition exported_second :: "(string \<times> nat \<times> bool) list" where
  "exported_second = [
     (''mono_jiterp_prof_leave'', 2, True), (''mono_jiterp_do_safepoint'', 2, True),
     (''mono_jiterp_imethod_to_ftnptr'', 1, True), (''mono_jiterp_enum_hasflag'', 4, True),
     (''mono_jiterp_get_simd_intrinsic'', 2, True), (''mono_jiterp_get_simd_opcode'', 2, True),
     (''mono_jiterp_get_opcode_info'', 2, True), (''mono_jiterp_placeholder_trace'', 4, True),
     (''mono_jiterp_placeholder_jit_call'', 4, True), (''mono_jiterp_get_interp_entry_func'', 1, True),
     (''mono_jiterp_is_enabled'', 0, True), (''mono_jiterp_encode_leb64_ref'', 3, True),
     (''mono_jiterp_encode_leb52'', 3, True), (''mono_jiterp_encode_leb_signed_boundary'', 3, True),
     (''mono_jiterp_increase_entry_count'', 1, True), (''mono_jiterp_object_unbox'', 1, True),
     (''mono_jiterp_type_is_byref'', 1, True), (''mono_jiterp_value_copy'', 3, True),
     (''mono_jiterp_try_newobj_inlined'', 2, True), (''mono_jiterp_try_newstr'', 2, True),
     (''mono_jiterp_try_newarr'', 3, True), (''mono_jiterp_gettype_ref'', 2, True),
     (''mono_jiterp_has_parent_fast'', 2, True), (''mono_jiterp_implements_interface'', 2, True),
     (''mono_jiterp_is_special_interface'', 1, True), (''mono_jiterp_implements_special_interface'', 3, True),
     (''mono_jiterp_cast_v2'', 4, True), (''mono_jiterp_localloc'', 3, True), (''mono_jiterp_ldtsflda'', 2, True),
     (''mono_jiterp_box_ref'', 4, True), (''mono_jiterp_conv'', 3, True), (''mono_jiterp_relop_fp'', 3, True),
     (''mono_jiterp_get_size_of_stackval'', 0, True), (''mono_jiterp_type_get_raw_value_size'', 1, True),
     (''mono_jiterp_trace_bailout'', 1, True), (''mono_jiterp_get_trace_bailout_count'', 1, True),
     (''mono_jiterp_adjust_abort_count'', 2, True), (''mono_jiterp_interp_entry_prologue'', 2, True),
     (''mono_jiterp_get_opcode_value_table_entry'', 1, True), (''mono_jiterp_get_trace_hit_count'', 1, True),
     (''mono_jiterp_parse_option'', 1, True), (''mono_jiterp_get_options_version'', 0, True),
     (''mono_jiterp_get_options_as_json'', 0, True), (''mono_jiterp_get_option_as_int'', 1, True),
     (''mono_jiterp_object_has_component_size'', 1, True), (''mono_jiterp_get_hashcode'', 1, True),
     (''mono_jiterp_try_get_hashcode'', 1, True), (''mono_jiterp_get_signature_has_this'', 1, True),
     (''mono_jiterp_get_signature_return_type'', 1, True), (''mono_jiterp_get_signature_param_count'', 1, True),
     (''mono_jiterp_get_signature_params'', 1, True), (''mono_jiterp_type_to_ldind'', 1, True),
     (''mono_jiterp_type_to_stind'', 1, True), (''mono_jiterp_get_array_rank'', 2, True),
     (''mono_jiterp_get_array_element_size'', 2, True), (''mono_jiterp_set_object_field'', 4, True),
     (''mono_jiterp_debug_count'', 0, True), (''mono_jiterp_stelem_ref'', 3, True),
     (''mono_jiterp_get_member_offset'', 1, True), (''mono_jiterp_get_counter'', 1, True),
     (''mono_jiterp_modify_counter'', 2, True), (''mono_jiterp_write_number_unaligned'', 3, True),
     (''mono_jiterp_get_rejected_trace_count'', 0, True), (''mono_jiterp_boost_back_branch_target'', 1, True),
     (''mono_jiterp_is_imethod_var_address_taken'', 2, True), (''mono_jiterp_initialize_table'', 3, True),
     (''mono_jiterp_allocate_table_entry'', 1, True), (''mono_jiterp_tlqueue_next'', 1, True),
     (''mono_jiterp_tlqueue_add'', 2, True), (''mono_jiterp_tlqueue_clear'', 1, True),
     (''mono_interp_pgo_load_table'', 2, True), (''mono_interp_pgo_save_table'', 2, True),
     (''mono_llvm_cpp_catch_exception'', 3, True), (''mono_jiterp_begin_catch'', 1, True),
     (''mono_jiterp_end_catch'', 0, True), (''sbrk'', 1, True), (''posix_memalign'', 3, True),
     (''mono_background_exec'', 0, True), (''mono_wasm_ds_exec'', 0, True), (''mono_wasm_gc_lock'', 0, True),
     (''mono_wasm_gc_unlock'', 0, True), (''mono_print_method_from_ip'', 1, True),
     (''mono_wasm_execute_timer'', 0, True), (''mono_wasm_load_icu_data'', 1, True), (''__funcs_on_exit'', 0, False),
     (''htons'', 1, True), (''emscripten_builtin_memalign'', 2, False), (''ntohs'', 1, True), (''memalign'', 2, True),
     (''__trap'', 0, False), (''stackSave'', 0, True), (''stackRestore'', 1, True), (''stackAlloc'', 1, True)]"

definition exported :: "string \<Rightarrow> (nat \<times> bool) option" where
  "exported = map_of (exported_first @ exported_second)"

datatype 'f binding = Wrapper | Bound 'f | Undefined

record 'f link_state =
  wasm_exports :: "string \<Rightarrow> 'f option"
  local_binding :: "string \<Rightarrow> 'f binding"
  module_binding :: "string \<Rightarrow> 'f binding"

definition linked_script :: "'f link_state" where
  "linked_script = \<lparr>wasm_exports = (\<lambda>_. None), local_binding = (\<lambda>_. Wrapper), module_binding = (\<lambda>_. Wrapper)\<rparr>"

text \<open>
  The arguments a function with this many parameters passes on; a missing one is \<open>undefined\<close> (\<open>None\<close>). The result
  of a call is the function that is reached with its arguments, or \<open>None\<close> for a \<open>TypeError\<close>.
\<close>

definition pass_on :: "nat \<Rightarrow> 'v option list \<Rightarrow> 'v option list" where
  "pass_on arity args = take arity (args @ replicate arity None)"

definition call_wrapper :: "string \<Rightarrow> nat \<times> bool \<Rightarrow> 'v option list \<Rightarrow> 'f link_state \<Rightarrow>
    ('f \<times> 'v option list) option \<times> 'f link_state" where
  "call_wrapper name entry args S =
     (let b = (case wasm_exports S name of Some f \<Rightarrow> Bound f | None \<Rightarrow> Undefined);
          S1 = S\<lparr>local_binding := (local_binding S)(name := b)\<rparr>;
          S2 = (if snd entry then S1\<lparr>module_binding := (module_binding S1)(name := b)\<rparr> else S1)
      in (case wasm_exports S name of Some f \<Rightarrow> Some (f, pass_on (fst entry) args) | None \<Rightarrow> None, S2))"

datatype caller = Script | ModuleObject

definition call_export :: "caller \<Rightarrow> string \<Rightarrow> nat \<times> bool \<Rightarrow> 'v option list \<Rightarrow> 'f link_state \<Rightarrow>
    ('f \<times> 'v option list) option \<times> 'f link_state" where
  "call_export c name entry args S =
     (case (case c of Script \<Rightarrow> local_binding S name | ModuleObject \<Rightarrow> module_binding S name) of
        Wrapper \<Rightarrow> call_wrapper name entry args S
      | Bound f \<Rightarrow> (Some (f, args), S)
      | Undefined \<Rightarrow> (None, S))"

section \<open>Linking\<close>

lemma collected:
  assumes "distinct (map fst env)" and "inj_on snd {e \<in> set env. \<exists>i. snd e = Placeholder i}"
    and "\<And>i name. n i = Some name \<Longrightarrow> \<forall>e \<in> set env. snd e \<noteq> Placeholder i"
  shows "fold note_placeholder env n i = (case find (\<lambda>e. snd e = Placeholder i) env of Some e \<Rightarrow> Some (fst e) | None \<Rightarrow> n i)"
  using assms
proof (induction env arbitrary: n)
  case (Cons e env)
  have inj: "inj_on snd {x \<in> set env. \<exists>i. snd x = Placeholder i}"
    by (rule inj_on_subset [OF Cons.prems(2)]) auto
  show ?case
  proof (cases "snd e")
    case (Placeholder j)
    have other: "\<forall>x \<in> set env. snd x \<noteq> Placeholder j"
    proof
      fix x assume "x \<in> set env"
      show "snd x \<noteq> Placeholder j"
      proof
        assume "snd x = Placeholder j"
        then have "x = e" using inj_onD [OF Cons.prems(2), of x e] \<open>x \<in> set env\<close> Placeholder by simp
        then show False using Cons.prems(1) \<open>x \<in> set env\<close> by auto
      qed
    qed
    then have "find (\<lambda>x. snd x = Placeholder j) env = None" by (force simp: find_None_iff)
    moreover have "n j = None" using Cons.prems(3) [of j] Placeholder by (cases "n j") auto
    moreover have "fold note_placeholder env (n(j \<mapsto> fst e)) i =
        (case find (\<lambda>x. snd x = Placeholder i) env of Some x \<Rightarrow> Some (fst x) | None \<Rightarrow> (n(j \<mapsto> fst e)) i)"
    proof (rule Cons.IH [OF _ inj])
      show "distinct (map fst env)" using Cons.prems(1) by simp
    next
      fix k name
      assume "(n(j \<mapsto> fst e)) k = Some name"
      then show "\<forall>x \<in> set env. snd x \<noteq> Placeholder k" using Cons.prems(3) [of k name] other by (cases "k = j") auto
    qed
    moreover have "note_placeholder e n = n(j \<mapsto> fst e)" using Placeholder \<open>n j = None\<close> by (simp add: note_placeholder_def)
    ultimately show ?thesis using Placeholder by (cases "i = j") (simp_all split: option.split)
  next
    case this_case: JsFunction
    then have "note_placeholder e n = n" by (simp add: note_placeholder_def)
    moreover have "fold note_placeholder env n i = (case find (\<lambda>x. snd x = Placeholder i) env of Some x \<Rightarrow> Some (fst x) | None \<Rightarrow> n i)"
      by (rule Cons.IH [OF _ inj]) (use Cons.prems(1,3) in auto)
    ultimately show ?thesis using this_case by simp
  next
    case this_case: (Linked f)
    then have "note_placeholder e n = n" by (simp add: note_placeholder_def)
    moreover have "fold note_placeholder env n i = (case find (\<lambda>x. snd x = Placeholder i) env of Some x \<Rightarrow> Some (fst x) | None \<Rightarrow> n i)"
      by (rule Cons.IH [OF _ inj]) (use Cons.prems(1,3) in auto)
    ultimately show ?thesis using this_case by simp
  qed
qed simp

lemma collected_iff:
  assumes "distinct (map fst env)" and "inj_on snd {e \<in> set env. \<exists>i. snd e = Placeholder i}"
  shows "fold note_placeholder env (\<lambda>_. None) i = Some name \<longleftrightarrow> (name, Placeholder i) \<in> set env"
proof -
  have c: "fold note_placeholder env (\<lambda>_. None) i = map_option fst (find (\<lambda>e. snd e = Placeholder i) env)"
    using collected [OF assms, of "\<lambda>_. None" i] by (simp split: option.split)
  show ?thesis
  proof
    assume "fold note_placeholder env (\<lambda>_. None) i = Some name"
    then obtain e where "find (\<lambda>e. snd e = Placeholder i) env = Some e" "fst e = name" using c by auto
    then show "(name, Placeholder i) \<in> set env" by (metis (mono_tags, lifting) find_Some_iff nth_mem prod.collapse)
  next
    assume m: "(name, Placeholder i) \<in> set env"
    then obtain e where e: "find (\<lambda>e. snd e = Placeholder i) env = Some e"
      by (cases "find (\<lambda>e. snd e = Placeholder i) env") (auto simp: find_None_iff)
    then have "e \<in> set env" "snd e = Placeholder i" by (auto simp: find_Some_iff)
    then have "e = (name, Placeholder i)" using inj_onD [OF assms(2), of e "(name, Placeholder i)"] m by simp
    then show "fold note_placeholder env (\<lambda>_. None) i = Some name" using c e by simp
  qed
qed

definition linked_below :: "'f list \<Rightarrow> nat \<Rightarrow> 'f import \<Rightarrow> 'f import" where
  "linked_below functions m v = (case v of Placeholder i \<Rightarrow> if i < m then Linked (functions ! i) else v | _ \<Rightarrow> v)"

lemma link_upto:
  assumes "distinct (map fst env)" and "\<And>i name. N i = Some name \<longleftrightarrow> (name, Placeholder i) \<in> set env"
  shows "fold (link_one N functions) [0..<m] env = map (\<lambda>e. (fst e, linked_below functions m (snd e))) env"
proof (induction m)
  case 0
  then show ?case by (auto simp: linked_below_def intro!: map_idI [symmetric] split: import.split)
next
  case (Suc m)
  have "linked_below functions (Suc m) (snd e) = (if N m = Some (fst e) then Linked (functions ! m) else linked_below functions m (snd e))"
    if "e \<in> set env" for e
  proof (cases "N m = Some (fst e)")
    case True
    then have "(fst e, Placeholder m) \<in> set env" using assms(2) by simp
    then have "snd e = Placeholder m" using assms(1) that eq_key_imp_eq_value by (metis prod.collapse)
    then show ?thesis using True by (simp add: linked_below_def)
  next
    case False
    then have "snd e \<noteq> Placeholder m" using assms(2) that by (metis prod.collapse)
    then show ?thesis using False by (cases "snd e") (simp_all add: linked_below_def less_Suc_eq)
  qed
  then have "map (\<lambda>e. (fst e, linked_below functions (Suc m) (snd e))) env =
      link_one N functions m (map (\<lambda>e. (fst e, linked_below functions m (snd e))) env)"
    by (cases "N m") (auto simp: link_one_def)
  then show ?case using Suc by simp
qed

lemma import_tables:
  "distinct import_names" "distinct (map fst placeholders)" "distinct (map snd placeholders)"
  "list_all (\<lambda>p. fst p \<in> set import_names \<and> snd p < 28) placeholders"
  by code_simp+

text \<open>
  Before the module is instantiated every placeholder in its imports has become the function of the runtime
  that it stands for, and the other imports are as they were: no two placeholders share a number, so the
  branch of the check whose exception is swallowed is never taken.
\<close>

theorem imports_are_linked:
  assumes "28 \<le> length functions"
  shows "replace_placeholders functions wasmImports =
    map (\<lambda>name. (name, case map_of placeholders name of Some i \<Rightarrow> Linked (functions ! i) | None \<Rightarrow> JsFunction)) import_names"
proof -
  have names: "map fst (wasmImports :: (string \<times> 'a import) list) = import_names" by (simp add: wasmImports_def o_def)
  have place: "(name, Placeholder i) \<in> set (wasmImports :: (string \<times> 'a import) list) \<Longrightarrow> map_of placeholders name = Some i" for name i
    by (auto simp: wasmImports_def split: option.splits)
  have inj: "inj_on snd {e \<in> set (wasmImports :: (string \<times> 'a import) list). \<exists>i. snd e = Placeholder i}"
  proof (rule inj_onI, clarsimp)
    fix a b :: string and i
    assume "(a, Placeholder i) \<in> set (wasmImports :: (string \<times> 'a import) list)"
      "(b, Placeholder i) \<in> set (wasmImports :: (string \<times> 'a import) list)"
    then have "(a, i) \<in> set placeholders" "(b, i) \<in> set placeholders" using place map_of_SomeD by fast+
    moreover have "inj_on snd (set placeholders)" using import_tables(3) by (simp add: distinct_map)
    ultimately show "a = b" using inj_onD [of snd "set placeholders" "(a, i)" "(b, i)"] by simp
  qed
  have "replace_placeholders functions wasmImports =
      map (\<lambda>e. (fst e, linked_below functions (length functions) (snd e))) wasmImports"
    unfolding replace_placeholders_def
    by (rule link_upto) (simp_all add: names import_tables(1) collected_iff [OF _ inj])
  also have "\<dots> = map (\<lambda>name. (name, case map_of placeholders name of Some i \<Rightarrow> Linked (functions ! i) | None \<Rightarrow> JsFunction)) import_names"
  proof -
    have "i < length functions" if "map_of placeholders name = Some i" for name i
      using import_tables(4) map_of_SomeD [OF that] assms by (fastforce simp: list_all_iff)
    then show ?thesis by (auto simp: wasmImports_def linked_below_def split: option.split)
  qed
  finally show ?thesis .
qed

lemma imports_are_linked_witness:
  "(''mono_wasm_get_locale_info'', Linked 27) \<in> set (replace_placeholders [0..<28] wasmImports)"
proof -
  have l: "28 \<le> length [0..<28]" by simp
  have "map_of placeholders ''mono_wasm_get_locale_info'' = Some 27" "''mono_wasm_get_locale_info'' \<in> set import_names"
    by code_simp+
  then show ?thesis unfolding imports_are_linked [OF l] by (force simp: image_iff)
qed

section \<open>Calls of exports\<close>

text \<open>What a binding may be once the module is there.\<close>

definition binding_ok :: "'f option \<Rightarrow> 'f binding \<Rightarrow> bool" where
  "binding_ok export b \<longleftrightarrow> (case b of Wrapper \<Rightarrow> True | Bound f \<Rightarrow> export = Some f | Undefined \<Rightarrow> False)"

lemma binding_ok_simps [simp]: "binding_ok x Wrapper" "binding_ok x (Bound f) = (x = Some f)" "\<not> binding_ok x Undefined"
  by (simp_all add: binding_ok_def)

definition link_ok :: "'f link_state \<Rightarrow> bool" where
  "link_ok S \<longleftrightarrow> (\<forall>name. binding_ok (wasm_exports S name) (local_binding S name)
     \<and> binding_ok (wasm_exports S name) (module_binding S name))"

lemma pass_on_all: "length args = arity \<Longrightarrow> pass_on arity args = args"
  by (simp add: pass_on_def)

lemma call_export_ok:
  assumes "link_ok S" and "wasm_exports S name = Some f" and "length args = fst entry"
  shows "\<exists>S'. call_export c name entry args S = (Some (f, args), S') \<and> link_ok S' \<and> wasm_exports S' = wasm_exports S"
proof -
  let ?b = "case c of Script \<Rightarrow> local_binding S name | ModuleObject \<Rightarrow> module_binding S name"
  have b: "binding_ok (Some f) ?b" using assms(1,2) by (cases c) (auto simp: link_ok_def dest: spec [of _ name])
  show ?thesis
  proof (cases ?b)
    case Wrapper
    then show ?thesis using assms
      by (simp add: call_export_def call_wrapper_def Let_def link_ok_def pass_on_all)
  next
    case (Bound g)
    then have "call_export c name entry args S = (Some (f, args), S)" using b by (simp add: call_export_def)
    then show ?thesis using assms(1) by simp
  qed (use b in simp)
qed

fun call_all :: "(caller \<times> string \<times> (nat \<times> bool) \<times> 'v option list) list \<Rightarrow> 'f link_state \<Rightarrow>
    ('f \<times> 'v option list) option list" where
  "call_all [] S = []"
| "call_all ((c, name, entry, args) # calls) S =
     (case call_export c name entry args S of (r, S') \<Rightarrow> r # call_all calls S')"

text \<open>
  Once the instance is there, every call of an export with as many arguments as it has parameters reaches the
  function of the module with these arguments, whoever calls it and whichever calls have bound it before.
\<close>

theorem exports_reach_the_module:
  assumes "\<And>name entry. exported name = Some entry \<Longrightarrow> module_exports name \<noteq> None"
    and "\<And>c name entry args. (c, name, entry, args) \<in> set calls \<Longrightarrow> exported name = Some entry \<and> length args = fst entry"
  shows "call_all calls (linked_script\<lparr>wasm_exports := module_exports\<rparr>) =
    map (\<lambda>(c, name, entry, args). Some (the (module_exports name), args)) calls"
proof -
  have "link_ok S \<Longrightarrow> wasm_exports S = module_exports \<Longrightarrow>
      (\<And>c name entry args. (c, name, entry, args) \<in> set calls \<Longrightarrow> exported name = Some entry \<and> length args = fst entry) \<Longrightarrow>
      call_all calls S = map (\<lambda>(c, name, entry, args). Some (the (module_exports name), args)) calls" for S
  proof (induction calls arbitrary: S)
    case (Cons call calls)
    obtain c name entry args where call: "call = (c, name, entry, args)" by (cases call)
    then have e: "exported name = Some entry" "length args = fst entry" using Cons.prems(3) [of c name entry args] by simp_all
    then obtain f where f: "module_exports name = Some f" using assms(1) by blast
    obtain S' where S': "call_export c name entry args S = (Some (f, args), S')" "link_ok S'" "wasm_exports S' = module_exports"
      using call_export_ok [OF Cons.prems(1), of name f args entry c] Cons.prems(2) f e(2) by auto
    have "call_all calls S' = map (\<lambda>(c, name, entry, args). Some (the (module_exports name), args)) calls"
    proof (rule Cons.IH [OF S'(2,3)])
      fix c name entry args
      assume "(c, name, entry, args) \<in> set calls"
      then show "exported name = Some entry \<and> length args = fst entry" using Cons.prems(3) [of c name entry args] by simp
    qed
    then show ?case using S'(1) f by (simp add: call)
  qed simp
  then show ?thesis using assms(2) by (simp add: link_ok_def linked_script_def binding_ok_def)
qed

lemma exports_reach_the_module_witness:
  "call_all [(Script, ''free'', (1, True), [Some 7]), (ModuleObject, ''free'', (1, True), [Some 8])]
     (linked_script\<lparr>wasm_exports := Some\<rparr>) = [Some (''free'', [Some (7 :: int)]), Some (''free'', [Some 8])]"
proof -
  let ?calls = "[(Script, ''free'', (1, True), [Some (7 :: int)]), (ModuleObject, ''free'', (1, True), [Some 8])]"
  have "exported ''free'' = Some (1, True)" by code_simp
  then have calls: "(c, name, entry, args) \<in> set ?calls \<Longrightarrow> exported name = Some entry \<and> length args = fst entry" for c name entry args
    by auto
  show ?thesis
    using exports_reach_the_module [where module_exports = "Some :: string \<Rightarrow> string option" and calls = ?calls, OF _ calls] by simp
qed

text \<open>
  A call before the instance is there is a \<open>TypeError\<close> that never heals: the wrapper has stored \<open>undefined\<close> over
  itself, so the export is lost to the script, and to \<open>Module\<close> if it is there, also after the module is loaded.
\<close>

theorem early_call_loses_export:
  assumes "exported name = Some entry"
  shows "\<exists>S. call_export Script name entry args linked_script = (None, S)
    \<and> fst (call_export Script name entry args (S\<lparr>wasm_exports := module_exports\<rparr>)) = None
    \<and> (snd entry \<longrightarrow> fst (call_export ModuleObject name entry args (S\<lparr>wasm_exports := module_exports\<rparr>)) = None)"
  by (simp add: call_export_def call_wrapper_def linked_script_def Let_def)

lemma early_call_loses_export_witness:
  "\<exists>S. call_export Script ''malloc'' (1, True) [Some (16 :: int)] linked_script = (None, S)
    \<and> fst (call_export ModuleObject ''malloc'' (1, True) [Some (16 :: int)] (S\<lparr>wasm_exports := Some\<rparr>)) = None"
proof -
  have "exported ''malloc'' = Some (1, True)" by code_simp
  then show ?thesis using early_call_loses_export [of "''malloc''" "(1, True)" "[Some (16 :: int)]" Some] by fastforce
qed

end
