(* ===== verification/Spec2Isabelle.thy ===== *)
theory Spec2Isabelle
  imports CoreProps Utf8 Paths NameTable SyscallProps StrftimeText HeapGrowth Environ Base64 LifecycleProps FuncTable
    Interop FsInit Terminals ReaderWriterLock Reconnect KeyBindings ResultProcessor LazyFiles ModuleLoading Preload
    FsSync Linking
begin

text \<open>
  A verification library for \<^emph>\<open>operation-vote\<close>: clients vote on operations (keys of a game, outputs of a
  device), the server counts the votes and presses or releases the keys. The repository has two bodies of
  code. The voting system is written in C# (\<open>src/core\<close>, \<open>src/server\<close>, \<open>src/shared\<close>, \<open>src/client-*\<close>). Its
  browser client is compiled to WebAssembly and runs on the JavaScript of \<open>src/page/html/_framework\<close>, of
  which \<open>dotnet.native.686cmdkyav.js\<close> (called \<open>native.js\<close> below) is the part with logic of its own: the file
  system, the system calls, dates, strings, the life of the runtime and its loading.

  \<^bold>\<open>How the parts interact.\<close> A client serialises a vote (\<open>Operations\<close>) and sends it over a channel. The server
  takes frames apart, logs clients in by challenge and response (\<open>Server\<close>) and raises events; the handlers
  of the vote counter (\<open>VotingManager\<close>) run in those events and keep weighted tallies, which they share under
  the lock of \<open>ReaderWriterLock\<close>; every change of a tally goes to the rules of its profile (\<open>ResultProcessor\<close>),
  which hold and release keys. In the browser the page first finds and loads the module (\<open>ModuleLoading\<close>),
  links it (\<open>Linking\<close>) and preloads files (\<open>Preload\<close>), while run dependencies keep the program waiting
  (\<open>Lifecycle\<close>). The program then calls out through system calls (\<open>Syscalls\<close>) on its memory (\<open>Memory\<close>) into
  the file system (\<open>Fs...\<close>), and is called through \<open>ccall\<close> (\<open>Interop\<close>) and function pointers (\<open>FuncTable\<close>).

  \<^bold>\<open>Conventions.\<close> \<open>Prelude\<close> has the types of machine integers, results (\<open>'e + 'a\<close>, \<open>Inl\<close> is the exception) and
  computations that change a state and may throw (\<open>comp\<close>: the state is kept on the throwing path), with the
  simplification rules that run them. JavaScript strings are lists of 16-bit units, paths are \<open>string\<close>
  (characters up to 255), 32-bit integers are words where the code uses bit operators or wraps. What is not
  under \<open>src/\<close> is a parameter: the network, the clock and time zone, the engine, the compiled module and its
  allocator, signatures and random tokens. Objects that the code shares and mutates are entries of tables.

  \<^bold>\<open>The voting system.\<close>
  \<^item> \<open>Wire\<close>, \<open>BitPacker\<close>, \<open>Operations\<close>: \<open>BinaryWriter\<close>/\<open>BinaryReader\<close>, \<open>core/Shared/BitPacker.cs\<close>,
    \<open>core/Server/Operation.cs\<close>, \<open>core/Client/Operation.cs\<close>, \<open>shared/InstructionsProtocol.cs\<close>. The locale
    \<open>codec\<close> is the contract of a writer and its reader; it is interpreted on every format, so that round
    trips of messages are compositions.
  \<^item> \<open>VotingManager\<close>, \<open>CoreProps\<close>: \<open>core/Server/VotingManager.cs\<close> with the setters and events that drive it.
    The locale \<open>tally_counter\<close> is shared by the two weighted counters. A disconnection is two steps, because the
    manager removes the votes on a thread of its own. The main invariant is that the metrics are the weighted
    sums of the votes held, in runs in which clients log in before they vote and no multiplier changes during a
    disconnection; several theorems show how the code breaks it in others.
  \<^item> \<open>Server\<close>, \<open>ServerProps\<close>: \<open>core/Server/VotingServer.cs\<close>, \<open>AuthenticationServer.cs\<close>, \<open>User.cs\<close>. A frame runs until
    it ends or waits for the response of the login, so the interleaving of logins is explicit. The steps of its runs are connections, frames, disconnections, the
    threads that remove votes, and changes of a limit of sessions.
  \<^item> \<open>VotingClient\<close>, \<open>ClientProps\<close>, \<open>ClientConnect\<close>: messages, login, \<open>ConnectAsync\<close> around its waits and
    \<open>SendOperationAsync\<close> of \<open>core/Client/VotingClient.cs\<close>, composed with the server into whole logins and
    sessions. \<open>Reconnect\<close>: \<open>ReconnectLoopAsync\<close>, with the sends and waits of each attempt. The loop is
    \<open>while_option\<close>: that it ends or is in a wait is a theorem, and so is what makes it wait for ever.
  \<^item> \<open>KeyBindings\<close>: profiles and keys of \<open>shared/ClientManager.cs\<close>, with the order of \<open>OperationAfkRecord\<close> as an
    instance of \<open>linorder\<close>. \<open>ResultProcessor\<close>: \<open>server/ResultProcessor.cs\<close>.
  \<^item> \<open>ReaderWriterLock\<close>: \<open>core/Shared/CrossThreadReaderWriterLock.cs\<close> as steps of calls between their waits; a
    simulation by the abstract lock, mutual exclusion and progress.

  \<^bold>\<open>The file system of \<open>native.js\<close>.\<close>
  \<^item> \<open>Paths\<close> (\<open>PATH\<close>, \<open>PATH_FS\<close>), \<open>FsState\<close> (nodes, mounts, streams, devices), \<open>NameTable\<close> (the chained hash
    table of names; the locale \<open>name_cache\<close> is what lookup needs of it), \<open>FsLookup\<close> (\<open>lookupPath\<close>, permissions),
    \<open>FileStorage\<close> (arrays of \<open>MEMFS\<close>; locale \<open>byte_file\<close>), \<open>FsTree\<close> (\<open>mknod\<close>, \<open>rename\<close>, \<open>unlink\<close>, \<open>rmdir\<close>, \<open>symlink\<close>),
    \<open>FsAttr\<close> (\<open>stat\<close>, \<open>chmod\<close>, \<open>mount\<close>, \<open>chdir\<close>), \<open>FsStreams\<close> (\<open>open\<close>, \<open>read\<close>, \<open>write\<close>, \<open>llseek\<close>, terminals), \<open>FsInit\<close>,
    \<open>Terminals\<close>, \<open>FsSync\<close> (\<open>syncfs\<close> and the computed properties of nodes and streams), \<open>LazyFiles\<close>
    (\<open>createLazyFile\<close>).
  \<^item> \<open>FsProps\<close> has the invariants \<open>fs_wf\<close> and \<open>coherent\<close> (contents and name table agree; every chain of parents
    ends in a root; no \<open>contents\<close> has had its prototype set by the name \<open>__proto__\<close>) and the effect of the
    tree operations; \<open>FsStreamProps\<close> that of reading and writing; \<open>lazy_read_gets_file\<close> and
    \<open>syncfs_calls_back_once\<close> close the remaining operations.

  \<^bold>\<open>The rest of \<open>native.js\<close>.\<close>
  \<^item> \<open>Utf8\<close>, \<open>Base64\<close>, \<open>Environ\<close>, \<open>Memory\<close>, \<open>Syscalls\<close>, \<open>SyscallProps\<close>, \<open>HeapGrowth\<close>: strings and structures in linear
    memory, the system calls on it, its growth.
  \<^item> \<open>Dates\<close>, \<open>Strftime\<close>, \<open>StrftimeProps\<close>, \<open>StrftimeText\<close>: calendar arithmetic against day numbers, ISO weeks, and the
    replacement rules of \<open>strftime\<close> against one pass over the format.
  \<^item> \<open>Lifecycle\<close>, \<open>LifecycleProps\<close>: the runtime as a machine with an explicit stack, because callbacks may call back
    into every function. The functions of the page are numbers with the calls they make. A turn ends if no function
    registers itself or loops (a well-founded measure; \<open>settle\<close> is \<open>None\<close> where it does not end); the invariants
    \<open>init_ok\<close> and \<open>run_ok\<close>.
  \<^item> \<open>ModuleLoading\<close>: the ladder of \<open>createWasm\<close>; it settles, and the program starts exactly when an instance was
    loaded. \<open>Preload\<close>: downloads as a step relation that the count of dependencies follows. \<open>Linking\<close>: tables of
    imports and exports.
  \<^item> \<open>WasmModule\<close>, \<open>FuncTable\<close>, \<open>Interop\<close>: wrapper modules read back by the binary format, \<open>addFunction\<close>, \<open>ccall\<close>.

  \<^bold>\<open>Fuel and bounds.\<close> Chains of the name table, parents and unmounting are walked with \<open>nextInode\<close> rounds (one
  more where the end takes a round), mounts with \<open>nextMount\<close> rounds: more than there are nodes or mounts, so
  only a cycle runs out, and then the result is \<open>Diverges\<close>, which is no exception that code could catch. Path
  lookups are limited by \<open>stack\<close>, the depth of the engine's call stack, and end in \<open>RangeError\<close>. All other
  loops are structural or have a measure.

  \<^bold>\<open>Not modelled.\<close> The lookup of the mount \<open>/proc/self/fd\<close>, whose nodes are made anew by each lookup and hang in
  no tree, and with it \<open>staticInit\<close>; the branches for Node and the readers of shells; \<open>TextDecoder\<close>, which is a
  parameter; what assignments to \<open>read\<close>, \<open>write\<close>, \<open>isFolder\<close> and \<open>isDevice\<close> do in a directory whose contents have a
  node as their prototype, and a prototype set on the byte array of a file; \<open>DOTNET.setup\<close> and the assignments that put functions on \<open>Module\<close>; the minified \<open>dotnet.js\<close> and
  \<open>dotnet.runtime.*.js\<close> apart from the replacement of the placeholders; in C#, sockets and channels, the user
  database (its behaviour is that of SQL in a package), the injection of keys (calls of the operating
  system), and the thread that watches for inactivity. Lengths of arrays in \<open>BitPacker\<close> are below the range where \<open>int\<close> overflows. Between the
  links of the chains of promises in \<open>ModuleLoading\<close> no other code runs.
\<close>

end
